(* ===== verification/Go_Prelude.thy ===== *)
theory Go_Prelude
  imports
    Main
    "HOL-Library.Sublist"
    "HOL-Library.Char_ord"
    "HOL-Library.List_Lexorder"
    "HOL-Library.AList"
    "HOL-Library.Word"
begin

text \<open>
  Shared vocabulary of the development: the parts of the Go language and standard library that the
  modelled packages call (decimal conversion of \<open>strconv\<close>, the \<open>strings\<close> helpers,
  \<open>slices.BinarySearch\<close>), and generic lemmas on lists and association lists.

  Conventions. A Go \<open>string\<close> is a byte list (\<^typ>\<open>string\<close>); its order is the bytewise
  lexicographic order, which \<open>List_Lexorder\<close> over \<open>Char_ord\<close> gives. A \<open>time.Time\<close> and a
  \<open>time.Duration\<close> are an \<^typ>\<open>int\<close> of nanoseconds. A Go \<open>map\<close> is a partial function where only
  lookups matter and an association list where the code iterates or counts it: the list's order stands
  for the unspecified iteration order, so a theorem over all lists holds for every order.
  White space is the ASCII white space of \<open>unicode.IsSpace\<close>.
\<close>

named_theorems go_simps \<open>rewrite rules that evaluate the Go library functions\<close>

type_synonym time = int
type_synonym duration = int

abbreviation second :: duration where "second \<equiv> 1000000000"
abbreviation millisecond :: duration where "millisecond \<equiv> 1000000"
abbreviation microsecond :: duration where "microsecond \<equiv> 1000"

section \<open>Integers\<close>

text \<open>Go's integer division and remainder truncate towards zero.\<close>

definition go_div :: "int \<Rightarrow> int \<Rightarrow> int" where
  "go_div a b = sgn a * sgn b * (\<bar>a\<bar> div \<bar>b\<bar>)"

definition go_mod :: "int \<Rightarrow> int \<Rightarrow> int" where
  "go_mod a b = a - go_div a b * b"

lemma go_div_nonneg [go_simps]: "0 \<le> a \<Longrightarrow> 0 < b \<Longrightarrow> go_div a b = a div b"
  by (cases "a = 0") (simp_all add: go_div_def)

lemma go_mod_nonneg [go_simps]: "0 \<le> a \<Longrightarrow> 0 < b \<Longrightarrow> go_mod a b = a mod b"
  by (simp add: go_mod_def go_div_nonneg minus_div_mult_eq_mod)

definition in_int64 :: "int \<Rightarrow> bool" where
  "in_int64 n \<longleftrightarrow> - (2 ^ 63) \<le> n \<and> n < 2 ^ 63"

definition in_int32 :: "int \<Rightarrow> bool" where
  "in_int32 n \<longleftrightarrow> - (2 ^ 31) \<le> n \<and> n < 2 ^ 31"

text \<open>Conversion of an integer to \<open>int32\<close> or \<open>int64\<close> keeps the low bits.\<close>

definition wrap32 :: "int \<Rightarrow> int" where
  "wrap32 n = (n + 2 ^ 31) mod 2 ^ 32 - 2 ^ 31"

definition wrap64 :: "int \<Rightarrow> int" where
  "wrap64 n = (n + 2 ^ 63) mod 2 ^ 64 - 2 ^ 63"

lemma wrap32_id [go_simps]: "in_int32 n \<Longrightarrow> wrap32 n = n"
  by (simp add: wrap32_def in_int32_def)

lemma wrap64_id [go_simps]: "in_int64 n \<Longrightarrow> wrap64 n = n"
  by (simp add: wrap64_def in_int64_def)

section \<open>Decimal conversion: strconv.Itoa, strconv.Atoi and strconv.ParseInt\<close>

definition digit_char :: "nat \<Rightarrow> char" where
  "digit_char n = char_of (48 + n)"

definition is_digit :: "char \<Rightarrow> bool" where
  "is_digit c \<longleftrightarrow> 48 \<le> (of_char c :: nat) \<and> (of_char c :: nat) \<le> 57"

definition digit_val :: "char \<Rightarrow> nat" where
  "digit_val c = of_char c - 48"

fun nat_digits :: "nat \<Rightarrow> string" where
  "nat_digits n = (if n < 10 then [digit_char n] else nat_digits (n div 10) @ [digit_char (n mod 10)])"

declare nat_digits.simps [simp del]

definition itoa :: "int \<Rightarrow> string" where
  "itoa n = (if n < 0 then CHR ''-'' # nat_digits (nat (- n)) else nat_digits (nat n))"

definition digits_val :: "string \<Rightarrow> nat" where
  "digits_val s = foldl (\<lambda>acc c. 10 * acc + digit_val c) 0 s"

definition parse_nat :: "string \<Rightarrow> nat option" where
  "parse_nat s = (if s \<noteq> [] \<and> list_all is_digit s then Some (digits_val s) else None)"

text \<open>\<open>strconv.ParseInt(s, 10, 64)\<close> and, on 64-bit platforms, \<open>strconv.Atoi\<close>: an optional sign, then
  one or more digits, an error outside the 64-bit range.\<close>

definition parse_int :: "string \<Rightarrow> int option" where
  "parse_int s =
     (let (neg, ds) = (case s of [] \<Rightarrow> (False, s)
                       | c # r \<Rightarrow> if c = CHR ''-'' then (True, r) else if c = CHR ''+'' then (False, r) else (False, s))
      in case parse_nat ds of None \<Rightarrow> None
         | Some n \<Rightarrow> let v = (if neg then - int n else int n) in if in_int64 v then Some v else None)"

lemma of_char_digit [simp]: "n < 10 \<Longrightarrow> (of_char (digit_char n) :: nat) = 48 + n"
  by (simp add: digit_char_def)

lemma is_digit_digit_char [simp]: "n < 10 \<Longrightarrow> is_digit (digit_char n)"
  by (simp add: is_digit_def)

lemma digit_val_digit_char [simp]: "n < 10 \<Longrightarrow> digit_val (digit_char n) = n"
  by (simp add: digit_val_def)

lemma nat_digits_nonempty [simp]: "nat_digits n \<noteq> []"
  by (subst nat_digits.simps) simp

lemma nat_digits_all_digits [simp]: "list_all is_digit (nat_digits n)"
proof (induction n rule: nat_digits.induct)
  case (1 n)
  then show ?case by (cases "n < 10") (simp_all add: nat_digits.simps [of n])
qed

lemma digits_val_snoc: "digits_val (s @ [c]) = 10 * digits_val s + digit_val c"
  by (simp add: digits_val_def)

lemma digits_val_nat_digits [simp]: "digits_val (nat_digits n) = n"
proof (induction n rule: nat_digits.induct)
  case (1 n)
  show ?case
  proof (cases "n < 10")
    case True
    then show ?thesis by (simp add: nat_digits.simps [of n] digits_val_def)
  next
    case False
    with 1 show ?thesis by (simp add: nat_digits.simps [of n] digits_val_snoc)
  qed
qed

lemma parse_nat_digits [simp]: "parse_nat (nat_digits n) = Some n"
  by (simp add: parse_nat_def)

lemma nat_digits_hd: "is_digit (hd (nat_digits n))"
  using nat_digits_all_digits [of n] nat_digits_nonempty [of n]
  by (cases "nat_digits n") simp_all

lemma not_digit_sign: "\<not> is_digit (CHR ''-'')" "\<not> is_digit (CHR ''+'')"
  by (simp_all add: is_digit_def)

lemma parse_int_itoa [simp]:
  assumes "in_int64 n"
  shows "parse_int (itoa n) = Some n"
proof (cases "n < 0")
  case True
  with assms show ?thesis by (simp add: parse_int_def itoa_def)
next
  case False
  obtain c r where cr: "nat_digits (nat n) = c # r"
    using nat_digits_nonempty [of "nat n"] by (cases "nat_digits (nat n)") simp_all
  have "is_digit c" using nat_digits_hd [of "nat n"] cr by simp
  then have "c \<noteq> CHR ''-''" "c \<noteq> CHR ''+''" using not_digit_sign by auto
  moreover have "parse_nat (c # r) = Some (nat n)" using parse_nat_digits [of "nat n"] cr by simp
  ultimately show ?thesis using False assms cr by (simp add: parse_int_def itoa_def)
qed

lemma itoa_inject: "itoa m = itoa n \<Longrightarrow> in_int64 m \<Longrightarrow> in_int64 n \<Longrightarrow> m = n"
  by (metis option.inject parse_int_itoa)

section \<open>The strings package\<close>

definition trim_prefix :: "string \<Rightarrow> string \<Rightarrow> string" where
  "trim_prefix s p = (if prefix p s then drop (length p) s else s)"

definition cut_prefix :: "string \<Rightarrow> string \<Rightarrow> string \<times> bool" where
  "cut_prefix s p = (if prefix p s then (drop (length p) s, True) else (s, False))"

definition trim_suffix :: "string \<Rightarrow> string \<Rightarrow> string" where
  "trim_suffix s p = (if suffix p s then take (length s - length p) s else s)"

text \<open>\<open>strings.Cut\<close> at a one-byte separator.\<close>

fun cut_at :: "char \<Rightarrow> string \<Rightarrow> string \<times> string \<times> bool" where
  "cut_at c [] = ([], [], False)"
| "cut_at c (x # xs) = (if x = c then ([], xs, True)
     else (case cut_at c xs of (b, a, ok) \<Rightarrow> (x # b, a, ok)))"

text \<open>\<open>strings.Split\<close> at a one-byte separator: never empty.\<close>

fun split_on :: "char \<Rightarrow> string \<Rightarrow> string list" where
  "split_on c [] = [[]]"
| "split_on c (x # xs) = (if x = c then [] # split_on c xs
     else (case split_on c xs of [] \<Rightarrow> [[x]] | y # ys \<Rightarrow> (x # y) # ys))"

fun join :: "string \<Rightarrow> string list \<Rightarrow> string" where
  "join sep [] = []"
| "join sep [x] = x"
| "join sep (x # y # ys) = x @ sep @ join sep (y # ys)"

text \<open>\<open>strings.Index\<close> and \<open>strings.Contains\<close>.\<close>

fun index_of :: "string \<Rightarrow> string \<Rightarrow> nat option" where
  "index_of p [] = (if p = [] then Some 0 else None)"
| "index_of p (x # xs) = (if prefix p (x # xs) then Some 0 else map_option Suc (index_of p xs))"

text \<open>\<open>strings.ReplaceAll\<close> of a non-empty \<open>old\<close>: left to right, without overlaps.\<close>

fun replace_all :: "string \<Rightarrow> string \<Rightarrow> string \<Rightarrow> string" where
  "replace_all old new [] = []"
| "replace_all old new (x # xs) =
     (if old \<noteq> [] \<and> prefix old (x # xs) then new @ replace_all old new (drop (length old - 1) xs)
      else x # replace_all old new xs)"

definition is_space :: "char \<Rightarrow> bool" where
  "is_space c \<longleftrightarrow> (let n = (of_char c :: nat) in n = 32 \<or> (9 \<le> n \<and> n \<le> 13))"

definition trim_right :: "(char \<Rightarrow> bool) \<Rightarrow> string \<Rightarrow> string" where
  "trim_right P s = rev (dropWhile P (rev s))"

definition trim_func :: "(char \<Rightarrow> bool) \<Rightarrow> string \<Rightarrow> string" where
  "trim_func P s = trim_right P (dropWhile P s)"

definition trim_space :: "string \<Rightarrow> string" where
  "trim_space s = trim_func is_space s"

text \<open>\<open>strings.Fields\<close>: the maximal runs of non-space bytes.\<close>

fun str_fields_aux :: "string \<Rightarrow> string \<Rightarrow> string list" where
  "str_fields_aux acc [] = (if acc = [] then [] else [rev acc])"
| "str_fields_aux acc (x # xs) = (if is_space x then (if acc = [] then str_fields_aux [] xs else rev acc # str_fields_aux [] xs)
     else str_fields_aux (x # acc) xs)"

definition str_fields :: "string \<Rightarrow> string list" where
  "str_fields s = str_fields_aux [] s"

lemma split_on_nonempty [simp]: "split_on c s \<noteq> []"
  by (induction s) (simp_all split: list.splits)

lemma join_split_on: "join [c] (split_on c s) = s"
proof (induction s)
  case Nil
  show ?case by simp
next
  case (Cons x xs)
  obtain y ys where "split_on c xs = y # ys"
    using split_on_nonempty by (cases "split_on c xs") auto
  with Cons.IH show ?case by (cases ys) simp_all
qed

lemma split_on_no_sep: "c \<notin> set s \<Longrightarrow> split_on c s = [s]"
  by (induction s) auto

lemma split_on_append: "c \<notin> set a \<Longrightarrow> split_on c (a @ c # b) = a # split_on c b"
  by (induction a) auto

lemma split_on_parts: "p \<in> set (split_on c s) \<Longrightarrow> c \<notin> set p"
proof (induction s arbitrary: p)
  case Nil
  then show ?case by simp
next
  case (Cons x xs)
  obtain y ys where y: "split_on c xs = y # ys"
    using split_on_nonempty by (cases "split_on c xs") auto
  with Cons show ?case by (auto split: if_splits)
qed

lemma str_fields_aux_run: "list_all (\<lambda>c. \<not> is_space c) w \<Longrightarrow> str_fields_aux acc (w @ s) = str_fields_aux (rev w @ acc) s"
  by (induction w arbitrary: acc) simp_all

lemma str_fields_two:
  assumes "a \<noteq> []" "b \<noteq> []" "list_all (\<lambda>c. \<not> is_space c) a" "list_all (\<lambda>c. \<not> is_space c) b"
  shows "str_fields (a @ CHR '' '' # b) = [a, b]"
proof -
  have sp: "is_space CHR '' ''" by (simp add: is_space_def)
  have "str_fields (a @ CHR '' '' # b) = str_fields_aux (rev a) (CHR '' '' # b)"
    using str_fields_aux_run [OF assms(3), of "[]" "CHR '' '' # b"] by (simp add: str_fields_def)
  also have "\<dots> = a # str_fields_aux [] b" using assms(1) sp by simp
  also have "str_fields_aux [] b = [b]"
    using str_fields_aux_run [OF assms(4), of "[]" "[]"] assms(2) by simp
  finally show ?thesis .
qed

lemma digit_not_space: "is_digit c \<Longrightarrow> \<not> is_space c"
  by (auto simp: is_digit_def is_space_def Let_def)

lemma itoa_no_space: "list_all (\<lambda>c. \<not> is_space c) (itoa n)"
proof -
  have "list_all (\<lambda>c. \<not> is_space c) (nat_digits k)" for k
    using nat_digits_all_digits [of k] digit_not_space by (auto simp: list_all_iff)
  moreover have "\<not> is_space CHR ''-''" by (simp add: is_space_def)
  ultimately show ?thesis by (simp add: itoa_def)
qed

lemma itoa_nonempty [simp]: "itoa n \<noteq> []"
  by (simp add: itoa_def)

section \<open>slices.BinarySearch\<close>

text \<open>The library's loop: the least index in \<open>[i, j)\<close> whose element is not below the target.\<close>

function bsearch :: "('a::linorder) list \<Rightarrow> 'a \<Rightarrow> nat \<Rightarrow> nat \<Rightarrow> nat" where
  "bsearch xs t i j =
     (if i < j then (let h = (i + j) div 2 in if xs ! h < t then bsearch xs t (Suc h) j else bsearch xs t i h) else i)"
  by pat_completeness auto
termination
  by (relation "measure (\<lambda>(xs, t, i, j). j - i)") auto

declare bsearch.simps [simp del]

definition binary_search :: "('a::linorder) list \<Rightarrow> 'a \<Rightarrow> nat" where
  "binary_search xs t = bsearch xs t 0 (length xs)"

lemma bsearch_correct:
  assumes "sorted xs" "i \<le> j" "j \<le> length xs"
    and "\<forall>k < i. xs ! k < t" "\<forall>k. j \<le> k \<longrightarrow> k < length xs \<longrightarrow> t \<le> xs ! k"
  shows "bsearch xs t i j \<le> length xs \<and> (\<forall>k < bsearch xs t i j. xs ! k < t) \<and>
    (\<forall>k. bsearch xs t i j \<le> k \<longrightarrow> k < length xs \<longrightarrow> t \<le> xs ! k)"
  using assms
proof (induction xs t i j rule: bsearch.induct)
  case (1 xs t i j)
  show ?case
  proof (cases "i < j")
    case False
    then have "bsearch xs t i j = i" by (simp add: bsearch.simps [of xs t i j])
    with False "1.prems" show ?thesis by simp
  next
    case True
    define h where "h = (i + j) div 2"
    have h: "i \<le> h" "h < j" using True by (auto simp: h_def)
    show ?thesis
    proof (cases "xs ! h < t")
      case less: True
      have "\<forall>k < Suc h. xs ! k < t"
      proof (intro allI impI)
        fix k assume "k < Suc h"
        then have "xs ! k \<le> xs ! h" using "1.prems"(1,3) h by (intro sorted_nth_mono) auto
        with less show "xs ! k < t" by simp
      qed
      then have "bsearch xs t (Suc h) j \<le> length xs \<and> (\<forall>k < bsearch xs t (Suc h) j. xs ! k < t) \<and>
          (\<forall>k. bsearch xs t (Suc h) j \<le> k \<longrightarrow> k < length xs \<longrightarrow> t \<le> xs ! k)"
        using h by (intro "1.IH"(1) [OF True h_def less "1.prems"(1) _ "1.prems"(3) _ "1.prems"(5)]) simp_all
      moreover have "bsearch xs t i j = bsearch xs t (Suc h) j"
        using True less by (subst bsearch.simps) (simp add: h_def)
      ultimately show ?thesis by simp
    next
      case notless: False
      have "\<forall>k. h \<le> k \<longrightarrow> k < length xs \<longrightarrow> t \<le> xs ! k"
      proof (intro allI impI)
        fix k assume "h \<le> k" "k < length xs"
        then have "xs ! h \<le> xs ! k" using "1.prems"(1) by (intro sorted_nth_mono) auto
        with notless show "t \<le> xs ! k" by simp
      qed
      then have "bsearch xs t i h \<le> length xs \<and> (\<forall>k < bsearch xs t i h. xs ! k < t) \<and>
          (\<forall>k. bsearch xs t i h \<le> k \<longrightarrow> k < length xs \<longrightarrow> t \<le> xs ! k)"
        using h "1.prems"(3) by (intro "1.IH"(2) [OF True h_def notless "1.prems"(1) _ _ "1.prems"(4)]) simp_all
      moreover have "bsearch xs t i j = bsearch xs t i h"
        using True notless by (subst bsearch.simps) (simp add: h_def)
      ultimately show ?thesis by simp
    qed
  qed
qed

lemma binary_search_correct:
  assumes "sorted xs"
  shows "binary_search xs t \<le> length xs"
    and "k < binary_search xs t \<Longrightarrow> xs ! k < t"
    and "binary_search xs t \<le> k \<Longrightarrow> k < length xs \<Longrightarrow> t \<le> xs ! k"
  using bsearch_correct [of xs 0 "length xs" t] assms by (simp_all add: binary_search_def)

section \<open>Association lists\<close>

declare AList.distinct_update [simp] AList.distinct_delete [simp]

lemma length_update_old: "k \<in> fst ` set al \<Longrightarrow> length (AList.update k v al) = length al"
  by (induction al) auto

lemma length_update_new: "k \<notin> fst ` set al \<Longrightarrow> length (AList.update k v al) = Suc (length al)"
  by (induction al) auto

lemma delete_fresh: "k \<notin> fst ` set al \<Longrightarrow> AList.delete k al = al"
  by (induction al) auto

lemma length_delete_old: "k \<in> fst ` set al \<Longrightarrow> distinct (map fst al) \<Longrightarrow> Suc (length (AList.delete k al)) = length al"
  by (induction al) (auto simp: delete_fresh)

lemma length_delete_le: "length (AList.delete k al) \<le> length al"
  by (simp add: AList.delete_eq)

end
