(* ===== verification/Hash_Ring.thy ===== *)
theory Hash_Ring
  imports Go_Prelude
begin

unbundle bit_operations_syntax

text \<open>
  The consistent hash ring of \<open>src/pkg/hashring/hashring.go\<close>: \<open>New\<close>, \<open>Locate\<close> and \<open>Members\<close>, with
  \<open>crc32.ChecksumIEEE\<close> as the point function. The contract other components rely on is the locale
  \<open>consistent_hash\<close>, interpreted here on the ring itself: rings agree whatever the order of the members,
  a key belongs to a live member, and removing a member moves only the keys it owned (also when two
  members' points collide).
\<close>

section \<open>The model\<close>

text \<open>\<open>hash/crc32\<close>, IEEE polynomial, bit by bit.\<close>

definition crc_bit :: "32 word \<Rightarrow> 32 word" where
  "crc_bit c = (if bit c 0 then drop_bit 1 c XOR 0xEDB88320 else drop_bit 1 c)"

definition crc_byte :: "char \<Rightarrow> 32 word \<Rightarrow> 32 word" where
  "crc_byte b c = (crc_bit ^^ 8) (c XOR word_of_nat (of_char b))"

definition crc32 :: "string \<Rightarrow> 32 word" where
  "crc32 s = NOT (fold crc_byte s (NOT 0))"

definition replicas :: nat where
  "replicas = 160"

definition point :: "string \<Rightarrow> 32 word" where
  "point s = crc32 s"

record ring =
  members :: "string list"
  points :: "32 word list"
  owner :: "32 word \<rightharpoonup> string"

fun collect_members :: "string list \<Rightarrow> string list \<Rightarrow> string list" where
  "collect_members acc [] = acc"
| "collect_members acc (m # ms) =
     (if m = [] \<or> m \<in> set acc then collect_members acc ms else collect_members (acc @ [m]) ms)"

definition place_point :: "string \<Rightarrow> nat \<Rightarrow> (32 word \<rightharpoonup> string) \<times> 32 word list \<Rightarrow> (32 word \<rightharpoonup> string) \<times> 32 word list" where
  "place_point m i st =
     (let p = point (m @ ''#'' @ itoa (int i))
      in case fst st p of Some _ \<Rightarrow> st | None \<Rightarrow> ((fst st)(p \<mapsto> m), snd st @ [p]))"

definition place_member :: "string \<Rightarrow> (32 word \<rightharpoonup> string) \<times> 32 word list \<Rightarrow> (32 word \<rightharpoonup> string) \<times> 32 word list" where
  "place_member m st = fold (place_point m) [0..<replicas] st"

definition New :: "string list \<Rightarrow> ring" where
  "New ms =
     (let sorted_members = sort (collect_members [] ms);
          st = fold place_member sorted_members (Map.empty, [])
      in \<lparr>members = sorted_members, points = sort (snd st), owner = fst st\<rparr>)"

definition ring_index :: "32 word list \<Rightarrow> 32 word \<Rightarrow> nat" where
  "ring_index pts p = (let i = binary_search pts p in if i = length pts then 0 else i)"

text \<open>A missing key of a Go map reads as the zero value, here the empty string.\<close>

definition Locate :: "ring \<Rightarrow> string \<Rightarrow> string" where
  "Locate r key =
     (if points r = [] then []
      else case owner r (points r ! ring_index (points r) (point key)) of None \<Rightarrow> [] | Some m \<Rightarrow> m)"

definition Members :: "ring \<Rightarrow> string list" where
  "Members r = members r"

section \<open>Membership\<close>

lemma collect_members_set: "set (collect_members acc ms) = set acc \<union> (set ms - {[]})"
  by (induction ms arbitrary: acc) auto

lemma collect_members_distinct: "distinct acc \<Longrightarrow> distinct (collect_members acc ms)"
  by (induction ms arbitrary: acc) auto

lemma members_New: "members (New ms) = sorted_list_of_set (set ms - {[]})"
proof -
  have "sorted_list_of_set (set (sort (collect_members [] ms))) = sort (collect_members [] ms)"
    by (rule sorted_list_of_set.idem_if_sorted_distinct) (simp_all add: collect_members_distinct)
  then show ?thesis by (simp add: New_def Let_def collect_members_set)
qed

section \<open>The points: who owns which\<close>

definition hits :: "string \<Rightarrow> 32 word \<Rightarrow> bool" where
  "hits m p \<longleftrightarrow> (\<exists>i < replicas. p = point (m @ ''#'' @ itoa (int i)))"

lemma place_point_owner:
  "fst (place_point m i st) p =
     (case fst st p of Some x \<Rightarrow> Some x | None \<Rightarrow> if p = point (m @ ''#'' @ itoa (int i)) then Some m else None)"
  by (auto simp: place_point_def Let_def split: option.splits)

lemma place_point_points:
  "set (snd st) = dom (fst st) \<Longrightarrow> set (snd (place_point m i st)) = dom (fst (place_point m i st))"
  by (auto simp: place_point_def Let_def split: option.splits)

lemma fold_place_point_owner:
  "fst (fold (place_point m) is st) p =
     (case fst st p of Some x \<Rightarrow> Some x
      | None \<Rightarrow> if p \<in> (\<lambda>i. point (m @ ''#'' @ itoa (int i))) ` set is then Some m else None)"
  by (induction "is" arbitrary: st) (auto simp: place_point_owner split: option.splits)

lemma place_member_owner:
  "fst (place_member m st) p = (case fst st p of Some x \<Rightarrow> Some x | None \<Rightarrow> if hits m p then Some m else None)"
  by (auto simp: place_member_def fold_place_point_owner hits_def split: option.splits)

lemma fold_place_point_points:
  "set (snd st) = dom (fst st) \<Longrightarrow> set (snd (fold (place_point m) is st)) = dom (fst (fold (place_point m) is st))"
  by (induction "is" arbitrary: st) (simp_all add: place_point_points)

lemma fold_place_member_owner:
  "fst (fold place_member ms st) p = (case fst st p of Some x \<Rightarrow> Some x | None \<Rightarrow> find (\<lambda>m. hits m p) ms)"
  by (induction ms arbitrary: st) (auto simp: place_member_owner split: option.splits)

lemma fold_place_member_points:
  "set (snd st) = dom (fst st) \<Longrightarrow> set (snd (fold place_member ms st)) = dom (fst (fold place_member ms st))"
  by (induction ms arbitrary: st) (simp_all add: place_member_def fold_place_point_points)

text \<open>A point belongs to the first member, in sorted order, that lands on it.\<close>

lemma owner_New: "owner (New ms) p = find (\<lambda>m. hits m p) (members (New ms))"
  by (simp add: New_def Let_def fold_place_member_owner)

lemma set_points_New: "set (points (New ms)) = dom (owner (New ms))"
  using fold_place_member_points [of "(Map.empty, [])"] by (simp add: New_def Let_def)

lemma sorted_points_New: "sorted (points (New ms))"
  by (simp add: New_def Let_def)

lemma hits_exists: "\<exists>p. hits m p"
  by (auto simp: hits_def replicas_def intro!: exI [of _ 0])

lemma find_Some_mem: "find P xs = Some x \<Longrightarrow> x \<in> set xs \<and> P x"
  by (auto simp: find_Some_iff)

lemma points_empty_iff: "points (New ms) = [] \<longleftrightarrow> members (New ms) = []"
proof
  assume "points (New ms) = []"
  then have none: "owner (New ms) p = None" for p using set_points_New [of ms] by auto
  show "members (New ms) = []"
  proof (cases "members (New ms)")
    case (Cons m rest)
    obtain p where "hits m p" using hits_exists by blast
    with none [of p] Cons show ?thesis by (simp add: owner_New)
  qed simp
next
  assume "members (New ms) = []"
  then have "set (points (New ms)) = {}" by (auto simp: set_points_New owner_New)
  then show "points (New ms) = []" by simp
qed

section \<open>The successor of a point on the ring\<close>

definition succ_point :: "32 word set \<Rightarrow> 32 word \<Rightarrow> 32 word \<Rightarrow> bool" where
  "succ_point P p q \<longleftrightarrow> q \<in> P \<and>
     (if \<exists>x\<in>P. p \<le> x then p \<le> q \<and> (\<forall>x\<in>P. p \<le> x \<longrightarrow> q \<le> x) else \<forall>x\<in>P. q \<le> x)"

lemma succ_point_unique: "succ_point P p q \<Longrightarrow> succ_point P p q' \<Longrightarrow> q = q'"
  by (cases "\<exists>x\<in>P. p \<le> x") (auto simp: succ_point_def intro: order_antisym)

lemma succ_point_subset: "succ_point P p q \<Longrightarrow> P' \<subseteq> P \<Longrightarrow> q \<in> P' \<Longrightarrow> succ_point P' p q"
  by (auto simp: succ_point_def split: if_splits)

lemma ring_index_bound: "pts \<noteq> [] \<Longrightarrow> sorted pts \<Longrightarrow> ring_index pts p < length pts"
  using binary_search_correct(1) [of pts p] by (auto simp: ring_index_def Let_def)

lemma ring_index_succ:
  assumes "pts \<noteq> []" "sorted pts"
  shows "succ_point (set pts) p (pts ! ring_index pts p)"
proof -
  note bs = binary_search_correct(1) [OF assms(2), of p] binary_search_correct(2) [OF assms(2), where t = p]
    binary_search_correct(3) [OF assms(2), where t = p]
  have mem: "pts ! ring_index pts p \<in> set pts"
    using ring_index_bound [OF assms] by (rule nth_mem)
  show ?thesis
  proof (cases "binary_search pts p = length pts")
    case True
    then have "\<not> (\<exists>x\<in>set pts. p \<le> x)" using bs(2) by (auto simp: in_set_conv_nth not_le)
    moreover have "\<forall>x\<in>set pts. pts ! 0 \<le> x"
      using assms(2) by (auto simp: in_set_conv_nth intro: sorted_nth_mono)
    ultimately show ?thesis using mem True by (simp add: succ_point_def ring_index_def)
  next
    case False
    then have lt: "binary_search pts p < length pts" using bs(1) by simp
    then have ge: "p \<le> pts ! binary_search pts p" using bs(3) by simp
    have "pts ! binary_search pts p \<le> x" if "x \<in> set pts" "p \<le> x" for x
    proof -
      from that(1) obtain k where k: "k < length pts" "x = pts ! k" by (auto simp: in_set_conv_nth)
      have "\<not> k < binary_search pts p" using bs(2) [of k] k that(2) by auto
      then show ?thesis using assms(2) k by (auto intro: sorted_nth_mono)
    qed
    then show ?thesis using mem ge lt False by (auto simp: succ_point_def ring_index_def)
  qed
qed

text \<open>What \<open>Locate\<close> computes, without the array: the owner of the successor of the key's point.\<close>

lemma Locate_succ:
  assumes "points (New ms) \<noteq> []"
  obtains q where "succ_point (dom (owner (New ms))) (point key) q" "owner (New ms) q = Some (Locate (New ms) key)"
proof -
  let ?q = "points (New ms) ! ring_index (points (New ms)) (point key)"
  have s: "succ_point (dom (owner (New ms))) (point key) ?q"
    using ring_index_succ [OF assms sorted_points_New, of "point key"] by (simp add: set_points_New)
  then have "?q \<in> dom (owner (New ms))" by (simp add: succ_point_def)
  then obtain m where "owner (New ms) ?q = Some m" by blast
  with assms have "owner (New ms) ?q = Some (Locate (New ms) key)" by (simp add: Locate_def)
  with s show thesis by (rule that)
qed

lemma Locate_eqI:
  assumes "succ_point (dom (owner (New ms))) (point key) q" "owner (New ms) q = Some m"
  shows "Locate (New ms) key = m"
proof -
  have "points (New ms) \<noteq> []" using assms(2) set_points_New [of ms] by auto
  then obtain q' where "succ_point (dom (owner (New ms))) (point key) q'"
    "owner (New ms) q' = Some (Locate (New ms) key)" by (rule Locate_succ)
  with assms show ?thesis using succ_point_unique by fastforce
qed

section \<open>Removing a member\<close>

lemma members_remove: "members (New (removeAll m ms)) = removeAll m (members (New ms))"
proof -
  have "sorted_list_of_set (set (removeAll m (members (New ms)))) = removeAll m (members (New ms))"
    by (rule sorted_list_of_set.idem_if_sorted_distinct)
      (simp_all add: members_New removeAll_filter_not_eq sorted_filter [where f = id, simplified])
  moreover have "set (removeAll m (members (New ms))) = set (removeAll m ms) - {[]}"
    by (auto simp: members_New)
  ultimately show ?thesis by (simp add: members_New)
qed

lemma find_removeAll: "find P xs \<noteq> Some m \<Longrightarrow> find P (removeAll m xs) = find P xs"
  by (induction xs) auto

lemma find_removeAll_dom: "find P (removeAll m xs) = Some x \<Longrightarrow> \<exists>y. find P xs = Some y"
  by (induction xs) (auto split: if_splits)

lemma owner_remove_keeps:
  "owner (New ms) p = Some x \<Longrightarrow> x \<noteq> m \<Longrightarrow> owner (New (removeAll m ms)) p = Some x"
  by (simp add: owner_New members_remove find_removeAll)

lemma owner_remove_dom: "dom (owner (New (removeAll m ms))) \<subseteq> dom (owner (New ms))"
  by (auto simp: owner_New members_remove dest: find_removeAll_dom)

lemma Locate_remove:
  assumes "Locate (New ms) key \<noteq> m"
  shows "Locate (New (removeAll m ms)) key = Locate (New ms) key"
proof (cases "points (New ms) = []")
  case True
  then have "points (New (removeAll m ms)) = []" by (simp add: points_empty_iff members_remove)
  with True show ?thesis by (simp add: Locate_def)
next
  case False
  then obtain q where q: "succ_point (dom (owner (New ms))) (point key) q"
    "owner (New ms) q = Some (Locate (New ms) key)" by (rule Locate_succ)
  then have own: "owner (New (removeAll m ms)) q = Some (Locate (New ms) key)"
    using assms by (blast intro: owner_remove_keeps)
  then have "q \<in> dom (owner (New (removeAll m ms)))" by blast
  then have "succ_point (dom (owner (New (removeAll m ms)))) (point key) q"
    using succ_point_subset [OF q(1) owner_remove_dom] by blast
  then show ?thesis using own by (rule Locate_eqI)
qed

section \<open>The contract\<close>

locale consistent_hash =
  fixes build :: "string list \<Rightarrow> 'r"
    and mems :: "'r \<Rightarrow> string list"
    and loc :: "'r \<Rightarrow> string \<Rightarrow> string"
  assumes build_cong: "set ms = set ms' \<Longrightarrow> build ms = build ms'"
    and mems_set: "set (mems (build ms)) = set ms - {[]}"
    and loc_member: "mems (build ms) \<noteq> [] \<Longrightarrow> loc (build ms) k \<in> set (mems (build ms))"
    and loc_none: "mems (build ms) = [] \<Longrightarrow> loc (build ms) k = []"
    and loc_stable: "loc (build ms) k \<noteq> m \<Longrightarrow> loc (build (removeAll m ms)) k = loc (build ms) k"
begin

lemma loc_live: "\<exists>m\<in>set ms. m \<noteq> [] \<Longrightarrow> loc (build ms) k \<in> set ms \<and> loc (build ms) k \<noteq> []"
  using loc_member [of ms k] mems_set [of ms] by (cases "mems (build ms) = []") auto

lemma loc_none_iff: "loc (build ms) k = [] \<longleftrightarrow> (\<forall>m\<in>set ms. m = [])"
proof
  assume "\<forall>m\<in>set ms. m = []"
  then have "set (mems (build ms)) = {}" by (auto simp: mems_set)
  then show "loc (build ms) k = []" by (simp add: loc_none)
qed (use loc_live [of ms k] in blast)

text \<open>A joining member takes keys only for itself.\<close>

lemma loc_join: "loc (build (m # ms)) k = m \<or> loc (build (m # ms)) k = loc (build ms) k"
proof (cases "m \<in> set ms")
  case True
  then have "build (m # ms) = build ms" by (intro build_cong) auto
  then show ?thesis by simp
next
  case False
  show ?thesis
  proof (cases "loc (build (m # ms)) k = m")
    case other: False
    from loc_stable [OF other] False show ?thesis by simp
  qed simp
qed

end

interpretation hr: consistent_hash New Members Locate
proof unfold_locales
  fix ms ms' :: "string list"
  assume "set ms = set ms'"
  then have eq: "members (New ms) = members (New ms')" by (simp add: members_New)
  then have "sort (collect_members [] ms) = sort (collect_members [] ms')" by (simp add: New_def Let_def)
  then show "New ms = New ms'" by (simp add: New_def)
next
  fix ms :: "string list"
  show "set (Members (New ms)) = set ms - {[]}" by (simp add: Members_def members_New)
next
  fix ms :: "string list" and k
  assume "Members (New ms) \<noteq> []"
  then have "points (New ms) \<noteq> []" by (simp add: Members_def points_empty_iff)
  then obtain q where "owner (New ms) q = Some (Locate (New ms) k)" by (rule Locate_succ)
  then show "Locate (New ms) k \<in> set (Members (New ms))"
    by (auto simp: Members_def owner_New dest: find_Some_mem)
next
  fix ms :: "string list" and k
  assume "Members (New ms) = []"
  then show "Locate (New ms) k = []" by (simp add: Members_def Locate_def points_empty_iff)
next
  fix ms :: "string list" and k m
  assume "Locate (New ms) k \<noteq> m"
  then show "Locate (New (removeAll m ms)) k = Locate (New ms) k" by (rule Locate_remove)
qed

section \<open>Properties\<close>

text \<open>
  Two pods that see the same set of members, in any order and with any repetitions, build the same ring,
  so they route every key to the same member.
\<close>

theorem ring_order_independent:
  "set ms = set ms' \<Longrightarrow> New ms = New ms' \<and> Locate (New ms) key = Locate (New ms') key"
  using hr.build_cong [of ms ms'] by simp

theorem ring_order_independent_witness:
  "New [''b'', ''a'', ''b''] = New [''a'', ''b''] \<and> Locate (New [''b'', ''a'', ''b'']) ''k'' = Locate (New [''a'', ''b'']) ''k''"
  by (rule ring_order_independent) auto

text \<open>
  C24. Losing a member moves only the keys it owned: every key another member owned stays where it was, even
  when points of two members collide; and with any named member left a key is owned by a live member.
\<close>

theorem ring_minimal_disruption:
  assumes "Locate (New ms) key \<noteq> m" and "\<exists>x\<in>set ms. x \<noteq> []"
  shows "Locate (New (removeAll m ms)) key = Locate (New ms) key
    \<and> Locate (New (removeAll m ms)) key \<in> set ms - {m, []}"
proof -
  have same: "Locate (New (removeAll m ms)) key = Locate (New ms) key"
    using assms(1) by (rule hr.loc_stable)
  moreover have "Locate (New ms) key \<in> set ms \<and> Locate (New ms) key \<noteq> []"
    using assms(2) by (rule hr.loc_live)
  ultimately show ?thesis using assms(1) by auto
qed

theorem ring_minimal_disruption_witness:
  "Locate (New (removeAll ''b'' [''a''])) ''movies'' = Locate (New [''a'']) ''movies''
    \<and> Locate (New (removeAll ''b'' [''a''])) ''movies'' \<in> set [''a''] - {''b'', []}"
proof (rule ring_minimal_disruption)
  show "Locate (New [''a'']) ''movies'' \<noteq> ''b''" using hr.loc_live [of "[''a'']" "''movies''"] by auto
qed simp

end
