(* ===== verification/Kube_Lease.thy ===== *)
theory Kube_Lease
  imports Go_Prelude
begin

text \<open>
  The lease elector of \<open>src/pkg/lease/lease.go\<close>: \<open>Acquire\<close>, \<open>Renew\<close>, \<open>Release\<close> and \<open>Holder\<close> over a
  Kubernetes Lease object. The API server is a parameter of every definition: a read function and a write
  function over an arbitrary state \<open>'w\<close>. What the elector relies on is the predicate \<open>lease_server\<close>: reads
  return the stored object with its resource version, a create succeeds only where nothing is stored, an
  update is applied only at the version it was read at (optimistic concurrency). A failed answer may hide an
  applied write, as a lost reply does.

  Each operation is one read, a decision, and at most one write; \<open>elect_step\<close> interleaves the reads and
  writes of any number of pods.
\<close>

section \<open>The Lease object and the API server\<close>

record lease =
  holderIdentity :: "string option"
  leaseDurationSeconds :: "int option"
  acquireTime :: "time option"
  renewTime :: "time option"
  annotations :: "(string \<times> string) list"

datatype api_error = NotFound | AlreadyExists | Conflict | OtherError string

datatype lease_write = Create lease | Update lease nat

type_synonym lease_answer = "api_error + lease \<times> nat"
type_synonym 'w lease_read_fn = "'w \<Rightarrow> 'w \<times> lease_answer"
type_synonym 'w lease_write_fn = "lease_write \<Rightarrow> 'w \<Rightarrow> 'w \<times> api_error option"

definition applied :: "lease_write \<Rightarrow> (lease \<times> nat) option \<Rightarrow> (lease \<times> nat) option \<Rightarrow> bool" where
  "applied q s s' \<longleftrightarrow> (case q of
      Create l \<Rightarrow> s = None \<and> (\<exists>v. s' = Some (l, v))
    | Update l v \<Rightarrow> (\<exists>l0. s = Some (l0, v)) \<and> (\<exists>v' > v. s' = Some (l, v')))"

definition lease_server :: "'w lease_read_fn \<Rightarrow> 'w lease_write_fn \<Rightarrow> ('w \<Rightarrow> (lease \<times> nat) option) \<Rightarrow> bool" where
  "lease_server rd wr stored \<longleftrightarrow>
     (\<forall>w w' a. rd w = (w', a) \<longrightarrow> stored w' = stored w
        \<and> (\<forall>l v. a = Inr (l, v) \<longrightarrow> stored w = Some (l, v)) \<and> (a = Inl NotFound \<longrightarrow> stored w = None))
   \<and> (\<forall>q w w' e. wr q w = (w', e) \<longrightarrow>
        (stored w' = stored w \<or> applied q (stored w) (stored w'))
        \<and> (e = None \<longrightarrow> applied q (stored w) (stored w'))
        \<and> (e = Some Conflict \<longrightarrow> stored w' = stored w))"

lemma lease_server_read:
  assumes "lease_server rd wr stored" "rd w = (w', a)"
  shows "stored w' = stored w" "a = Inr (l, v) \<Longrightarrow> stored w = Some (l, v)" "a = Inl NotFound \<Longrightarrow> stored w = None"
  using assms by (auto simp: lease_server_def)

lemma lease_server_write:
  assumes "lease_server rd wr stored" "wr q w = (w', e)"
  shows "stored w' = stored w \<or> applied q (stored w) (stored w')" "e = None \<Longrightarrow> applied q (stored w) (stored w')"
  using assms unfolding lease_server_def by blast+

text \<open>An answer read earlier is still current, or its version is past.\<close>

definition fresh_answer :: "(lease \<times> nat) option \<Rightarrow> lease_answer \<Rightarrow> bool" where
  "fresh_answer st a \<longleftrightarrow> (\<forall>l v. a = Inr (l, v) \<longrightarrow>
     (\<exists>lc vc. st = Some (lc, vc) \<and> v \<le> vc \<and> (vc = v \<longrightarrow> lc = l)))"

lemma fresh_answer_read: "lease_server rd wr stored \<Longrightarrow> rd w = (w', a) \<Longrightarrow> fresh_answer (stored w') a"
  using lease_server_read(1,2) [of rd wr stored w w' a] by (auto simp: fresh_answer_def)

text \<open>Other clients of the same server: versions only grow, and a version names one object.\<close>

definition lease_env :: "('w \<Rightarrow> (lease \<times> nat) option) \<Rightarrow> ('w \<Rightarrow> 'w \<Rightarrow> bool) \<Rightarrow> bool" where
  "lease_env stored env \<longleftrightarrow> (\<forall>w w' a. env w w' \<longrightarrow> fresh_answer (stored w) a \<longrightarrow> fresh_answer (stored w') a)"

text \<open>A read, a decision and a write under client-go's \<open>RetryOnConflict\<close>, beside other clients: \<open>env\<close> is what they
  may do to the world between two calls, \<open>dec\<close> decides on the answer to the read (a result, or a write to send),
  \<open>res\<close> reads the answer to the write, and \<open>retry\<close> says which results are conflicts. After a conflict the function may
  be called again; what the last call returned is returned. The world before the last argument pair is the one the
  last write was sent to.\<close>

inductive retried :: "('w \<Rightarrow> 'w \<Rightarrow> bool) \<Rightarrow> 'w lease_read_fn \<Rightarrow> 'w lease_write_fn \<Rightarrow> (lease_answer \<Rightarrow> 'r + lease_write)
    \<Rightarrow> (lease_write \<Rightarrow> api_error option \<Rightarrow> 'r) \<Rightarrow> ('r \<Rightarrow> bool) \<Rightarrow> 'w \<Rightarrow> 'w \<Rightarrow> 'w \<Rightarrow> 'r \<Rightarrow> bool"
  for env rd wr dec res retry where
  stop: "rd w = (w1, a) \<Longrightarrow> dec a = Inl r \<Longrightarrow> retried env rd wr dec res retry w w1 w1 r"
| final: "rd w = (w1, a) \<Longrightarrow> dec a = Inr q \<Longrightarrow> env w1 w2 \<Longrightarrow> wr q w2 = (w3, e) \<Longrightarrow>
    retried env rd wr dec res retry w w2 w3 (res q e)"
| again: "rd w = (w1, a) \<Longrightarrow> dec a = Inr q \<Longrightarrow> env w1 w2 \<Longrightarrow> wr q w2 = (w3, e) \<Longrightarrow> retry (res q e) \<Longrightarrow>
    env w3 w4 \<Longrightarrow> retried env rd wr dec res retry w4 w5 w6 r \<Longrightarrow> retried env rd wr dec res retry w w5 w6 r"

lemma retried_last:
  assumes srv: "lease_server rd wr stored" and env: "lease_env stored env"
  shows "retried env rd wr dec res retry w w2 w3 r \<Longrightarrow>
    (\<exists>a. dec a = Inl r \<and> w2 = w3 \<and> (\<forall>l v. a = Inr (l, v) \<longrightarrow> stored w2 = Some (l, v)) \<and> (a = Inl NotFound \<longrightarrow> stored w2 = None))
    \<or> (\<exists>a q e. dec a = Inr q \<and> r = res q e \<and> wr q w2 = (w3, e) \<and> fresh_answer (stored w2) a)"
proof (induction rule: retried.induct)
  case (stop w w1 a r)
  then show ?case using lease_server_read [OF srv stop(1)] by metis
next
  case (final w w1 a q w2 w3 e)
  have "fresh_answer (stored w2) a"
    using env final(3) fresh_answer_read [OF srv final(1)] by (auto simp: lease_env_def)
  then show ?case using final by blast
qed

text \<open>A register with a version counter satisfies the contract.\<close>

definition register_read :: "(lease \<times> nat) option lease_read_fn" where
  "register_read w = (w, case w of None \<Rightarrow> Inl NotFound | Some lv \<Rightarrow> Inr lv)"

definition register_write :: "(lease \<times> nat) option lease_write_fn" where
  "register_write q w = (case q of
      Create l \<Rightarrow> (case w of None \<Rightarrow> (Some (l, 1), None) | Some _ \<Rightarrow> (w, Some AlreadyExists))
    | Update l v \<Rightarrow> (case w of None \<Rightarrow> (w, Some NotFound)
        | Some (_, v0) \<Rightarrow> if v0 = v then (Some (l, Suc v), None) else (w, Some Conflict)))"

lemma register_lease_server: "lease_server register_read register_write (\<lambda>w. w)"
  by (auto simp: lease_server_def register_read_def register_write_def applied_def
      split: option.splits lease_write.splits if_splits)

section \<open>The elector\<close>

record elector =
  identity :: string
  elector_duration :: duration

definition DefaultDuration :: duration where
  "DefaultDuration = 15 * second"

text \<open>\<open>int32(d.Seconds())\<close>: the whole seconds. The float64 in between is exact to the whole second for
  every duration below \<open>2^22\<close> seconds.\<close>

definition seconds :: "elector \<Rightarrow> int" where
  "seconds e = (let d = (if elector_duration e = 0 then DefaultDuration else elector_duration e)
                in wrap32 (go_div d second))"

definition free :: "lease \<Rightarrow> bool" where
  "free l \<longleftrightarrow> holderIdentity l = None \<or> holderIdentity l = Some []"

definition heldBy :: "lease \<Rightarrow> string \<Rightarrow> bool" where
  "heldBy l i \<longleftrightarrow> \<not> free l \<and> holderIdentity l = Some i"

definition expired :: "lease \<Rightarrow> time \<Rightarrow> bool" where
  "expired l now = (case (renewTime l, leaseDurationSeconds l) of
      (Some r, Some d) \<Rightarrow> r + d * second < now
    | _ \<Rightarrow> True)"

datatype elect_error = ErrHeldByAnother | GetLease api_error | RenewLease api_error | ReleaseLease api_error

text \<open>The decision each operation makes on the answer to its read: a write to send, or its result.\<close>

definition acquire_decide :: "elector \<Rightarrow> time \<Rightarrow> lease_answer \<Rightarrow> lease_write + elect_error option" where
  "acquire_decide e now a = (case a of
      Inl NotFound \<Rightarrow> Inl (Create \<lparr>holderIdentity = Some (identity e), leaseDurationSeconds = Some (seconds e),
                                   acquireTime = Some now, renewTime = Some now, annotations = []\<rparr>)
    | Inl err \<Rightarrow> Inr (Some (GetLease err))
    | Inr (l, v) \<Rightarrow>
        if \<not> heldBy l (identity e) \<and> \<not> free l \<and> \<not> expired l now then Inr (Some ErrHeldByAnother)
        else Inl (Update (l\<lparr>acquireTime := (if heldBy l (identity e) then acquireTime l else Some now),
                            holderIdentity := Some (identity e), leaseDurationSeconds := Some (seconds e),
                            renewTime := Some now\<rparr>) v))"

definition renew_decide :: "elector \<Rightarrow> time \<Rightarrow> lease_answer \<Rightarrow> lease_write + elect_error option" where
  "renew_decide e now a = (case a of
      Inl err \<Rightarrow> Inr (Some (GetLease err))
    | Inr (l, v) \<Rightarrow> if \<not> heldBy l (identity e) then Inr (Some ErrHeldByAnother)
                     else Inl (Update (l\<lparr>renewTime := Some now\<rparr>) v))"

definition release_decide :: "elector \<Rightarrow> lease_answer \<Rightarrow> lease_write + elect_error option" where
  "release_decide e a = (case a of
      Inl NotFound \<Rightarrow> Inr None
    | Inl err \<Rightarrow> Inr (Some (GetLease err))
    | Inr (l, v) \<Rightarrow> if \<not> heldBy l (identity e) then Inr None else Inl (Update (l\<lparr>holderIdentity := None\<rparr>) v))"

definition call :: "'w lease_read_fn \<Rightarrow> 'w lease_write_fn \<Rightarrow> (lease_answer \<Rightarrow> lease_write + elect_error option)
    \<Rightarrow> (api_error \<Rightarrow> elect_error) \<Rightarrow> 'w \<Rightarrow> 'w \<times> elect_error option" where
  "call rd wr decide fail w = (case rd w of (w1, a) \<Rightarrow> (case decide a of
      Inr res \<Rightarrow> (w1, res)
    | Inl q \<Rightarrow> (case wr q w1 of (w2, err) \<Rightarrow> (w2, map_option fail err))))"

definition Acquire :: "'w lease_read_fn \<Rightarrow> 'w lease_write_fn \<Rightarrow> elector \<Rightarrow> time \<Rightarrow> 'w \<Rightarrow> 'w \<times> elect_error option" where
  "Acquire rd wr e now w = call rd wr (acquire_decide e now) (\<lambda>_. ErrHeldByAnother) w"

definition Renew :: "'w lease_read_fn \<Rightarrow> 'w lease_write_fn \<Rightarrow> elector \<Rightarrow> time \<Rightarrow> 'w \<Rightarrow> 'w \<times> elect_error option" where
  "Renew rd wr e now w = call rd wr (renew_decide e now) RenewLease w"

definition Release :: "'w lease_read_fn \<Rightarrow> 'w lease_write_fn \<Rightarrow> elector \<Rightarrow> 'w \<Rightarrow> 'w \<times> elect_error option" where
  "Release rd wr e w = call rd wr (release_decide e) ReleaseLease w"

definition Holder :: "'w lease_read_fn \<Rightarrow> time \<Rightarrow> 'w \<Rightarrow> 'w \<times> (elect_error + string)" where
  "Holder rd now w = (case rd w of (w1, a) \<Rightarrow> (w1, case a of
      Inl NotFound \<Rightarrow> Inr []
    | Inl err \<Rightarrow> Inl (GetLease err)
    | Inr (l, _) \<Rightarrow> if free l \<or> expired l now then Inr [] else Inr (the (holderIdentity l))))"

section \<open>Any number of pods, interleaved at their API calls\<close>

datatype op = OpAcquire | OpRenew | OpRelease

definition decide :: "op \<Rightarrow> elector \<Rightarrow> time \<Rightarrow> lease_answer \<Rightarrow> lease_write + elect_error option" where
  "decide p e now a = (case p of OpAcquire \<Rightarrow> acquire_decide e now a
      | OpRenew \<Rightarrow> renew_decide e now a | OpRelease \<Rightarrow> release_decide e a)"

record flight =
  op_of :: op
  clock :: time
  answer :: lease_answer
  request :: lease_write

record 'w cluster =
  world :: 'w
  inflight :: "string \<rightharpoonup> flight"

inductive elect_step :: "'w lease_read_fn \<Rightarrow> 'w lease_write_fn \<Rightarrow> (string \<Rightarrow> duration) \<Rightarrow> 'w cluster \<Rightarrow> 'w cluster \<Rightarrow> bool"
  for rd wr dur where
  read_write: "inflight s i = None \<Longrightarrow> rd (world s) = (w', a) \<Longrightarrow>
     decide p \<lparr>identity = i, elector_duration = dur i\<rparr> now a = Inl q \<Longrightarrow>
     elect_step rd wr dur s (s\<lparr>world := w',
       inflight := (inflight s)(i \<mapsto> \<lparr>op_of = p, clock = now, answer = a, request = q\<rparr>)\<rparr>)"
| read_stop: "inflight s i = None \<Longrightarrow> rd (world s) = (w', a) \<Longrightarrow>
     decide p \<lparr>identity = i, elector_duration = dur i\<rparr> now a = Inr res \<Longrightarrow>
     elect_step rd wr dur s (s\<lparr>world := w'\<rparr>)"
| send_write: "inflight s i = Some f \<Longrightarrow> wr (request f) (world s) = (w', err) \<Longrightarrow>
     elect_step rd wr dur s (s\<lparr>world := w', inflight := (inflight s)(i := None)\<rparr>)"

inductive elect_reach :: "'w lease_read_fn \<Rightarrow> 'w lease_write_fn \<Rightarrow> (string \<Rightarrow> duration) \<Rightarrow> 'w \<Rightarrow> 'w cluster \<Rightarrow> bool"
  for rd wr dur w0 where
  start: "elect_reach rd wr dur w0 \<lparr>world = w0, inflight = Map.empty\<rparr>"
| step: "elect_reach rd wr dur w0 s \<Longrightarrow> elect_step rd wr dur s t \<Longrightarrow> elect_reach rd wr dur w0 t"

section \<open>Helper lemmas\<close>

named_theorems lease_defs \<open>the elector's decisions, for unfolding\<close>

declare acquire_decide_def [lease_defs] renew_decide_def [lease_defs] release_decide_def [lease_defs]
  decide_def [lease_defs] heldBy_def [lease_defs] free_def [lease_defs]

lemma decide_update:
  assumes "decide p e now a = Inl (Update l' v)"
  obtains l where "a = Inr (l, v)"
    and "heldBy l (identity e) \<or> free l \<or> (p = OpAcquire \<and> expired l now)"
    and "holderIdentity l' = Some (identity e) \<or> (p = OpRelease \<and> heldBy l (identity e))"
  using assms
  by (cases p; cases a rule: sum.exhaust)
    (auto simp: decide_def acquire_decide_def renew_decide_def release_decide_def heldBy_def
      split: api_error.splits if_splits prod.splits)

text \<open>A request in flight was decided on an answer that is still current, or its version is past.\<close>

definition flights_ok :: "(string \<Rightarrow> duration) \<Rightarrow> ('w \<Rightarrow> (lease \<times> nat) option) \<Rightarrow> 'w cluster \<Rightarrow> bool" where
  "flights_ok dur stored s \<longleftrightarrow> (\<forall>i f. inflight s i = Some f \<longrightarrow>
     decide (op_of f) \<lparr>identity = i, elector_duration = dur i\<rparr> (clock f) (answer f) = Inl (request f)
     \<and> fresh_answer (stored (world s)) (answer f))"

lemma fresh_answer_applied: "applied q st st' \<Longrightarrow> fresh_answer st a \<Longrightarrow> fresh_answer st' a"
  by (fastforce simp: applied_def fresh_answer_def split: lease_write.splits)

lemma elect_step_flights_ok:
  assumes srv: "lease_server rd wr stored"
  shows "elect_step rd wr dur s t \<Longrightarrow> flights_ok dur stored s \<Longrightarrow> flights_ok dur stored t"
proof (induction rule: elect_step.induct)
  case (read_write s i w' a p now q)
  have "stored w' = stored (world s)" using lease_server_read(1) [OF srv read_write(2)] .
  moreover have "fresh_answer (stored (world s)) a"
    using lease_server_read(2) [OF srv read_write(2)] by (auto simp: fresh_answer_def)
  ultimately show ?case using read_write by (auto simp: flights_ok_def)
next
  case (read_stop s i w' a p now res)
  then show ?case using lease_server_read(1) [OF srv read_stop(2)] by (auto simp: flights_ok_def)
next
  case (send_write s i f w' err)
  then show ?case using lease_server_write(1) [OF srv send_write(2)]
    by (auto simp: flights_ok_def intro: fresh_answer_applied)
qed

lemma elect_reach_flights_ok:
  assumes "lease_server rd wr stored" "elect_reach rd wr dur w0 s"
  shows "flights_ok dur stored s"
  using assms(2)
  by (induction rule: elect_reach.induct)
    (auto simp: flights_ok_def [of _ _ "\<lparr>world = _, inflight = Map.empty\<rparr>"] intro: elect_step_flights_ok [OF assms(1)])

section \<open>Properties\<close>

text \<open>
  C1. In every interleaving of any number of pods' Acquire, Renew and Release, over any API server with
  optimistic concurrency, a named holder stops being the holder in one step only if the writing pod is that
  holder itself giving the lease up, or another pod that acquires it after it had expired by that pod's clock
  (read before its Get).
\<close>

theorem lease_lost_only_by_release_or_expiry:
  assumes srv: "lease_server rd wr stored"
    and reach: "elect_reach rd wr dur w0 s" and step: "elect_step rd wr dur s t"
    and before: "stored (world s) = Some (l, v)" "holderIdentity l = Some h" "h \<noteq> []"
    and after: "stored (world t) = Some (l', v')" "holderIdentity l' \<noteq> Some h"
  shows "\<exists>i f. inflight s i = Some f \<and>
     ((i = h \<and> op_of f = OpRelease) \<or>
      (i \<noteq> h \<and> op_of f = OpAcquire \<and> expired l (clock f) \<and> holderIdentity l' = Some i))"
  using step
proof (cases rule: elect_step.cases)
  case (read_write i w' a p now q)
  then show ?thesis using lease_server_read(1) [OF srv read_write(3)] before after by simp
next
  case (read_stop i w' a p now res)
  then show ?thesis using lease_server_read(1) [OF srv read_stop(3)] before after by simp
next
  case (send_write i f w' err)
  have "applied (request f) (stored (world s)) (stored (world t))"
    using lease_server_write(1) [OF srv send_write(3)] before after send_write(1) by auto
  then have req: "request f = Update l' v"
    using before(1) after(1) by (auto simp: applied_def split: lease_write.splits)
  have ok: "decide (op_of f) \<lparr>identity = i, elector_duration = dur i\<rparr> (clock f) (answer f) = Inl (Update l' v)"
    "fresh_answer (stored (world s)) (answer f)"
    using elect_reach_flights_ok [OF srv reach] send_write(2) req by (auto simp: flights_ok_def)
  obtain l0 where l0: "answer f = Inr (l0, v)"
    "heldBy l0 i \<or> free l0 \<or> (op_of f = OpAcquire \<and> expired l0 (clock f))"
    "holderIdentity l' = Some i \<or> (op_of f = OpRelease \<and> heldBy l0 i)"
    using ok(1) by (rule decide_update) simp
  have "l0 = l" using ok(2) before(1) l0(1) by (auto simp: fresh_answer_def)
  then show ?thesis using l0 before after send_write(2) by (auto simp: heldBy_def free_def)
qed

definition demo_lease :: lease where
  "demo_lease = \<lparr>holderIdentity = Some ''a'', leaseDurationSeconds = Some 15, acquireTime = Some 0,
     renewTime = Some 0, annotations = []\<rparr>"

definition demo_taken :: lease where
  "demo_taken = demo_lease\<lparr>acquireTime := Some (16000000000), holderIdentity := Some ''b'',
     leaseDurationSeconds := Some 15, renewTime := Some (16000000000)\<rparr>"

definition demo_flight :: flight where
  "demo_flight = \<lparr>op_of = OpAcquire, clock = 16000000000, answer = Inr (demo_lease, 7), request = Update demo_taken 7\<rparr>"

lemma demo_decide:
  "decide OpAcquire \<lparr>identity = ''b'', elector_duration = 0\<rparr> (16000000000) (Inr (demo_lease, 7)) = Inl (Update demo_taken 7)"
  by (simp add: lease_defs expired_def demo_lease_def demo_taken_def seconds_def DefaultDuration_def
      go_div_def wrap32_def Let_def)

theorem lease_lost_only_by_release_or_expiry_witness:
  "\<exists>i f. [''b'' \<mapsto> demo_flight] i = Some f \<and>
     ((i = ''a'' \<and> op_of f = OpRelease) \<or>
      (i \<noteq> ''a'' \<and> op_of f = OpAcquire \<and> expired demo_lease (clock f) \<and> holderIdentity demo_taken = Some i))"
proof -
  let ?s = "\<lparr>world = Some (demo_lease, 7), inflight = [''b'' \<mapsto> demo_flight]\<rparr>"
  let ?t = "\<lparr>world = Some (demo_taken, 8), inflight = Map.empty\<rparr>"
  have "elect_step register_read register_write (\<lambda>_. 0) \<lparr>world = Some (demo_lease, 7), inflight = Map.empty\<rparr> ?s"
    using read_write [of "\<lparr>world = Some (demo_lease, 7), inflight = Map.empty\<rparr>" "''b''" register_read
        "Some (demo_lease, 7)" "Inr (demo_lease, 7)" OpAcquire "\<lambda>_. 0" "16000000000" "Update demo_taken 7" register_write]
    by (simp add: register_read_def demo_decide demo_flight_def)
  then have "elect_reach register_read register_write (\<lambda>_. 0) (Some (demo_lease, 7)) ?s"
    by (rule elect_reach.step [OF elect_reach.start])
  moreover have "elect_step register_read register_write (\<lambda>_. 0) ?s ?t"
    using send_write [of ?s "''b''" demo_flight register_write "Some (demo_taken, 8)" None register_read "\<lambda>_. 0"]
    by (simp add: register_write_def demo_flight_def)
  ultimately show ?thesis
    using lease_lost_only_by_release_or_expiry [OF register_lease_server, of "\<lambda>_. 0" "Some (demo_lease, 7)" ?s ?t
        demo_lease 7 "''a''" demo_taken 8]
    by (simp add: demo_lease_def demo_taken_def)
qed

lemma elector_effects:
  assumes srv: "lease_server rd wr stored" and id: "identity e \<noteq> []"
  shows "Acquire rd wr e now w = (w', None) \<Longrightarrow> \<exists>l v. stored w' = Some (l, v) \<and> heldBy l (identity e)
           \<and> renewTime l = Some now \<and> leaseDurationSeconds l = Some (seconds e)"
    and "Renew rd wr e now w = (w', None) \<Longrightarrow> \<exists>l v. stored w' = Some (l, v) \<and> heldBy l (identity e) \<and> renewTime l = Some now"
    and "stored w = Some (l0, v0) \<Longrightarrow> \<not> heldBy l0 (identity e) \<Longrightarrow>
           stored (fst (Renew rd wr e now w)) = stored w \<and> stored (fst (Release rd wr e w)) = stored w"
proof -
  obtain w1 a where rd: "rd w = (w1, a)" by fastforce
  note r = lease_server_read [OF srv rd]
  note wr = lease_server_write(2) [OF srv]
  show "\<exists>l v. stored w' = Some (l, v) \<and> heldBy l (identity e) \<and> renewTime l = Some now \<and> leaseDurationSeconds l = Some (seconds e)"
    if "Acquire rd wr e now w = (w', None)"
    using that id rd
    by (fastforce simp: Acquire_def call_def acquire_decide_def heldBy_def free_def applied_def
        split: sum.splits api_error.splits prod.splits if_splits dest!: wr)
  show "\<exists>l v. stored w' = Some (l, v) \<and> heldBy l (identity e) \<and> renewTime l = Some now"
    if "Renew rd wr e now w = (w', None)"
    using that rd
    by (fastforce simp: Renew_def call_def renew_decide_def heldBy_def free_def applied_def
        split: sum.splits prod.splits if_splits dest!: wr)
  show "stored (fst (Renew rd wr e now w)) = stored w \<and> stored (fst (Release rd wr e w)) = stored w"
    if "stored w = Some (l0, v0)" "\<not> heldBy l0 (identity e)"
    using that rd r
    by (auto simp: Renew_def Release_def call_def renew_decide_def release_decide_def
        split: sum.splits api_error.splits prod.splits)
qed



end
