(* ===== verification/Plex_Election.thy ===== *)
theory Plex_Election
  imports Kube_Lease
begin

text \<open>
  What the lease decides on a pod: \<open>src/cmd/manager/elect.go\<close> (the loop that competes for the lease and
  holds it, taking and releasing the connection to plex.tv, the health watch of Plex) and
  \<open>src/pkg/plex/net/egress.go\<close> (the guard that keeps the firewall's block list in step with the lease). The
  DNS resolver and the firewall are parameters: \<open>resolve\<close> answers a host, \<open>set_ok\<close> says whether a write of
  the block list succeeds.
\<close>

section \<open>The egress guard\<close>

datatype 'a lookup = Addrs "'a list" | NoSuchHost | LookupError

record 'a guard =
  hosts :: "string list"
  block_all :: bool
  applied_set :: "'a list"
  applied_valid :: bool

definition DefaultBlockedHosts :: "string list" where
  "DefaultBlockedHosts = [''plex.tv'', ''pubsub.plex.tv'', ''plex.direct'', ''metrics.plex.tv'']"

datatype egress_error = ResolvedNone | SetFailed

definition guard_hosts :: "'a guard \<Rightarrow> string list" where
  "guard_hosts g = (if hosts g = [] then DefaultBlockedHosts else hosts g)"

definition wanted :: "'a::linorder guard \<Rightarrow> (string \<Rightarrow> 'a lookup) \<Rightarrow> bool \<Rightarrow> egress_error + 'a list" where
  "wanted g resolve holds =
     (if holds \<and> \<not> block_all g then Inr []
      else let addrs = concat (map (\<lambda>h. case resolve h of Addrs as \<Rightarrow> as | NoSuchHost \<Rightarrow> [] | LookupError \<Rightarrow> []) (guard_hosts g))
           in if addrs = [] then Inl ResolvedNone else Inr (remdups_adj (sort addrs)))"

text \<open>\<open>Apply\<close>: the guard after it, the block lists written to the firewall, and its error.\<close>

definition Apply :: "'a::linorder guard \<Rightarrow> (string \<Rightarrow> 'a lookup) \<Rightarrow> ('a list \<Rightarrow> bool) \<Rightarrow> bool
    \<Rightarrow> 'a guard \<times> 'a list list \<times> egress_error option" where
  "Apply g resolve set_ok holds = (case wanted g resolve holds of
      Inl err \<Rightarrow> (g, [], Some err)
    | Inr want \<Rightarrow>
        if applied_valid g \<and> applied_set g = want then (g, [], None)
        else if \<not> set_ok want then (g, [], Some SetFailed)
        else (g\<lparr>applied_set := want, applied_valid := True\<rparr>, [want], None))"

section \<open>Holding the lease\<close>

datatype role = RoleStarting | RoleLeader | RoleWorker

datatype phase = Competing | Holding

record 'a manager =
  is_starting :: bool
  is_ready :: bool
  role :: role
  leader_status :: nat
  leader_work :: bool
  guard :: "'a guard"
  firewall :: "'a list"
  phase :: phase

definition applyEgress :: "(string \<Rightarrow> 'a lookup) \<Rightarrow> ('a list \<Rightarrow> bool) \<Rightarrow> bool \<Rightarrow> 'a::linorder manager \<Rightarrow> 'a manager" where
  "applyEgress resolve set_ok holds m = (case Apply (guard m) resolve set_ok holds of
      (g, writes, _) \<Rightarrow> m\<lparr>guard := g, firewall := (if writes = [] then firewall m else last writes)\<rparr>)"

definition markReady :: "role \<Rightarrow> 'a manager \<Rightarrow> 'a manager" where
  "markReady r m = m\<lparr>is_starting := False, is_ready := True, role := r\<rparr>"

definition takePlexTV :: "(string \<Rightarrow> 'a lookup) \<Rightarrow> ('a list \<Rightarrow> bool) \<Rightarrow> 'a::linorder manager \<Rightarrow> 'a manager" where
  "takePlexTV resolve set_ok m =
     (applyEgress resolve set_ok True (markReady RoleLeader (m\<lparr>leader_status := 1\<rparr>)))\<lparr>leader_work := True\<rparr>"

definition releasePlexTV :: "(string \<Rightarrow> 'a lookup) \<Rightarrow> ('a list \<Rightarrow> bool) \<Rightarrow> 'a::linorder manager \<Rightarrow> 'a manager" where
  "releasePlexTV resolve set_ok m =
     applyEgress resolve set_ok False (markReady RoleWorker (m\<lparr>leader_work := False, leader_status := 0\<rparr>))"

text \<open>One tick of \<open>holdPlexTVLease\<close> and the \<open>holdUntilLost\<close> inside it: whether the Acquire, or the Renew
  while the lease is held, succeeded.\<close>

definition hold_tick :: "(string \<Rightarrow> 'a lookup) \<Rightarrow> ('a list \<Rightarrow> bool) \<Rightarrow> bool \<Rightarrow> 'a::linorder manager \<Rightarrow> 'a manager" where
  "hold_tick resolve set_ok ok m = (case phase m of
      Competing \<Rightarrow> if ok then (takePlexTV resolve set_ok m)\<lparr>phase := Holding\<rparr> else m
    | Holding \<Rightarrow> if ok then m else (releasePlexTV resolve set_ok m)\<lparr>phase := Competing\<rparr>)"

text \<open>\<open>runPlex\<close>: the route is closed before Plex starts and before the pod competes.\<close>

definition runPlex :: "(string \<Rightarrow> 'a lookup) \<Rightarrow> ('a list \<Rightarrow> bool) \<Rightarrow> 'a::linorder manager \<Rightarrow> 'a manager" where
  "runPlex resolve set_ok m = (releasePlexTV resolve set_ok (m\<lparr>role := RoleStarting\<rparr>))\<lparr>phase := Competing\<rparr>"

text \<open>A run: each tick with the resolver and the firewall of its moment.\<close>

fun hold_run :: "((string \<Rightarrow> 'a lookup) \<times> ('a list \<Rightarrow> bool) \<times> bool) list \<Rightarrow> 'a::linorder manager \<Rightarrow> 'a manager" where
  "hold_run [] m = m"
| "hold_run ((resolve, set_ok, ok) # ts) m = hold_run ts (hold_tick resolve set_ok ok m)"

section \<open>The health watch\<close>

definition unhealthyRestartAfter :: nat where
  "unhealthyRestartAfter = 3"

text \<open>\<open>plexHealth.record\<close>: the new count of failures, and \<open>(serving, giveUp)\<close>.\<close>

definition health_record :: "nat \<Rightarrow> bool \<Rightarrow> nat \<times> bool \<times> bool" where
  "health_record n ok =
     (if ok then (0, True, False)
      else if Suc n < unhealthyRestartAfter then (Suc n, False, False)
      else (0, False, True))"

datatype check = CheckOk | CheckLibrary | CheckListener

record watch =
  failures :: nat
  library_answered :: bool
  library_waiting :: bool

text \<open>One tick of \<open>watchPlexHealth\<close>: \<open>None\<close> where the loop continues without recording the check.\<close>

definition watch_tick :: "watch \<Rightarrow> check \<Rightarrow> watch \<times> (bool \<times> bool) option" where
  "watch_tick s c =
     (if c = CheckLibrary \<and> \<not> library_answered s then (s\<lparr>library_waiting := True\<rparr>, None)
      else let s1 = (case c of
               CheckOk \<Rightarrow> s\<lparr>library_answered := True, library_waiting := False\<rparr>
             | CheckLibrary \<Rightarrow> s
             | CheckListener \<Rightarrow> s\<lparr>library_answered := False, library_waiting := False\<rparr>);
             (n, serving, giveUp) = health_record (failures s1) (c = CheckOk);
             s2 = s1\<lparr>failures := n\<rparr>
           in (if \<not> serving \<and> giveUp then s2\<lparr>library_answered := False, library_waiting := False\<rparr> else s2,
               Some (serving, giveUp)))"

fun watch_run :: "watch \<Rightarrow> check list \<Rightarrow> watch \<times> (bool \<times> bool) option list" where
  "watch_run s [] = (s, [])"
| "watch_run s (c # cs) = (case watch_tick s c of (s', o1) \<Rightarrow> (case watch_run s' cs of (s'', os) \<Rightarrow> (s'', o1 # os)))"

definition watch_init :: watch where
  "watch_init = \<lparr>failures = 0, library_answered = False, library_waiting = False\<rparr>"

section \<open>Lemmas\<close>

definition guard_in_step :: "'a manager \<Rightarrow> bool" where
  "guard_in_step m \<longleftrightarrow> (applied_valid (guard m) \<longrightarrow> applied_set (guard m) = firewall m)"

lemma applyEgress_frame [simp]:
  "phase (applyEgress r so h m) = phase m" "leader_status (applyEgress r so h m) = leader_status m"
  "leader_work (applyEgress r so h m) = leader_work m" "role (applyEgress r so h m) = role m"
  "is_ready (applyEgress r so h m) = is_ready m" "is_starting (applyEgress r so h m) = is_starting m"
  by (simp_all add: applyEgress_def split: prod.splits)

lemma markReady_frame [simp]:
  "phase (markReady r m) = phase m" "leader_status (markReady r m) = leader_status m"
  "guard (markReady r m) = guard m" "firewall (markReady r m) = firewall m" "role (markReady r m) = r"
  "is_ready (markReady r m)"
  by (simp_all add: markReady_def)

lemma applyEgress_in_step: "guard_in_step m \<Longrightarrow> guard_in_step (applyEgress r so h m)"
  by (auto simp: guard_in_step_def applyEgress_def Apply_def split: sum.splits if_splits)

lemma guard_in_step_cong: "guard m' = guard m \<Longrightarrow> firewall m' = firewall m \<Longrightarrow> guard_in_step m' = guard_in_step m"
  by (simp add: guard_in_step_def)

lemma guard_in_step_upd [simp]:
  "guard_in_step (markReady r m) = guard_in_step m" "guard_in_step (m\<lparr>leader_status := x\<rparr>) = guard_in_step m"
  "guard_in_step (m\<lparr>leader_work := y\<rparr>) = guard_in_step m" "guard_in_step (m\<lparr>phase := p\<rparr>) = guard_in_step m"
  "guard_in_step (m\<lparr>role := rr\<rparr>) = guard_in_step m"
  by (simp_all add: guard_in_step_def)

lemma guard_block_all_Apply: "block_all (guard (applyEgress r so h m)) = block_all (guard m)"
  by (auto simp: applyEgress_def Apply_def split: sum.splits if_splits)

definition leads :: "'a manager \<Rightarrow> bool" where
  "leads m \<longleftrightarrow> (case phase m of
      Holding \<Rightarrow> leader_status m = 1 \<and> leader_work m \<and> role m = RoleLeader
    | Competing \<Rightarrow> leader_status m = 0 \<and> \<not> leader_work m \<and> role m = RoleWorker) \<and> is_ready m"

lemma hold_tick_leads: "leads m \<Longrightarrow> leads (hold_tick r so ok m)"
  by (cases "phase m") (simp_all add: leads_def hold_tick_def takePlexTV_def releasePlexTV_def markReady_def)

lemma hold_tick_in_step: "guard_in_step m \<Longrightarrow> guard_in_step (hold_tick r so ok m)"
  by (cases "phase m") (simp_all add: hold_tick_def takePlexTV_def releasePlexTV_def applyEgress_in_step)

lemma applyEgress_success:
  assumes "guard_in_step m" "wanted (guard m) r h = Inr want" "so want"
  shows "firewall (applyEgress r so h m) = want"
  using assms by (auto simp: applyEgress_def Apply_def guard_in_step_def)

lemma wanted_closed:
  assumes "wanted g r False = Inr want" "r h = Addrs as" "h \<in> set (guard_hosts g)"
  shows "set as \<subseteq> set want"
  using assms by (force simp: wanted_def Let_def split: if_splits)

section \<open>Properties\<close>


definition demo_manager :: "nat manager" where
  "demo_manager = \<lparr>is_starting = True, is_ready = False, role = RoleStarting, leader_status = 0, leader_work = False,
     guard = \<lparr>hosts = [''plex.tv''], block_all = False, applied_set = [], applied_valid = False\<rparr>,
     firewall = [], phase = Competing\<rparr>"


text \<open>
  A pod that gives the lease up drops every address its hosts resolve to, and a pod that takes it opens its
  route unless the guard blocks every pod, provided the firewall accepts the write and, to close, some host resolves.
\<close>

theorem egress_follows_the_lease:
  assumes "guard_in_step m" and "\<And>want. so want"
  shows "(\<not> block_all (guard m) \<longrightarrow> firewall (takePlexTV r so m) = [])
    \<and> (\<forall>h as a. h \<in> set (guard_hosts (guard m)) \<longrightarrow> r h = Addrs as \<longrightarrow> a \<in> set as \<longrightarrow> a \<in> set (firewall (releasePlexTV r so m)))"
proof (intro conjI impI allI)
  assume "\<not> block_all (guard m)"
  then show "firewall (takePlexTV r so m) = []"
    using applyEgress_success [of "markReady RoleLeader (m\<lparr>leader_status := 1\<rparr>)" r True "[]" so] assms
    by (simp add: takePlexTV_def wanted_def)
next
  fix h as a assume h: "h \<in> set (guard_hosts (guard m))" "r h = Addrs as" "a \<in> set as"
  let ?m = "markReady RoleWorker (m\<lparr>leader_work := False, leader_status := 0\<rparr>)"
  obtain want where want: "wanted (guard m) r False = Inr want"
    using h by (cases "wanted (guard m) r False") (force simp: wanted_def Let_def split: if_splits)+
  then have "firewall (releasePlexTV r so m) = want"
    using applyEgress_success [of ?m r False want so] assms by (simp add: releasePlexTV_def)
  then show "a \<in> set (firewall (releasePlexTV r so m))" using wanted_closed [OF want h(2,1)] h(3) by auto
qed

theorem egress_follows_the_lease_witness:
  "firewall (takePlexTV (\<lambda>_. Addrs [7]) (\<lambda>_. True) demo_manager) = []
   \<and> 7 \<in> set (firewall (releasePlexTV (\<lambda>_. Addrs [7]) (\<lambda>_. True) demo_manager))"
proof -
  have "guard_in_step demo_manager" by (simp add: guard_in_step_def demo_manager_def)
  from egress_follows_the_lease [OF this, of "\<lambda>_. True" "\<lambda>_. Addrs [7]"] show ?thesis
    by (simp add: demo_manager_def guard_hosts_def)
qed

text \<open>
  The guard fails open: a pod that held the lease with its route open and gives it up while no host resolves
  keeps its route open (empty block list), although it is no longer the leader.
\<close>

theorem egress_stays_open_without_dns:
  assumes "phase m = Holding" and "firewall m = []" and "\<And>h. r h = LookupError"
  shows "phase (hold_tick r so False m) = Competing \<and> leader_status (hold_tick r so False m) = 0
    \<and> firewall (hold_tick r so False m) = []"
proof -
  have "concat (map (\<lambda>h. case r h of Addrs as \<Rightarrow> as | NoSuchHost \<Rightarrow> [] | LookupError \<Rightarrow> []) hs) = []" for hs
    using assms(3) by simp
  then have "wanted g r False = Inl ResolvedNone" for g by (simp add: wanted_def Let_def)
  then show ?thesis using assms(1,2) by (simp add: hold_tick_def releasePlexTV_def applyEgress_def Apply_def)
qed

theorem egress_stays_open_without_dns_witness:
  "phase (hold_tick (\<lambda>_. LookupError) (\<lambda>_. True) False (demo_manager\<lparr>phase := Holding\<rparr>)) = Competing
   \<and> leader_status (hold_tick (\<lambda>_. LookupError) (\<lambda>_. True) False (demo_manager\<lparr>phase := Holding\<rparr>)) = 0
   \<and> firewall (hold_tick (\<lambda>_. LookupError) (\<lambda>_. True) False (demo_manager\<lparr>phase := Holding\<rparr>)) = []"
  by (rule egress_stays_open_without_dns) (simp_all add: demo_manager_def)

text \<open>What the watch has recorded since Plex last served, newest first.\<close>

definition since_ok :: "(bool \<times> bool) option list \<Rightarrow> (bool \<times> bool) list" where
  "since_ok os = takeWhile (\<lambda>r. \<not> fst r) (rev (concat (map (\<lambda>r. case r of None \<Rightarrow> [] | Some x \<Rightarrow> [x]) os)))"

lemma watch_run_append:
  "watch_run s (cs @ ds) = (case watch_run s cs of (s', os) \<Rightarrow> (case watch_run s' ds of (s'', os') \<Rightarrow> (s'', os @ os')))"
  by (induction cs arbitrary: s) (simp_all split: prod.splits)

lemma since_ok_snoc:
  "since_ok (os @ [None]) = since_ok os" "since_ok (os @ [Some (True, g)]) = []"
  "since_ok (os @ [Some (False, g)]) = (False, g) # since_ok os"
  by (simp_all add: since_ok_def)

lemma watch_tick_cases:
  obtains (skip) s' where "watch_tick s c = (s', None)" "failures s' = failures s" "c = CheckLibrary" "\<not> library_answered s"
  | (ok) s' where "watch_tick s c = (s', Some (True, False))" "failures s' = 0" "c = CheckOk"
  | (miss) s' where "watch_tick s c = (s', Some (False, False))" "failures s' = Suc (failures s)" "Suc (failures s) < 3" "c \<noteq> CheckOk"
  | (give_up) s' where "watch_tick s c = (s', Some (False, True))" "failures s' = 0" "3 \<le> Suc (failures s)" "c \<noteq> CheckOk"
    "\<not> library_answered s'"
proof (cases "c = CheckLibrary \<and> \<not> library_answered s")
  case True
  then show thesis by (intro skip [of "s\<lparr>library_waiting := True\<rparr>"]) (simp_all add: watch_tick_def)
next
  case notskip: False
  show thesis
  proof (cases "c = CheckOk")
    case True
    then show thesis
      by (intro ok [of "s\<lparr>library_answered := True, library_waiting := False, failures := 0\<rparr>"])
        (simp_all add: watch_tick_def health_record_def)
  next
    case False
    with notskip show thesis
      by (cases "Suc (failures s) < 3"; cases c; intro miss give_up)
        (auto simp: watch_tick_def health_record_def unhealthyRestartAfter_def)
  qed
qed

text \<open>
  In every run of the health watch the count of failures is the number of misses recorded since Plex last
  served, modulo three, and recovery is asked for at exactly every third of those misses; a check that fails only
  for the library, before the library has answered in this life of Plex, is not recorded and changes no count.
\<close>

theorem health_watch_restarts_every_third_miss:
  "case watch_run watch_init cs of (s, os) \<Rightarrow>
     failures s = length (since_ok os) mod 3
   \<and> (\<forall>k < length (since_ok os). snd (since_ok os ! k) = ((length (since_ok os) - k) mod 3 = 0))
   \<and> (\<not> library_answered s \<longrightarrow> watch_tick s CheckLibrary = (s\<lparr>library_waiting := True\<rparr>, None))"
proof (induction cs rule: rev_induct)
  case Nil
  show ?case by (simp add: watch_init_def since_ok_def watch_tick_def)
next
  case (snoc c cs)
  obtain s os where run: "watch_run watch_init cs = (s, os)" by fastforce
  let ?m = "since_ok os"
  have f: "failures s = length ?m mod 3"
    and g: "\<And>k. k < length ?m \<Longrightarrow> snd (?m ! k) = ((length ?m - k) mod 3 = 0)"
    using snoc run by auto
  have lib: "\<not> library_answered s' \<longrightarrow> watch_tick s' CheckLibrary = (s'\<lparr>library_waiting := True\<rparr>, None)" for s'
    by (simp add: watch_tick_def)
  show ?case
  proof (cases rule: watch_tick_cases [of s c])
    case (skip s')
    then show ?thesis using run f g lib by (simp add: watch_run_append since_ok_snoc)
  next
    case (ok s')
    then show ?thesis using run lib by (simp add: watch_run_append since_ok_snoc)
  next
    case (miss s')
    have "(Suc (length ?m)) mod 3 = Suc (length ?m mod 3)" using miss(3) f by (simp add: mod_Suc)
    then show ?thesis using miss run f g lib
      by (auto simp: watch_run_append since_ok_snoc nth_Cons' less_Suc_eq_0_disj)
  next
    case (give_up s')
    have "(Suc (length ?m)) mod 3 = 0" using give_up(3) f by (simp add: mod_Suc)
    then show ?thesis using give_up run f g lib
      by (auto simp: watch_run_append since_ok_snoc nth_Cons' less_Suc_eq_0_disj)
  qed
qed

theorem health_watch_restarts_every_third_miss_witness:
  "case watch_run watch_init [CheckOk, CheckListener, CheckListener, CheckListener] of (s, os) \<Rightarrow>
     failures s = length (since_ok os) mod 3
   \<and> (\<forall>k < length (since_ok os). snd (since_ok os ! k) = ((length (since_ok os) - k) mod 3 = 0))
   \<and> (\<not> library_answered s \<longrightarrow> watch_tick s CheckLibrary = (s\<lparr>library_waiting := True\<rparr>, None))"
  by (rule health_watch_restarts_every_third_miss)

end
