(* ===== verification/Video_Lease.thy ===== *)
theory Video_Lease
  imports Kube_Lease
begin

text \<open>
  \<open>src/pkg/video/lease/lease.go\<close>: every manager publishes how many video conversions it relays as an entry of
  its own on a shared Lease, and the annotation readers take is the sum of the entries renewed within
  \<open>StaleAfter\<close>. The API server is the parameter of \<open>Kube_Lease\<close>; of client-go's \<open>RetryOnConflict\<close> the code relies on
  this only: it calls the function again after a conflict, and returns what the last call returned (\<open>renews\<close>).
  Other clients act between any two calls (\<open>env\<close>).
\<close>

section \<open>The model\<close>

definition Annotation :: string where
  "Annotation = ''clusterplex.io/active-video-transcodes''"

definition EntryPrefix :: string where
  "EntryPrefix = ''clusterplex.io/video-transcodes.''"

definition StaleAfter :: duration where
  "StaleAfter = 30 * second"

text \<open>\<open>time.Unix(s, 0)\<close>: the seconds since year 1 wrap around at 64 bits.\<close>

definition time_unix :: "int \<Rightarrow> time" where
  "time_unix s = (wrap64 (s + 62135596800) - 62135596800) * second"

definition parseEntry :: "string \<Rightarrow> (int \<times> time) option" where
  "parseEntry v = (case str_fields v of
      [a, b] \<Rightarrow> (case (parse_int a, parse_int b) of
          (Some n, Some unix) \<Rightarrow> if n < 0 then None else Some (n, time_unix unix)
        | _ \<Rightarrow> None)
    | _ \<Rightarrow> None)"

text \<open>The loop over the annotations: stale and unreadable entries are deleted, the others summed.\<close>

fun scan_entries :: "time \<Rightarrow> int \<Rightarrow> (string \<times> string) list \<Rightarrow> (string \<times> string) list \<times> int" where
  "scan_entries now acc [] = ([], acc)"
| "scan_entries now acc ((k, v) # r) =
     (if \<not> prefix EntryPrefix k then (case scan_entries now acc r of (r', s) \<Rightarrow> ((k, v) # r', s))
      else (case parseEntry v of
          None \<Rightarrow> scan_entries now acc r
        | Some (count, at) \<Rightarrow> if StaleAfter \<le> now - at then scan_entries now acc r
            else (case scan_entries now (wrap64 (acc + count)) r of (r', s) \<Rightarrow> ((k, v) # r', s))))"

definition entry_value :: "int \<Rightarrow> time \<Rightarrow> string" where
  "entry_value n now = itoa n @ '' '' @ itoa (now div second)"

definition renewed_lease :: "string \<Rightarrow> int \<Rightarrow> time \<Rightarrow> lease \<Rightarrow> lease" where
  "renewed_lease ident n now l =
     (case scan_entries now 0 (AList.update (EntryPrefix @ ident) (entry_value n now) (annotations l)) of (al, tot) \<Rightarrow>
        l\<lparr>annotations := AList.update Annotation (itoa tot) al,
          holderIdentity := Some ident, renewTime := Some now,
          leaseDurationSeconds := Some (go_div StaleAfter second)\<rparr>)"

definition empty_lease :: lease where
  "empty_lease = \<lparr>holderIdentity = None, leaseDurationSeconds = None, acquireTime = None, renewTime = None, annotations = []\<rparr>"

datatype renew_error = VGet api_error | VConflict | VCreate api_error | VUpdate api_error

text \<open>What one attempt of \<open>Renew\<close> writes after its Get, and how it reads the answer to the write.\<close>

definition renew_write :: "string \<Rightarrow> int \<Rightarrow> time \<Rightarrow> lease_answer \<Rightarrow> renew_error option + lease_write" where
  "renew_write i n now a = (case a of
      Inl NotFound \<Rightarrow> Inr (Create (renewed_lease i n now empty_lease))
    | Inl err \<Rightarrow> Inl (Some (VGet err))
    | Inr (l, v) \<Rightarrow> Inr (Update (renewed_lease i n now l) v))"

definition renew_result :: "lease_write \<Rightarrow> api_error option \<Rightarrow> renew_error option" where
  "renew_result q e = (case e of None \<Rightarrow> None | Some err \<Rightarrow> (case q of
      Create _ \<Rightarrow> if err = AlreadyExists then Some VConflict else Some (VCreate err)
    | Update _ _ \<Rightarrow> if err = Conflict then Some VConflict else Some (VUpdate err)))"

definition renews :: "('w \<Rightarrow> 'w \<Rightarrow> bool) \<Rightarrow> 'w lease_read_fn \<Rightarrow> 'w lease_write_fn \<Rightarrow> string \<Rightarrow> int \<Rightarrow> time
    \<Rightarrow> 'w \<Rightarrow> 'w \<Rightarrow> 'w \<Rightarrow> renew_error option \<Rightarrow> bool" where
  "renews env rd wr i n now = retried env rd wr (renew_write i n now) renew_result (\<lambda>r. r = Some VConflict)"

text \<open>The counter: \<open>add\<close> changes the count and publishes it; \<open>Begin\<close> adds one and its end, only the first time it is
  called, takes it away; \<open>Run\<close> renews at a tick while the count is not zero. Each returns the count it hands to
  \<open>Renew\<close>, whose error is only logged.\<close>

record counter =
  ident :: string
  running :: int

definition counter_add :: "int \<Rightarrow> counter \<Rightarrow> counter \<times> int option" where
  "counter_add d c = (let c1 = c\<lparr>running := running c + d\<rparr> in (c1, Some (running c1)))"

definition counter_begin :: "counter \<Rightarrow> counter \<times> int option" where
  "counter_begin c = counter_add 1 c"

definition counter_end :: "bool \<Rightarrow> counter \<Rightarrow> bool \<times> counter \<times> int option" where
  "counter_end ended c = (True, if ended then (c, None) else counter_add (-1) c)"

definition counter_tick :: "counter \<Rightarrow> int option" where
  "counter_tick c = (if running c = 0 then None else Some (running c))"

text \<open>What a reader takes from the Lease.\<close>

definition Count :: "lease option \<Rightarrow> time \<Rightarrow> int" where
  "Count lo now = (case lo of None \<Rightarrow> 0 | Some l \<Rightarrow> (case renewTime l of None \<Rightarrow> 0
     | Some r \<Rightarrow> if StaleAfter \<le> now - r then 0
         else (case parse_int (case map_of (annotations l) Annotation of None \<Rightarrow> [] | Some v \<Rightarrow> v) of
             None \<Rightarrow> 0 | Some n \<Rightarrow> if n < 0 then 0 else n)))"

section \<open>Specification of the scan\<close>

definition is_entry :: "string \<times> string \<Rightarrow> bool" where
  "is_entry kv \<longleftrightarrow> prefix EntryPrefix (fst kv)"

definition fresh_count :: "time \<Rightarrow> string \<times> string \<Rightarrow> int option" where
  "fresh_count now kv = (case parseEntry (snd kv) of Some (c, at) \<Rightarrow> if StaleAfter \<le> now - at then None else Some c | None \<Rightarrow> None)"

definition kept :: "time \<Rightarrow> string \<times> string \<Rightarrow> bool" where
  "kept now kv \<longleftrightarrow> \<not> is_entry kv \<or> fresh_count now kv \<noteq> None"

definition fresh_sum :: "time \<Rightarrow> (string \<times> string) list \<Rightarrow> int" where
  "fresh_sum now al = (\<Sum>kv \<leftarrow> filter is_entry al. case fresh_count now kv of None \<Rightarrow> 0 | Some c \<Rightarrow> c)"

lemma wrap64_add [simp]: "wrap64 (wrap64 a + b) = wrap64 (a + b)"
proof -
  have "((a + 2 ^ 63) mod 2 ^ 64 - 2 ^ 63 + b + 2 ^ 63) mod 2 ^ 64 = ((a + 2 ^ 63) mod 2 ^ 64 + b) mod (2 ^ 64 :: int)"
    by (simp add: algebra_simps)
  also have "\<dots> = (a + 2 ^ 63 + b) mod 2 ^ 64" by (rule mod_add_left_eq)
  finally show ?thesis by (simp add: wrap64_def algebra_simps)
qed

lemma scan_entries_spec:
  "fst (scan_entries now acc al) = filter (kept now) al
   \<and> wrap64 (snd (scan_entries now acc al)) = wrap64 (acc + fresh_sum now al)"
proof (induction now acc al rule: scan_entries.induct)
  case (2 now acc k v r)
  show ?case
  proof (cases "is_entry (k, v)")
    case False
    with 2 show ?thesis by (simp add: kept_def is_entry_def fresh_sum_def case_prod_beta)
  next
    case entry: True
    show ?thesis
    proof (cases "fresh_count now (k, v)")
      case None
      with 2 entry show ?thesis
        by (auto simp: kept_def is_entry_def fresh_sum_def fresh_count_def split: option.splits if_splits)
    next
      case (Some c)
      then obtain at where "parseEntry v = Some (c, at)" "\<not> StaleAfter \<le> now - at"
        by (auto simp: fresh_count_def split: option.splits if_splits)
      with 2 entry Some show ?thesis
        by (simp add: kept_def is_entry_def fresh_sum_def case_prod_beta add.assoc)
    qed
  qed
qed (simp add: fresh_sum_def)

lemma wrap64_in_range: "in_int64 (wrap64 a)"
  by (simp add: in_int64_def wrap64_def)

lemma scan_entries_in_range: "in_int64 acc \<Longrightarrow> in_int64 (snd (scan_entries now acc al))"
  by (induction now acc al rule: scan_entries.induct)
    (simp_all add: wrap64_in_range case_prod_beta split: option.splits)

lemma scan_entries_sum: "in_int64 (fresh_sum now al) \<Longrightarrow> snd (scan_entries now 0 al) = fresh_sum now al"
proof -
  assume "in_int64 (fresh_sum now al)"
  moreover have "in_int64 (snd (scan_entries now 0 al))"
    by (rule scan_entries_in_range) (simp add: in_int64_def)
  ultimately show ?thesis using scan_entries_spec [of now 0 al] by (simp add: wrap64_id)
qed

lemma Annotation_not_entry: "\<not> prefix EntryPrefix Annotation"
  by (simp add: EntryPrefix_def Annotation_def)

lemma map_of_filter_kept:
  "map_of al k = Some v \<Longrightarrow> kept now (k, v) \<Longrightarrow> map_of (filter (kept now) al) k = Some v"
  by (induction al) (auto split: if_splits)

lemma map_of_filter_dropped:
  "distinct (map fst al) \<Longrightarrow> map_of al k = Some v \<Longrightarrow> \<not> kept now (k, v) \<Longrightarrow> map_of (filter (kept now) al) k = None"
  by (induction al) (force simp: map_of_eq_None_iff split: if_splits)+

lemma parseEntry_entry_value:
  assumes "0 \<le> n" "in_int64 n" "0 \<le> now" "now < 2 ^ 62"
  shows "parseEntry (entry_value n now) = Some (n, (now div second) * second)"
proof -
  let ?u = "now div second"
  have u: "0 \<le> ?u" "?u < 2 ^ 62" using assms(3,4) by auto
  then have iu: "in_int64 ?u" "in_int64 (?u + 62135596800)" by (simp_all add: in_int64_def)
  have "str_fields (entry_value n now) = [itoa n, itoa ?u]"
    using str_fields_two [of "itoa n" "itoa ?u"] itoa_no_space by (simp add: entry_value_def)
  then show ?thesis using assms iu by (simp add: parseEntry_def time_unix_def wrap64_id)
qed

lemma fresh_count_own:
  assumes "0 \<le> n" "in_int64 n" "0 \<le> now" "now < 2 ^ 62"
  shows "fresh_count now (k, entry_value n now) = Some n"
proof -
  have "now - now div second * second = now mod second" by (simp add: minus_div_mult_eq_mod)
  moreover have "now mod second < second" by simp
  ultimately have "\<not> StaleAfter \<le> now - now div second * second" unfolding StaleAfter_def by linarith
  then show ?thesis by (simp add: fresh_count_def parseEntry_entry_value [OF assms])
qed

lemma annotations_renewed:
  "annotations (renewed_lease i n now l) =
     AList.update Annotation (itoa (snd (scan_entries now 0 (AList.update (EntryPrefix @ i) (entry_value n now) (annotations l)))))
       (filter (kept now) (AList.update (EntryPrefix @ i) (entry_value n now) (annotations l)))"
  using scan_entries_spec [of now 0 "AList.update (EntryPrefix @ i) (entry_value n now) (annotations l)"]
  by (auto simp: renewed_lease_def split: prod.splits)

section \<open>Properties\<close>

text \<open>
  A renewed Lease reads back exactly: until it goes stale, a reader's Count is the sum of the entries that
  were fresh at the renewal, the renewing manager's own count among them.
\<close>

theorem renewed_lease_count:
  fixes l :: lease and i :: string and n now now' :: int
  defines "al \<equiv> AList.update (EntryPrefix @ i) (entry_value n now) (annotations l)"
  assumes "0 \<le> n" and "0 \<le> now" and "now < 2 ^ 62"
    and "in_int64 (fresh_sum now al)" and "in_int64 n" and "now' < now + StaleAfter"
  shows "Count (Some (renewed_lease i n now l)) now' = max 0 (fresh_sum now al)
    \<and> fresh_count now (EntryPrefix @ i, entry_value n now) = Some n"
proof -
  have "snd (scan_entries now 0 al) = fresh_sum now al" using assms(5) by (rule scan_entries_sum)
  then have ann: "map_of (annotations (renewed_lease i n now l)) Annotation = Some (itoa (fresh_sum now al))"
    by (simp add: annotations_renewed al_def update_conv)
  have "renewTime (renewed_lease i n now l) = Some now" by (simp add: renewed_lease_def split: prod.splits)
  then have "Count (Some (renewed_lease i n now l)) now' = max 0 (fresh_sum now al)"
    using ann assms(5,7) by (simp add: Count_def)
  moreover have "fresh_count now (EntryPrefix @ i, entry_value n now) = Some n"
    using assms(2,6,3,4) by (rule fresh_count_own)
  ultimately show ?thesis ..
qed

definition demo_shared :: lease where
  "demo_shared = empty_lease\<lparr>annotations := [(EntryPrefix @ ''b'', ''2 95''), (EntryPrefix @ ''c'', ''4 10'')]\<rparr>"

theorem renewed_lease_count_witness:
  "Count (Some (renewed_lease ''a'' 1 (100 * second) demo_shared)) (110 * second) = 3
   \<and> fresh_count (100 * second) (EntryPrefix @ ''a'', entry_value 1 (100 * second)) = Some 1"
proof -
  have sum: "fresh_sum (100 * second)
      (AList.update (EntryPrefix @ ''a'') (entry_value 1 (100 * second)) (annotations demo_shared)) = 3"
    by code_simp
  show ?thesis
    using renewed_lease_count [of 1 "100 * second" "''a''" demo_shared "110 * second"] sum
    by (simp add: in_int64_def StaleAfter_def)
qed

definition keeps_entries :: "time \<Rightarrow> string \<Rightarrow> (string \<times> string) list \<Rightarrow> (string \<times> string) list \<Rightarrow> bool" where
  "keeps_entries now i al al' \<longleftrightarrow> (\<forall>j e. j \<noteq> i \<longrightarrow> map_of al (EntryPrefix @ j) = Some e \<longrightarrow>
     (fresh_count now (EntryPrefix @ j, e) \<noteq> None \<longrightarrow> map_of al' (EntryPrefix @ j) = Some e)
   \<and> (fresh_count now (EntryPrefix @ j, e) = None \<longrightarrow> distinct (map fst al) \<longrightarrow> map_of al' (EntryPrefix @ j) = None))"

lemma entry_neq_Annotation: "EntryPrefix @ j \<noteq> Annotation"
  using Annotation_not_entry by (metis prefixI)

lemma renewed_keeps_entries: "keeps_entries now i (annotations l) (annotations (renewed_lease i n now l))"
proof -
  let ?new = "AList.update (EntryPrefix @ i) (entry_value n now) (annotations l)"
  have "map_of ?new (EntryPrefix @ j) = Some e" if "j \<noteq> i" "map_of (annotations l) (EntryPrefix @ j) = Some e" for j e
    using that by (simp add: update_conv)
  then show ?thesis
    using map_of_filter_kept [of ?new _ _ now] map_of_filter_dropped [of ?new _ _ now] entry_neq_Annotation
    by (auto simp: keeps_entries_def annotations_renewed update_conv kept_def is_entry_def)
qed

lemma renewed_own_entry:
  assumes "0 \<le> n" "in_int64 n" "0 \<le> now" "now < 2 ^ 62"
  shows "map_of (annotations (renewed_lease i n now l)) (EntryPrefix @ i) = Some (entry_value n now)"
  using map_of_filter_kept [of "AList.update (EntryPrefix @ i) (entry_value n now) (annotations l)" "EntryPrefix @ i"
      "entry_value n now" now] fresh_count_own [OF assms] entry_neq_Annotation [of i]
  by (simp add: annotations_renewed update_conv kept_def)

lemma renews_stores:
  assumes srv: "lease_server rd wr stored" and env: "lease_env stored env" and run: "renews env rd wr i n now w w2 w3 None"
  shows "\<exists>l v'. stored w3 = Some (renewed_lease i n now l, v') \<and> (stored w2 = None \<and> l = empty_lease \<or> (\<exists>v. stored w2 = Some (l, v)))"
proof -
  have "renew_write i n now a \<noteq> Inl None" for a
    by (auto simp: renew_write_def split: sum.splits api_error.splits)
  then obtain a q e where q: "renew_write i n now a = Inr q" "None = renew_result q e" "wr q w2 = (w3, e)" "fresh_answer (stored w2) a"
    using retried_last [OF srv env run [unfolded renews_def]] by metis
  have "e = None" using q(2) by (cases e; cases q) (auto simp: renew_result_def split: if_splits)
  then have "applied q (stored w2) (stored w3)" using lease_server_write(2) [OF srv q(3)] by simp
  then show ?thesis using q(1,4)
    by (auto simp: renew_write_def applied_def fresh_answer_def split: sum.splits api_error.splits)
qed

text \<open>
  C32. A successful Renew, however often it was retried and whatever other clients wrote meanwhile, stores this
  manager's entry and keeps every other manager's entry that is readable and fresh, so one manager's last
  conversion ending cannot zero another's; stale entries are dropped.
\<close>

theorem renew_keeps_other_managers:
  assumes "lease_server rd wr stored" and "lease_env stored env"
    and "renews env rd wr i n now w w2 w' None"
    and "0 \<le> n" and "in_int64 n" and "0 \<le> now" and "now < 2 ^ 62"
  shows "\<exists>l' v'. stored w' = Some (l', v') \<and> map_of (annotations l') (EntryPrefix @ i) = Some (entry_value n now)
    \<and> (\<forall>l v. stored w2 = Some (l, v) \<longrightarrow> keeps_entries now i (annotations l) (annotations l'))"
proof -
  from renews_stores [OF assms(1,2,3)] obtain l v' where
    "stored w' = Some (renewed_lease i n now l, v')"
    "stored w2 = None \<and> l = empty_lease \<or> (\<exists>v. stored w2 = Some (l, v))" by blast
  then show ?thesis
    using renewed_own_entry [OF assms(4-7), of i l] renewed_keeps_entries [of now i l n] by auto
qed

theorem renew_keeps_other_managers_witness:
  "keeps_entries (100 * second) ''a'' (annotations demo_shared) (annotations (renewed_lease ''a'' 0 (100 * second) demo_shared))
   \<and> map_of (annotations (renewed_lease ''a'' 0 (100 * second) demo_shared)) (EntryPrefix @ ''a'') = Some (entry_value 0 (100 * second))"
proof -
  let ?w = "Some (demo_shared, 4) :: (lease \<times> nat) option"
  let ?w' = "Some (renewed_lease ''a'' 0 (100 * second) demo_shared, Suc 4) :: (lease \<times> nat) option"
  have env: "lease_env (\<lambda>w. w) (=)" by (simp add: lease_env_def)
  have "renews (=) register_read register_write ''a'' 0 (100 * second) ?w ?w ?w' (renew_result (Update (renewed_lease ''a'' 0 (100 * second) demo_shared) 4) None)"
    unfolding renews_def
    by (rule retried.final [of register_read ?w ?w "Inr (demo_shared, 4)"])
      (simp_all add: register_read_def register_write_def renew_write_def)
  then have "renews (=) register_read register_write ''a'' 0 (100 * second) ?w ?w ?w' None" by (simp add: renew_result_def)
  from renew_keeps_other_managers [OF register_lease_server env this] show ?thesis by (simp add: in_int64_def)
qed

end
