(* ===== verification/Plex_Route.thy ===== *)
theory Plex_Route
  imports Kube_Lease Hash_Ring "HOL-Library.Multiset"
begin

text \<open>
  \<open>src/pkg/plex/route\<close>: which Plex can take traffic. \<open>tracker.go\<close> follows the Lease and hands the available
  target to waiting requests, \<open>publisher.go\<close> writes and clears the availability annotation on the Lease,
  \<open>pods.go\<close> lists the pods whose Plex is serving, \<open>health.go\<close> grades Plex's answers. The JSON text of a target is
  written by \<open>marshal\<close> and read by \<open>unmarshal\<close>, of which only the round trip \<open>json_law\<close> is used.
\<close>

section \<open>Targets and the availability annotation\<close>

record target =
  Pod :: string
  Address :: string
  Manager :: string

definition no_target :: target where
  "no_target = \<lparr>Pod = [], Address = [], Manager = []\<rparr>"

definition AvailabilityAnnotation :: string where
  "AvailabilityAnnotation = ''clusterplex.io/pms-availability''"

definition json_law :: "(target \<Rightarrow> string) \<Rightarrow> (string \<Rightarrow> target option) \<Rightarrow> bool" where
  "json_law marshal unmarshal \<longleftrightarrow> (\<forall>t. unmarshal (marshal t) = Some t \<and> marshal t \<noteq> [])"

text \<open>\<open>evaluate\<close>: the target a Lease describes at \<open>now\<close>, if it can take traffic.\<close>

definition evaluate :: "(string \<Rightarrow> target option) \<Rightarrow> lease \<Rightarrow> time \<Rightarrow> target \<times> bool" where
  "evaluate unmarshal l now =
     (if holderIdentity l = None \<or> holderIdentity l = Some [] \<or> expired l now then (no_target, False)
      else (case map_of (annotations l) AvailabilityAnnotation of
          None \<Rightarrow> (no_target, False)
        | Some raw \<Rightarrow> if raw = [] then (no_target, False)
            else (case unmarshal raw of
                None \<Rightarrow> (no_target, False)
              | Some t \<Rightarrow> if Address t = [] then (no_target, False)
                  else if Some (Pod t) \<noteq> holderIdentity l then (no_target, False)
                  else (t, True))))"

section \<open>The tracker\<close>

record tracker =
  tr_target :: target
  tr_ok :: bool
  tr_waiters :: "nat list"

definition tracker_init :: tracker where
  "tracker_init = \<lparr>tr_target = no_target, tr_ok = False, tr_waiters = []\<rparr>"

definition Current :: "tracker \<Rightarrow> target \<times> bool" where
  "Current t = (tr_target t, tr_ok t)"

text \<open>The first half of \<open>Wait\<close>: an available target at once, or the request's channel, here \<open>ch\<close>, queued.\<close>

definition Wait_begin :: "nat \<Rightarrow> tracker \<Rightarrow> tracker \<times> target option" where
  "Wait_begin ch t = (if tr_ok t then (t, Some (tr_target t)) else (t\<lparr>tr_waiters := tr_waiters t @ [ch]\<rparr>, None))"

text \<open>\<open>set\<close>: the tracker, what is sent to which channel, and whether the change is logged.\<close>

definition tracker_set :: "target \<times> bool \<Rightarrow> tracker \<Rightarrow> tracker \<times> (nat \<times> target) list \<times> bool" where
  "tracker_set tok t = (case tok of (tgt, ok) \<Rightarrow>
     (t\<lparr>tr_target := tgt, tr_ok := ok, tr_waiters := (if ok then [] else tr_waiters t)\<rparr>,
      (if ok then map (\<lambda>ch. (ch, tgt)) (tr_waiters t) else []),
      tr_target t \<noteq> tgt \<or> tr_ok t \<noteq> ok))"

text \<open>\<open>Refresh\<close> on the answer to its Get; an error other than not-found leaves the tracker as it is.\<close>

definition Refresh :: "(string \<Rightarrow> target option) \<Rightarrow> time \<Rightarrow> lease_answer \<Rightarrow> tracker \<Rightarrow> tracker \<times> (nat \<times> target) list \<times> api_error option" where
  "Refresh unmarshal now a t = (case a of
      Inl NotFound \<Rightarrow> (case tracker_set (no_target, False) t of (t', sent, _) \<Rightarrow> (t', sent, None))
    | Inl err \<Rightarrow> (t, [], Some err)
    | Inr (l, _) \<Rightarrow> (case tracker_set (evaluate unmarshal l now) t of (t', sent, _) \<Rightarrow> (t', sent, None)))"

text \<open>A tracker's life: requests that begin to wait (each on a channel of its own), and refreshes or watch events.\<close>

datatype track_event = EvWait nat | EvSet "target \<times> bool"

fun track_run :: "track_event list \<Rightarrow> tracker \<Rightarrow> tracker \<times> (nat \<times> target) list" where
  "track_run [] t = (t, [])"
| "track_run (EvWait ch # es) t = track_run es (fst (Wait_begin ch t))"
| "track_run (EvSet tok # es) t = (case tracker_set tok t of (t', sent, _) \<Rightarrow>
     (case track_run es t' of (t'', sent') \<Rightarrow> (t'', sent @ sent')))"

section \<open>The publisher\<close>

definition publish_mutate :: "(target \<Rightarrow> string) \<Rightarrow> target \<Rightarrow> (string \<times> string) list \<Rightarrow> (string \<times> string) list option" where
  "publish_mutate marshal t al =
     (if map_of al AvailabilityAnnotation = Some (marshal t) then None
      else Some (AList.update AvailabilityAnnotation (marshal t) al))"

definition clear_mutate :: "(string \<Rightarrow> target option) \<Rightarrow> string \<Rightarrow> (string \<times> string) list \<Rightarrow> (string \<times> string) list option" where
  "clear_mutate unmarshal pod al = (case map_of al AvailabilityAnnotation of
      None \<Rightarrow> None
    | Some raw \<Rightarrow> (case unmarshal raw of
          Some t \<Rightarrow> if Pod t \<noteq> pod then None else Some (AList.delete AvailabilityAnnotation al)
        | None \<Rightarrow> Some (AList.delete AvailabilityAnnotation al)))"

datatype publish_error = PGet api_error | PConflict | PUpdate api_error

definition publish_write :: "((string \<times> string) list \<Rightarrow> (string \<times> string) list option) \<Rightarrow> lease_answer \<Rightarrow> publish_error option + lease_write" where
  "publish_write mutate a = (case a of
      Inl NotFound \<Rightarrow> Inl None
    | Inl err \<Rightarrow> Inl (Some (PGet err))
    | Inr (l, v) \<Rightarrow> (case mutate (annotations l) of None \<Rightarrow> Inl None | Some al \<Rightarrow> Inr (Update (l\<lparr>annotations := al\<rparr>) v)))"

definition publish_result :: "lease_write \<Rightarrow> api_error option \<Rightarrow> publish_error option" where
  "publish_result q e = (case e of None \<Rightarrow> None | Some err \<Rightarrow> if err = Conflict then Some PConflict else Some (PUpdate err))"

definition publisher_update :: "('w \<Rightarrow> 'w \<Rightarrow> bool) \<Rightarrow> 'w lease_read_fn \<Rightarrow> 'w lease_write_fn
    \<Rightarrow> ((string \<times> string) list \<Rightarrow> (string \<times> string) list option) \<Rightarrow> 'w \<Rightarrow> 'w \<Rightarrow> 'w \<Rightarrow> publish_error option \<Rightarrow> bool" where
  "publisher_update env rd wr mutate = retried env rd wr (publish_write mutate) publish_result (\<lambda>r. r = Some PConflict)"

definition Publish :: "('w \<Rightarrow> 'w \<Rightarrow> bool) \<Rightarrow> 'w lease_read_fn \<Rightarrow> 'w lease_write_fn \<Rightarrow> (target \<Rightarrow> string) \<Rightarrow> string \<Rightarrow> string \<Rightarrow> string
    \<Rightarrow> 'w \<Rightarrow> 'w \<Rightarrow> 'w \<Rightarrow> publish_error option \<Rightarrow> bool" where
  "Publish env rd wr marshal pod address manager =
     publisher_update env rd wr (publish_mutate marshal \<lparr>Pod = pod, Address = address, Manager = manager\<rparr>)"

definition Clear :: "('w \<Rightarrow> 'w \<Rightarrow> bool) \<Rightarrow> 'w lease_read_fn \<Rightarrow> 'w lease_write_fn \<Rightarrow> (string \<Rightarrow> target option) \<Rightarrow> string
    \<Rightarrow> 'w \<Rightarrow> 'w \<Rightarrow> 'w \<Rightarrow> publish_error option \<Rightarrow> bool" where
  "Clear env rd wr unmarshal pod = publisher_update env rd wr (clear_mutate unmarshal pod)"

section \<open>The serving pods\<close>

record pod =
  pod_name :: string
  pod_annotations :: "(string \<times> string) list"
  pod_running :: bool
  pod_ip :: string

definition ServingAnnotation :: string where
  "ServingAnnotation = ''clusterplex.io/plex-serving''"

text \<open>\<open>net.JoinHostPort\<close>: a host holding a colon is bracketed.\<close>

definition join_host_port :: "string \<Rightarrow> int \<Rightarrow> string" where
  "join_host_port h p = (if CHR '':'' \<in> set h then ''['' @ h @ '']:'' @ itoa p else h @ '':'' @ itoa p)"

definition pod_serving :: "pod \<Rightarrow> bool" where
  "pod_serving p \<longleftrightarrow> map_of (pod_annotations p) ServingAnnotation = Some ''true'' \<and> pod_running p \<and> pod_ip p \<noteq> []"

definition pod_target :: "int \<Rightarrow> int \<Rightarrow> pod \<Rightarrow> target" where
  "pod_target port mport p = \<lparr>Pod = pod_name p, Address = join_host_port (pod_ip p) port,
     Manager = (if mport \<noteq> 0 then ''http://'' @ join_host_port (pod_ip p) mport else [])\<rparr>"

definition Serving_pods :: "int \<Rightarrow> int \<Rightarrow> pod list \<Rightarrow> target list" where
  "Serving_pods port mport pods = sort_key Pod (map (pod_target port mport) (filter pod_serving pods))"

section \<open>Health checks\<close>

datatype http_result = Status nat | NoAnswer

datatype health_error = NotServing | LibraryNotAnswering

definition health_get :: "http_result \<Rightarrow> bool" where
  "health_get r = (case r of Status s \<Rightarrow> s < 500 | NoAnswer \<Rightarrow> False)"

definition Serving :: "http_result \<Rightarrow> health_error option" where
  "Serving identity_answer = (if health_get identity_answer then None else Some NotServing)"

definition Answering :: "http_result \<Rightarrow> http_result \<Rightarrow> string \<Rightarrow> health_error option" where
  "Answering identity_answer sections_answer token = (case Serving identity_answer of
      Some e \<Rightarrow> Some e
    | None \<Rightarrow> if token = [] then None else if health_get sections_answer then None else Some LibraryNotAnswering)"

section \<open>Lemmas\<close>

definition takes_traffic :: "(string \<Rightarrow> target option) \<Rightarrow> lease \<Rightarrow> time \<Rightarrow> target \<Rightarrow> bool" where
  "takes_traffic u l now t \<longleftrightarrow> holderIdentity l = Some (Pod t) \<and> Pod t \<noteq> [] \<and> \<not> expired l now \<and> Address t \<noteq> []
     \<and> (\<exists>raw. map_of (annotations l) AvailabilityAnnotation = Some raw \<and> raw \<noteq> [] \<and> u raw = Some t)"

lemma evaluate_iff: "evaluate u l now = (t, True) \<longleftrightarrow> takes_traffic u l now t"
  by (cases "map_of (annotations l) AvailabilityAnnotation"; cases "holderIdentity l")
    (auto simp: evaluate_def takes_traffic_def split: option.splits)

lemma evaluate_not_ok: "\<not> snd (evaluate u l now) \<Longrightarrow> evaluate u l now = (no_target, False)"
  by (auto simp: evaluate_def split: if_splits option.splits)

text \<open>Every channel is queued once if the channels are fresh, and a channel that was sent to is not queued again.\<close>

fun wait_channels :: "track_event list \<Rightarrow> nat list" where
  "wait_channels [] = []"
| "wait_channels (EvWait ch # es) = ch # wait_channels es"
| "wait_channels (EvSet _ # es) = wait_channels es"

lemma track_run_delivery:
  assumes "distinct (wait_channels es @ tr_waiters t)"
  shows "distinct (map fst (snd (track_run es t)) @ tr_waiters (fst (track_run es t)))
    \<and> set (map fst (snd (track_run es t)) @ tr_waiters (fst (track_run es t))) \<subseteq> set (wait_channels es) \<union> set (tr_waiters t)"
  using assms
proof (induction es t rule: track_run.induct)
  case (2 ch es t)
  have "tr_waiters (fst (Wait_begin ch t)) = tr_waiters t \<or> tr_waiters (fst (Wait_begin ch t)) = tr_waiters t @ [ch]"
    by (simp add: Wait_begin_def)
  then show ?case using 2 by (elim disjE) auto
next
  case (3 tok es t)
  obtain tgt ok where tok: "tok = (tgt, ok)" by (cases tok)
  let ?t' = "t\<lparr>tr_target := tgt, tr_ok := ok, tr_waiters := (if ok then [] else tr_waiters t)\<rparr>"
  have step: "tracker_set tok t = (?t', if ok then map (\<lambda>ch. (ch, tgt)) (tr_waiters t) else [], tr_target t \<noteq> tgt \<or> tr_ok t \<noteq> ok)"
    by (simp add: tracker_set_def tok)
  have IH: "distinct (map fst (snd (track_run es ?t')) @ tr_waiters (fst (track_run es ?t')))
      \<and> set (map fst (snd (track_run es ?t')) @ tr_waiters (fst (track_run es ?t'))) \<subseteq> set (wait_channels es) \<union> set (tr_waiters ?t')"
    using "3.IH" [OF step [symmetric] refl] "3.prems" by (auto split: if_splits)
  have fst_map: "map fst (map (\<lambda>ch. (ch, tgt)) xs) = xs" for xs :: "nat list" by (induction xs) simp_all
  show ?case using IH "3.prems" by (cases ok) (auto simp: step case_prod_beta fst_map comp_def)
qed simp

lemma publish_effect:
  assumes "lease_server rd wr stored" "lease_env stored env"
    and "publisher_update env rd wr mutate w w2 w' None" and "stored w2 = Some (l, v)"
  shows "mutate (annotations l) = None \<and> stored w' = Some (l, v)
    \<or> (\<exists>al v'. mutate (annotations l) = Some al \<and> stored w' = Some (l\<lparr>annotations := al\<rparr>, v'))"
proof -
  from retried_last [OF assms(1,2) assms(3) [unfolded publisher_update_def]] show ?thesis
  proof (elim disjE exE conjE)
    fix a
    assume a: "publish_write mutate a = Inl None" "w2 = w'" "\<forall>l v. a = Inr (l, v) \<longrightarrow> stored w2 = Some (l, v)"
      "a = Inl NotFound \<longrightarrow> stored w2 = None"
    then show ?thesis using assms(4)
      by (cases a) (auto simp: publish_write_def split: api_error.splits option.splits)
  next
    fix a q e
    assume q: "publish_write mutate a = Inr q" "None = publish_result q e" "wr q w2 = (w', e)" "fresh_answer (stored w2) a"
    have "e = None" using q(2) by (cases e) (auto simp: publish_result_def split: if_splits)
    then have "applied q (stored w2) (stored w')" using lease_server_write(2) [OF assms(1) q(3)] by simp
    then show ?thesis using q(1,4) assms(4)
      by (auto simp: publish_write_def applied_def fresh_answer_def split: sum.splits api_error.splits option.splits)
  qed
qed

section \<open>Properties\<close>

text \<open>
  After a Refresh that read the Lease, the tracker offers a target exactly when the Lease names it: the target's
  pod is the live, unexpired holder, its annotation parses and carries an address. Every request waiting at that
  moment is sent that target and none stays queued; with no target nothing is sent and every request keeps waiting.
\<close>

theorem refresh_routes_to_live_holder:
  assumes "Refresh u now (Inr (l, v)) t0 = (t', sent, err)"
  shows "(Current t' = (t, True) \<longleftrightarrow> takes_traffic u l now t)
    \<and> sent = (if tr_ok t' then map (\<lambda>ch. (ch, tr_target t')) (tr_waiters t0) else [])
    \<and> tr_waiters t' = (if tr_ok t' then [] else tr_waiters t0)"
  using assms evaluate_iff [of u l now t]
  by (cases "evaluate u l now") (auto simp: Refresh_def tracker_set_def Current_def)

definition demo_target :: target where
  "demo_target = \<lparr>Pod = ''plex-0'', Address = ''10.0.0.1:32400'', Manager = []\<rparr>"

definition demo_held :: lease where
  "demo_held = \<lparr>holderIdentity = Some ''plex-0'', leaseDurationSeconds = Some 15, acquireTime = Some 0,
     renewTime = Some 0, annotations = [(AvailabilityAnnotation, ''t'')]\<rparr>"

theorem refresh_routes_to_live_holder_witness:
  "(Current \<lparr>tr_target = demo_target, tr_ok = True, tr_waiters = []\<rparr> = (demo_target, True) \<longleftrightarrow>
      takes_traffic (\<lambda>_. Some demo_target) demo_held 5 demo_target)
    \<and> [(3, demo_target)] = (if True then map (\<lambda>ch. (ch, demo_target)) [3::nat] else [])"
proof -
  have "Refresh (\<lambda>_. Some demo_target) 5 (Inr (demo_held, 1)) (tracker_init\<lparr>tr_waiters := [3]\<rparr>)
      = (\<lparr>tr_target = demo_target, tr_ok = True, tr_waiters = []\<rparr>, [(3, demo_target)], None)"
    by (simp add: Refresh_def evaluate_def tracker_set_def tracker_init_def demo_held_def demo_target_def expired_def)
  from refresh_routes_to_live_holder [OF this, of demo_target] show ?thesis by simp
qed

text \<open>
  In any life of the tracker no waiting request's channel is ever sent to twice, so a send never blocks on the
  channel's one-slot buffer, and a channel that was sent to is no longer queued.
\<close>

theorem waiters_released_at_most_once:
  assumes "distinct (wait_channels es)"
  shows "distinct (map fst (snd (track_run es tracker_init)) @ tr_waiters (fst (track_run es tracker_init)))"
  using track_run_delivery [of es tracker_init] assms by (simp add: tracker_init_def)

theorem waiters_released_at_most_once_witness:
  "distinct (map fst (snd (track_run [EvWait 1, EvWait 2, EvSet (demo_target, True), EvWait 3, EvSet (demo_target, True)] tracker_init))
     @ tr_waiters (fst (track_run [EvWait 1, EvWait 2, EvSet (demo_target, True), EvWait 3, EvSet (demo_target, True)] tracker_init)))"
  by (rule waiters_released_at_most_once) simp


text \<open>A text form with the round trip, for concrete instances: the three strings, each with its separators doubled.\<close>

definition quote_part :: "string \<Rightarrow> string" where
  "quote_part s = concat (map (\<lambda>c. [CHR ''x'', c]) s) @ ''.''"

fun unquote_part :: "string \<Rightarrow> (string \<times> string) option" where
  "unquote_part (x # y # r) = (if x = CHR ''x'' then map_option (\<lambda>(a, b). (y # a, b)) (unquote_part r) else
     if x = CHR ''.'' then Some ([], y # r) else None)"
| "unquote_part [x] = (if x = CHR ''.'' then Some ([], []) else None)"
| "unquote_part [] = None"

definition demo_marshal :: "target \<Rightarrow> string" where
  "demo_marshal t = quote_part (Pod t) @ quote_part (Address t) @ quote_part (Manager t)"

definition demo_unmarshal :: "string \<Rightarrow> target option" where
  "demo_unmarshal s = (case unquote_part s of None \<Rightarrow> None | Some (p, s1) \<Rightarrow> (case unquote_part s1 of None \<Rightarrow> None
     | Some (a, s2) \<Rightarrow> (case unquote_part s2 of None \<Rightarrow> None | Some (m, _) \<Rightarrow> Some \<lparr>Pod = p, Address = a, Manager = m\<rparr>)))"

lemma unquote_quote: "unquote_part (quote_part s @ r) = Some (s, r)"
  by (induction s) (cases r, simp_all add: quote_part_def)

lemma demo_json_law: "json_law demo_marshal demo_unmarshal"
  using unquote_quote [of _ "[]"] by (simp add: json_law_def demo_marshal_def demo_unmarshal_def unquote_quote) (simp add: quote_part_def)


text \<open>
  A departing pod's successful Clear never withdraws its successor: while another pod's published Plex is the
  routed target it stays so, and the pod's own annotation is gone.
\<close>

theorem clear_leaves_successor:
  assumes "lease_server rd wr stored" and "lease_env stored env"
    and "Clear env rd wr unmarshal pod w w2 w' None"
    and "stored w2 = Some (l, v)" and "evaluate unmarshal l now = (t, True)"
  shows "\<exists>l' v'. stored w' = Some (l', v') \<and>
    evaluate unmarshal l' now = (if Pod t = pod then (no_target, False) else (t, True))"
proof -
  have traffic: "takes_traffic unmarshal l now t" using assms(5) by (simp add: evaluate_iff)
  then obtain raw where raw: "map_of (annotations l) AvailabilityAnnotation = Some raw" "unmarshal raw = Some t"
    by (auto simp: takes_traffic_def)
  then have mut: "clear_mutate unmarshal pod (annotations l) =
      (if Pod t \<noteq> pod then None else Some (AList.delete AvailabilityAnnotation (annotations l)))"
    by (simp add: clear_mutate_def)
  from publish_effect [OF assms(1,2) assms(3) [unfolded Clear_def] assms(4)] show ?thesis
  proof (elim disjE exE conjE)
    assume "clear_mutate unmarshal pod (annotations l) = None" "stored w' = Some (l, v)"
    then show ?thesis using mut assms(5) by (auto split: if_splits)
  next
    fix al v' assume al: "clear_mutate unmarshal pod (annotations l) = Some al" "stored w' = Some (l\<lparr>annotations := al\<rparr>, v')"
    then have "Pod t = pod" "map_of al AvailabilityAnnotation = None" using mut by (auto split: if_splits simp: delete_conv)
    then show ?thesis using al(2) by (auto simp: evaluate_def)
  qed
qed

theorem clear_leaves_successor_witness:
  "\<exists>l' v'. Some (demo_held, 4) = Some (l', v' :: nat) \<and>
    evaluate (\<lambda>_. Some demo_target) l' 7 = (if Pod demo_target = ''plex-1'' then (no_target, False) else (demo_target, True))"
proof -
  let ?w = "Some (demo_held, 4) :: (lease \<times> nat) option"
  have env: "lease_env (\<lambda>w. w) (=)" by (simp add: lease_env_def)
  have run: "Clear (=) register_read register_write (\<lambda>_. Some demo_target) ''plex-1'' ?w ?w ?w None"
    unfolding Clear_def publisher_update_def
    by (rule retried.stop [of register_read ?w ?w "Inr (demo_held, 4)"])
      (simp_all add: register_read_def publish_write_def clear_mutate_def demo_held_def demo_target_def)
  show ?thesis
    by (rule clear_leaves_successor [OF register_lease_server env run, where l = demo_held and v = 4])
      (simp_all add: demo_held_def demo_target_def evaluate_def expired_def)
qed

text \<open>
  Whatever order the API lists the pods in, every caller gets the same serving targets, sorted by pod name, and so
  routes every session key to the same pod.
\<close>

theorem serving_pods_agree:
  assumes "mset pods = mset pods'" and "inj_on pod_name (set pods)"
  shows "Serving_pods port mport pods = Serving_pods port mport pods'
    \<and> sorted (map Pod (Serving_pods port mport pods))
    \<and> Locate (New (map Pod (Serving_pods port mport pods))) key = Locate (New (map pod_name (filter pod_serving pods'))) key"
proof -
  let ?f = "map (pod_target port mport)"
  have "inj_on Pod (set (?f (filter pod_serving pods)))"
    using assms(2) by (auto simp: inj_on_def pod_target_def)
  moreover have "mset (?f (filter pod_serving pods)) = mset (?f (filter pod_serving pods'))"
    using assms(1) by simp
  ultimately have same: "Serving_pods port mport pods = Serving_pods port mport pods'"
    unfolding Serving_pods_def by (intro sort_key_inj_key_eq) simp_all
  have "set (map Pod (Serving_pods port mport pods)) = set (map pod_name (filter pod_serving pods'))"
    using mset_eq_setD [OF assms(1)] by (simp add: Serving_pods_def pod_target_def image_image)
  then have "New (map Pod (Serving_pods port mport pods)) = New (map pod_name (filter pod_serving pods'))"
    by (rule hr.build_cong)
  then show ?thesis using same by (simp add: Serving_pods_def)
qed

definition demo_pods :: "pod list" where
  "demo_pods = [\<lparr>pod_name = ''b'', pod_annotations = [(ServingAnnotation, ''true'')], pod_running = True, pod_ip = ''10.0.0.2''\<rparr>,
                \<lparr>pod_name = ''a'', pod_annotations = [(ServingAnnotation, ''true'')], pod_running = True, pod_ip = ''10.0.0.1''\<rparr>]"

theorem serving_pods_agree_witness:
  "Serving_pods 32400 0 demo_pods = Serving_pods 32400 0 (rev demo_pods)
    \<and> sorted (map Pod (Serving_pods 32400 0 demo_pods))
    \<and> Locate (New (map Pod (Serving_pods 32400 0 demo_pods))) ''k'' = Locate (New (map pod_name (filter pod_serving (rev demo_pods)))) ''k''"
  by (rule serving_pods_agree) (simp_all add: demo_pods_def)

end
