(* ===== verification/Maintenance_Fanout.thy ===== *)
theory Maintenance_Fanout
  imports Plex_Route
begin

text \<open>
  The maintenance fan-out of \<open>src/pkg/maintenance/maintenance.go\<close>, the list of disabled scheduler tasks of
  \<open>src/pkg/plex/prefs/butler.go\<close> and the manager's endpoint of \<open>src/cmd/manager/maintenance.go\<close>. The pods are
  placed by the hash ring, so the lemmas on the assignment are proved from the contract \<open>consistent_hash\<close>.

  The goroutines of \<open>Run\<close> end in any order and each with its own result: \<open>complete\<close> gives, for the planned work, the
  assignments in the order they end with the error of each, and \<open>each_runs\<close> says that every goroutine runs once.
\<close>

section \<open>The model\<close>

record task =
  Name :: string
  Method :: string
  Path :: string
  PerLibrary :: bool
  Butler :: "string list"
  Timeout :: duration

definition DefaultTimeout :: duration where
  "DefaultTimeout = 30 * second"

definition Deadline :: "task \<Rightarrow> duration" where
  "Deadline t = (if Timeout t > 0 then Timeout t else DefaultTimeout)"

definition per_library :: "string \<Rightarrow> string \<Rightarrow> string \<Rightarrow> string list \<Rightarrow> duration \<Rightarrow> string \<times> task" where
  "per_library n meth p b d = (n, \<lparr>Name = n, Method = meth, Path = p, PerLibrary = True, Butler = b, Timeout = d\<rparr>)"

definition server_wide :: "string \<Rightarrow> string \<Rightarrow> string list \<Rightarrow> string \<times> task" where
  "server_wide n p b = (n, \<lparr>Name = n, Method = ''POST'', Path = p, PerLibrary = False, Butler = b, Timeout = 0\<rparr>)"

definition Tasks :: "(string \<times> task) list" where
  "Tasks =
    [per_library ''analyze'' ''PUT'' ''/library/sections/{id}/analyze''
       [''ButlerTaskAnalyzeMedia'', ''ButlerTaskUpgradeMediaAnalysis''] 0,
     per_library ''deep-analyze'' ''PUT'' ''/library/sections/{id}/analyze?deep=1'' [''ButlerTaskDeepMediaAnalysis''] 0,
     per_library ''refresh'' ''GET'' ''/library/sections/{id}/refresh''
       [''ButlerTaskRefreshLocalMedia'', ''ButlerTaskRefreshPeriodicMetadata''] 0,
     per_library ''empty-trash'' ''PUT'' ''/library/sections/{id}/emptyTrash'' [] (30 * 60 * second),
     server_wide ''media-index'' ''/butler/GenerateMediaIndexFiles'' [''ButlerTaskGenerateMediaIndexFiles''],
     server_wide ''chapter-thumbs'' ''/butler/GenerateChapterThumbs'' [''ButlerTaskGenerateChapterThumbs''],
     server_wide ''backup-database'' ''/butler/BackupDatabase'' [''ButlerTaskBackupDatabase''],
     server_wide ''clean-bundles'' ''/butler/CleanOldBundles'' [''ButlerTaskCleanOldBundles''],
     server_wide ''clean-cache'' ''/butler/CleanOldCacheFiles'' [''ButlerTaskCleanOldCacheFiles'']]"

definition Lookup :: "string \<Rightarrow> task option" where
  "Lookup n = map_of Tasks n"

definition Replaces :: "string \<Rightarrow> bool" where
  "Replaces b = list_ex (\<lambda>(_, t). b \<in> set (Butler t)) Tasks"

definition Names :: "string list" where
  "Names = sort (map fst Tasks)"

definition ButlerTasks :: "string list" where
  "ButlerTasks =
    [''ButlerTaskAnalyzeMedia'', ''ButlerTaskBackupDatabase'', ''ButlerTaskCleanOldBundles'', ''ButlerTaskCleanOldCacheFiles'',
     ''ButlerTaskDeepMediaAnalysis'', ''ButlerTaskGenerateAutoTags'', ''ButlerTaskGenerateChapterThumbs'',
     ''ButlerTaskGenerateMediaIndexFiles'', ''ButlerTaskRefreshLocalMedia'', ''ButlerTaskRefreshPeriodicMetadata'',
     ''ButlerTaskUpgradeMediaAnalysis'', ''ButlerTaskOptimizeDatabase'', ''ButlerTaskGarbageCollectBlobs'',
     ''ButlerTaskRefreshEpgGuides'', ''ButlerTaskRefreshLibraries'']"

definition DisabledButlerTasks :: "string \<rightharpoonup> string" where
  "DisabledButlerTasks = fold (\<lambda>t m. m(t \<mapsto> ''0'')) ButlerTasks Map.empty"

definition IsButlerTask :: "string \<Rightarrow> bool" where
  "IsButlerTask n = List.member ButlerTasks n"

record assignment =
  Member :: string
  APath :: string
  Library :: string

record result =
  Task :: string
  Dispatched :: "assignment list"
  Failed :: "assignment list"

datatype run_error = ListPods string | NoPod | ListLibraries string | DispatchesFailed nat nat

definition plan :: "task \<Rightarrow> string + string list \<Rightarrow> ring \<Rightarrow> string + assignment list" where
  "plan t libraries r =
     (if \<not> PerLibrary t then Inr [\<lparr>Member = Locate r (Name t), APath = Path t, Library = []\<rparr>]
      else case libraries of
        Inl e \<Rightarrow> Inl e
      | Inr ids \<Rightarrow> Inr (map (\<lambda>i. \<lparr>Member = Locate r i, APath = replace_all ''{id}'' i (Path t), Library = i\<rparr>) ids))"

text \<open>One goroutine ending under the mutex.\<close>

definition collect :: "assignment \<times> string option \<Rightarrow> result \<Rightarrow> result" where
  "collect c r = (case snd c of None \<Rightarrow> r\<lparr>Dispatched := Dispatched r @ [fst c]\<rparr> | Some _ \<Rightarrow> r\<lparr>Failed := Failed r @ [fst c]\<rparr>)"

definition Run :: "string + string list \<Rightarrow> string + string list \<Rightarrow> (assignment list \<Rightarrow> (assignment \<times> string option) list)
    \<Rightarrow> task \<Rightarrow> result \<times> run_error option" where
  "Run pods libraries complete t =
     (let empty = \<lparr>Task = Name t, Dispatched = [], Failed = []\<rparr> in
      case pods of Inl e \<Rightarrow> (empty, Some (ListPods e)) | Inr ms \<Rightarrow>
        let r = New ms in
        if Members r = [] then (empty, Some NoPod)
        else case plan t libraries r of Inl e \<Rightarrow> (empty, Some (ListLibraries e)) | Inr work \<Rightarrow>
          let res = fold collect (complete work) empty in
          (res, if Failed res = [] then None else Some (DispatchesFailed (length (Failed res)) (length work))))"

section \<open>The endpoint\<close>

definition MaintenancePrefix :: string where
  "MaintenancePrefix = ''/api/v1/maintenance/''"

text \<open>What the local Plex answers for its libraries: the keys of the directories, or an error of the transport,
  of the status or of the parse.\<close>

definition plexLibraries :: "string + nat \<times> string list option \<Rightarrow> string + string list" where
  "plexLibraries got = (case got of
      Inl e \<Rightarrow> Inl e
    | Inr (status, body) \<Rightarrow> if status \<noteq> 200 then Inl ''status'' else
        (case body of None \<Rightarrow> Inl ''parse'' | Some keys \<Rightarrow> Inr (filter (\<lambda>k. k \<noteq> []) keys)))"

definition podsServingPlex :: "int \<Rightarrow> string + pod list \<Rightarrow> string + string list" where
  "podsServingPlex port pods = (case pods of
      Inl e \<Rightarrow> Inl e
    | Inr ps \<Rightarrow> Inr (map (\<lambda>p. join_host_port (pod_ip p) port)
        (filter (\<lambda>p. \<not> (map_of (pod_annotations p) ServingAnnotation \<noteq> Some ''true'' \<or> pod_ip p = [] \<or> \<not> pod_running p)) ps)))"

definition dispatchToPlex :: "http_result \<Rightarrow> string option" where
  "dispatchToPlex got = (case got of
      NoAnswer \<Rightarrow> Some ''transport'' | Status s \<Rightarrow> if s \<ge> 400 then Some ''status'' else None)"

datatype response = UsePost | UnknownTask string "string list" | BadGateway string run_error nat nat
  | Accepted string "assignment list"

definition handleMaintenance :: "string + string list \<Rightarrow> string + string list \<Rightarrow> (assignment list \<Rightarrow> (assignment \<times> string option) list)
    \<Rightarrow> string \<Rightarrow> string \<Rightarrow> response" where
  "handleMaintenance pods libraries complete meth path =
     (if meth \<noteq> ''POST'' then UsePost
      else let n = trim_prefix path MaintenancePrefix in
      case Lookup n of None \<Rightarrow> UnknownTask n Names | Some t \<Rightarrow>
        (case Run pods libraries complete t of (res, err) \<Rightarrow>
          (case err of Some e \<Rightarrow> BadGateway n e (length (Dispatched res)) (length (Failed res))
           | None \<Rightarrow> Accepted n (Dispatched res))))"

section \<open>Placement, from the ring's contract\<close>

context consistent_hash
begin

lemma mems_nonempty:
  assumes "\<exists>m\<in>set ms. m \<noteq> []"
  shows "mems (build ms) \<noteq> []"
proof
  assume "mems (build ms) = []"
  then have "set ms - {[]} = {}" using mems_set [of ms] by simp
  then show False using assms by blast
qed

lemma spread_live:
  assumes "mems (build ms) \<noteq> []"
  shows "\<forall>k\<in>set ks. loc (build ms) k \<in> set ms - {[]}"
  using assms loc_member [of ms] mems_set [of ms] by blast

lemma spread_after_loss:
  "map (loc (build (removeAll m ms))) (filter (\<lambda>k. loc (build ms) k \<noteq> m) ks) = map (loc (build ms)) (filter (\<lambda>k. loc (build ms) k \<noteq> m) ks)"
  by (simp add: loc_stable)

lemma spread_cong: "set ms = set ms' \<Longrightarrow> map (loc (build ms)) ks = map (loc (build ms')) ks"
  using build_cong [of ms ms'] by simp

end

section \<open>Collecting the outcomes\<close>

definition each_runs :: "(assignment list \<Rightarrow> (assignment \<times> string option) list) \<Rightarrow> bool" where
  "each_runs complete \<longleftrightarrow> (\<forall>work. mset (map fst (complete work)) = mset work)"

lemma fold_collect:
  "fold collect cs r = r\<lparr>Dispatched := Dispatched r @ map fst (filter (\<lambda>c. snd c = None) cs),
                        Failed := Failed r @ map fst (filter (\<lambda>c. snd c \<noteq> None) cs)\<rparr>"
  by (induction cs arbitrary: r) (auto simp: collect_def split: option.splits)

lemma fold_collect_mset:
  "mset (Dispatched (fold collect cs r)) + mset (Failed (fold collect cs r))
     = mset (Dispatched r) + mset (Failed r) + mset (map fst cs)"
  by (induction cs arbitrary: r) (auto simp: collect_def split: option.splits)

lemma fold_collect_Task [simp]: "Task (fold collect cs r) = Task r"
  by (simp add: fold_collect)

lemma plan_per_library:
  "PerLibrary t \<Longrightarrow> plan t (Inr ids) r = Inr (map (\<lambda>i. \<lparr>Member = Locate r i, APath = replace_all ''{id}'' i (Path t), Library = i\<rparr>) ids)"
  by (simp add: plan_def)

lemma Run_planned:
  assumes "each_runs complete" and "Members (New ms) \<noteq> []" and "plan t libs (New ms) = Inr work"
    and "Run (Inr ms) libs complete t = (res, err)"
  shows "mset (Dispatched res) + mset (Failed res) = mset work"
    and "err = None \<longleftrightarrow> mset (Dispatched res) = mset work"
    and "err = None \<longleftrightarrow> Failed res = []"
proof -
  let ?r = "fold collect (complete work) \<lparr>Task = Name t, Dispatched = [], Failed = []\<rparr>"
  have res: "res = ?r" and err: "err = (if Failed ?r = [] then None else Some (DispatchesFailed (length (Failed ?r)) (length work)))"
    using assms(2,3,4) by (auto simp: Run_def Let_def)
  show all: "mset (Dispatched res) + mset (Failed res) = mset work"
    using assms(1) by (simp add: res fold_collect_mset each_runs_def)
  show nofail: "err = None \<longleftrightarrow> Failed res = []" by (simp add: res err)
  show "err = None \<longleftrightarrow> mset (Dispatched res) = mset work"
    unfolding nofail using all by (metis add_cancel_left_right mset_zero_iff)
qed

section \<open>Properties\<close>

text \<open>
  C23. A per-library task attempts every library exactly once, on a pod of the list and at that library's own path,
  whatever order the goroutines end in; it reports no error exactly when every dispatch succeeded.
\<close>

theorem every_library_attempted_once:
  assumes "each_runs complete" and "PerLibrary t" and "\<exists>m\<in>set ms. m \<noteq> []"
    and "Run (Inr ms) (Inr ids) complete t = (res, err)"
  shows "mset (map Library (Dispatched res @ Failed res)) = mset ids
    \<and> (\<forall>a \<in> set (Dispatched res @ Failed res). Member a \<in> set ms - {[]} \<and> Member a = Locate (New ms) (Library a)
         \<and> APath a = replace_all ''{id}'' (Library a) (Path t))
    \<and> (err = None \<longleftrightarrow> Failed res = [])"
proof -
  let ?work = "map (\<lambda>i. \<lparr>Member = Locate (New ms) i, APath = replace_all ''{id}'' i (Path t), Library = i\<rparr>) ids"
  have live: "Members (New ms) \<noteq> []" using assms(3) by (rule hr.mems_nonempty)
  note run = Run_planned [OF assms(1) live plan_per_library [OF assms(2)] assms(4)]
  have "mset (Dispatched res @ Failed res) = mset ?work" using run(1) by simp
  then have same: "mset (map Library (Dispatched res @ Failed res)) = mset (map Library ?work)"
    and mem: "set (Dispatched res @ Failed res) = set ?work"
    by (simp only: mset_map, rule mset_eq_setD)
  have "map Library ?work = ids" by (simp add: comp_def)
  moreover have "\<forall>a \<in> set ?work. Member a \<in> set ms - {[]} \<and> Member a = Locate (New ms) (Library a)
      \<and> APath a = replace_all ''{id}'' (Library a) (Path t)"
    using hr.spread_live [OF live, of ids] by simp
  ultimately show ?thesis using same run(3) by (simp only: mem simp_thms)
qed

definition demo_complete :: "assignment list \<Rightarrow> (assignment \<times> string option) list" where
  "demo_complete work = map (\<lambda>a. (a, if Library a = ''2'' then Some ''status'' else None)) (rev work)"

theorem every_library_attempted_once_witness:
  "mset (map Library (Dispatched (fst (Run (Inr [''10.0.0.1:32400'']) (Inr [''1'', ''2'']) demo_complete (the (Lookup ''refresh''))))
        @ Failed (fst (Run (Inr [''10.0.0.1:32400'']) (Inr [''1'', ''2'']) demo_complete (the (Lookup ''refresh'')))))) = mset [''1'', ''2'']"
proof -
  have "each_runs demo_complete" by (simp add: each_runs_def demo_complete_def comp_def)
  from every_library_attempted_once [OF this, of "the (Lookup ''refresh'')" "[''10.0.0.1:32400'']" "[''1'', ''2'']",
    OF _ _ surjective_pairing]
  show ?thesis by (simp add: Lookup_def Tasks_def per_library_def server_wide_def)
qed

text \<open>
  Any pod that handles the request plans the same assignment, whatever order it lists the pods in; and when a pod
  is lost the libraries of every other pod stay where they were.
\<close>

theorem plan_stable_under_pod_loss:
  assumes "plan t (Inr ids) (New ms) = Inr work" and "PerLibrary t"
  shows "(set ms' = set ms \<longrightarrow> plan t (Inr ids) (New ms') = Inr work)
    \<and> (\<exists>work'. plan t (Inr ids) (New (removeAll m ms)) = Inr work'
         \<and> map Library work' = ids \<and> (\<forall>a \<in> set work. Member a \<noteq> m \<longrightarrow> a \<in> set work'))"
proof -
  have work: "work = map (\<lambda>i. \<lparr>Member = Locate (New ms) i, APath = replace_all ''{id}'' i (Path t), Library = i\<rparr>) ids"
    using assms by (simp add: plan_per_library)
  have "Locate (New (removeAll m ms)) i = Locate (New ms) i" if "Locate (New ms) i \<noteq> m" for i
    using that by (rule hr.loc_stable)
  then show ?thesis using assms hr.build_cong [of ms' ms]
    by (auto simp: work plan_per_library comp_def image_iff)
qed

theorem plan_stable_under_pod_loss_witness:
  "\<exists>work'. plan (the (Lookup ''analyze'')) (Inr [''1'', ''2'']) (New (removeAll ''b'' [''a'', ''b''])) = Inr work'
     \<and> map Library work' = [''1'', ''2'']"
proof -
  have t: "PerLibrary (the (Lookup ''analyze''))" by (simp add: Lookup_def Tasks_def per_library_def)
  from plan_stable_under_pod_loss [OF plan_per_library [OF t, of "[''1'', ''2'']" "New [''a'', ''b'']"] t, of "[]" "''b''"]
  show ?thesis by (elim conjE exE, intro exI conjI)
qed

text \<open>
  The endpoint accepts a request exactly when it is a POST for a known task, some pod serves, the libraries could be
  listed if the task needs them, and every dispatch succeeded; then all the planned work was dispatched.
\<close>

theorem endpoint_accepts_iff_all_dispatched:
  assumes "each_runs complete" and "Lookup n = Some t"
  shows "(\<exists>ds. handleMaintenance pods libs complete ''POST'' (MaintenancePrefix @ n) = Accepted n ds) \<longleftrightarrow>
    (\<exists>ms work. pods = Inr ms \<and> Members (New ms) \<noteq> [] \<and> plan t libs (New ms) = Inr work
       \<and> mset (Dispatched (fst (Run pods libs complete t))) = mset work)"
proof -
  have h: "handleMaintenance pods libs complete ''POST'' (MaintenancePrefix @ n) =
      (case Run pods libs complete t of (res, err) \<Rightarrow>
        (case err of Some e \<Rightarrow> BadGateway n e (length (Dispatched res)) (length (Failed res))
         | None \<Rightarrow> Accepted n (Dispatched res)))"
    using assms(2) by (simp add: handleMaintenance_def trim_prefix_def Let_def)
  show ?thesis
  proof (cases "\<exists>ms work. pods = Inr ms \<and> Members (New ms) \<noteq> [] \<and> plan t libs (New ms) = Inr work")
    case True
    then obtain ms work where w: "pods = Inr ms" "Members (New ms) \<noteq> []" "plan t libs (New ms) = Inr work" by blast
    obtain res err where r: "Run pods libs complete t = (res, err)" by fastforce
    have "(\<exists>ds. handleMaintenance pods libs complete ''POST'' (MaintenancePrefix @ n) = Accepted n ds) \<longleftrightarrow> err = None"
      by (simp add: h r split: option.splits)
    then show ?thesis using Run_planned(2) [OF assms(1) w(2,3) r [unfolded w(1)]] w r by simp
  next
    case False
    then have "snd (Run pods libs complete t) \<noteq> None"
      by (auto simp: Run_def Let_def split: sum.splits)
    then show ?thesis using False by (auto simp: h split: prod.splits option.splits)
  qed
qed

theorem endpoint_accepts_iff_all_dispatched_witness:
  "\<exists>ds. handleMaintenance (Inr [''10.0.0.1:32400'']) (Inr [''1'']) demo_complete ''POST'' (MaintenancePrefix @ ''refresh'') = Accepted ''refresh'' ds"
proof -
  let ?t = "the (Lookup ''refresh'')"
  have l: "Lookup ''refresh'' = Some ?t" by (simp add: Lookup_def Tasks_def per_library_def)
  have t: "PerLibrary ?t" by (simp add: Lookup_def Tasks_def per_library_def)
  have live: "Members (New [''10.0.0.1:32400'']) \<noteq> []" by (rule hr.mems_nonempty) simp
  have e: "each_runs demo_complete" by (simp add: each_runs_def demo_complete_def comp_def)
  have "mset (Dispatched (fst (Run (Inr [''10.0.0.1:32400'']) (Inr [''1'']) demo_complete ?t)))
      = mset [\<lparr>Member = Locate (New [''10.0.0.1:32400'']) ''1'', APath = replace_all ''{id}'' ''1'' (Path ?t), Library = ''1''\<rparr>]"
    using live by (simp add: Run_def plan_per_library [OF t] demo_complete_def collect_def)
  moreover have "plan ?t (Inr [''1'']) (New [''10.0.0.1:32400''])
      = Inr [\<lparr>Member = Locate (New [''10.0.0.1:32400'']) ''1'', APath = replace_all ''{id}'' ''1'' (Path ?t), Library = ''1''\<rparr>]"
    by (simp add: plan_per_library [OF t])
  ultimately show ?thesis using live by (intro iffD2 [OF endpoint_accepts_iff_all_dispatched [OF e l]] exI conjI) (rule refl, assumption+)
qed

text \<open>
  Of the scheduler tasks that every start turns off, exactly five have no replacement here:
  GenerateAutoTags (which Plex no longer runs), OptimizeDatabase, GarbageCollectBlobs, RefreshEpgGuides and
  RefreshLibraries; and every replacement is of a task that was turned off.
\<close>

theorem disabled_tasks_without_replacement:
  "filter (\<lambda>b. \<not> Replaces b) ButlerTasks =
     [''ButlerTaskGenerateAutoTags'', ''ButlerTaskOptimizeDatabase'', ''ButlerTaskGarbageCollectBlobs'',
      ''ButlerTaskRefreshEpgGuides'', ''ButlerTaskRefreshLibraries'']
   \<and> filter (\<lambda>b. DisabledButlerTasks b \<noteq> Some ''0'') (concat (map (\<lambda>(_, t). Butler t) Tasks)) = []"
  by code_simp

end
