(* ===== verification/Fanout_Serving.thy ===== *)
theory Fanout_Serving
  imports Maintenance_Fanout Plex_Route
begin

text \<open>
  The maintenance fan-out and the routing tier read the same pods: what the one sends to is what the other serves.
\<close>

section \<open>The fan-out and the routing tier\<close>

text \<open>
  The maintenance fan-out reaches only pods the routing tier serves: every piece of work is sent to the address of a
  target in the list of serving pods, whatever order the API lists them in.
\<close>

theorem fanout_reaches_only_serving_pods:
  assumes "each_runs compl" and "PerLibrary t" and "p \<in> set pods" and "pod_serving p"
    and "Maintenance_Fanout.Run (podsServingPlex port (Inr pods)) (Inr ids) compl t = (res, fault)"
  shows "\<forall>a \<in> set (Dispatched res @ Failed res). \<exists>g \<in> set (Serving_pods port mport pods). Member a = Address g"
proof -
  let ?ms = "map (\<lambda>p. join_host_port (pod_ip p) port) (filter pod_serving pods)"
  have "filter (\<lambda>p. \<not> (map_of (pod_annotations p) ServingAnnotation \<noteq> Some ''true'' \<or> pod_ip p = [] \<or> \<not> pod_running p)) pods = filter pod_serving pods"
    by (rule filter_cong) (auto simp: pod_serving_def)
  then have ms: "podsServingPlex port (Inr pods) = Inr ?ms" by (simp add: podsServingPlex_def)
  have "join_host_port (pod_ip p) port \<in> set ?ms" using assms(3,4) by auto
  moreover have "join_host_port (pod_ip p) port \<noteq> []" by (simp add: join_host_port_def)
  ultimately have live: "Members (New ?ms) \<noteq> []" by (intro hr.mems_nonempty) blast
  note run = Run_planned(1) [OF assms(1) live plan_per_library [OF assms(2)] assms(5) [unfolded ms]]
  have "set (Dispatched res @ Failed res) = set (map (\<lambda>i. \<lparr>Member = Locate (New ?ms) i, APath = replace_all ''{id}'' i (Path t), Library = i\<rparr>) ids)"
    using run by (intro mset_eq_setD) simp
  moreover have "\<forall>i\<in>set ids. Locate (New ?ms) i \<in> set ?ms - {[]}" using live by (rule hr.spread_live)
  moreover have "set ?ms = Address ` set (Serving_pods port mport pods)"
    by (auto simp: Serving_pods_def pod_target_def image_iff)
  ultimately show ?thesis by fastforce
qed

theorem fanout_reaches_only_serving_pods_witness:
  "\<exists>res fault. Maintenance_Fanout.Run (podsServingPlex 32400 (Inr demo_pods)) (Inr [''1'']) demo_complete (the (Lookup ''refresh'')) = (res, fault)
     \<and> (\<forall>a \<in> set (Dispatched res @ Failed res). \<exists>g \<in> set (Serving_pods 32400 0 demo_pods). Member a = Address g)"
proof -
  have e: "each_runs demo_complete" by (simp add: each_runs_def demo_complete_def comp_def)
  have t: "PerLibrary (the (Lookup ''refresh''))" by (simp add: Lookup_def Tasks_def per_library_def)
  have p: "hd demo_pods \<in> set demo_pods" "pod_serving (hd demo_pods)" by (simp_all add: demo_pods_def pod_serving_def)
  from fanout_reaches_only_serving_pods [OF e t p surjective_pairing, of 32400 "[''1'']" 0] show ?thesis by (metis surjective_pairing)
qed

end
