(* ===== verification/Video_Job.thy ===== *)
theory Video_Job
  imports Go_Prelude
begin

text \<open>
  The conversion job of \<open>src/pkg/video/job.go\<close> and its wire form, \<open>src/pkg/video/wire.go\<close>. Go's \<open>int\<close> is 64 bits and
  the message's fields are \<open>int32\<close>, so the conversion is \<open>wrap32\<close>; durations travel as microseconds. A map that is
  nil and a map that is empty are one value here, as they are for every use the code makes of them.
\<close>

section \<open>The job\<close>

datatype Reason = ReasonNoPool | ReasonFull | ReasonShape | ReasonWorkerError | ReasonCancelled

datatype OutputKind = OutputHLS | OutputDASH | OutputFile

record Rational =
  Num :: int
  Den :: int

record Input =
  IPath :: string
  Streamed :: bool
  IFormat :: string
  IName :: string
  Source :: string
  Live :: bool

record VideoOut =
  VStream :: int
  Width :: int
  Height :: int
  PixFmt :: string
  CRF :: int
  MaxRate :: int
  BufSize :: int
  FrameRate :: Rational
  KeyframeEvery :: duration
  Deinterlace :: bool
  ToneMap :: bool

record AudioOut =
  AStream :: int
  Copy :: bool
  Channels :: int
  SampleRate :: int
  BitRate :: int
  Language :: string

record BurnIn =
  BInput :: int
  BStream :: int
  Image :: bool
  Style :: string

record Segmenting =
  Duration :: duration
  StartNumber :: int
  Pattern :: string
  ListSize :: int
  TimeDelta :: duration

record FileOut =
  FFormat :: string
  MuxerOptions :: "string \<rightharpoonup> string"

record Job =
  Output :: OutputKind
  Session :: string
  Inputs :: "Input list"
  Start :: duration
  Video :: VideoOut
  Audio :: "AudioOut option"
  Burn :: "BurnIn option"
  Segments :: Segmenting
  File :: FileOut
  Token :: string
  ProgressURL :: string
  SegmentListURL :: string
  ManifestURL :: string
  OutputPath :: string

definition RingKey :: "Job \<Rightarrow> string" where
  "RingKey j = (case Inputs j of i # _ \<Rightarrow> if IPath i \<noteq> [] then IPath i else Session j | [] \<Rightarrow> Session j)"

fun session_part :: "string list \<Rightarrow> string" where
  "session_part (p # q # ps) = (if p = ''session'' then q else session_part (q # ps))"
| "session_part _ = []"

text \<open>\<open>url_path\<close> is \<open>url.Parse\<close>'s path, \<open>None\<close> where it fails.\<close>

definition sessionOf :: "(string \<Rightarrow> string option) \<Rightarrow> string \<Rightarrow> string" where
  "sessionOf url_path raw = (case url_path raw of None \<Rightarrow> []
     | Some p \<Rightarrow> session_part (split_on CHR ''/'' (trim_func (\<lambda>c. c = CHR ''/'') p)))"

section \<open>The wire\<close>

record pb_input =
  pi_path :: string
  pi_streamed :: bool
  pi_format :: string
  pi_name :: string

record pb_video =
  pv_stream :: int
  pv_width :: int
  pv_height :: int
  pv_pix_fmt :: string
  pv_crf :: int
  pv_max_rate :: int
  pv_buf_size :: int
  pv_rate_num :: int
  pv_rate_den :: int
  pv_keyframe_every_us :: int
  pv_deinterlace :: bool
  pv_tone_map :: bool

record pb_audio =
  pa_stream :: int
  pa_copy :: bool
  pa_channels :: int
  pa_sample_rate :: int
  pa_bit_rate :: int
  pa_language :: string

record pb_burn =
  pbu_input :: int
  pbu_stream :: int
  pbu_image :: bool
  pbu_style :: string

record pb_segmenting =
  ps_duration_us :: int
  ps_start_number :: int
  ps_pattern :: string
  ps_list_size :: int
  ps_time_delta_us :: int

record pb_file =
  pf_format :: string
  pf_muxer_options :: "string \<rightharpoonup> string"

record pb_job =
  pj_output :: OutputKind
  pj_session :: string
  pj_start_us :: int
  pj_inputs :: "pb_input list"
  pj_video :: pb_video
  pj_audio :: "pb_audio option"
  pj_burn :: "pb_burn option"
  pj_segments :: pb_segmenting
  pj_file :: pb_file

definition Microseconds :: "duration \<Rightarrow> int" where
  "Microseconds d = go_div d microsecond"

definition from_us :: "int \<Rightarrow> duration" where
  "from_us n = wrap64 (n * microsecond)"

definition Proto :: "Job \<Rightarrow> pb_job" where
  "Proto j = \<lparr>
     pj_output = Output j,
     pj_session = Session j,
     pj_start_us = Microseconds (Start j),
     pj_inputs = map (\<lambda>i. \<lparr>pi_path = IPath i, pi_streamed = Streamed i, pi_format = IFormat i, pi_name = IName i\<rparr>) (Inputs j),
     pj_video = (let v = Video j in \<lparr>pv_stream = wrap32 (VStream v), pv_width = wrap32 (Width v), pv_height = wrap32 (Height v),
       pv_pix_fmt = PixFmt v, pv_crf = wrap32 (CRF v), pv_max_rate = MaxRate v, pv_buf_size = BufSize v,
       pv_rate_num = wrap32 (Num (FrameRate v)), pv_rate_den = wrap32 (Den (FrameRate v)),
       pv_keyframe_every_us = Microseconds (KeyframeEvery v), pv_deinterlace = Deinterlace v, pv_tone_map = ToneMap v\<rparr>),
     pj_audio = map_option (\<lambda>a. \<lparr>pa_stream = wrap32 (AStream a), pa_copy = Copy a, pa_channels = wrap32 (Channels a),
       pa_sample_rate = wrap32 (SampleRate a), pa_bit_rate = BitRate a, pa_language = Language a\<rparr>) (Audio j),
     pj_burn = map_option (\<lambda>b. \<lparr>pbu_input = wrap32 (BInput b), pbu_stream = wrap32 (BStream b), pbu_image = Image b,
       pbu_style = Style b\<rparr>) (Burn j),
     pj_segments = (let s = Segments j in \<lparr>ps_duration_us = Microseconds (Duration s), ps_start_number = wrap32 (StartNumber s),
       ps_pattern = Pattern s, ps_list_size = wrap32 (ListSize s), ps_time_delta_us = Microseconds (TimeDelta s)\<rparr>),
     pj_file = \<lparr>pf_format = FFormat (File j), pf_muxer_options = MuxerOptions (File j)\<rparr>\<rparr>"

definition JobFromProto :: "pb_job \<Rightarrow> Job" where
  "JobFromProto p = \<lparr>
     Output = pj_output p,
     Session = pj_session p,
     Inputs = map (\<lambda>i. \<lparr>IPath = pi_path i, Streamed = pi_streamed i, IFormat = pi_format i, IName = pi_name i,
       Source = [], Live = False\<rparr>) (pj_inputs p),
     Start = from_us (pj_start_us p),
     Video = (let v = pj_video p in \<lparr>VStream = pv_stream v, Width = pv_width v, Height = pv_height v, PixFmt = pv_pix_fmt v,
       CRF = pv_crf v, MaxRate = pv_max_rate v, BufSize = pv_buf_size v,
       FrameRate = \<lparr>Num = pv_rate_num v, Den = pv_rate_den v\<rparr>, KeyframeEvery = from_us (pv_keyframe_every_us v),
       Deinterlace = pv_deinterlace v, ToneMap = pv_tone_map v\<rparr>),
     Audio = map_option (\<lambda>a. \<lparr>AStream = pa_stream a, Copy = pa_copy a, Channels = pa_channels a,
       SampleRate = pa_sample_rate a, BitRate = pa_bit_rate a, Language = pa_language a\<rparr>) (pj_audio p),
     Burn = map_option (\<lambda>b. \<lparr>BInput = pbu_input b, BStream = pbu_stream b, Image = pbu_image b, Style = pbu_style b\<rparr>) (pj_burn p),
     Segments = (let s = pj_segments p in \<lparr>Duration = from_us (ps_duration_us s), StartNumber = ps_start_number s,
       Pattern = ps_pattern s, ListSize = ps_list_size s, TimeDelta = from_us (ps_time_delta_us s)\<rparr>),
     File = \<lparr>FFormat = pf_format (pj_file p), MuxerOptions = pf_muxer_options (pj_file p)\<rparr>,
     Token = [], ProgressURL = [], SegmentListURL = [], ManifestURL = [], OutputPath = []\<rparr>"

section \<open>What travels\<close>

text \<open>The job without what is the manager's alone.\<close>

definition public_input :: "Input \<Rightarrow> Input" where
  "public_input i = i\<lparr>Source := [], Live := False\<rparr>"

definition public :: "Job \<Rightarrow> Job" where
  "public j = j\<lparr>Inputs := map public_input (Inputs j), Token := [], ProgressURL := [], SegmentListURL := [],
     ManifestURL := [], OutputPath := []\<rparr>"

text \<open>The fields fit the message: 32-bit integers, durations of whole microseconds.\<close>

definition wire_duration :: "duration \<Rightarrow> bool" where
  "wire_duration d \<longleftrightarrow> in_int64 d \<and> d mod microsecond = 0"

definition wire_job :: "Job \<Rightarrow> bool" where
  "wire_job j \<longleftrightarrow> wire_duration (Start j) \<and> wire_duration (KeyframeEvery (Video j))
     \<and> wire_duration (Duration (Segments j)) \<and> wire_duration (TimeDelta (Segments j))
     \<and> list_all in_int32 [VStream (Video j), Width (Video j), Height (Video j), CRF (Video j), Num (FrameRate (Video j)),
          Den (FrameRate (Video j)), StartNumber (Segments j), ListSize (Segments j)]
     \<and> pred_option (\<lambda>a. list_all in_int32 [AStream a, Channels a, SampleRate a]) (Audio j)
     \<and> pred_option (\<lambda>b. list_all in_int32 [BInput b, BStream b]) (Burn j)"

lemma go_div_exact: "d mod b = 0 \<Longrightarrow> 0 < b \<Longrightarrow> go_div d b * b = d"
  by (auto simp: go_div_def sgn_if zmod_zminus1_eq_if)

lemma from_us_Microseconds [go_simps]: "wire_duration d \<Longrightarrow> from_us (Microseconds d) = d"
  by (simp add: from_us_def Microseconds_def wire_duration_def go_div_exact wrap64_id)

section \<open>Properties\<close>

text \<open>
  The worker rebuilds exactly the job the manager sent, less what is the manager's alone, whenever its integers fit
  the message's 32 bits and its durations are whole microseconds; sending a rebuilt job on changes nothing.
\<close>

theorem job_wire_roundtrip:
  assumes "wire_job j"
  shows "JobFromProto (Proto j) = public j \<and> Proto (JobFromProto (Proto j)) = Proto j"
proof -
  have "map_option (\<lambda>a. \<lparr>AStream = wrap32 (AStream a), Copy = Copy a, Channels = wrap32 (Channels a),
      SampleRate = wrap32 (SampleRate a), BitRate = BitRate a, Language = Language a\<rparr>) (Audio j) = Audio j"
    using assms by (cases "Audio j") (simp_all add: wire_job_def wrap32_id)
  moreover have "map_option (\<lambda>b. \<lparr>BInput = wrap32 (BInput b), BStream = wrap32 (BStream b), Image = Image b,
      Style = Style b\<rparr>) (Burn j) = Burn j"
    using assms by (cases "Burn j") (simp_all add: wire_job_def wrap32_id)
  ultimately have rebuilt: "JobFromProto (Proto j) = public j"
    using assms by (simp add: wire_job_def JobFromProto_def Proto_def public_def public_input_def Let_def
      go_simps comp_def option.map_comp)
  show ?thesis unfolding rebuilt by (simp add: Proto_def public_def public_input_def comp_def)
qed

definition demo_job :: Job where
  "demo_job = \<lparr>Output = OutputHLS, Session = ''s1'',
     Inputs = [\<lparr>IPath = ''/media/a.mkv'', Streamed = False, IFormat = [], IName = [], Source = [], Live = False\<rparr>],
     Start = 30 * second,
     Video = \<lparr>VStream = 0, Width = 1920, Height = 1080, PixFmt = ''nv12'', CRF = 21, MaxRate = 8000000, BufSize = 16000000,
       FrameRate = \<lparr>Num = 24000, Den = 1001\<rparr>, KeyframeEvery = 3 * second, Deinterlace = False, ToneMap = True\<rparr>,
     Audio = Some \<lparr>AStream = 1, Copy = False, Channels = 2, SampleRate = 48000, BitRate = 256000, Language = ''eng''\<rparr>,
     Burn = None,
     Segments = \<lparr>Duration = 3 * second, StartNumber = 10, Pattern = ''media-%05d.ts'', ListSize = 5, TimeDelta = 62500000\<rparr>,
     File = \<lparr>FFormat = [], MuxerOptions = Map.empty\<rparr>,
     Token = ''secret'', ProgressURL = ''http://127.0.0.1/p'', SegmentListURL = ''http://127.0.0.1/l'', ManifestURL = [],
     OutputPath = []\<rparr>"

theorem job_wire_roundtrip_witness:
  "JobFromProto (Proto demo_job) = public demo_job \<and> Proto (JobFromProto (Proto demo_job)) = Proto demo_job"
  by (rule job_wire_roundtrip)
    (simp add: wire_job_def demo_job_def wire_duration_def in_int32_def in_int64_def)

text \<open>
  The pool holds no Plex secret: two jobs that differ only in the token, the URLs, the output path or a streamed
  input's source are sent as the same message, so what is sent depends on none of them.
\<close>

theorem proto_carries_no_secret:
  "Proto j = Proto (j\<lparr>Inputs := map (\<lambda>i. i\<lparr>Source := src i, Live := live i\<rparr>) (Inputs j), Token := tok, ProgressURL := pu,
     SegmentListURL := lu, ManifestURL := mu, OutputPath := dest\<rparr>)"
  by (simp add: Proto_def comp_def)

end
