(* ===== verification/Video_Worker.thy ===== *)
theory Video_Worker
  imports Video_Job
begin

text \<open>
  A pool pod: its slots (\<open>src/pkg/video/worker/slots.go\<close>) and the server that runs one conversion per slot
  (\<open>src/pkg/video/worker/server.go\<close>). The server's life is a sequence of events: a conversion asked for, a stream's
  context ending, a pipeline call returning, a grace period running out. Every mutex-protected region is one step, so a
  sequence of events is an interleaving of the goroutines. The identifiers are the code's 64-bit counter.
\<close>

section \<open>Slots\<close>

record slots =
  max_slots :: int
  next_id :: "64 word"
  held :: "(string \<times> 64 word) list"

definition NewSlots :: "int \<Rightarrow> slots" where
  "NewSlots n = \<lparr>max_slots = n, next_id = 0, held = []\<rparr>"

definition Free :: "slots \<Rightarrow> int" where
  "Free s = max_slots s - int (length (held s))"

definition slot_key :: "string \<Rightarrow> 64 word \<Rightarrow> string" where
  "slot_key session i = (if session = [] then CHR 0x00 # nat_digits (unat i) else session)"

text \<open>The answer is the new state, the job whose cancel function is called, and the handle the release function closes
  over, \<open>None\<close> where the job is refused.\<close>

definition Acquire :: "string \<Rightarrow> OutputKind \<Rightarrow> slots \<Rightarrow> slots \<times> 64 word option \<times> (string \<times> 64 word) option" where
  "Acquire session kind s =
     (let old = (if session \<noteq> [] then map_of (held s) session else None);
          need = (if kind = OutputFile then 2 else 1) in
      if old = None \<and> Free s < need then (s, None, None)
      else let i = next_id s + 1; key = slot_key session i in
        (s\<lparr>next_id := i, held := AList.update key i (held s)\<rparr>, old, Some (key, i)))"

definition release :: "string \<times> 64 word \<Rightarrow> slots \<Rightarrow> slots" where
  "release h s = (if map_of (held s) (fst h) = Some (snd h) then s\<lparr>held := AList.delete (fst h) (held s)\<rparr> else s)"

section \<open>The server\<close>

definition DefaultGrace :: duration where
  "DefaultGrace = 5 * second"

definition DefaultMaxAbandoned :: int where
  "DefaultMaxAbandoned = 4"

definition DefaultInputStall :: duration where
  "DefaultInputStall = 30 * second"

definition grace :: "duration \<Rightarrow> duration" where
  "grace d = (if d \<le> 0 then DefaultGrace else d)"

definition maxAbandoned :: "int \<Rightarrow> int" where
  "maxAbandoned n = (if n \<le> 0 then DefaultMaxAbandoned else n)"

definition inputStall :: "duration \<Rightarrow> duration" where
  "inputStall d = (if d \<le> 0 then DefaultInputStall else d)"

text \<open>A conversion runs, has had its context end while it runs, was abandoned while it runs, or has returned.\<close>

datatype life = Running | Ended | Abandoned | Returned

record conversion =
  handle :: "string \<times> 64 word"
  life :: life

record server =
  slots :: slots
  MaxAbandoned :: int
  conversions :: "conversion list"
  abandoned :: int
  wedged :: bool

definition new_server :: "int \<Rightarrow> int \<Rightarrow> server" where
  "new_server n a = \<lparr>slots = NewSlots n, MaxAbandoned = a, conversions = [], abandoned = 0, wedged = False\<rparr>"

datatype reply = Unmeasured | WedgedPod | ResourceExhausted | HeaderFailed | Accepted

text \<open>Cancelling a job ends its context.\<close>

definition end_context :: "conversion \<Rightarrow> conversion" where
  "end_context c = (if life c = Running then c\<lparr>life := Ended\<rparr> else c)"

definition cancel_id :: "64 word option \<Rightarrow> conversion list \<Rightarrow> conversion list" where
  "cancel_id old cs = map (\<lambda>c. if old = Some (snd (handle c)) then end_context c else c) cs"

text \<open>\<open>Convert\<close> up to the pipeline's start: the guards, the slot, the header that accepts the job. A header that cannot
  be sent releases the slot at once.\<close>

definition convert_begin :: "bool \<Rightarrow> bool \<Rightarrow> string \<Rightarrow> OutputKind \<Rightarrow> server \<Rightarrow> server \<times> reply" where
  "convert_begin measured header_ok session kind s =
     (if \<not> measured then (s, Unmeasured)
      else if wedged s then (s, WedgedPod)
      else case Acquire session kind (slots s) of (sl, old, h) \<Rightarrow>
        (case h of None \<Rightarrow> (s, ResourceExhausted)
         | Some k \<Rightarrow>
             let cs = cancel_id old (conversions s) in
             if header_ok then (s\<lparr>slots := sl, conversions := cs @ [\<lparr>handle = k, life = Running\<rparr>]\<rparr>, Accepted)
             else (s\<lparr>slots := release k sl, conversions := cs @ [\<lparr>handle = k, life = Returned\<rparr>]\<rparr>, HeaderFailed)))"

datatype event = Convert bool bool string OutputKind | StreamEnds nat | CallReturns nat | GraceOver nat

text \<open>\<open>run\<close>'s two selects and the deferred release: a call that returns in time frees its slot; one whose context ended
  and whose grace ran out is counted, frees its slot, and is uncounted when it returns after all.\<close>

definition set_life :: "nat \<Rightarrow> life \<Rightarrow> server \<Rightarrow> server" where
  "set_life i l s = s\<lparr>conversions := (conversions s)[i := (conversions s ! i)\<lparr>life := l\<rparr>]\<rparr>"

definition free_slot :: "nat \<Rightarrow> server \<Rightarrow> server" where
  "free_slot i s = s\<lparr>slots := release (handle (conversions s ! i)) (slots s)\<rparr>"

definition abandon :: "nat \<Rightarrow> server \<Rightarrow> server" where
  "abandon i s =
     (let n = abandoned s + 1 in
      set_life i Abandoned (free_slot i (s\<lparr>abandoned := n, wedged := wedged s \<or> maxAbandoned (MaxAbandoned s) \<le> n\<rparr>)))"

definition serve :: "event \<Rightarrow> server \<Rightarrow> server" where
  "serve e s = (case e of
      Convert measured header_ok session kind \<Rightarrow> fst (convert_begin measured header_ok session kind s)
    | StreamEnds i \<Rightarrow> if i < length (conversions s) \<and> life (conversions s ! i) = Running then set_life i Ended s else s
    | CallReturns i \<Rightarrow>
        if i < length (conversions s) then
          (case life (conversions s ! i) of
             Running \<Rightarrow> set_life i Returned (free_slot i s)
           | Ended \<Rightarrow> set_life i Returned (free_slot i s)
           | Abandoned \<Rightarrow> set_life i Returned (s\<lparr>abandoned := abandoned s - 1\<rparr>)
           | Returned \<Rightarrow> s)
        else s
    | GraceOver i \<Rightarrow> if i < length (conversions s) \<and> life (conversions s ! i) = Ended then abandon i s else s)"

section \<open>How a conversion ends\<close>

datatype run_error = ErrShape | ErrStalled | ErrAbandoned | OtherError string

datatype cause = Canceled | CauseError run_error

definition reasonOf :: "bool \<Rightarrow> run_error \<Rightarrow> Reason" where
  "reasonOf ctx_ended e =
     (if e = ErrShape then ReasonShape else if e = ErrStalled then ReasonWorkerError
      else if ctx_ended then ReasonCancelled else ReasonWorkerError)"

text \<open>\<open>Aborted\<close> ends the stream with no \<open>Done\<close>; otherwise one \<open>Done\<close> is sent, with the error and its reason if any.\<close>

datatype ending = Aborted | Done "(run_error \<times> Reason) option"

definition convert_end :: "cause option \<Rightarrow> run_error option \<Rightarrow> ending" where
  "convert_end cause err =
     (if err = Some ErrAbandoned then Aborted
      else case err of None \<Rightarrow> Done None
      | Some e \<Rightarrow>
          let e' = (case cause of Some (CauseError c) \<Rightarrow> c | _ \<Rightarrow> e)
          in Done (Some (e', reasonOf (cause \<noteq> None) e')))"

section \<open>The streamed inputs\<close>

text \<open>A pipe holds what was written to it and how it was closed: \<open>Some None\<close> is the end of the file.\<close>

record pipe =
  written :: "nat list"
  ended :: "string option option"

record chunk =
  c_input :: nat
  c_data :: "nat list"
  c_error :: string
  c_eof :: bool

definition close_pipe :: "string option \<Rightarrow> pipe \<Rightarrow> pipe" where
  "close_pipe e p = (if ended p = None then p\<lparr>ended := Some e\<rparr> else p)"

definition end_input :: "nat \<Rightarrow> string option \<Rightarrow> (nat \<rightharpoonup> pipe) \<Rightarrow> (nat \<rightharpoonup> pipe)" where
  "end_input i e ins = (case ins i of None \<Rightarrow> ins | Some p \<Rightarrow> ins(i \<mapsto> close_pipe e p))"

definition fail_inputs :: "string \<Rightarrow> (nat \<rightharpoonup> pipe) \<Rightarrow> (nat \<rightharpoonup> pipe)" where
  "fail_inputs e ins = (\<lambda>i. map_option (close_pipe (Some e)) (ins i))"

text \<open>\<open>receive\<close>'s body for one chunk: an input that is not open is passed over.\<close>

definition receive_chunk :: "chunk \<Rightarrow> (nat \<rightharpoonup> pipe) \<Rightarrow> (nat \<rightharpoonup> pipe)" where
  "receive_chunk c ins = (case ins (c_input c) of
      None \<Rightarrow> ins
    | Some p \<Rightarrow>
        if ended p \<noteq> None then ins
        else
          let ins' = (if c_error c \<noteq> [] then end_input (c_input c) (Some (c_error c)) ins
                      else ins(c_input c \<mapsto> p\<lparr>written := written p @ c_data c\<rparr>))
          in if c_eof c then end_input (c_input c) None ins' else ins')"

definition open_inputs :: "(nat \<rightharpoonup> pipe) \<Rightarrow> bool" where
  "open_inputs ins \<longleftrightarrow> (\<exists>i p. ins i = Some p \<and> ended p = None)"

text \<open>One tick of the watchdog: whether it fails the job.\<close>

definition watch_stalls :: "duration \<Rightarrow> bool \<Rightarrow> bool \<Rightarrow> time \<Rightarrow> time \<Rightarrow> bool" where
  "watch_stalls stall any_open waiting latest now \<longleftrightarrow> any_open \<and> \<not> waiting \<and> now - latest > stall"

section \<open>Slots as a finite map\<close>

lemma set_update_distinct:
  "distinct (map fst al) \<Longrightarrow> set (AList.update k v al) = {x \<in> set al. fst x \<noteq> k} \<union> {(k, v)}"
  by (induction al) (auto simp: rev_image_eqI)

lemma set_delete: "set (AList.delete k al) = {x \<in> set al. fst x \<noteq> k}"
  by (auto simp: AList.delete_eq)

lemma key_unique: "distinct (map fst al) \<Longrightarrow> x \<in> set al \<Longrightarrow> y \<in> set al \<Longrightarrow> fst x = fst y \<Longrightarrow> x = y"
  by (auto simp: distinct_map dest: inj_onD)

lemma release_set:
  assumes d: "distinct (map fst (held s))"
  shows "set (held (release h s)) = set (held s) - {h}"
proof (cases "map_of (held s) (fst h) = Some (snd h)")
  case True
  then have h: "(fst h, snd h) \<in> set (held s)" by (rule map_of_SomeD)
  have "x = h" if "x \<in> set (held s)" "fst x = fst h" for x
    using key_unique [OF d that(1), of h] that(2) h by simp
  then show ?thesis using True by (auto simp: release_def set_delete)
next
  case False
  then have "h \<notin> set (held s)" using d by (metis map_of_is_SomeI prod.collapse)
  then show ?thesis using False by (simp add: release_def)
qed

lemma release_same [simp]:
  "max_slots (release h s) = max_slots s" "next_id (release h s) = next_id s"
  by (simp_all add: release_def)

lemma release_distinct: "distinct (map fst (held s)) \<Longrightarrow> distinct (map fst (held (release h s)))"
  by (simp add: release_def distinct_delete)

lemma release_length: "length (held (release h s)) \<le> length (held s)"
  by (simp add: release_def length_delete_le)

section \<open>The invariant\<close>

definition running_count :: "life \<Rightarrow> conversion list \<Rightarrow> nat" where
  "running_count l cs = length (filter (\<lambda>c. life c = l) cs)"

definition keyed :: "string \<times> 64 word \<Rightarrow> bool" where
  "keyed h \<longleftrightarrow> fst h \<noteq> [] \<and> (hd (fst h) = CHR 0x00 \<longrightarrow> fst h = slot_key [] (snd h))"

definition slots_inv :: "slots \<Rightarrow> conversion list \<Rightarrow> bool" where
  "slots_inv s cs \<longleftrightarrow>
     distinct (map fst (held s)) \<and> 0 \<le> Free s
   \<and> next_id s = word_of_nat (length cs) \<and> length cs < 2 ^ 64
   \<and> map (snd \<circ> handle) cs = map (word_of_nat \<circ> Suc) [0..<length cs]
   \<and> (\<forall>c\<in>set cs. keyed (handle c))
   \<and> (\<forall>h\<in>set (held s). \<exists>c\<in>set cs. handle c = h \<and> life c \<in> {Running, Ended})
   \<and> (\<forall>c\<in>set cs. life c = Running \<longrightarrow> handle c \<in> set (held s))"

definition server_inv :: "server \<Rightarrow> bool" where
  "server_inv s \<longleftrightarrow> slots_inv (slots s) (conversions s)
     \<and> abandoned s = int (running_count Abandoned (conversions s))
     \<and> (maxAbandoned (MaxAbandoned s) \<le> abandoned s \<longrightarrow> wedged s)"

lemma handles_distinct:
  assumes "slots_inv s cs"
  shows "distinct (map handle cs)"
proof -
  have "inj_on (word_of_nat \<circ> Suc :: nat \<Rightarrow> 64 word) {0..<length cs}"
  proof (rule inj_onI)
    fix i j assume "i \<in> {0..<length cs}" "j \<in> {0..<length cs}" and e: "(word_of_nat \<circ> Suc) i = ((word_of_nat \<circ> Suc) j :: 64 word)"
    then have "i < 2 ^ 64 - 1 \<and> j < 2 ^ 64 - 1" using assms by (auto simp: slots_inv_def)
    moreover have "Suc i mod 2 ^ 64 = Suc j mod 2 ^ 64"
      using e unat_of_nat [where 'a = 64, of "Suc i"] unat_of_nat [where 'a = 64, of "Suc j"] by (simp del: of_nat_Suc)
    ultimately show "i = j" by simp
  qed
  then have "distinct (map (snd \<circ> handle) cs)" using assms by (simp add: slots_inv_def distinct_map)
  then show ?thesis by (metis distinct_map map_map)
qed

lemma map_handle_cancel [simp]: "map handle (cancel_id old cs) = map handle cs"
  by (simp add: cancel_id_def end_context_def)

lemma length_cancel [simp]: "length (cancel_id old cs) = length cs"
  by (simp add: cancel_id_def)

lemma cancel_id_mem:
  "c' \<in> set (cancel_id old cs) \<longleftrightarrow> (\<exists>c\<in>set cs. c' = (if old = Some (snd (handle c)) then end_context c else c))"
  unfolding cancel_id_def set_map by blast

lemma running_count_cancel [simp]:
  "running_count Abandoned (cancel_id old cs) = running_count Abandoned cs"
  by (induction cs) (auto simp: running_count_def cancel_id_def end_context_def)

text \<open>Two lists of conversions with the same handles, where lives only went from running to ended.\<close>

lemma slots_inv_lives:
  assumes "slots_inv s cs" and "map handle cs' = map handle cs"
    and "\<And>h. h \<in> set (held s') \<Longrightarrow> \<exists>c\<in>set cs'. handle c = h \<and> life c \<in> {Running, Ended}"
    and "\<And>c. c \<in> set cs' \<Longrightarrow> life c = Running \<Longrightarrow> handle c \<in> set (held s')"
    and "distinct (map fst (held s'))" and "0 \<le> Free s'" and "next_id s' = next_id s"
  shows "slots_inv s' cs'"
proof -
  have len: "length cs' = length cs" using assms(2) by (metis length_map)
  have "map (snd \<circ> handle) cs' = map (snd \<circ> handle) cs" using assms(2) by (metis map_map)
  moreover have "\<forall>c\<in>set cs'. keyed (handle c)"
    using assms(1,2) by (simp add: slots_inv_def) (metis (no_types, lifting) imageE imageI set_map)
  ultimately show ?thesis using assms(1,3-7) unfolding slots_inv_def len by auto
qed

section \<open>Each step keeps the invariant\<close>

lemma slots_inv_held_unique:
  "slots_inv s cs \<Longrightarrow> h \<in> set (held s) \<Longrightarrow> h' \<in> set (held s) \<Longrightarrow> fst h = fst h' \<Longrightarrow> h = h'"
  by (rule key_unique) (simp_all add: slots_inv_def)

lemma set_life_slots:
  assumes inv: "slots_inv s cs" and i: "i < length cs"
    and l: "l = Ended \<and> s' = s \<and> life (cs ! i) = Running
      \<or> l \<in> {Returned, Abandoned} \<and> s' = release (handle (cs ! i)) s
      \<or> l = Returned \<and> s' = s \<and> life (cs ! i) = Abandoned"
  shows "slots_inv s' (cs[i := (cs ! i)\<lparr>life := l\<rparr>])" (is "slots_inv s' ?cs")
proof (rule slots_inv_lives [OF inv])
  have d: "distinct (map fst (held s))" using inv by (simp add: slots_inv_def)
  have handles: "map handle ?cs = map handle cs"
    using i by (intro nth_equalityI) (auto simp: nth_list_update)
  then show "map handle ?cs = map handle cs" .
  have nth: "j < length cs \<Longrightarrow> handle (cs ! j) = handle (cs ! i) \<Longrightarrow> j = i" for j
    using handles_distinct [OF inv] i by (simp add: distinct_conv_nth) (metis nth_map)
  have rel: "set (held (release (handle (cs ! i)) s)) = set (held s) - {handle (cs ! i)}" using d by (rule release_set)
  show "\<exists>c\<in>set ?cs. handle c = h \<and> life c \<in> {Running, Ended}" if h: "h \<in> set (held s')" for h
  proof -
    have mem: "h \<in> set (held s)" and away: "h \<noteq> handle (cs ! i) \<or> l = Ended \<or> life (cs ! i) = Abandoned" using h l rel by auto
    from mem inv obtain c where "c \<in> set cs" "handle c = h" "life c \<in> {Running, Ended}" by (auto simp: slots_inv_def)
    then obtain j where j: "j < length cs" "handle (cs ! j) = h" "life (cs ! j) \<in> {Running, Ended}"
      by (metis in_set_conv_nth)
    then have "j \<noteq> i \<or> l = Ended" using away by auto
    then have "handle (?cs ! j) = h \<and> life (?cs ! j) \<in> {Running, Ended}" using j i by (auto simp: nth_list_update)
    then show ?thesis using j(1) by (metis length_list_update nth_mem)
  qed
  show "handle c \<in> set (held s')" if "c \<in> set ?cs" and r: "life c = Running" for c
  proof -
    obtain j where j: "j < length cs" "c = ?cs ! j" using \<open>c \<in> set ?cs\<close> by (auto simp: in_set_conv_nth)
    then have "j \<noteq> i" using r l i by auto
    then have "c = cs ! j" using j by simp
    then have "handle c \<in> set (held s)" using inv r j(1) by (auto simp: slots_inv_def)
    moreover have "handle c \<noteq> handle (cs ! i)" using nth [of j] \<open>c = cs ! j\<close> j(1) \<open>j \<noteq> i\<close> by auto
    ultimately show ?thesis using l rel by auto
  qed
  show "distinct (map fst (held s'))" using l d release_distinct [OF d, of "handle (cs ! i)"] by auto
  show "0 \<le> Free s'" using l inv release_length [of "handle (cs ! i)" s] by (auto simp: slots_inv_def Free_def)
  show "next_id s' = next_id s" using l by auto
qed

lemma running_count_update:
  assumes "i < length cs"
  shows "int (running_count a (cs[i := c])) =
     int (running_count a cs) + (if life c = a then 1 else 0) - (if life (cs ! i) = a then 1 else 0)"
proof -
  have "running_count a cs = running_count a (take i cs @ cs ! i # drop (Suc i) cs)"
    using id_take_nth_drop [OF assms] by simp
  then show ?thesis by (simp add: running_count_def upd_conv_take_nth_drop [OF assms])
qed

text \<open>Taking a slot: the key is new, or it was the cancelled job's.\<close>

definition session_ok :: "string \<Rightarrow> bool" where
  "session_ok session \<longleftrightarrow> session = [] \<or> hd session \<noteq> CHR 0x00"

lemma slot_key_keyed: "session_ok session \<Longrightarrow> keyed (slot_key session i, i)"
  by (auto simp: keyed_def slot_key_def session_ok_def)

lemma slots_inv_held_handle: "slots_inv s cs \<Longrightarrow> h \<in> set (held s) \<Longrightarrow> h \<in> handle ` set cs"
  unfolding slots_inv_def by (metis imageI)

lemma next_id_fresh:
  assumes "slots_inv s cs" and "Suc (length cs) < 2 ^ 64" and "c \<in> set cs"
  shows "snd (handle c) \<noteq> next_id s + 1"
proof
  obtain i where i: "i < length cs" "c = cs ! i" using assms(3) by (auto simp: in_set_conv_nth)
  have "map (snd \<circ> handle) cs ! i = map (word_of_nat \<circ> Suc) [0..<length cs] ! i" using assms(1) by (simp add: slots_inv_def)
  then have "snd (handle c) = word_of_nat (Suc i)" using i by (simp del: of_nat_Suc)
  moreover assume "snd (handle c) = next_id s + 1"
  ultimately have "word_of_nat (Suc i) = (word_of_nat (Suc (length cs)) :: 64 word)"
    using assms(1) by (simp add: slots_inv_def)
  then have "Suc i mod 2 ^ 64 = Suc (length cs) mod 2 ^ 64"
    using unat_of_nat [where 'a = 64, of "Suc i"] unat_of_nat [where 'a = 64, of "Suc (length cs)"] by (simp del: of_nat_Suc)
  then show False using i(1) assms(2) by simp
qed

lemma Acquire_key_owner:
  assumes inv: "slots_inv s cs" and "Suc (length cs) < 2 ^ 64" and "session_ok session"
    and acq: "Acquire session kind s = (s', old, Some k)" and h: "h \<in> set (held s)" "fst h = fst k"
  shows "old = Some (snd h)"
proof (cases "session = []")
  case True
  then have "fst h = slot_key [] (next_id s + 1)" using acq h(2) by (auto simp: Acquire_def Let_def split: if_splits)
  moreover obtain c where c: "c \<in> set cs" "handle c = h" using slots_inv_held_handle [OF inv h(1)] by blast
  then have "keyed h" using inv by (auto simp: slots_inv_def)
  ultimately have "nat_digits (unat (snd h)) = nat_digits (unat (next_id s + 1))" by (simp add: keyed_def slot_key_def)
  then have "snd h = next_id s + 1" by (metis digits_val_nat_digits word_unat_eq_iff)
  then show ?thesis using next_id_fresh [OF inv assms(2) c(1)] c(2) by simp
next
  case False
  then have "fst h = session" and "old = map_of (held s) session"
    using acq h(2) by (auto simp: Acquire_def Let_def slot_key_def split: if_splits)
  then show ?thesis using inv h(1) by (auto simp: slots_inv_def)
qed

lemma Acquire_inv:
  assumes inv: "slots_inv s cs" and len: "Suc (length cs) < 2 ^ 64" and ok: "session_ok session"
    and acq: "Acquire session kind s = (s', old, Some k)"
  shows "slots_inv s' (cancel_id old cs @ [\<lparr>handle = k, life = Running\<rparr>])"
proof -
  have d: "distinct (map fst (held s))" using inv by (simp add: slots_inv_def)
  have k: "k = (slot_key session (next_id s + 1), next_id s + 1)"
    and s': "s' = s\<lparr>next_id := next_id s + 1, held := AList.update (fst k) (snd k) (held s)\<rparr>"
    using acq by (auto simp: Acquire_def Let_def split: if_splits)
  have held': "set (held s') = {x \<in> set (held s). fst x \<noteq> fst k} \<union> {k}"
    using set_update_distinct [OF d, of "fst k" "snd k"] by (simp add: s')
  have run: "handle c \<in> set (held s')" if "c \<in> set (cancel_id old cs)" "life c = Running" for c
  proof -
    from that(1) obtain c0 where c0: "c0 \<in> set cs" "c = (if old = Some (snd (handle c0)) then end_context c0 else c0)"
      unfolding cancel_id_mem by blast
    then have "c = c0" and no: "old \<noteq> Some (snd (handle c0))" using that(2) by (auto simp: end_context_def split: if_splits)
    then have "handle c \<in> set (held s)" using inv c0(1) that(2) by (auto simp: slots_inv_def)
    moreover have "fst (handle c) \<noteq> fst k"
      using Acquire_key_owner [OF inv len ok acq calculation] no \<open>c = c0\<close> by auto
    ultimately show ?thesis by (simp add: held')
  qed
  have own: "\<exists>c\<in>set (cancel_id old cs). handle c = h \<and> life c \<in> {Running, Ended}" if "h \<in> set (held s)" for h
  proof -
    obtain c where c: "c \<in> set cs" "handle c = h" "life c \<in> {Running, Ended}"
      using inv \<open>h \<in> set (held s)\<close> by (auto simp: slots_inv_def)
    let ?c = "if old = Some (snd (handle c)) then end_context c else c"
    have "?c \<in> set (cancel_id old cs)" using c(1) unfolding cancel_id_mem by blast
    moreover have "handle ?c = h \<and> life ?c \<in> {Running, Ended}" using c(2,3) by (auto simp: end_context_def)
    ultimately show ?thesis by blast
  qed
  have free: "0 \<le> Free s'"
  proof (cases "old = None")
    case True
    then have "1 \<le> Free s" using acq by (auto simp: Acquire_def Let_def split: if_splits)
    moreover have "length (AList.update (fst k) (snd k) (held s)) \<le> Suc (length (held s))"
      by (cases "fst k \<in> fst ` set (held s)") (simp_all add: length_update_old length_update_new)
    ultimately show ?thesis by (simp add: s' Free_def)
  next
    case False
    then have "map_of (held s) session \<noteq> None" "fst k = session"
      using acq k by (auto simp: Acquire_def Let_def slot_key_def split: if_splits)
    then have "fst k \<in> fst ` set (held s)" by (simp add: map_of_eq_None_iff)
    then show ?thesis using inv by (simp add: s' Free_def slots_inv_def length_update_old)
  qed
  have ids: "map (snd \<circ> handle) (cancel_id old cs) = map (snd \<circ> handle) cs"
    using map_handle_cancel [of old cs] by (metis map_map)
  have keyed: "keyed (handle c)" if "c \<in> set (cancel_id old cs)" for c
    using that inv by (auto simp: cancel_id_mem end_context_def slots_inv_def split: if_splits)
  show ?thesis
    unfolding slots_inv_def
  proof (intro conjI ballI impI)
    show "distinct (map fst (held s'))" using d by (simp add: s' distinct_update)
    show "0 \<le> Free s'" by (rule free)
    show "next_id s' = word_of_nat (length (cancel_id old cs @ [\<lparr>handle = k, life = Running\<rparr>]))"
      using inv by (simp add: s' slots_inv_def)
    show "length (cancel_id old cs @ [\<lparr>handle = k, life = Running\<rparr>]) < 2 ^ 64" using len by simp
    show "map (snd \<circ> handle) (cancel_id old cs @ [\<lparr>handle = k, life = Running\<rparr>])
        = map (word_of_nat \<circ> Suc) [0..<length (cancel_id old cs @ [\<lparr>handle = k, life = Running\<rparr>])]"
      using inv ids by (simp add: slots_inv_def k)
    show "keyed (handle c)" if "c \<in> set (cancel_id old cs @ [\<lparr>handle = k, life = Running\<rparr>])" for c
      using that keyed slot_key_keyed [OF ok] by (auto simp: k)
    show "\<exists>c\<in>set (cancel_id old cs @ [\<lparr>handle = k, life = Running\<rparr>]). handle c = h \<and> life c \<in> {Running, Ended}"
      if "h \<in> set (held s')" for h
      using that own [of h] unfolding held' by auto
    show "handle c \<in> set (held s')" if "c \<in> set (cancel_id old cs @ [\<lparr>handle = k, life = Running\<rparr>])" "life c = Running" for c
      using that run held' by auto
  qed
qed

lemma slots_inv_drop_last:
  assumes "slots_inv s (cs @ [\<lparr>handle = k, life = Running\<rparr>])"
  shows "slots_inv (release k s) (cs @ [\<lparr>handle = k, life = Returned\<rparr>])"
  using set_life_slots [OF assms, of "length cs" Returned "release k s"] by simp

definition event_ok :: "event \<Rightarrow> bool" where
  "event_ok e = (case e of Convert _ _ session _ \<Rightarrow> session_ok session | _ \<Rightarrow> True)"

lemma convert_begin_inv:
  assumes inv: "server_inv s" and len: "Suc (length (conversions s)) < 2 ^ 64" and ok: "session_ok session"
  shows "server_inv (fst (convert_begin measured header_ok session kind s))"
proof (cases "\<exists>sl old k. \<not> wedged s \<and> measured \<and> Acquire session kind (slots s) = (sl, old, Some k)")
  case False
  then show ?thesis using inv by (auto simp: convert_begin_def split: prod.splits option.splits)
next
  case True
  then obtain sl old k where a: "\<not> wedged s" "measured" "Acquire session kind (slots s) = (sl, old, Some k)" by blast
  have "slots_inv sl (cancel_id old (conversions s) @ [\<lparr>handle = k, life = Running\<rparr>])"
    using inv len ok a(3) by (intro Acquire_inv) (simp_all add: server_inv_def)
  moreover have "running_count Abandoned (cancel_id old (conversions s) @ [\<lparr>handle = k, life = l\<rparr>])
      = running_count Abandoned (conversions s)" if "l \<noteq> Abandoned" for l
    using that running_count_cancel [of old "conversions s"] by (simp add: running_count_def)
  ultimately show ?thesis using inv a slots_inv_drop_last
    by (auto simp: convert_begin_def server_inv_def Let_def)
qed

lemma serve_inv:
  assumes inv: "server_inv s" and "Suc (length (conversions s)) < 2 ^ 64" and "event_ok e"
  shows "server_inv (serve e s)"
proof (cases e)
  case (Convert measured header_ok session kind)
  then show ?thesis using assms convert_begin_inv by (simp add: serve_def event_ok_def)
next
  case (StreamEnds i)
  then show ?thesis using inv set_life_slots [of "slots s" "conversions s" i Ended "slots s"]
    by (auto simp: serve_def set_life_def server_inv_def running_count_update)
next
  case (CallReturns i)
  then show ?thesis using inv set_life_slots [of "slots s" "conversions s" i Returned]
    by (auto simp: serve_def set_life_def free_slot_def server_inv_def running_count_update split: life.splits)
next
  case (GraceOver i)
  then show ?thesis using inv set_life_slots [of "slots s" "conversions s" i Abandoned]
    by (auto simp: serve_def set_life_def free_slot_def abandon_def Let_def server_inv_def running_count_update)
qed

section \<open>Properties\<close>

lemma serve_length: "length (conversions (serve e s)) \<le> Suc (length (conversions s))"
  by (auto simp: serve_def convert_begin_def set_life_def free_slot_def abandon_def Let_def
    split: event.splits life.splits prod.splits option.splits)

lemma Acquire_max: "Acquire session kind s = (s', old, k) \<Longrightarrow> max_slots s' = max_slots s"
  by (auto simp: Acquire_def Let_def split: if_splits)

lemma convert_begin_same:
  "max_slots (slots (fst (convert_begin m h session kind s))) = max_slots (slots s)"
  "MaxAbandoned (fst (convert_begin m h session kind s)) = MaxAbandoned s"
  by (auto simp: convert_begin_def Let_def dest: Acquire_max split: prod.splits option.splits)

lemma serve_same [simp]:
  "max_slots (slots (serve e s)) = max_slots (slots s)" "MaxAbandoned (serve e s) = MaxAbandoned s"
  by (auto simp: serve_def convert_begin_same set_life_def free_slot_def abandon_def Let_def
    split: event.splits life.splits)

lemma fold_serve_same [simp]:
  "max_slots (slots (fold serve es s)) = max_slots (slots s)" "MaxAbandoned (fold serve es s) = MaxAbandoned s"
  by (induction es arbitrary: s) simp_all

lemma fold_serve_inv:
  "server_inv s \<Longrightarrow> length (conversions s) + length es < 2 ^ 64 \<Longrightarrow> list_all event_ok es \<Longrightarrow> server_inv (fold serve es s)"
proof (induction es arbitrary: s)
  case (Cons e es)
  have "server_inv (serve e s)" using Cons.prems by (intro serve_inv) simp_all
  moreover have "length (conversions (serve e s)) + length es < 2 ^ 64" using serve_length [of e s] Cons.prems(2) by simp
  ultimately show ?case using Cons by simp
qed simp

lemma new_server_inv: "0 \<le> n \<Longrightarrow> server_inv (new_server n a)"
  by (simp add: server_inv_def slots_inv_def new_server_def NewSlots_def Free_def running_count_def maxAbandoned_def
    DefaultMaxAbandoned_def)

lemma running_le_held:
  assumes "slots_inv s cs"
  shows "running_count Running cs \<le> length (held s)"
proof -
  let ?hs = "map handle (filter (\<lambda>c. life c = Running) cs)"
  have "distinct ?hs" using handles_distinct [OF assms] by (rule distinct_map_filter)
  then have "length ?hs = card (set ?hs)" by (rule distinct_card [symmetric])
  also have "\<dots> \<le> card (set (held s))" using assms by (intro card_mono) (auto simp: slots_inv_def)
  also have "\<dots> \<le> length (held s)" by (rule card_length)
  finally show ?thesis by (simp add: running_count_def)
qed

text \<open>
  C4. Whatever conversions are asked for and however their streams end, their calls return late or never, and jobs take
  over a session's slot, a pod runs at most \<open>n\<close> conversions whose stream is alive, every taken slot belongs to a
  conversion that has neither returned nor been abandoned (so no slot leaks), and the abandoned count is exact, with the
  pod wedged once it reaches the limit.
\<close>

theorem worker_slots_never_leak:
  assumes "0 \<le> n" and "length es < 2 ^ 64" and "list_all event_ok es"
    and "s = fold serve es (new_server n a)"
  shows "int (running_count Running (conversions s)) \<le> n - Free (slots s) \<and> 0 \<le> Free (slots s)
    \<and> (\<forall>h\<in>set (held (slots s)). \<exists>c\<in>set (conversions s). handle c = h \<and> life c \<in> {Running, Ended})
    \<and> abandoned s = int (running_count Abandoned (conversions s))
    \<and> (maxAbandoned a \<le> abandoned s \<longrightarrow> wedged s)"
proof -
  have inv: "server_inv s"
    unfolding assms(4) using assms(1-3) new_server_inv [of n a] by (intro fold_serve_inv) (simp_all add: new_server_def)
  have "max_slots (slots s) = n" and "MaxAbandoned s = a" by (simp_all add: assms(4)) (simp_all add: new_server_def NewSlots_def)
  then show ?thesis using inv running_le_held [of "slots s" "conversions s"]
    by (simp add: server_inv_def slots_inv_def Free_def)
qed

definition demo_events :: "event list" where
  "demo_events = [Convert True True ''a'' OutputHLS, Convert True True ''b'' OutputFile, Convert True True ''a'' OutputHLS,
     GraceOver 0, StreamEnds 1, CallReturns 0, CallReturns 1]"

theorem worker_slots_never_leak_witness:
  "int (running_count Running (conversions (fold serve demo_events (new_server 3 0)))) \<le> 3 - Free (slots (fold serve demo_events (new_server 3 0)))
   \<and> abandoned (fold serve demo_events (new_server 3 0)) = int (running_count Abandoned (conversions (fold serve demo_events (new_server 3 0))))"
proof -
  have "list_all event_ok demo_events" by (simp add: demo_events_def event_ok_def session_ok_def)
  then show ?thesis using worker_slots_never_leak [of 3 demo_events _ 0, OF _ _ _ refl] by (simp add: demo_events_def)
qed

text \<open>
  Admission at a pod that is measured and not wedged: a job for a session that holds a slot is always accepted, takes
  that slot over and ends the old job's context, changing no count; any other job is accepted exactly when a slot is free,
  or two for a whole-file job, so a whole-file job always leaves a slot for a viewer's stream.
\<close>

theorem slot_admission:
  assumes inv: "server_inv s" and "session_ok session" and "\<not> wedged s"
    and run: "convert_begin True True session kind s = (s', r)"
  shows "(session \<in> fst ` set (held (slots s)) \<longrightarrow> r = Accepted \<and> Free (slots s') = Free (slots s)
       \<and> (\<forall>c\<in>set (butlast (conversions s')). fst (handle c) = session \<longrightarrow> life c \<noteq> Running))
    \<and> (session \<notin> fst ` set (held (slots s)) \<longrightarrow>
         (if (if kind = OutputFile then 2 else 1) \<le> Free (slots s)
          then r = Accepted \<and> (Suc (length (conversions s)) < 2 ^ 64 \<longrightarrow> Free (slots s') = Free (slots s) - 1)
          else r = ResourceExhausted \<and> s' = s))"
proof -
  have sl: "slots_inv (slots s) (conversions s)" using inv by (simp add: server_inv_def)
  then have d: "distinct (map fst (held (slots s)))" by (simp add: slots_inv_def)
  have nonempty: "[] \<notin> fst ` set (held (slots s))"
    using sl slots_inv_held_handle [OF sl] by (fastforce simp: slots_inv_def keyed_def)
  show ?thesis
  proof (cases "session \<in> fst ` set (held (slots s))")
    case True
    then obtain i where i: "map_of (held (slots s)) session = Some i" and ne: "session \<noteq> []"
      using d nonempty by (metis map_of_eq_None_iff not_None_eq)
    let ?k = "(session, next_id (slots s) + 1)"
    have acq: "Acquire session kind (slots s) = ((slots s)\<lparr>next_id := snd ?k, held := AList.update session (snd ?k) (held (slots s))\<rparr>, Some i, Some ?k)"
      using i ne by (simp add: Acquire_def Let_def slot_key_def)
    have gone: "life c \<noteq> Running" if "c \<in> set (cancel_id (Some i) (conversions s))" "fst (handle c) = session" for c
    proof
      assume r: "life c = Running"
      from that(1) obtain c0 where "c0 \<in> set (conversions s)" "c = (if Some i = Some (snd (handle c0)) then end_context c0 else c0)"
        unfolding cancel_id_mem by blast
      then have "c \<in> set (conversions s)" and no: "snd (handle c) \<noteq> i" using r by (auto simp: end_context_def split: if_splits)
      then have "handle c \<in> set (held (slots s))" using sl r by (auto simp: slots_inv_def)
      then show False using i no d that(2) by (metis map_of_is_SomeI option.inject prod.collapse)
    qed
    have "Free (slots s') = Free (slots s) \<and> r = Accepted \<and> butlast (conversions s') = cancel_id (Some i) (conversions s)"
      using run acq assms(3) length_update_old [OF True] by (auto simp: convert_begin_def Let_def Free_def)
    then show ?thesis using True gone by simp
  next
    case False
    then have none: "(if session \<noteq> [] then map_of (held (slots s)) session else None) = None" by (simp add: map_of_eq_None_iff)
    let ?k = "(slot_key session (next_id (slots s) + 1), next_id (slots s) + 1)"
    have new: "fst ?k \<notin> fst ` set (held (slots s))"
      if need: "(if kind = OutputFile then 2 else 1) \<le> Free (slots s)" and len: "Suc (length (conversions s)) < 2 ^ 64"
    proof
      assume "fst ?k \<in> fst ` set (held (slots s))"
      then obtain h where h: "h \<in> set (held (slots s))" "fst h = fst ?k" by auto
      have "Acquire session kind (slots s) = (fst (Acquire session kind (slots s)), None, Some ?k)"
        using none need by (auto simp: Acquire_def Let_def split: if_splits)
      from Acquire_key_owner [OF sl len assms(2) this h] show False by simp
    qed
    show ?thesis using run False none assms(3) new
      by (auto simp: convert_begin_def Acquire_def Let_def Free_def length_update_new split: if_splits)
  qed
qed

theorem slot_admission_witness:
  "snd (convert_begin True True ''b'' OutputFile (new_server 2 0)) = Accepted
   \<and> Free (slots (fst (convert_begin True True ''b'' OutputFile (new_server 2 0)))) = 1"
proof -
  have "server_inv (new_server 2 0)" by (simp add: new_server_inv)
  from slot_admission [OF this, of "''b''" OutputFile, OF _ _ surjective_pairing] show ?thesis
    by (simp add: session_ok_def new_server_def NewSlots_def Free_def)
qed

text \<open>The bytes one input's chunks carry, up to the first end or error.\<close>

fun feed :: "chunk list \<Rightarrow> pipe \<Rightarrow> pipe" where
  "feed [] p = p"
| "feed (c # cs) p =
     (if ended p \<noteq> None then p
      else if c_error c \<noteq> [] then p\<lparr>ended := Some (Some (c_error c))\<rparr>
      else if c_eof c then p\<lparr>written := written p @ c_data c, ended := Some None\<rparr>
      else feed cs (p\<lparr>written := written p @ c_data c\<rparr>))"

lemma feed_ended: "ended p \<noteq> None \<Longrightarrow> feed cs p = p"
  by (cases cs) auto

lemma receive_chunk_other: "i \<noteq> c_input c \<Longrightarrow> receive_chunk c ins i = ins i"
  by (auto simp: receive_chunk_def end_input_def Let_def split: option.splits)

lemma receive_chunk_own: "receive_chunk c ins (c_input c) = map_option (feed [c]) (ins (c_input c))"
  by (auto simp: receive_chunk_def end_input_def close_pipe_def Let_def split: option.splits)

lemma feed_Cons: "feed (c # cs) p = feed cs (feed [c] p)"
  by (auto simp: feed_ended)

text \<open>
  The relay's chunks, however those of several inputs interleave, reach each input's pipe in order and whole: an
  input holds exactly the data of its own chunks up to its first end of file or error, which closes it for good.
\<close>

theorem inputs_deliver_in_order:
  "fold receive_chunk cs ins i = map_option (feed (filter (\<lambda>c. c_input c = i) cs)) (ins i)"
proof (induction cs arbitrary: ins)
  case Nil
  show ?case by (cases "ins i") simp_all
next
  case (Cons c cs)
  show ?case
  proof (cases "c_input c = i")
    case True
    then have "receive_chunk c ins i = map_option (feed [c]) (ins i)" using receive_chunk_own [of c ins] by simp
    moreover have "map_option (feed (c # fs)) p = map_option (feed fs) (map_option (feed [c]) p)" for fs p
      by (cases p) (simp_all only: option.map feed_Cons [of c fs])
    from this [of "filter (\<lambda>c. c_input c = i) cs" "ins i"]
    have "map_option (feed (filter (\<lambda>c. c_input c = i) (c # cs))) (ins i)
        = map_option (feed (filter (\<lambda>c. c_input c = i) cs)) (map_option (feed [c]) (ins i))"
      using True by (simp del: feed.simps)
    ultimately show ?thesis using Cons [of "receive_chunk c ins"] by (simp del: feed.simps filter.simps)
  next
    case False
    then show ?thesis using Cons receive_chunk_other [of i c ins] by simp
  qed
qed

end
