(* ===== verification/Video_Segments.thy ===== *)
theory Video_Segments
  imports Video_Job
begin

text \<open>
  How a conversion is cut and told to Plex: the keyframe and cut rules and the segment list of \<open>src/pkg/video/segment.go\<close>,
  the MPEG-TS cutter of \<open>src/pkg/video/pipeline/cut.go\<close>, and the relay's lister and progress queue
  (\<open>src/pkg/video/relay/list.go\<close>, \<open>progress.go\<close>, \<open>throttle.go\<close>). The muxer and the sink are parameters: they take a packet
  or a segment, or fail. What the muxer writes for a packet is the packet itself.
\<close>

section \<open>Keyframes and cuts\<close>

definition KeyframeDue :: "duration \<Rightarrow> int \<Rightarrow> duration \<Rightarrow> bool" where
  "KeyframeDue t forced every \<longleftrightarrow> t \<ge> forced * every"

definition FirstForced :: "duration \<Rightarrow> duration \<Rightarrow> int" where
  "FirstForced start every = (if start \<le> 0 \<or> every \<le> 0 then 0 else go_div start every)"

text \<open>The encoder's loop over frames: whether each is forced, the count going on.\<close>

fun forced_frames :: "duration \<Rightarrow> int \<Rightarrow> duration list \<Rightarrow> bool list" where
  "forced_frames every forced [] = []"
| "forced_frames every forced (t # ts) =
     (if KeyframeDue t forced every then True # forced_frames every (forced + 1) ts else False # forced_frames every forced ts)"

definition CutDue :: "duration \<Rightarrow> duration \<Rightarrow> int \<Rightarrow> Segmenting \<Rightarrow> bool" where
  "CutDue t origin k s \<longleftrightarrow> t - origin \<ge> (k + 1) * Duration s - TimeDelta s"

section \<open>The segment list\<close>

record Span =
  SpStream :: int
  SpStart :: duration
  SpEnd :: duration

record SegmentTimes =
  STName :: string
  STStart :: duration
  STEnd :: duration
  STStreams :: "Span list"

text \<open>\<open>\%06d\<close> of a number below a million.\<close>

definition pad6 :: "nat \<Rightarrow> string" where
  "pad6 n = replicate (6 - length (nat_digits n)) (CHR ''0'') @ nat_digits n"

definition seconds6 :: "duration \<Rightarrow> string" where
  "seconds6 d =
     (let us = Microseconds d; m = nat \<bar>us\<bar>
      in (if us < 0 then ''-'' else []) @ nat_digits (m div 1000000) @ ''.'' @ pad6 (m mod 1000000))"

definition SegmentListLine :: "SegmentTimes \<Rightarrow> string" where
  "SegmentListLine s =
     STName s @ concat (map (\<lambda>d. '','' @ seconds6 d) ([STStart s, STEnd s] @ map SpEnd (sort_key (\<lambda>sp. - SpStream sp) (STStreams s))))
       @ [CHR 0x0A]"

record SegmentList =
  list_max :: int
  list_lines :: "string list"

definition NewSegmentList :: "int \<Rightarrow> SegmentList" where
  "NewSegmentList listSize = \<lparr>list_max = listSize - 1, list_lines = []\<rparr>"

definition last_lines :: "int \<Rightarrow> string list \<Rightarrow> string list" where
  "last_lines k ls = drop (length ls - nat k) ls"

definition window :: "SegmentList \<Rightarrow> int \<Rightarrow> string list" where
  "window l keep = (if list_max l \<le> 0 \<or> int (length (list_lines l)) \<le> keep then list_lines l else last_lines keep (list_lines l))"

definition Finished :: "SegmentTimes \<Rightarrow> SegmentList \<Rightarrow> SegmentList \<times> string" where
  "Finished s l =
     (let ls = list_lines l @ [SegmentListLine s];
          ls' = (if list_max l > 0 \<and> int (length ls) > list_max l then last_lines (list_max l) ls else ls)
      in (l\<lparr>list_lines := ls'\<rparr>, concat ls'))"

definition Opened :: "string \<Rightarrow> duration \<Rightarrow> nat \<Rightarrow> SegmentList \<Rightarrow> string" where
  "Opened name start streams l =
     (let keep = (if list_max l > 0 then list_max l - 1 else int (length (list_lines l)))
      in concat (window l keep) @ ''#'' @ name @ concat (replicate (2 + streams) ('','' @ seconds6 start)) @ [CHR 0x0A])"

section \<open>The cutter\<close>

record packet =
  dts :: time
  pts :: time
  pend :: time
  key :: bool
  payload :: string

record segment =
  seg_number :: int
  seg_start :: time
  seg_end :: time
  seg_packets :: "(bool \<times> packet) list"
  seg_next :: "time option"

record cutter =
  segs :: Segmenting
  wantAudio :: bool
  hasAudio :: bool
  vq :: "packet list"
  aq :: "packet list"
  open_number :: int
  is_open :: bool
  open_start :: time
  vEnd :: time
  aEnd :: time
  vDTS :: "time option"
  aDTS :: "time option"
  buffer :: "(bool \<times> packet) list"
  cuts :: "segment list"
  dropped :: nat
  stepped :: duration
  cut_error :: "string option"

record media =
  mux_ok :: "bool \<times> packet \<Rightarrow> bool"
  drain_ok :: "packet \<Rightarrow> bool"
  take_ok :: "segment \<Rightarrow> bool"

definition maxQueued :: nat where
  "maxQueued = 512"

definition new_cutter :: "Segmenting \<Rightarrow> bool \<Rightarrow> cutter" where
  "new_cutter s audio = \<lparr>segs = s, wantAudio = audio, hasAudio = audio, vq = [], aq = [], open_number = StartNumber s,
     is_open = False, open_start = 0, vEnd = 0, aEnd = 0, vDTS = None, aDTS = None, buffer = [], cuts = [], dropped = 0,
     stepped = 0, cut_error = None\<rparr>"

definition cut_segment :: "media \<Rightarrow> time \<Rightarrow> time option \<Rightarrow> cutter \<Rightarrow> cutter" where
  "cut_segment md ends nxt c =
     (let s = \<lparr>seg_number = open_number c, seg_start = open_start c, seg_end = ends, seg_packets = buffer c, seg_next = nxt\<rparr>
      in if take_ok md s then c\<lparr>buffer := [], open_number := open_number c + 1, cuts := cuts c @ [s]\<rparr>
         else c\<lparr>buffer := [], open_number := open_number c + 1, cut_error := Some ''sink''\<rparr>)"

text \<open>A forced keyframe that starts the next segment, or the first one.\<close>

definition open_segment :: "media \<Rightarrow> packet \<Rightarrow> cutter \<Rightarrow> cutter" where
  "open_segment md q c =
     (let c' = (if \<not> is_open c then c
                else if \<not> drain_ok md q then c\<lparr>cut_error := Some ''drain''\<rparr>
                else cut_segment md (pts q) (Some (pts q)) c)
      in if cut_error c' \<noteq> None then c'
         else c'\<lparr>is_open := True, open_start := pts q, vEnd := pts q, aEnd := pts q\<rparr>)"

definition stale :: "bool \<Rightarrow> packet \<Rightarrow> cutter \<Rightarrow> duration option" where
  "stale video q c = (case (if video then vDTS c else aDTS c) of
      None \<Rightarrow> None | Some l \<Rightarrow> if dts q \<le> l then Some (l - dts q) else None)"

definition put_packet :: "media \<Rightarrow> bool \<Rightarrow> packet \<Rightarrow> cutter \<Rightarrow> cutter" where
  "put_packet md video q c =
     (if \<not> video \<and> \<not> hasAudio c then c
      else case stale video q c of
        Some back \<Rightarrow> c\<lparr>dropped := dropped c + 1, stepped := max (stepped c) back\<rparr>
      | None \<Rightarrow>
          if \<not> mux_ok md (video, q) then c\<lparr>cut_error := Some ''mux''\<rparr>
          else if video then c\<lparr>buffer := buffer c @ [(True, q)], vDTS := Some (dts q), vEnd := max (vEnd c) (pend q)\<rparr>
          else c\<lparr>buffer := buffer c @ [(False, q)], aDTS := Some (dts q), aEnd := max (aEnd c) (pend q)\<rparr>)"

definition write_packet :: "media \<Rightarrow> bool \<Rightarrow> packet \<Rightarrow> cutter \<Rightarrow> cutter" where
  "write_packet md video q c =
     (let c' = (if video \<and> key q \<and> (\<not> is_open c \<or> CutDue (pts q) 0 (open_number c) (segs c)) then open_segment md q c else c)
      in if cut_error c' \<noteq> None then c' else put_packet md video q c')"

text \<open>Which queue \<open>pump\<close> takes from next, \<open>None\<close> where it waits.\<close>

definition pump_next :: "bool \<Rightarrow> cutter \<Rightarrow> bool option" where
  "pump_next final c =
     (if vq c \<noteq> [] \<and> aq c \<noteq> [] then Some (dts (hd (vq c)) \<le> dts (hd (aq c)))
      else if vq c \<noteq> [] \<and> (final \<or> \<not> wantAudio c \<or> length (vq c) > maxQueued) then Some True
      else if aq c \<noteq> [] \<and> (final \<or> length (aq c) > maxQueued) then Some False
      else None)"

lemma queues_kept [simp]:
  "vq (write_packet md v q c) = vq c" "aq (write_packet md v q c) = aq c"
  "vq (cut_segment md e n c) = vq c" "aq (cut_segment md e n c) = aq c"
  by (auto simp: write_packet_def open_segment_def cut_segment_def put_packet_def Let_def split: option.splits)

lemma pump_next_nonempty: "pump_next final c = Some v \<Longrightarrow> (if v then vq c else aq c) \<noteq> []"
  by (auto simp: pump_next_def split: if_splits)

function pump :: "media \<Rightarrow> bool \<Rightarrow> cutter \<Rightarrow> cutter" where
  "pump md final c =
     (if cut_error c \<noteq> None then c
      else case pump_next final c of
        None \<Rightarrow> c
      | Some True \<Rightarrow> pump md final (write_packet md True (hd (vq c)) (c\<lparr>vq := tl (vq c)\<rparr>))
      | Some False \<Rightarrow> pump md final (write_packet md False (hd (aq c)) (c\<lparr>aq := tl (aq c)\<rparr>)))"
  by pat_completeness auto

termination
  by (relation "measure (\<lambda>(_, _, c). length (vq c) + length (aq c))") (auto dest!: pump_next_nonempty)

declare pump.simps [simp del]

definition video_packet :: "media \<Rightarrow> packet \<Rightarrow> cutter \<Rightarrow> cutter" where
  "video_packet md q c = pump md False (c\<lparr>vq := vq c @ [q]\<rparr>)"

definition audio_packet :: "media \<Rightarrow> packet \<Rightarrow> cutter \<Rightarrow> cutter" where
  "audio_packet md q c = pump md False (c\<lparr>aq := aq c @ [q]\<rparr>)"

definition finish_cutter :: "media \<Rightarrow> cutter \<Rightarrow> cutter" where
  "finish_cutter md c =
     (let c' = pump md True c in
      if cut_error c' \<noteq> None then c'
      else if \<not> is_open c' then c'\<lparr>cut_error := Some ''no segment was written''\<rparr>
      else cut_segment md (vEnd c') None c')"

section \<open>The relay's side\<close>

record lister =
  lpattern :: "int \<Rightarrow> string"
  llist :: SegmentList
  lnext :: int
  lcount :: nat
  posted :: "string list"

definition newLister :: "(int \<Rightarrow> string) \<Rightarrow> Segmenting \<Rightarrow> lister" where
  "newLister names s = \<lparr>lpattern = names, llist = NewSegmentList (ListSize s), lnext = StartNumber s, lcount = 0, posted = []\<rparr>"

definition lister_finished :: "(string list \<Rightarrow> bool) \<Rightarrow> SegmentTimes \<Rightarrow> duration option \<Rightarrow> lister \<Rightarrow> lister \<times> bool" where
  "lister_finished post_ok s nextStart l =
     (if STName s \<noteq> lpattern l (lnext l) then (l, False)
      else let (sl, body) = Finished s (llist l);
               l' = l\<lparr>lnext := lnext l + 1, lcount := lcount l + 1, llist := sl\<rparr> in
        if \<not> post_ok (posted l) then (l', False)
        else let l2 = l'\<lparr>posted := posted l @ [body]\<rparr> in
          (case nextStart of
             None \<Rightarrow> (l2, True)
           | Some t \<Rightarrow>
               if \<not> post_ok (posted l2) then (l2, False)
               else (l2\<lparr>posted := posted l2 @ [Opened (lpattern l (lnext l')) t (length (STStreams s)) sl]\<rparr>, True)))"

definition slothRemaining :: string where
  "slothRemaining = ''2147483647''"

definition sloth_part :: "string \<Rightarrow> string list" where
  "sloth_part kv = (let k = fst (cut_at CHR ''='' kv) in
     if k = ''speed'' then [] else if k = ''remaining'' then [''remaining='' @ slothRemaining] else [kv])"

definition slothQuery :: "string \<Rightarrow> string" where
  "slothQuery q = join ''&'' (concat (map sloth_part (split_on CHR ''&'' q)))"

definition periodic :: "string \<Rightarrow> string \<Rightarrow> bool" where
  "periodic path query \<longleftrightarrow> path = [] \<and> prefix ''progress='' query"

text \<open>\<open>send\<close>'s queue, and whether the reporter was idle.\<close>

definition report_send :: "bool \<Rightarrow> string \<times> string \<Rightarrow> (string \<times> string) list \<Rightarrow> (string \<times> string) list \<times> bool" where
  "report_send busy r q =
     (if q \<noteq> [] \<and> periodic (fst r) (snd r) \<and> periodic (fst (last q)) (snd (last q))
      then (butlast q @ [(fst (last q), snd r)], False)
      else (q @ [r], \<not> busy \<and> q = []))"

section \<open>The cutter's invariant\<close>

definition written :: "cutter \<Rightarrow> (bool \<times> packet) list" where
  "written c = concat (map seg_packets (cuts c)) @ buffer c"

definition stream :: "bool \<Rightarrow> (bool \<times> packet) list \<Rightarrow> packet list" where
  "stream v ps = map snd (filter (\<lambda>x. fst x = v) ps)"

lemma stream_simps [simp]:
  "stream v [] = []" "stream v (xs @ ys) = stream v xs @ stream v ys" "stream v ((w, q) # xs) = (if w = v then q # stream v xs else stream v xs)"
  by (simp_all add: stream_def)

definition increasing :: "packet list \<Rightarrow> bool" where
  "increasing ps \<longleftrightarrow> sorted_wrt (<) (map dts ps)"

definition latest :: "packet list \<Rightarrow> time option" where
  "latest ps = (if ps = [] then None else Some (dts (last ps)))"

definition timing_inv :: "cutter \<Rightarrow> bool" where
  "timing_inv c \<longleftrightarrow> increasing (stream True (written c)) \<and> increasing (stream False (written c))
     \<and> vDTS c = latest (stream True (written c)) \<and> aDTS c = latest (stream False (written c))"

definition due_cut :: "Segmenting \<Rightarrow> segment \<Rightarrow> bool" where
  "due_cut s g \<longleftrightarrow> seg_next g = Some (seg_end g) \<and> CutDue (seg_end g) 0 (seg_number g) s"

definition contiguous :: "segment list \<Rightarrow> bool" where
  "contiguous gs \<longleftrightarrow> (\<forall>i. Suc i < length gs \<longrightarrow> seg_start (gs ! Suc i) = seg_end (gs ! i))"

definition cuts_inv :: "cutter \<Rightarrow> bool" where
  "cuts_inv c \<longleftrightarrow> map seg_number (cuts c) = map (\<lambda>k. StartNumber (segs c) + int k) [0..<length (cuts c)]
     \<and> open_number c = StartNumber (segs c) + int (length (cuts c))
     \<and> (\<not> is_open c \<longrightarrow> cuts c = []) \<and> contiguous (cuts c)
     \<and> (cuts c \<noteq> [] \<longrightarrow> open_start c = seg_end (last (cuts c)))
     \<and> list_all (due_cut (segs c)) (cuts c)"

lemma increasing_snoc: "increasing (ps @ [q]) \<longleftrightarrow> increasing ps \<and> (\<forall>p\<in>set ps. dts p < dts q)"
  by (auto simp: increasing_def sorted_wrt_append)

lemma increasing_last: "increasing ps \<Longrightarrow> latest ps = Some l \<Longrightarrow> l < dts q \<Longrightarrow> increasing (ps @ [q])"
proof (cases ps rule: rev_cases)
  case (snoc ys y)
  assume i: "increasing ps" and l: "latest ps = Some l" "l < dts q"
  have "dts p < dts q" if "p \<in> set ps" for p
    using that i l snoc increasing_snoc [of ys y] by (auto simp: latest_def)
  then show ?thesis using i by (simp add: increasing_snoc)
qed (simp add: increasing_def)

lemma contiguous_snoc: "contiguous (gs @ [g]) \<longleftrightarrow> contiguous gs \<and> (gs \<noteq> [] \<longrightarrow> seg_start g = seg_end (last gs))"
proof -
  have "(\<forall>i. Suc i < length (gs @ [g]) \<longrightarrow> seg_start ((gs @ [g]) ! Suc i) = seg_end ((gs @ [g]) ! i))
      \<longleftrightarrow> (\<forall>i. Suc i < length gs \<longrightarrow> seg_start (gs ! Suc i) = seg_end (gs ! i))
        \<and> (gs \<noteq> [] \<longrightarrow> seg_start g = seg_end (gs ! (length gs - 1)))"
    by (cases gs rule: rev_cases) (auto simp: nth_append less_Suc_eq)
  then show ?thesis by (simp add: contiguous_def last_conv_nth)
qed

lemma written_cut: "cut_error (cut_segment md e n c) = None \<Longrightarrow> written (cut_segment md e n c) = written c"
  by (auto simp: cut_segment_def written_def Let_def split: if_splits)

lemma open_segment_keeps:
  assumes "cut_error (open_segment md q c) = None"
  shows "written (open_segment md q c) = written c" and "vDTS (open_segment md q c) = vDTS c" and "aDTS (open_segment md q c) = aDTS c"
    and "dropped (open_segment md q c) = dropped c" and "segs (open_segment md q c) = segs c" and "hasAudio (open_segment md q c) = hasAudio c"
  using assms by (auto simp: open_segment_def cut_segment_def written_def Let_def split: if_splits)

lemma open_segment_cuts:
  assumes inv: "cuts_inv c" and due: "\<not> is_open c \<or> CutDue (pts q) 0 (open_number c) (segs c)"
    and ok: "cut_error (open_segment md q c) = None"
  shows "cuts_inv (open_segment md q c)"
proof (cases "is_open c")
  case False
  then show ?thesis using inv by (auto simp: open_segment_def cuts_inv_def Let_def)
next
  case True
  let ?g = "\<lparr>seg_number = open_number c, seg_start = open_start c, seg_end = pts q, seg_packets = buffer c, seg_next = Some (pts q)\<rparr>"
  have cs: "cuts (open_segment md q c) = cuts c @ [?g]" "open_number (open_segment md q c) = open_number c + 1"
    "is_open (open_segment md q c)" "open_start (open_segment md q c) = pts q" "segs (open_segment md q c) = segs c"
    using ok True by (auto simp: open_segment_def cut_segment_def Let_def split: if_splits)
  show ?thesis using inv due True
    by (simp add: cuts_inv_def cs contiguous_snoc due_cut_def)
qed

lemma put_packet_keeps:
  "cuts (put_packet md v q c) = cuts c" "segs (put_packet md v q c) = segs c" "open_number (put_packet md v q c) = open_number c"
  "is_open (put_packet md v q c) = is_open c" "open_start (put_packet md v q c) = open_start c" "hasAudio (put_packet md v q c) = hasAudio c"
  by (auto simp: put_packet_def split: option.splits)

lemma put_packet_cuts: "cuts_inv (put_packet md v q c) = cuts_inv c"
  by (simp add: cuts_inv_def put_packet_keeps)

lemma put_packet_effect:
  assumes "cut_error (put_packet md v q c) = None" and "v \<or> hasAudio c"
  shows "written (put_packet md v q c) = written c \<and> dropped (put_packet md v q c) = Suc (dropped c)
       \<and> vDTS (put_packet md v q c) = vDTS c \<and> aDTS (put_packet md v q c) = aDTS c
    \<or> written (put_packet md v q c) = written c @ [(v, q)] \<and> dropped (put_packet md v q c) = dropped c \<and> stale v q c = None
       \<and> vDTS (put_packet md v q c) = (if v then Some (dts q) else vDTS c) \<and> aDTS (put_packet md v q c) = (if v then aDTS c else Some (dts q))"
  using assms by (auto simp: put_packet_def written_def split: option.splits if_splits)

lemma put_packet_timing:
  assumes inv: "timing_inv c" and ok: "cut_error (put_packet md v q c) = None" and "v \<or> hasAudio c"
  shows "timing_inv (put_packet md v q c)"
  using put_packet_effect [OF ok assms(3)]
proof (elim disjE conjE)
  assume w: "written (put_packet md v q c) = written c @ [(v, q)]" and fresh: "stale v q c = None"
    and d: "vDTS (put_packet md v q c) = (if v then Some (dts q) else vDTS c)" "aDTS (put_packet md v q c) = (if v then aDTS c else Some (dts q))"
  have "increasing (stream v (written c) @ [q])"
  proof (cases "latest (stream v (written c))")
    case None
    then show ?thesis by (simp add: latest_def increasing_def split: if_splits)
  next
    case (Some l)
    then have "l < dts q" using fresh inv by (cases v) (auto simp: stale_def timing_inv_def split: if_splits)
    moreover have "increasing (stream v (written c))" using inv by (cases v) (auto simp: timing_inv_def)
    ultimately show ?thesis using increasing_last Some by blast
  qed
  then show ?thesis using inv w d by (cases v) (auto simp: timing_inv_def latest_def)
qed (use inv in \<open>auto simp: timing_inv_def\<close>)

lemma write_packet_inv:
  assumes "timing_inv c" and "cuts_inv c" and "v \<or> hasAudio c" and ok: "cut_error (write_packet md v q c) = None"
  shows "timing_inv (write_packet md v q c)" and "cuts_inv (write_packet md v q c)"
    and "written (write_packet md v q c) = written c \<and> dropped (write_packet md v q c) = Suc (dropped c)
      \<or> written (write_packet md v q c) = written c @ [(v, q)] \<and> dropped (write_packet md v q c) = dropped c"
    and "segs (write_packet md v q c) = segs c" and "hasAudio (write_packet md v q c) = hasAudio c"
proof -
  define c1 where "c1 = (if v \<and> key q \<and> (\<not> is_open c \<or> CutDue (pts q) 0 (open_number c) (segs c)) then open_segment md q c else c)"
  have w: "write_packet md v q c = (if cut_error c1 \<noteq> None then c1 else put_packet md v q c1)"
    by (simp add: write_packet_def c1_def Let_def)
  then have ok1: "cut_error c1 = None" and ok2: "cut_error (put_packet md v q c1) = None" using ok by (auto split: if_splits)
  have keep: "written c1 = written c" "vDTS c1 = vDTS c" "aDTS c1 = aDTS c" "dropped c1 = dropped c" "segs c1 = segs c" "hasAudio c1 = hasAudio c"
    using open_segment_keeps [of md q c] ok1 by (auto simp: c1_def split: if_splits)
  have cuts1: "cuts_inv c1" using open_segment_cuts [OF assms(2), of q md] ok1 assms(2) by (auto simp: c1_def split: if_splits)
  have time1: "timing_inv c1" using assms(1) keep by (simp add: timing_inv_def)
  have res: "write_packet md v q c = put_packet md v q c1" using w ok1 by simp
  show "timing_inv (write_packet md v q c)" unfolding res using put_packet_timing [OF time1 ok2] assms(3) keep(6) by simp
  show "cuts_inv (write_packet md v q c)" unfolding res using cuts1 by (simp add: put_packet_cuts)
  show "written (write_packet md v q c) = written c \<and> dropped (write_packet md v q c) = Suc (dropped c)
      \<or> written (write_packet md v q c) = written c @ [(v, q)] \<and> dropped (write_packet md v q c) = dropped c"
    unfolding res using put_packet_effect [OF ok2] assms(3) keep by auto
  show "segs (write_packet md v q c) = segs c" "hasAudio (write_packet md v q c) = hasAudio c"
    unfolding res using keep by (simp_all add: put_packet_keeps)
qed

section \<open>What comes in goes out\<close>

definition flow :: "packet list \<Rightarrow> packet list \<Rightarrow> cutter \<Rightarrow> bool" where
  "flow iv ia c \<longleftrightarrow> timing_inv c \<and> cuts_inv c
     \<and> subseq (stream True (written c) @ vq c) iv \<and> subseq (stream False (written c) @ aq c) ia
     \<and> length (written c) + dropped c + length (vq c) + length (aq c) = length iv + length ia
     \<and> (hasAudio c \<or> aq c = [])"

lemma queue_irrelevant [simp]:
  "written (c\<lparr>vq := x\<rparr>) = written c" "written (c\<lparr>aq := x\<rparr>) = written c"
  "timing_inv (c\<lparr>vq := x\<rparr>) = timing_inv c" "timing_inv (c\<lparr>aq := x\<rparr>) = timing_inv c"
  "cuts_inv (c\<lparr>vq := x\<rparr>) = cuts_inv c" "cuts_inv (c\<lparr>aq := x\<rparr>) = cuts_inv c"
  by (simp_all add: written_def timing_inv_def cuts_inv_def)

lemma subseq_drop_mid: "subseq (xs @ q # ys) zs \<Longrightarrow> subseq (xs @ ys) zs"
  by (meson list_emb_append_mono subseq_order.order_refl subseq_order.trans subseq_Cons')

lemma flow_video:
  assumes "flow iv ia c" and "vq c = q # qs" and ok: "cut_error (write_packet md True q (c\<lparr>vq := qs\<rparr>)) = None"
  shows "flow iv ia (write_packet md True q (c\<lparr>vq := qs\<rparr>))"
proof -
  note w = write_packet_inv [of "c\<lparr>vq := qs\<rparr>" True md q, OF _ _ _ ok]
  show ?thesis using assms(1,2) w subseq_drop_mid [of "stream True (written c)" q qs iv]
    by (auto simp: flow_def)
qed

lemma flow_audio:
  assumes "flow iv ia c" and "aq c = q # qs" and ok: "cut_error (write_packet md False q (c\<lparr>aq := qs\<rparr>)) = None"
  shows "flow iv ia (write_packet md False q (c\<lparr>aq := qs\<rparr>))"
proof -
  have "hasAudio c" using assms(1,2) by (simp add: flow_def)
  then have "False \<or> hasAudio (c\<lparr>aq := qs\<rparr>)" by simp
  note w = write_packet_inv [of "c\<lparr>aq := qs\<rparr>" False md q, OF _ _ this ok]
  show ?thesis using assms(1,2) w subseq_drop_mid [of "stream False (written c)" q qs ia] \<open>hasAudio c\<close>
    by (auto simp: flow_def)
qed

lemma pump_error: "cut_error c \<noteq> None \<Longrightarrow> pump md final c = c"
  by (simp add: pump.simps)

lemma pump_flow: "flow iv ia c \<Longrightarrow> cut_error (pump md final c) = None \<Longrightarrow> flow iv ia (pump md final c)"
proof (induction md final c rule: pump.induct)
  case (1 md final c)
  have ok: "cut_error c = None" using 1(4) pump_error [of c md final] by (cases "cut_error c") auto
  show ?case
  proof (cases "pump_next final c")
    case None
    then show ?thesis using 1(3) ok by (simp add: pump.simps)
  next
    case (Some v)
    show ?thesis
    proof (cases v)
      case True
      then obtain q qs where q: "vq c = q # qs" using pump_next_nonempty [OF Some] by (cases "vq c") auto
      have p: "pump md final c = pump md final (write_packet md True q (c\<lparr>vq := qs\<rparr>))" using Some True ok q by (subst pump.simps) simp
      then have "cut_error (write_packet md True q (c\<lparr>vq := qs\<rparr>)) = None" using 1(4) pump_error by metis
      from flow_video [OF 1(3) q this] show ?thesis using 1(1) [of v] 1(4) ok Some True q p by simp
    next
      case False
      then obtain q qs where q: "aq c = q # qs" using pump_next_nonempty [OF Some] by (cases "aq c") auto
      have p: "pump md final c = pump md final (write_packet md False q (c\<lparr>aq := qs\<rparr>))" using Some False ok q by (subst pump.simps) simp
      then have "cut_error (write_packet md False q (c\<lparr>aq := qs\<rparr>)) = None" using 1(4) pump_error by metis
      from flow_audio [OF 1(3) q this] show ?thesis using 1(2) [of v] 1(4) ok Some False q p by simp
    qed
  qed
qed

lemma pump_final_empty: "cut_error (pump md True c) = None \<Longrightarrow> vq (pump md True c) = [] \<and> aq (pump md True c) = []"
proof (induction md True c rule: pump.induct)
  case (1 md c)
  have ok: "cut_error c = None" using 1(3) pump_error [of c md True] by (cases "cut_error c") auto
  show ?case
  proof (cases "pump_next True c")
    case None
    then have "vq c = []" "aq c = []" by (auto simp: pump_next_def split: if_splits)
    then show ?thesis using None ok by (simp add: pump.simps)
  next
    case (Some v)
    have "pump md True c = (if v then pump md True (write_packet md True (hd (vq c)) (c\<lparr>vq := tl (vq c)\<rparr>))
        else pump md True (write_packet md False (hd (aq c)) (c\<lparr>aq := tl (aq c)\<rparr>)))"
      using Some ok by (subst pump.simps) simp
    then show ?thesis using 1(1,2) [of v] 1(3) ok Some by (cases v) auto
  qed
qed

text \<open>A whole run: packets as they come, then the end. An error stops the conversion.\<close>

definition take_packet :: "media \<Rightarrow> bool \<times> packet \<Rightarrow> cutter \<Rightarrow> cutter" where
  "take_packet md x c =
     (if cut_error c \<noteq> None then c else if fst x then video_packet md (snd x) c else audio_packet md (snd x) c)"

definition cutter_run :: "media \<Rightarrow> (bool \<times> packet) list \<Rightarrow> cutter \<Rightarrow> cutter" where
  "cutter_run md xs c = (let c' = fold (take_packet md) xs c in if cut_error c' \<noteq> None then c' else finish_cutter md c')"

lemma take_packet_flow:
  assumes "flow iv ia c" and "cut_error (take_packet md x c) = None" and "fst x \<or> hasAudio c"
  shows "flow (if fst x then iv @ [snd x] else iv) (if fst x then ia else ia @ [snd x]) (take_packet md x c)"
proof (cases "fst x")
  case True
  have "flow (iv @ [snd x]) ia (c\<lparr>vq := vq c @ [snd x]\<rparr>)"
    using assms(1) list_emb_append_mono [of "(=)" "stream True (written c) @ vq c" iv "[snd x]" "[snd x]"] by (auto simp: flow_def)
  then show ?thesis using pump_flow assms(2) True by (auto simp: take_packet_def video_packet_def split: if_splits)
next
  case False
  have "flow iv (ia @ [snd x]) (c\<lparr>aq := aq c @ [snd x]\<rparr>)"
    using assms(1,3) False list_emb_append_mono [of "(=)" "stream False (written c) @ aq c" ia "[snd x]" "[snd x]"] by (auto simp: flow_def)
  then show ?thesis using pump_flow assms(2) False by (auto simp: take_packet_def audio_packet_def split: if_splits)
qed

lemma open_segment_settings [simp]: "hasAudio (open_segment md q c) = hasAudio c" "segs (open_segment md q c) = segs c"
  by (simp_all add: open_segment_def cut_segment_def Let_def)

lemma hasAudio_kept [simp]:
  "hasAudio (write_packet md v q c) = hasAudio c" "segs (write_packet md v q c) = segs c"
  by (simp_all add: write_packet_def Let_def put_packet_keeps)

lemma hasAudio_pump [simp]: "hasAudio (pump md final c) = hasAudio c" "segs (pump md final c) = segs c"
proof (induction md final c rule: pump.induct)
  case (1 md final c)
  { case 1 then show ?case using "1.IH" by (subst pump.simps) (auto split: option.splits bool.splits) }
  { case 2 then show ?case using "1.IH" by (subst pump.simps) (auto split: option.splits bool.splits) }
qed

lemma hasAudio_take [simp]: "hasAudio (take_packet md x c) = hasAudio c" "segs (take_packet md x c) = segs c"
  by (simp_all add: take_packet_def video_packet_def audio_packet_def)

lemma fold_take_error: "cut_error c \<noteq> None \<Longrightarrow> fold (take_packet md) xs c = c"
  by (induction xs) (auto simp: take_packet_def)

lemma fold_take_flow:
  "flow iv ia c \<Longrightarrow> list_all (\<lambda>x. fst x \<or> hasAudio c) xs \<Longrightarrow> cut_error (fold (take_packet md) xs c) = None \<Longrightarrow>
   flow (iv @ stream True xs) (ia @ stream False xs) (fold (take_packet md) xs c)"
proof (induction xs arbitrary: c iv ia)
  case (Cons x xs)
  have ok: "cut_error (take_packet md x c) = None"
    using Cons.prems(3) fold_take_error [of "take_packet md x c" md xs] by (cases "cut_error (take_packet md x c)") auto
  have "flow (if fst x then iv @ [snd x] else iv) (if fst x then ia else ia @ [snd x]) (take_packet md x c)"
    using take_packet_flow [OF Cons.prems(1) ok] Cons.prems(2) by simp
  from Cons.IH [OF this] Cons.prems(2,3) show ?case by (cases x) (auto split: if_splits)
qed simp

lemma new_cutter_flow: "flow [] [] (new_cutter s audio)"
  by (simp add: flow_def new_cutter_def timing_inv_def cuts_inv_def written_def increasing_def latest_def contiguous_def)

lemma cutter_run_last:
  assumes "cut_error (cutter_run md xs c) = None"
  defines "b \<equiv> pump md True (fold (take_packet md) xs c)"
  shows "cut_error (fold (take_packet md) xs c) = None" and "cut_error b = None" and "is_open b"
    and "cuts (cutter_run md xs c) = cuts b @ [\<lparr>seg_number = open_number b, seg_start = open_start b, seg_end = vEnd b, seg_packets = buffer b, seg_next = None\<rparr>]"
    and "dropped (cutter_run md xs c) = dropped b"
  using assms by (auto simp: cutter_run_def finish_cutter_def cut_segment_def Let_def split: if_splits)

section \<open>The list is a window\<close>

lemma Finished_lines:
  assumes "0 < list_max l"
  shows "list_lines (fst (Finished s l)) = last_lines (list_max l) (list_lines l @ [SegmentListLine s])"
    and "list_max (fst (Finished s l)) = list_max l"
  using assms by (auto simp: Finished_def Let_def last_lines_def)

lemma last_lines_snoc: "0 < k \<Longrightarrow> last_lines k (last_lines k ls @ [x]) = last_lines k (ls @ [x])"
  by (cases "length ls \<le> nat k") (auto simp: last_lines_def Suc_diff_le)

text \<open>With a list size of two or more, the list after any number of finished segments is the last of their lines, one fewer
  than the size. A size of one is read as no limit.\<close>

lemma segment_list_is_a_window:
  "2 \<le> n \<Longrightarrow> list_lines (fold (\<lambda>s l. fst (Finished s l)) ss (NewSegmentList n)) = last_lines (n - 1) (map SegmentListLine ss)"
proof (induction ss rule: rev_induct)
  case (snoc s ss)
  have "list_max (fold (\<lambda>s l. fst (Finished s l)) ss (NewSegmentList n)) = n - 1" for ss
    by (induction ss rule: rev_induct) (simp_all add: NewSegmentList_def Finished_def Let_def)
  then show ?case using snoc Finished_lines(1) last_lines_snoc [of "n - 1"] by simp
qed (simp add: NewSegmentList_def last_lines_def)

lemma segment_list_of_one_is_unlimited:
  "list_lines (fold (\<lambda>s l. fst (Finished s l)) ss (NewSegmentList 1)) = map SegmentListLine ss"
proof (induction ss rule: rev_induct)
  case (snoc s ss)
  have "list_max (fold (\<lambda>s l. fst (Finished s l)) ss (NewSegmentList 1)) = 0" for ss
    by (induction ss rule: rev_induct) (simp_all add: NewSegmentList_def Finished_def Let_def)
  then show ?case using snoc by (simp add: Finished_def Let_def)
qed (simp add: NewSegmentList_def)

section \<open>Properties\<close>


definition demo_segs :: Segmenting where
  "demo_segs = \<lparr>Duration = 3, StartNumber = 0, Pattern = ''media'', ListSize = 5, TimeDelta = 0\<rparr>"

definition demo_packets :: "(bool \<times> packet) list" where
  "demo_packets = [(True, \<lparr>dts = 0, pts = 0, pend = 1, key = True, payload = ''a''\<rparr>),
     (True, \<lparr>dts = 3, pts = 3, pend = 4, key = True, payload = ''b''\<rparr>),
     (True, \<lparr>dts = 2, pts = 4, pend = 5, key = False, payload = ''c''\<rparr>)]"

definition demo_media :: media where
  "demo_media = \<lparr>mux_ok = \<lambda>_. True, drain_ok = \<lambda>_. True, take_ok = \<lambda>_. True\<rparr>"


lemma mult_le_iff_le_div: "0 < e \<Longrightarrow> k * e \<le> u \<longleftrightarrow> k \<le> u div (e :: int)"
proof
  assume e: "0 < e"
  show "k * e \<le> u \<Longrightarrow> k \<le> u div e" using e zdiv_mono1 [of "k * e" u e] by simp
  assume "k \<le> u div e"
  then have "k * e \<le> u div e * e" using e by (simp add: mult_right_mono)
  then show "k * e \<le> u" using e by (simp add: minus_mod_eq_div_mult [symmetric]) (use pos_mod_sign [of e u] in linarith)
qed

lemma forced_after:
  assumes "0 < every" and "sorted (t # ts)" and "successively (\<lambda>a b. b - a \<le> every) (t # ts)"
  shows "forced_frames every (t div every + 1) ts = map2 (\<lambda>a b. a div every < b div every) (t # ts) ts"
  using assms(2,3)
proof (induction ts arbitrary: t)
  case (Cons u ts)
  have "t \<le> u" "u \<le> t + every" using Cons.prems by simp_all
  then have "t div every \<le> u div every" "u div every \<le> t div every + 1"
    using assms(1) zdiv_mono1 [of t u every] zdiv_mono1 [of u "t + every" every] div_add_self2 [of every t] by simp_all
  moreover have "KeyframeDue u (t div every + 1) every \<longleftrightarrow> t div every + 1 \<le> u div every"
    using assms(1) by (simp add: KeyframeDue_def mult_le_iff_le_div)
  ultimately consider (cross) "u div every = t div every + 1" "KeyframeDue u (t div every + 1) every"
    | (same) "u div every = t div every" "\<not> KeyframeDue u (t div every + 1) every" by linarith
  then have "forced_frames every (t div every + 1) (u # ts)
      = (t div every < u div every) # forced_frames every (u div every + 1) ts"
    by cases simp_all
  then show ?case using Cons.IH [of u] Cons.prems by simp
qed simp

text \<open>
  A restart's keyframes fall where the run from the start put them: with frames in order and no further apart than the
  keyframe interval, a run that starts at a frame at time \<open>t\<close> forces that frame, and of the frames after it exactly those
  the whole run forces, the ones that cross a multiple of the interval.
\<close>

theorem restart_keeps_keyframe_grid:
  assumes "0 < every" and "0 \<le> t" and "sorted (pre @ t # ts)" and "successively (\<lambda>a b. b - a \<le> every) (pre @ t # ts)"
    and "hd (pre @ [t]) = 0"
  shows "forced_frames every (FirstForced t every) (t # ts) = True # map2 (\<lambda>a b. a div every < b div every) (t # ts) ts
    \<and> drop (Suc (length pre)) (forced_frames every (FirstForced 0 every) (pre @ t # ts))
      = tl (forced_frames every (FirstForced t every) (t # ts))"
proof -
  have tail: "sorted (t # ts)" "successively (\<lambda>a b. b - a \<le> every) (t # ts)"
    using assms(3,4) by (simp_all add: sorted_append successively_append_iff)
  have first: "FirstForced t every = t div every"
    using assms(1,2) by (auto simp: FirstForced_def go_div_nonneg)
  have "KeyframeDue t (t div every) every"
    using assms(1) by (simp add: KeyframeDue_def minus_mod_eq_div_mult [symmetric])
  then have re: "forced_frames every (FirstForced t every) (t # ts) = True # map2 (\<lambda>a b. a div every < b div every) (t # ts) ts"
    using forced_after [OF assms(1) tail] first by simp
  obtain us where us: "pre @ t # ts = 0 # us" using assms(5) by (cases pre) auto
  have "forced_frames every (FirstForced 0 every) (0 # us) = True # map2 (\<lambda>a b. a div every < b div every) (0 # us) us"
    using forced_after [of every 0 us] assms(1,3,4) us by (simp add: FirstForced_def KeyframeDue_def)
  then have all: "forced_frames every (FirstForced 0 every) (pre @ t # ts) = True # map2 (\<lambda>a b. a div every < b div every) (0 # us) us"
    by (simp add: us)
  have "drop (length pre) (0 # us) = t # ts" "drop (length pre) us = ts"
  proof -
    show "drop (length pre) (0 # us) = t # ts" by (simp add: us [symmetric])
    have "drop (length pre) us = drop (Suc (length pre)) (0 # us)" by simp
    then show "drop (length pre) us = ts" by (simp only: us [symmetric]) simp
  qed
  then have "drop (Suc (length pre)) (True # map2 (\<lambda>a b. a div every < b div every) (0 # us) us)
      = map2 (\<lambda>a b. a div every < b div every) (t # ts) ts"
    by (simp add: drop_map drop_zip)
  then show ?thesis using re all by simp
qed

theorem restart_keeps_keyframe_grid_witness:
  "drop (Suc (length [0, 2 :: int])) (forced_frames 3 (FirstForced 0 3) ([0, 2] @ 4 # [6, 7]))
     = tl (forced_frames 3 (FirstForced 4 3) (4 # [6, 7]))"
  by (rule conjunct2 [OF restart_keeps_keyframe_grid]) simp_all

end
