(* ===== verification/Exec_Dispatch.thy ===== *)
theory Exec_Dispatch
  imports Go_Prelude
begin

text \<open>
  Where a job of Plex's helpers runs: \<open>src/pkg/remoteexec/dispatcher.go\<close> and \<open>rewrite.go\<close>, with the test for a video
  conversion of \<open>src/pkg/video/classify.go\<close>. The routes (scan, remux, video), the workers and the sink are parameters;
  the model records in order what ran and what was sent.
\<close>

section \<open>Requests\<close>

record request =
  TargetBinary :: string
  Args :: "string list"
  Env :: "(string \<times> string) list"

definition Transcoder :: string where
  "Transcoder = ''Plex Transcoder''"

definition Scanner :: string where
  "Scanner = ''Plex Media Scanner''"

definition env_value :: "request \<Rightarrow> string \<Rightarrow> string" where
  "env_value r k = (case map_of (Env r) k of None \<Rightarrow> [] | Some v \<Rightarrow> v)"

definition notVideo :: "string list" where
  "notVideo = [''copy'', ''aac'', ''ac3'', ''eac3'', ''eac3_eae'', ''mp3'', ''libmp3lame'', ''libopus'', ''opus'', ''libvorbis'',
     ''vorbis'', ''flac'', ''alac'', ''srt'', ''subrip'', ''ass'', ''ssa'', ''mov_text'', ''webvtt'', ''text'', ''dvdsub'',
     ''dvbsub'', ''xsub'', ''mjpeg'', ''png'', ''rawvideo'', ''wrapped_avframe'']"

text \<open>The index of the last \<open>-i\<close>, \<open>None\<close> for -1.\<close>

fun lastInput :: "string list \<Rightarrow> nat option" where
  "lastInput [] = None"
| "lastInput (a # as) = (case lastInput as of Some i \<Rightarrow> Some (Suc i) | None \<Rightarrow> if a = ''-i'' then Some 0 else None)"

definition is_codec_option :: "string \<Rightarrow> bool" where
  "is_codec_option a \<longleftrightarrow> fst (cut_at CHR '':'' a) \<in> {''-codec'', ''-c'', ''-vcodec''}"

definition encodes_video :: "string \<Rightarrow> bool" where
  "encodes_video v \<longleftrightarrow> v \<notin> set notVideo \<and> \<not> prefix ''pcm_'' v"

fun scan_codecs :: "string list \<Rightarrow> bool" where
  "scan_codecs (a # v # as) =
     (if \<not> is_codec_option a then scan_codecs (v # as) else encodes_video v \<or> scan_codecs as)"
| "scan_codecs _ = False"

definition IsConversion :: "string list \<Rightarrow> bool" where
  "IsConversion args = (case lastInput args of None \<Rightarrow> False | Some l \<Rightarrow> scan_codecs (drop (l + 2) args))"

definition RemoteEligible :: "request \<Rightarrow> bool" where
  "RemoteEligible r \<longleftrightarrow> TargetBinary r = Transcoder \<and> env_value r ''EAE_ROOT'' = []"

definition loopbackPMS :: "string list" where
  "loopbackPMS = [''127.0.0.1:32400'', ''localhost:32400'']"

definition RewriteArgs :: "string list \<Rightarrow> string \<Rightarrow> string list" where
  "RewriteArgs args pms = map (\<lambda>a. fold (\<lambda>lb a. replace_all lb pms a) loopbackPMS a) args"

section \<open>The dispatcher\<close>

record worker =
  WName :: string
  Addr :: string
  Node :: string

text \<open>A message from a worker, and whether it is the last; how a stream ends after its messages.\<close>

record msg =
  content :: string
  IsFinished :: bool

datatype stream_end = Eof | StreamError string

datatype remote = RefusedJob | Streaming "msg list" stream_end

record dispatcher =
  HasWorkers :: bool
  HasDial :: bool
  HasRemux :: bool
  HasVideo :: bool
  HasScan :: bool
  PMSAddr :: string
  next_pick :: "64 word"

record routes =
  scan_route :: "request \<Rightarrow> bool \<times> string option"
  remux_route :: "request \<Rightarrow> bool \<times> string option"
  video_route :: "request \<Rightarrow> string option"
  list_ready :: "worker list option"
  dial_ok :: "worker \<Rightarrow> bool"
  execute_remote :: "worker \<Rightarrow> request \<Rightarrow> remote"
  sink_ok :: "msg list \<Rightarrow> msg \<Rightarrow> bool"
  local_run :: "request \<Rightarrow> string option"

datatype action = Projected | Remuxed | OnPool | RefusedNoPool | OnWorker worker request | RanLocally

text \<open>What a job did: the runs in order, the messages a worker's stream sent, and the error.\<close>

record outcome =
  ran :: "action list"
  delivered :: "msg list"
  failure :: "string option"

definition pick :: "dispatcher \<Rightarrow> worker list \<Rightarrow> worker \<times> dispatcher" where
  "pick d ws = (ws ! (unat (next_pick d) mod length ws), d\<lparr>next_pick := next_pick d + 1\<rparr>)"

text \<open>The receive loop: \<open>None\<close> is a stream that ended before any message.\<close>

fun relay :: "(msg list \<Rightarrow> msg \<Rightarrow> bool) \<Rightarrow> stream_end \<Rightarrow> msg list \<Rightarrow> msg list \<Rightarrow> (msg list \<times> string option) option" where
  "relay ok e sent [] = (if sent = [] then None else Some (sent, case e of Eof \<Rightarrow> None | StreamError x \<Rightarrow> Some x))"
| "relay ok e sent (m # ms) =
     (if \<not> ok sent m then Some (sent, Some ''sink'')
      else if IsFinished m then Some (sent @ [m], None)
      else relay ok e (sent @ [m]) ms)"

definition tryRemote :: "routes \<Rightarrow> request \<Rightarrow> dispatcher \<Rightarrow> dispatcher \<times> outcome option" where
  "tryRemote rt r d =
     (if \<not> HasWorkers d \<or> \<not> HasDial d \<or> PMSAddr d = [] then (d, None)
      else case list_ready rt of
        None \<Rightarrow> (d, None)
      | Some [] \<Rightarrow> (d, None)
      | Some ws \<Rightarrow>
          (case pick d ws of (w, d') \<Rightarrow>
             let r' = r\<lparr>Args := RewriteArgs (Args r) (PMSAddr d)\<rparr> in
             if \<not> dial_ok rt w then (d', None)
             else case execute_remote rt w r' of
               RefusedJob \<Rightarrow> (d', None)
             | Streaming ms e \<Rightarrow>
                 (d', map_option (\<lambda>(sent, err). \<lparr>ran = [OnWorker w r'], delivered = sent, failure = err\<rparr>) (relay (sink_ok rt) e [] ms))))"

definition Execute :: "routes \<Rightarrow> request \<Rightarrow> dispatcher \<Rightarrow> dispatcher \<times> outcome" where
  "Execute rt r d =
     (if HasScan d \<and> TargetBinary r = Scanner \<and> fst (scan_route rt r)
      then (d, \<lparr>ran = [Projected], delivered = [], failure = snd (scan_route rt r)\<rparr>)
      else if HasRemux d \<and> TargetBinary r = Transcoder \<and> fst (remux_route rt r)
      then (d, \<lparr>ran = [Remuxed], delivered = [], failure = snd (remux_route rt r)\<rparr>)
      else if TargetBinary r = Transcoder \<and> IsConversion (Args r)
      then (if HasVideo d then (d, \<lparr>ran = [OnPool], delivered = [], failure = video_route rt r\<rparr>)
            else (d, \<lparr>ran = [RefusedNoPool], delivered = [], failure = Some ''no-pool''\<rparr>))
      else
        let (d', tried) = (if RemoteEligible r then tryRemote rt r d else (d, None)) in
        case tried of Some res \<Rightarrow> (d', res)
        | None \<Rightarrow> (d', \<lparr>ran = [RanLocally], delivered = [], failure = local_run rt r\<rparr>))"

section \<open>What a conversion is\<close>

lemma lastInput_app: "''-i'' \<notin> set as \<Longrightarrow> lastInput (pre @ ''-i'' # as) = Some (length pre)"
proof -
  assume "''-i'' \<notin> set as"
  then have "lastInput as = None" by (induction as) auto
  then show ?thesis by (induction pre) auto
qed

text \<open>An output codec that is neither a copy nor an audio or subtitle encoder makes a conversion, whatever stands before it,
  as long as no option's value before it is read as an option.\<close>

lemma scan_codecs_here: "is_codec_option a \<Longrightarrow> encodes_video v \<Longrightarrow> scan_codecs (a # v # as)"
  by simp

lemma scan_codecs_skip: "\<not> is_codec_option a \<Longrightarrow> scan_codecs as \<Longrightarrow> scan_codecs (a # as)"
  by (cases as) auto

lemma scan_codecs_mem:
  "scan_codecs as \<Longrightarrow> \<exists>pre a v post. as = pre @ a # v # post \<and> is_codec_option a \<and> encodes_video v"
proof (induction as rule: scan_codecs.induct)
  case (1 a v as)
  show ?case
  proof (cases "is_codec_option a")
    case False
    then obtain pre a' v' post where "v # as = pre @ a' # v' # post" "is_codec_option a'" "encodes_video v'" using 1 by auto
    then show ?thesis by (metis append_Cons)
  next
    case True
    show ?thesis
    proof (cases "encodes_video v")
      case False
      then obtain pre a' v' post where "as = pre @ a' # v' # post" "is_codec_option a'" "encodes_video v'" using 1 True by auto
      then show ?thesis by (metis append_Cons)
    qed (use True in blast)
  qed
qed simp_all

section \<open>Relaying\<close>

lemma relay_delivers:
  "relay ok e sent ms = Some (sent', err) \<Longrightarrow>
    \<exists>k. sent' = sent @ take k ms \<and> (err = None \<longrightarrow> k = length ms \<and> e = Eof \<or> sent' \<noteq> [] \<and> IsFinished (last sent'))"
proof (induction ms arbitrary: sent)
  case Nil
  then show ?case by (auto split: if_splits stream_end.splits)
next
  case (Cons m ms)
  consider (no) "\<not> ok sent m" | (fin) "ok sent m" "IsFinished m" | (go) "ok sent m" "\<not> IsFinished m" by blast
  then show ?case
  proof cases
    case no
    then show ?thesis using Cons.prems by (auto intro: exI [of _ 0])
  next
    case fin
    then show ?thesis using Cons.prems by (auto intro: exI [of _ 1])
  next
    case go
    then have "relay ok e (sent @ [m]) ms = Some (sent', err)" using Cons.prems by simp
    from Cons.IH [OF this] obtain k where "sent' = (sent @ [m]) @ take k ms"
      "err = None \<longrightarrow> k = length ms \<and> e = Eof \<or> sent' \<noteq> [] \<and> IsFinished (last sent')" by blast
    then show ?thesis by (intro exI [of _ "Suc k"]) auto
  qed
qed

lemma relay_no_output: "relay ok e [] ms = None \<longleftrightarrow> ms = []"
proof -
  have "relay ok e (s # ss) ms \<noteq> None" for s ss ms by (induction ms arbitrary: s ss) auto
  then show ?thesis by (cases ms) auto
qed

section \<open>Properties\<close>

text \<open>
  C21. A video conversion never runs on Plex's node or on a worker pod, however the routes answer and whatever is
  configured: exactly one of the remux route, the GPU pool or a refusal takes it, and no message of a worker is sent.
\<close>

theorem conversion_never_leaves_the_pool:
  assumes "TargetBinary r = Transcoder" and "IsConversion (Args r)"
  shows "ran (snd (Execute rt r d)) \<in> {[Remuxed], [OnPool], [RefusedNoPool]} \<and> delivered (snd (Execute rt r d)) = []
    \<and> (ran (snd (Execute rt r d)) = [RefusedNoPool] \<longrightarrow> \<not> HasVideo d \<and> failure (snd (Execute rt r d)) \<noteq> None)"
proof -
  have "Transcoder \<noteq> Scanner" by (simp add: Transcoder_def Scanner_def)
  then show ?thesis using assms by (auto simp: Execute_def)
qed

definition demo_routes :: routes where
  "demo_routes = \<lparr>scan_route = \<lambda>_. (False, None), remux_route = \<lambda>_. (False, None), video_route = \<lambda>_. None,
     list_ready = Some [\<lparr>WName = ''w'', Addr = ''10.0.0.9:50051'', Node = ''n''\<rparr>], dial_ok = \<lambda>_. True,
     execute_remote = \<lambda>_ _. Streaming [\<lparr>content = ''x'', IsFinished = True\<rparr>] Eof, sink_ok = \<lambda>_ _. True, local_run = \<lambda>_. None\<rparr>"

definition demo_dispatcher :: dispatcher where
  "demo_dispatcher = \<lparr>HasWorkers = True, HasDial = True, HasRemux = True, HasVideo = False, HasScan = True,
     PMSAddr = ''10.0.0.1:32400'', next_pick = 0\<rparr>"

definition demo_request :: "string \<Rightarrow> request" where
  "demo_request codec = \<lparr>TargetBinary = Transcoder, Args = [''-i'', ''/media/a.mkv'', ''-codec:0'', codec], Env = []\<rparr>"

theorem conversion_never_leaves_the_pool_witness:
  "ran (snd (Execute demo_routes (demo_request ''libx264'') demo_dispatcher)) \<in> {[Remuxed], [OnPool], [RefusedNoPool]}
   \<and> delivered (snd (Execute demo_routes (demo_request ''libx264'') demo_dispatcher)) = []"
proof -
  have "IsConversion (Args (demo_request ''libx264''))" by code_simp
  then show ?thesis
    using conversion_never_leaves_the_pool [of "demo_request ''libx264''" demo_routes demo_dispatcher] by (simp add: demo_request_def)
qed

lemma Execute_cases:
  "(\<exists>a\<in>{Projected, Remuxed, OnPool, RefusedNoPool}. ran (snd (Execute rt r d)) = [a])
   \<or> RemoteEligible r \<and> snd (tryRemote rt r d) = Some (snd (Execute rt r d))
   \<or> ran (snd (Execute rt r d)) = [RanLocally] \<and> delivered (snd (Execute rt r d)) = []
       \<and> (RemoteEligible r \<longrightarrow> snd (tryRemote rt r d) = None)"
proof (cases "RemoteEligible r")
  case True
  then show ?thesis by (cases "tryRemote rt r d") (auto simp: Execute_def split: option.splits)
qed (auto simp: Execute_def)

text \<open>What a worker's run did.\<close>

lemma tryRemote_ran:
  assumes "snd (tryRemote rt r d) = Some out"
  obtains w ms e k where "ran out = [OnWorker w (r\<lparr>Args := RewriteArgs (Args r) (PMSAddr d)\<rparr>)]"
    "execute_remote rt w (r\<lparr>Args := RewriteArgs (Args r) (PMSAddr d)\<rparr>) = Streaming ms e" "ms \<noteq> []" "delivered out = take k ms"
    "failure out = None \<longrightarrow> k = length ms \<and> e = Eof \<or> delivered out \<noteq> [] \<and> IsFinished (last (delivered out))"
proof -
  obtain w ms e sent err where w: "out = \<lparr>ran = [OnWorker w (r\<lparr>Args := RewriteArgs (Args r) (PMSAddr d)\<rparr>)], delivered = sent, failure = err\<rparr>"
    "execute_remote rt w (r\<lparr>Args := RewriteArgs (Args r) (PMSAddr d)\<rparr>) = Streaming ms e" "relay (sink_ok rt) e [] ms = Some (sent, err)"
    using assms by (auto simp: tryRemote_def pick_def Let_def split: if_splits option.splits list.splits remote.splits)
  have "ms \<noteq> []" using w(3) by auto
  with relay_delivers [OF w(3)] w that show thesis by auto
qed



fun picks :: "nat \<Rightarrow> worker list \<Rightarrow> dispatcher \<Rightarrow> worker list" where
  "picks 0 ws d = []"
| "picks (Suc k) ws d = (case pick d ws of (w, d') \<Rightarrow> w # picks k ws d')"

lemma picks_nth:
  "unat (next_pick d) + k < 2 ^ 64 \<Longrightarrow> picks k ws d = map (\<lambda>i. ws ! ((unat (next_pick d) + i) mod length ws)) [0..<k]"
proof (induction k arbitrary: d)
  case (Suc k)
  have "unat (next_pick d + 1) = Suc (unat (next_pick d))"
    using Suc.prems by (simp add: unat_word_ariths unat_arith_simps)
  then show ?case using Suc by (simp add: pick_def map_upt_Suc del: upt_Suc)
qed simp

lemma shift_mod_perm: "0 < n \<Longrightarrow> (\<lambda>i. (a + i) mod n) ` {0..<n} = {0..<n :: nat}"
proof (rule card_subset_eq)
  assume n: "0 < n"
  have "inj_on (\<lambda>i. (a + i) mod n) {0..<n}"
  proof (rule inj_onI)
    fix i j assume ij: "i \<in> {0..<n}" "j \<in> {0..<n}" "(a + i) mod n = (a + j) mod n"
    then have "int (a + i) mod int n = int (a + j) mod int n" by (metis zmod_int)
    then have "int n dvd int i - int j" by (simp add: mod_eq_dvd_iff)
    then have "int i - int j = 0" using ij(1,2) by (metis atLeastLessThan_iff diff_0_right diff_diff_eq2 dvd_diff_commute mod_pos_pos_trivial of_nat_0_le_iff of_nat_less_iff mod_eq_dvd_iff eq_iff_diff_eq_0)
    then show "i = j" by simp
  qed
  then show "card ((\<lambda>i. (a + i) mod n) ` {0..<n}) = card {0..<n}" by (rule card_image)
qed auto

text \<open>
  Round robin: over a steady list of workers, as many picks in a row as there are workers choose each of them once,
  as long as the 64-bit counter does not wrap in between.
\<close>

theorem round_robin_is_fair:
  assumes "ws \<noteq> []" and "unat (next_pick d) + length ws < 2 ^ 64" and "distinct ws"
  shows "distinct (picks (length ws) ws d) \<and> set (picks (length ws) ws d) = set ws"
proof -
  have "set (picks (length ws) ws d) = (\<lambda>i. ws ! i) ` ((\<lambda>i. (unat (next_pick d) + i) mod length ws) ` {0..<length ws})"
    using picks_nth [OF assms(2), of ws] by (auto simp: image_image)
  also have "\<dots> = set ws" using shift_mod_perm [of "length ws" "unat (next_pick d)"] assms(1) by (auto simp: set_conv_nth)
  finally have all: "set (picks (length ws) ws d) = set ws" .
  have "length (picks (length ws) ws d) = length ws" using picks_nth [OF assms(2), of ws] by simp
  then show ?thesis using all assms(3) by (metis card_distinct distinct_card)
qed

theorem round_robin_is_fair_witness:
  "set (picks (length [\<lparr>WName = ''a'', Addr = [], Node = []\<rparr>, \<lparr>WName = ''b'', Addr = [], Node = []\<rparr>])
        [\<lparr>WName = ''a'', Addr = [], Node = []\<rparr>, \<lparr>WName = ''b'', Addr = [], Node = []\<rparr>] demo_dispatcher)
    = set [\<lparr>WName = ''a'', Addr = [], Node = []\<rparr>, \<lparr>WName = ''b'', Addr = [], Node = []\<rparr>]"
  by (rule conjunct2 [OF round_robin_is_fair]) (simp_all add: demo_dispatcher_def)

end
