(* ===== verification/Fmp4_Splitter.thy ===== *)
theory Fmp4_Splitter
  imports Go_Prelude
begin

text \<open>
  The fragmented-MP4 splitter of \<open>src/pkg/remux/fmp4.go\<close>. The muxer writes its output in pieces of any size; the
  splitter hands the init and then each fragment to its callbacks. The callbacks are a parameter: given the calls made
  so far and the present one, they answer with an error or none. The state records the calls made.
\<close>

section \<open>The model\<close>

type_synonym bytes = "8 word list"

datatype out = OnInit bytes | OnFragment bytes

datatype split_error = ToEndOfFile | BoxSize nat | MediaBeforeInit | Callback string

record splitter =
  buf :: bytes
  init :: bytes
  frag :: bytes
  initDone :: bool
  err :: "split_error option"
  calls :: "out list"

type_synonym callback = "out list \<Rightarrow> out \<Rightarrow> string option"

definition NewSplitter :: splitter where
  "NewSplitter = \<lparr>buf = [], init = [], frag = [], initDone = False, err = None, calls = []\<rparr>"

definition big_endian :: "bytes \<Rightarrow> nat" where
  "big_endian bs = foldl (\<lambda>n b. 256 * n + unat b) 0 bs"

definition be32 :: "nat \<Rightarrow> bytes" where
  "be32 n = map (\<lambda>k. word_of_nat (n div 256 ^ k)) [3, 2, 1, 0]"

definition box_type :: "string \<Rightarrow> bytes" where
  "box_type t = map (\<lambda>c. word_of_nat (of_char c)) t"

datatype scan = NeedMore | Bad split_error | Box nat

definition next_box :: "bytes \<Rightarrow> scan" where
  "next_box b =
     (if length b < 8 then NeedMore
      else let small = big_endian (take 4 b) in
        if small = 1 \<and> length b < 16 then NeedMore
        else let size = (if small = 1 then big_endian (take 8 (drop 8 b)) else small);
                 hdr = (if small = 1 then 16 else 8) in
          if size = 0 then Bad ToEndOfFile
          else if size < hdr then Bad (BoxSize size)
          else if length b < size then NeedMore
          else Box size)"

definition emit :: "callback \<Rightarrow> out \<Rightarrow> splitter \<Rightarrow> splitter" where
  "emit cb call s = s\<lparr>calls := calls s @ [call], err := map_option Callback (cb (calls s) call)\<rparr>"

definition box :: "callback \<Rightarrow> bytes \<Rightarrow> splitter \<Rightarrow> splitter" where
  "box cb b s =
     (let typ = take 4 (drop 4 b) in
      if typ = box_type ''ftyp'' then s\<lparr>init := init s @ b\<rparr>
      else if typ = box_type ''moov'' then emit cb (OnInit (init s @ b)) (s\<lparr>init := init s @ b, initDone := True\<rparr>)
      else if typ \<in> {box_type ''styp'', box_type ''sidx'', box_type ''moof''} then s\<lparr>frag := frag s @ b\<rparr>
      else if typ = box_type ''mdat'' then
        (if \<not> initDone s then s\<lparr>err := Some MediaBeforeInit\<rparr>
         else emit cb (OnFragment (frag s @ b)) (s\<lparr>frag := []\<rparr>))
      else s)"

lemma next_box_pos: "next_box b = Box n \<Longrightarrow> 8 \<le> n \<and> n \<le> length b"
  by (auto simp: next_box_def Let_def split: if_splits)

lemma box_buf [simp]: "buf (box cb b s) = buf s"
  by (simp add: box_def emit_def Let_def)

function drain :: "callback \<Rightarrow> splitter \<Rightarrow> splitter" where
  "drain cb s = (case next_box (buf s) of
      NeedMore \<Rightarrow> s
    | Bad e \<Rightarrow> s\<lparr>err := Some e\<rparr>
    | Box n \<Rightarrow>
        let s' = box cb (take n (buf s)) s in
        if err s' \<noteq> None then s' else drain cb (s'\<lparr>buf := drop n (buf s)\<rparr>))"
  by pat_completeness auto

termination
  by (relation "measure (\<lambda>(_, s). length (buf s))") (auto dest!: next_box_pos)

declare drain.simps [simp del]

text \<open>\<open>Write\<close>: the count is what is returned, 0 with an error.\<close>

definition Write :: "callback \<Rightarrow> bytes \<Rightarrow> splitter \<Rightarrow> splitter \<times> (split_error + nat)" where
  "Write cb p s = (case err s of Some e \<Rightarrow> (s, Inl e)
     | None \<Rightarrow> let s' = drain cb (s\<lparr>buf := buf s @ p\<rparr>) in
         (s', case err s' of Some e \<Rightarrow> Inl e | None \<Rightarrow> Inr (length p)))"

definition write_all :: "callback \<Rightarrow> bytes list \<Rightarrow> splitter \<Rightarrow> splitter" where
  "write_all cb ps s = fold (\<lambda>p s. fst (Write cb p s)) ps s"

section \<open>Pieces of any size\<close>

text \<open>More bytes never change what the first box is.\<close>

lemma next_box_append:
  assumes "next_box b \<noteq> NeedMore"
  shows "next_box (b @ q) = next_box b"
proof -
  have len: "8 \<le> length b" using assms by (auto simp: next_box_def split: if_splits)
  then have small: "take 4 (b @ q) = take 4 b" by simp
  show ?thesis
  proof (cases "big_endian (take 4 b) = 1")
    case True
    then have "16 \<le> length b" using assms len by (auto simp: next_box_def split: if_splits)
    then have "take 8 (drop 8 (b @ q)) = take 8 (drop 8 b)" by simp
    then show ?thesis using assms len small True \<open>16 \<le> length b\<close> by (simp add: next_box_def Let_def split: if_splits)
  next
    case False
    then show ?thesis using assms len small by (simp add: next_box_def Let_def split: if_splits)
  qed
qed

lemma box_update_buf: "box cb b (s\<lparr>buf := x\<rparr>) = (box cb b s)\<lparr>buf := x\<rparr>"
  by (simp add: box_def emit_def Let_def)

definition seen :: "splitter \<Rightarrow> out list \<times> split_error option" where
  "seen s = (calls s, err s)"

lemma drain_append:
  "err s = None \<Longrightarrow>
    (err (drain cb s) = None \<longrightarrow> drain cb (s\<lparr>buf := buf s @ q\<rparr>) = drain cb ((drain cb s)\<lparr>buf := buf (drain cb s) @ q\<rparr>))
  \<and> (err (drain cb s) \<noteq> None \<longrightarrow> seen (drain cb (s\<lparr>buf := buf s @ q\<rparr>)) = seen (drain cb s))"
proof (induction cb s rule: drain.induct)
  case (1 cb s)
  show ?case
  proof (cases "next_box (buf s)")
    case NeedMore
    then have "drain cb s = s" by (simp add: drain.simps)
    then show ?thesis using 1(2) by simp
  next
    case (Bad e)
    then have "drain cb s = s\<lparr>err := Some e\<rparr>" by (simp add: drain.simps)
    moreover have "drain cb (s\<lparr>buf := buf s @ q\<rparr>) = s\<lparr>buf := buf s @ q, err := Some e\<rparr>"
      using next_box_append [of "buf s" q] Bad by (simp add: drain.simps)
    ultimately show ?thesis by (simp add: seen_def)
  next
    case (Box n)
    let ?t = "box cb (take n (buf s)) s"
    have n: "n \<le> length (buf s)" using next_box_pos [OF Box] by simp
    have more: "next_box (buf s @ q) = Box n" using next_box_append [of "buf s" q] Box by simp
    have t: "box cb (take n (buf s @ q)) (s\<lparr>buf := buf s @ q\<rparr>) = ?t\<lparr>buf := buf s @ q\<rparr>"
      using n by (simp add: box_update_buf)
    show ?thesis
    proof (cases "err ?t = None")
      case False
      have "drain cb s = ?t" using Box False by (simp add: drain.simps)
      moreover have "drain cb (s\<lparr>buf := buf s @ q\<rparr>) = ?t\<lparr>buf := buf s @ q\<rparr>"
        using more t False by (subst drain.simps) (simp add: Let_def)
      ultimately show ?thesis using False by (auto simp: seen_def)
    next
      case True
      have l: "drain cb s = drain cb (?t\<lparr>buf := drop n (buf s)\<rparr>)"
        using Box True by (subst drain.simps) (simp add: Let_def)
      have r: "drain cb (s\<lparr>buf := buf s @ q\<rparr>) = drain cb (?t\<lparr>buf := drop n (buf s) @ q\<rparr>)"
        using more t True n by (subst drain.simps) (simp add: Let_def)
      have u: "?t\<lparr>buf := drop n (buf s), buf := buf (?t\<lparr>buf := drop n (buf s)\<rparr>) @ q\<rparr> = ?t\<lparr>buf := drop n (buf s) @ q\<rparr>" by simp
      from 1(1) [OF Box refl] True show ?thesis by (simp add: l r u)
    qed
  qed
qed

lemma drain_idle: "err (drain cb s) = None \<Longrightarrow> next_box (buf (drain cb s)) = NeedMore"
proof (induction cb s rule: drain.induct)
  case (1 cb s)
  then show ?case by (subst drain.simps, subst (asm) drain.simps) (auto simp: Let_def split: scan.splits if_splits)
qed

lemma drain_empty: "buf s = [] \<Longrightarrow> drain cb s = s"
  by (simp add: drain.simps next_box_def)

lemma write_all_seen:
  "err s = None \<Longrightarrow> next_box (buf s) = NeedMore \<Longrightarrow> seen (write_all cb ps s) = seen (fst (Write cb (concat ps) s))"
proof (induction ps arbitrary: s)
  case Nil
  then show ?case by (simp add: write_all_def Write_def drain.simps)
next
  case (Cons p ps)
  let ?a = "s\<lparr>buf := buf s @ p\<rparr>"
  have all: "drain cb (s\<lparr>buf := buf s @ concat (p # ps)\<rparr>) = drain cb (?a\<lparr>buf := buf ?a @ concat ps\<rparr>)" by simp
  have step: "fst (Write cb p s) = drain cb ?a" using Cons.prems by (simp add: Write_def Let_def)
  show ?case
  proof (cases "err (drain cb ?a)")
    case None
    have idle: "next_box (buf (drain cb ?a)) = NeedMore" using None by (rule drain_idle)
    show ?thesis using Cons.IH [OF None idle] drain_append [of ?a cb "concat ps"] None Cons.prems(1)
      by (simp add: write_all_def step Write_def all Let_def)
  next
    case (Some e)
    have stuck: "write_all cb qs (drain cb ?a) = drain cb ?a" for qs
      using Some by (induction qs) (simp_all add: write_all_def Write_def)
    show ?thesis using drain_append [of ?a cb "concat ps"] Some Cons.prems(1) stuck [of ps]
      by (simp add: write_all_def step Write_def all Let_def)
  qed
qed

section \<open>Boxes\<close>

definition mk_box :: "string \<Rightarrow> bytes \<Rightarrow> bytes" where
  "mk_box t p = be32 (8 + length p) @ box_type t @ p"

definition box_ok :: "string \<times> bytes \<Rightarrow> bool" where
  "box_ok b \<longleftrightarrow> length (fst b) = 4 \<and> 8 + length (snd b) < 2 ^ 32"

definition mk_boxes :: "(string \<times> bytes) list \<Rightarrow> bytes" where
  "mk_boxes bs = concat (map (\<lambda>(t, p). mk_box t p) bs)"

lemma mk_boxes_Cons: "mk_boxes ((t, p) # bs) = mk_box t p @ mk_boxes bs"
  by (simp add: mk_boxes_def)

lemma big_endian_be32:
  assumes "n < 2 ^ 32"
  shows "big_endian (be32 n) = n"
proof -
  have "n div 256 ^ 3 < 256" using assms by (simp add: div_less_dividend less_mult_imp_div_less)
  moreover have "n div 256 ^ 2 = 256 * (n div 256 ^ 3) + n div 256 ^ 2 mod 256"
    using mult_div_mod_eq [of 256 "n div 256 ^ 2"] by (simp add: div_mult2_eq [symmetric])
  moreover have "n div 256 = 256 * (n div 256 ^ 2) + n div 256 mod 256"
    using mult_div_mod_eq [of 256 "n div 256"] by (simp add: div_mult2_eq [symmetric])
  moreover have "n = 256 * (n div 256) + n mod 256" by simp
  moreover have "unat (word_of_nat m :: 8 word) = m mod 256" for m by (simp add: unat_of_nat)
  ultimately show ?thesis by (simp add: big_endian_def be32_def)
qed

lemma box_type_inject: "box_type t = box_type t' \<longleftrightarrow> t = t'"
proof -
  have "inj (\<lambda>c. word_of_nat (of_char c) :: 8 word)"
  proof (rule injI)
    fix c d assume "(word_of_nat (of_char c) :: 8 word) = word_of_nat (of_char d)"
    then have "unat (word_of_nat (of_char c) :: 8 word) = unat (word_of_nat (of_char d) :: 8 word)" by simp
    then have "(of_char c :: nat) = of_char d"
      using nat_of_char_less_256 [of c] nat_of_char_less_256 [of d] by (simp add: unat_of_nat)
    then show "c = d" by simp
  qed
  then show ?thesis by (simp add: box_type_def inj_map_eq_map)
qed

lemma mk_box_parts:
  assumes "length t = 4"
  shows "length (mk_box t p) = 8 + length p" and "take 4 (mk_box t p) = be32 (8 + length p)"
    and "take 4 (drop 4 (mk_box t p)) = box_type t"
  using assms by (simp_all add: mk_box_def be32_def box_type_def)

lemma next_box_mk: "box_ok (t, p) \<Longrightarrow> next_box (mk_box t p @ q) = Box (length (mk_box t p))"
  using mk_box_parts [of t p] big_endian_be32 [of "8 + length p"]
  by (simp add: next_box_def box_ok_def Let_def)

lemma drain_mk:
  assumes "box_ok (t, p)" and "buf s = mk_box t p @ q" and "err (box cb (mk_box t p) s) = None"
  shows "drain cb s = drain cb ((box cb (mk_box t p) s)\<lparr>buf := q\<rparr>)"
  using next_box_mk [OF assms(1), of q] assms(2,3) by (subst drain.simps) (simp add: Let_def)

abbreviation accepting :: callback where
  "accepting \<equiv> \<lambda>_ _. None"

text \<open>Boxes before a fragment's data gather; boxes of other types are dropped.\<close>

lemma drain_gather:
  "list_all box_ok bs \<Longrightarrow> fst ` set bs \<subseteq> {''styp'', ''sidx'', ''moof''} \<Longrightarrow> err s = None \<Longrightarrow>
   drain cb (s\<lparr>buf := mk_boxes bs @ q\<rparr>) = drain cb (s\<lparr>frag := frag s @ mk_boxes bs, buf := q\<rparr>)"
proof (induction bs arbitrary: s)
  case Nil
  then show ?case by (simp add: mk_boxes_def)
next
  case (Cons b bs)
  obtain t p where b: "b = (t, p)" by fastforce
  let ?s = "s\<lparr>buf := mk_box t p @ mk_boxes bs @ q\<rparr>"
  have kind: "t \<in> {''styp'', ''sidx'', ''moof''}" and ok: "box_ok (t, p)" using Cons.prems b by auto
  then have box: "box cb (mk_box t p) ?s = ?s\<lparr>frag := frag s @ mk_box t p\<rparr>"
    by (auto simp: box_def mk_box_parts box_type_inject)
  have "drain cb ?s = drain cb (?s\<lparr>frag := frag s @ mk_box t p, buf := mk_boxes bs @ q\<rparr>)"
    using drain_mk [OF ok, of ?s] Cons.prems(3) by (simp add: box)
  then show ?case using Cons.IH [of "s\<lparr>frag := frag s @ mk_box t p\<rparr>"] Cons.prems by (simp add: mk_boxes_Cons b)
qed

lemma drain_drop:
  "list_all box_ok bs \<Longrightarrow> fst ` set bs \<inter> {''ftyp'', ''moov'', ''styp'', ''sidx'', ''moof'', ''mdat''} = {} \<Longrightarrow> err s = None \<Longrightarrow>
   drain cb (s\<lparr>buf := mk_boxes bs @ q\<rparr>) = drain cb (s\<lparr>buf := q\<rparr>)"
proof (induction bs)
  case (Cons b bs)
  obtain t p where b: "b = (t, p)" by fastforce
  let ?s = "s\<lparr>buf := mk_box t p @ mk_boxes bs @ q\<rparr>"
  have ok: "box_ok (t, p)" using Cons.prems b by auto
  have box: "box cb (mk_box t p) ?s = ?s" using Cons.prems b ok
    by (auto simp: box_def mk_box_parts box_ok_def box_type_inject)
  show ?case using drain_mk [OF ok, of ?s "mk_boxes bs @ q" cb] Cons by (simp add: mk_boxes_Cons b box)
qed (simp add: mk_boxes_def)

definition fragment :: "(string \<times> bytes) list \<times> bytes \<Rightarrow> bytes" where
  "fragment f = mk_boxes (fst f) @ mk_box ''mdat'' (snd f)"

definition fragment_ok :: "(string \<times> bytes) list \<times> bytes \<Rightarrow> bool" where
  "fragment_ok f \<longleftrightarrow> list_all box_ok (fst f) \<and> fst ` set (fst f) \<subseteq> {''styp'', ''sidx'', ''moof''} \<and> box_ok (''mdat'', snd f)"

lemma drain_fragments:
  "list_all fragment_ok fs \<Longrightarrow> err s = None \<Longrightarrow> initDone s \<Longrightarrow> frag s = [] \<Longrightarrow>
   drain accepting (s\<lparr>buf := concat (map fragment fs) @ q\<rparr>)
     = drain accepting (s\<lparr>calls := calls s @ map (OnFragment \<circ> fragment) fs, buf := q\<rparr>)"
proof (induction fs arbitrary: s)
  case (Cons f fs)
  let ?rest = "concat (map fragment fs) @ q"
  let ?s = "s\<lparr>frag := mk_boxes (fst f), buf := mk_box ''mdat'' (snd f) @ ?rest\<rparr>"
  have ok: "box_ok (''mdat'', snd f)" and pre: "list_all box_ok (fst f)" "fst ` set (fst f) \<subseteq> {''styp'', ''sidx'', ''moof''}"
    using Cons.prems(1) by (simp_all add: fragment_ok_def)
  have box: "box accepting (mk_box ''mdat'' (snd f)) ?s = ?s\<lparr>frag := [], calls := calls s @ [OnFragment (fragment f)]\<rparr>"
    using Cons.prems(2,3) by (simp add: box_def mk_box_parts box_type_inject emit_def fragment_def)
  have same: "s\<lparr>frag := [], calls := x, buf := y\<rparr> = s\<lparr>calls := x, buf := y\<rparr>" for x y
    using Cons.prems(4) by (cases s) simp
  have "drain accepting (s\<lparr>buf := concat (map fragment (f # fs)) @ q\<rparr>) = drain accepting ?s"
    using drain_gather [OF pre Cons.prems(2), of accepting "mk_box ''mdat'' (snd f) @ ?rest"] Cons.prems(4) by (simp add: fragment_def)
  also have "\<dots> = drain accepting (s\<lparr>calls := calls s @ [OnFragment (fragment f)], buf := ?rest\<rparr>)"
    using drain_mk [OF ok, of ?s ?rest accepting] Cons.prems(2,4) by (simp add: box same)
  finally show ?case using Cons.IH [of "s\<lparr>calls := calls s @ [OnFragment (fragment f)]\<rparr>"] Cons.prems by simp
qed simp

section \<open>Properties\<close>

text \<open>
  C29. What the splitter hands on, and whether it fails, does not depend on how the muxer cuts its output into writes:
  any pieces give the same callbacks in the same order and the same error as one write of the whole.
\<close>

theorem splitter_chunking_independent:
  "concat ps = concat qs \<Longrightarrow> seen (write_all cb ps NewSplitter) = seen (write_all cb qs NewSplitter)"
proof -
  assume eq: "concat ps = concat qs"
  have "err NewSplitter = None" "next_box (buf NewSplitter) = NeedMore" by (simp_all add: NewSplitter_def next_box_def)
  from write_all_seen [OF this, of cb ps] write_all_seen [OF this, of cb qs] eq show ?thesis by simp
qed

theorem splitter_chunking_independent_witness:
  "seen (write_all accepting [[0, 0], [0, 8, 1, 2, 3, 4, 0]] NewSplitter) = seen (write_all accepting [[0, 0, 0, 8, 1, 2, 3], [4, 0]] NewSplitter)"
  by (rule splitter_chunking_independent) simp

text \<open>
  C20. On a well-formed stream, in pieces of any size, the splitter loses and invents nothing: the init is called once with
  exactly ftyp and moov, then each fragment once, in order, with exactly its styp, sidx, moof and mdat boxes; boxes after
  the last fragment are dropped and nothing fails.
\<close>

theorem splitter_lossless:
  assumes "box_ok (''ftyp'', ft)" and "box_ok (''moov'', mv)" and "list_all fragment_ok fs" and "list_all box_ok ts"
    and "fst ` set ts \<inter> {''ftyp'', ''moov'', ''styp'', ''sidx'', ''moof'', ''mdat''} = {}"
    and "concat ps = mk_box ''ftyp'' ft @ mk_box ''moov'' mv @ concat (map fragment fs) @ mk_boxes ts"
  shows "seen (write_all accepting ps NewSplitter)
    = (OnInit (mk_box ''ftyp'' ft @ mk_box ''moov'' mv) # map (OnFragment \<circ> fragment) fs, None)"
proof -
  let ?rest = "concat (map fragment fs) @ mk_boxes ts"
  let ?s = "NewSplitter\<lparr>buf := mk_box ''ftyp'' ft @ mk_box ''moov'' mv @ ?rest\<rparr>"
  let ?t = "NewSplitter\<lparr>init := mk_box ''ftyp'' ft, buf := mk_box ''moov'' mv @ ?rest\<rparr>"
  let ?u = "NewSplitter\<lparr>init := mk_box ''ftyp'' ft @ mk_box ''moov'' mv, initDone := True,
     calls := [OnInit (mk_box ''ftyp'' ft @ mk_box ''moov'' mv)]\<rparr>"
  have "drain accepting ?s = drain accepting ?t"
    using drain_mk [OF assms(1), of ?s _ accepting]
    by (simp add: box_def mk_box_parts box_type_inject) (simp add: NewSplitter_def)
  also have "\<dots> = drain accepting (?u\<lparr>buf := ?rest\<rparr>)"
    using drain_mk [OF assms(2), of ?t _ accepting]
    by (simp add: box_def mk_box_parts box_type_inject emit_def) (simp add: NewSplitter_def)
  also have "\<dots> = drain accepting (?u\<lparr>calls := calls ?u @ map (OnFragment \<circ> fragment) fs, buf := mk_boxes ts\<rparr>)"
    using assms(3) by (intro drain_fragments) (simp_all add: NewSplitter_def)
  also have "\<dots> = drain accepting (?u\<lparr>calls := calls ?u @ map (OnFragment \<circ> fragment) fs, buf := []\<rparr>)"
    using drain_drop [OF assms(4,5), of "?u\<lparr>calls := calls ?u @ map (OnFragment \<circ> fragment) fs\<rparr>" accepting "[]"]
    by (simp add: NewSplitter_def)
  finally have run: "drain accepting ?s = \<dots>" .
  have "err NewSplitter = None" "next_box (buf NewSplitter) = NeedMore" by (simp_all add: NewSplitter_def next_box_def)
  from write_all_seen [OF this, of accepting ps] show ?thesis
    using run by (simp add: assms(6) Write_def Let_def drain_empty seen_def NewSplitter_def)
qed

theorem splitter_lossless_witness:
  "seen (write_all accepting [mk_box ''ftyp'' [1] @ mk_box ''moov'' [2], mk_boxes [(''moof'', [3])] @ mk_box ''mdat'' [4, 5] @ mk_box ''mfra'' []] NewSplitter)
    = ([OnInit (mk_box ''ftyp'' [1] @ mk_box ''moov'' [2]), OnFragment (fragment ([(''moof'', [3])], [4, 5]))], None)"
proof -
  have "fragment_ok ([(''moof'', [3])], [4, 5])" by (simp add: fragment_ok_def box_ok_def)
  then show ?thesis
    using splitter_lossless [of "[1]" "[2]" "[([(''moof'', [3])], [4, 5])]" "[(''mfra'', [])]"
      "[mk_box ''ftyp'' [1] @ mk_box ''moov'' [2], mk_boxes [(''moof'', [3])] @ mk_box ''mdat'' [4, 5] @ mk_box ''mfra'' []]"]
    by (simp add: box_ok_def fragment_def mk_boxes_def)
qed

end
