(* ===== verification/Remux_Job.thy ===== *)
theory Remux_Job
  imports Video_Job
begin

text \<open>
  The browser remux job and segments of \<open>src/pkg/remux\<close>: \<open>job.go\<close>, \<open>segment.go\<close> and \<open>wire.go\<close>. As for a conversion, a
  worker is sent no token and no Plex URL; here durations travel as milliseconds.
\<close>

section \<open>The model\<close>

record Fragment =
  Data :: string
  FT :: int
  FD :: int

record Segment =
  SN :: int
  SStart :: duration
  SEnd :: duration
  SVideo :: Fragment
  SAudio :: Fragment
  OnGrid :: bool

record StreamInfo =
  VideoCodec :: string
  AudioCodec :: string
  IWidth :: int
  IHeight :: int
  IFrameRate :: string
  ISampleRate :: int
  IChannels :: int
  IDuration :: duration

text \<open>\<open>\%05d\<close>: at least five digits.\<close>

definition pad5 :: "nat \<Rightarrow> string" where
  "pad5 n = replicate (5 - length (nat_digits n)) (CHR ''0'') @ nat_digits n"

definition InitName :: string where
  "InitName = ''init-stream$RepresentationID$.m4s''"

definition MediaName :: string where
  "MediaName = ''chunk-stream$RepresentationID$-$Number%05d$.m4s''"

definition InitFile :: "nat \<Rightarrow> string" where
  "InitFile rep = ''init-stream'' @ nat_digits rep @ ''.m4s''"

definition ChunkFile :: "nat \<Rightarrow> nat \<Rightarrow> string" where
  "ChunkFile rep n = ''chunk-stream'' @ nat_digits rep @ ''-'' @ pad5 n @ ''.m4s''"

record remux_job =
  Input :: string
  JStart :: duration
  SkipToSegment :: int
  SegmentDuration :: duration
  VideoStream :: int
  AudioStream :: int
  AudioCopy :: bool
  AudioChannels :: int
  AudioSampleRate :: int
  AudioBitRate :: int
  AudioLanguage :: string
  JProgressURL :: string
  JManifestURL :: string
  JToken :: string

definition SessionID :: "(string \<Rightarrow> string option) \<Rightarrow> remux_job \<Rightarrow> string" where
  "SessionID url_path j = (case url_path (JProgressURL j) of None \<Rightarrow> []
     | Some p \<Rightarrow> session_part (split_on CHR ''/'' (trim_func (\<lambda>c. c = CHR ''/'') p)))"

record pb_remux =
  pr_input :: string
  pr_start_ms :: int
  pr_skip_to_segment :: int
  pr_segment_ms :: int
  pr_video_stream :: int
  pr_audio_stream :: int
  pr_audio_copy :: bool
  pr_audio_channels :: int
  pr_audio_sample_rate :: int
  pr_audio_bit_rate :: int
  pr_audio_language :: string

definition Milliseconds :: "duration \<Rightarrow> int" where
  "Milliseconds d = go_div d millisecond"

definition remux_proto :: "remux_job \<Rightarrow> pb_remux" where
  "remux_proto j = \<lparr>pr_input = Input j, pr_start_ms = Milliseconds (JStart j), pr_skip_to_segment = wrap32 (SkipToSegment j),
     pr_segment_ms = Milliseconds (SegmentDuration j), pr_video_stream = wrap32 (VideoStream j),
     pr_audio_stream = wrap32 (AudioStream j), pr_audio_copy = AudioCopy j, pr_audio_channels = wrap32 (AudioChannels j),
     pr_audio_sample_rate = wrap32 (AudioSampleRate j), pr_audio_bit_rate = AudioBitRate j,
     pr_audio_language = AudioLanguage j\<rparr>"

definition remux_from_proto :: "pb_remux \<Rightarrow> remux_job" where
  "remux_from_proto p = \<lparr>Input = pr_input p, JStart = wrap64 (pr_start_ms p * millisecond), SkipToSegment = pr_skip_to_segment p,
     SegmentDuration = wrap64 (pr_segment_ms p * millisecond), VideoStream = pr_video_stream p, AudioStream = pr_audio_stream p,
     AudioCopy = pr_audio_copy p, AudioChannels = pr_audio_channels p, AudioSampleRate = pr_audio_sample_rate p,
     AudioBitRate = pr_audio_bit_rate p, AudioLanguage = pr_audio_language p,
     JProgressURL = [], JManifestURL = [], JToken = []\<rparr>"

section \<open>Properties\<close>

lemma pad5_inj: "pad5 m = pad5 n \<Longrightarrow> m = n"
proof -
  have "digits_val (replicate k (CHR ''0'') @ s) = digits_val s" for k s
    by (induction k) (simp_all add: digits_val_def digit_val_def)
  then have "digits_val (pad5 k) = k" for k by (simp add: pad5_def)
  then show "pad5 m = pad5 n \<Longrightarrow> m = n" by metis
qed

definition remux_wire :: "remux_job \<Rightarrow> bool" where
  "remux_wire j \<longleftrightarrow> in_int64 (JStart j) \<and> JStart j mod millisecond = 0
     \<and> in_int64 (SegmentDuration j) \<and> SegmentDuration j mod millisecond = 0
     \<and> list_all in_int32 [SkipToSegment j, VideoStream j, AudioStream j, AudioChannels j, AudioSampleRate j]"

text \<open>
  A remux worker rebuilds exactly the job it was sent, less the token and the Plex URLs, when its times are whole
  milliseconds and its integers fit 32 bits; and what is sent does not depend on the token or the URLs.
\<close>

theorem remux_wire_roundtrip:
  assumes "remux_wire j"
  shows "remux_from_proto (remux_proto j) = j\<lparr>JProgressURL := [], JManifestURL := [], JToken := []\<rparr>
    \<and> remux_proto (j\<lparr>JProgressURL := pu, JManifestURL := mu, JToken := tok\<rparr>) = remux_proto j"
proof -
  have "go_div d millisecond * millisecond = d" if "d mod millisecond = 0" for d :: int
    using that by (rule go_div_exact) simp
  then show ?thesis using assms
    by (simp add: remux_wire_def remux_from_proto_def remux_proto_def Milliseconds_def wrap64_id wrap32_id)
qed

definition demo_remux :: remux_job where
  "demo_remux = \<lparr>Input = ''/media/a.mkv'', JStart = 0, SkipToSegment = 12, SegmentDuration = 5 * second, VideoStream = 0,
     AudioStream = 1, AudioCopy = False, AudioChannels = 2, AudioSampleRate = 48000, AudioBitRate = 256000,
     AudioLanguage = ''eng'', JProgressURL = ''http://127.0.0.1/p'', JManifestURL = ''http://127.0.0.1/m'', JToken = ''secret''\<rparr>"

theorem remux_wire_roundtrip_witness:
  "remux_from_proto (remux_proto demo_remux) = demo_remux\<lparr>JProgressURL := [], JManifestURL := [], JToken := []\<rparr>
    \<and> remux_proto (demo_remux\<lparr>JProgressURL := [], JManifestURL := [], JToken := []\<rparr>) = remux_proto demo_remux"
  by (rule remux_wire_roundtrip) (simp add: remux_wire_def demo_remux_def in_int32_def in_int64_def)

end
