(* ===== verification/Remux_Cache.thy ===== *)
theory Remux_Cache
  imports Remux_Job "HOL-Library.Multiset"
begin

text \<open>
  The segment cache of \<open>src/pkg/remux/cache/cache.go\<close>. An entry is its directory (two media files that only grow, and
  the index last saved) and the index in memory. A call's disk faults are a parameter, \<open>faults\<close>: an append that fails may
  have written any part of its data. A segment read back is what was put, through any sequence of calls and faults and
  through a restart; eviction removes the least recently used entries no job holds.

  The index is stored as JSON; what is read back of a saved index is that index (a file that does not parse is
  \<open>Corrupt\<close>). Offsets and lengths are sizes of files and so natural numbers.
\<close>

section \<open>The model of an entry\<close>

record span =
  Off :: nat
  Len :: nat

record part = span +
  PT :: int
  PD :: int

record crecord =
  CStart :: duration
  CEnd :: duration
  CVideo :: part
  CAudio :: part
  COnGrid :: bool

record index =
  VideoInit :: span
  AudioInit :: span
  Timescales :: "int \<times> int"
  Info :: StreamInfo
  HasInit :: bool
  Segments :: "string \<rightharpoonup> crecord"
  Last :: int
  Used :: time

datatype index_file = Missing | Corrupt | Saved index

record dir =
  video_mp4 :: "string option"
  audio_mp4 :: "string option"
  index_json :: index_file

record entry =
  disk :: dir
  idx :: index

record faults =
  append_video :: "nat option"
  append_audio :: "nat option"
  save_fails :: bool
  remove_fails :: "nat option"

definition no_info :: StreamInfo where
  "no_info = \<lparr>VideoCodec = [], AudioCodec = [], IWidth = 0, IHeight = 0, IFrameRate = [], ISampleRate = 0, IChannels = 0, IDuration = 0\<rparr>"

definition empty_index :: "time \<Rightarrow> index" where
  "empty_index used = \<lparr>VideoInit = \<lparr>Off = 0, Len = 0\<rparr>, AudioInit = \<lparr>Off = 0, Len = 0\<rparr>, Timescales = (0, 0), Info = no_info,
     HasInit = False, Segments = Map.empty, Last = 0, Used = used\<rparr>"

datatype cache_error = DiskError | BeforeInit int | ErrFull

definition file_bytes :: "string option \<Rightarrow> string" where
  "file_bytes f = (case f of None \<Rightarrow> [] | Some b \<Rightarrow> b)"

text \<open>\<open>appendTo\<close>: the file as it is left, and the span written or a fault after some bytes.\<close>

definition appendTo :: "nat option \<Rightarrow> string option \<Rightarrow> string \<Rightarrow> string option \<times> span option" where
  "appendTo fault f data = (case fault of
      None \<Rightarrow> (Some (file_bytes f @ data), Some \<lparr>Off = length (file_bytes f), Len = length data\<rparr>)
    | Some k \<Rightarrow> (Some (file_bytes f @ take k data), None))"

definition readAt :: "string option \<Rightarrow> nat \<Rightarrow> nat \<Rightarrow> string option" where
  "readAt f off len = (case f of None \<Rightarrow> None
     | Some b \<Rightarrow> if off + len \<le> length b then Some (take len (drop off b)) else None)"

definition save :: "bool \<Rightarrow> entry \<Rightarrow> entry \<times> cache_error option" where
  "save fails e = (if fails then (e, Some DiskError) else (e\<lparr>disk := (disk e)\<lparr>index_json := Saved (idx e)\<rparr>\<rparr>, None))"

text \<open>Three removals, of which the one after the first \<open>k\<close> may fail.\<close>

definition remove_files :: "nat \<Rightarrow> dir \<Rightarrow> dir" where
  "remove_files k d = \<lparr>video_mp4 = (if k \<ge> 1 then None else video_mp4 d), audio_mp4 = (if k \<ge> 2 then None else audio_mp4 d),
     index_json = (if k \<ge> 3 then Missing else index_json d)\<rparr>"

definition resetLocked :: "nat option \<Rightarrow> time \<Rightarrow> entry \<Rightarrow> entry \<times> cache_error option" where
  "resetLocked fault now e = (case fault of
      Some k \<Rightarrow> (e\<lparr>disk := remove_files (min k 2) (disk e)\<rparr>, Some DiskError)
    | None \<Rightarrow> (\<lparr>disk = remove_files 3 (disk e), idx = empty_index now\<rparr>, None))"

text \<open>\<open>load\<close>, for an index not yet in memory; the zero time is 0.\<close>

definition load :: "nat option \<Rightarrow> time \<Rightarrow> dir \<Rightarrow> entry \<times> cache_error option" where
  "load fault now d = (case index_json d of
      Missing \<Rightarrow> (\<lparr>disk = d, idx = empty_index 0\<rparr>, None)
    | Corrupt \<Rightarrow> resetLocked fault now \<lparr>disk = d, idx = empty_index 0\<rparr>
    | Saved i \<Rightarrow> (\<lparr>disk = d, idx = i\<rparr>, None))"

definition Init :: "entry \<Rightarrow> (string \<times> string \<times> (int \<times> int) \<times> StreamInfo) option" where
  "Init e =
     (if \<not> HasInit (idx e) then None
      else case (readAt (video_mp4 (disk e)) (Off (VideoInit (idx e))) (Len (VideoInit (idx e))),
                 readAt (audio_mp4 (disk e)) (Off (AudioInit (idx e))) (Len (AudioInit (idx e)))) of
        (Some v, Some a) \<Rightarrow> Some (v, a, Timescales (idx e), Info (idx e))
      | _ \<Rightarrow> None)"

text \<open>The two appends of an init or a segment: the second is not tried when the first fails.\<close>

definition append_both :: "faults \<Rightarrow> string \<Rightarrow> string \<Rightarrow> dir \<Rightarrow> dir \<times> (span \<times> span) option" where
  "append_both fl v a d =
     (case appendTo (append_video fl) (video_mp4 d) v of
        (vf, None) \<Rightarrow> (d\<lparr>video_mp4 := vf\<rparr>, None)
      | (vf, Some vs) \<Rightarrow>
          (case appendTo (append_audio fl) (audio_mp4 d) a of
             (af, None) \<Rightarrow> (d\<lparr>video_mp4 := vf, audio_mp4 := af\<rparr>, None)
           | (af, Some as) \<Rightarrow> (d\<lparr>video_mp4 := vf, audio_mp4 := af\<rparr>, Some (vs, as))))"

definition write_init :: "faults \<Rightarrow> string \<Rightarrow> string \<Rightarrow> int \<times> int \<Rightarrow> StreamInfo \<Rightarrow> entry \<Rightarrow> entry \<times> cache_error option" where
  "write_init fl v a ts info e =
     (case append_both fl v a (disk e) of
        (d, None) \<Rightarrow> (e\<lparr>disk := d\<rparr>, Some DiskError)
      | (d, Some (vs, as)) \<Rightarrow>
          save (save_fails fl) (e\<lparr>disk := d, idx := (idx e)\<lparr>VideoInit := vs, AudioInit := as, Timescales := ts, Info := info, HasInit := True\<rparr>\<rparr>))"

definition SetInit :: "faults \<Rightarrow> time \<Rightarrow> string \<Rightarrow> string \<Rightarrow> int \<times> int \<Rightarrow> StreamInfo \<Rightarrow> entry \<Rightarrow> entry \<times> cache_error option" where
  "SetInit fl now v a ts info e =
     (if \<not> HasInit (idx e) then write_init fl v a ts info e
      else if readAt (video_mp4 (disk e)) (Off (VideoInit (idx e))) (Len (VideoInit (idx e))) = Some v
         \<and> readAt (audio_mp4 (disk e)) (Off (AudioInit (idx e))) (Len (AudioInit (idx e))) = Some a
         \<and> Timescales (idx e) = ts
      then save (save_fails fl) (e\<lparr>idx := (idx e)\<lparr>Info := info\<rparr>\<rparr>)
      else case resetLocked (remove_fails fl) now e of
        (e', Some err) \<Rightarrow> (e', Some err)
      | (e', None) \<Rightarrow> write_init fl v a ts info e')"

definition segment_of :: "int \<Rightarrow> crecord \<Rightarrow> string \<Rightarrow> string \<Rightarrow> Segment" where
  "segment_of n r v a = \<lparr>SN = n, SStart = CStart r, SEnd = CEnd r,
     SVideo = \<lparr>Data = v, FT = PT (CVideo r), FD = PD (CVideo r)\<rparr>,
     SAudio = \<lparr>Data = a, FT = PT (CAudio r), FD = PD (CAudio r)\<rparr>, OnGrid = COnGrid r\<rparr>"

definition read_record :: "dir \<Rightarrow> int \<Rightarrow> crecord \<Rightarrow> Segment option" where
  "read_record d n r =
     (case (readAt (video_mp4 d) (Off (CVideo r)) (Len (CVideo r)), readAt (audio_mp4 d) (Off (CAudio r)) (Len (CAudio r))) of
        (Some v, Some a) \<Rightarrow> Some (segment_of n r v a)
      | _ \<Rightarrow> None)"

text \<open>\<open>Segment\<close>: not there, there, or an error of the disk.\<close>

definition get_segment :: "time \<Rightarrow> int \<Rightarrow> entry \<Rightarrow> entry \<times> (cache_error + Segment option)" where
  "get_segment now n e = (case Segments (idx e) (itoa n) of
      None \<Rightarrow> (e, Inr None)
    | Some r \<Rightarrow> (case read_record (disk e) n r of
        None \<Rightarrow> (e, Inl DiskError)
      | Some s \<Rightarrow> (e\<lparr>idx := (idx e)\<lparr>Used := now\<rparr>\<rparr>, Inr (Some s))))"

definition size_of :: "dir \<Rightarrow> nat" where
  "size_of d = length (file_bytes (video_mp4 d)) + length (file_bytes (audio_mp4 d))"

definition record_of :: "Segment \<Rightarrow> span \<Rightarrow> span \<Rightarrow> crecord" where
  "record_of s vs as = \<lparr>CStart = SStart s, CEnd = SEnd s,
     CVideo = \<lparr>Off = Off vs, Len = Len vs, PT = FT (SVideo s), PD = FD (SVideo s)\<rparr>,
     CAudio = \<lparr>Off = Off as, Len = Len as, PT = FT (SAudio s), PD = FD (SAudio s)\<rparr>, COnGrid = OnGrid s\<rparr>"

text \<open>\<open>Put\<close> up to its eviction.\<close>

definition put_segment :: "faults \<Rightarrow> int \<Rightarrow> time \<Rightarrow> Segment \<Rightarrow> entry \<Rightarrow> entry \<times> cache_error option" where
  "put_segment fl MaxBytes now s e =
     (if \<not> HasInit (idx e) then (e, Some (BeforeInit (SN s)))
      else if Segments (idx e) (itoa (SN s)) \<noteq> None then (e, None)
      else if MaxBytes > 0 \<and> int (size_of (disk e)) + int (length (Data (SVideo s)) + length (Data (SAudio s))) > MaxBytes
      then (e, Some ErrFull)
      else case append_both fl (Data (SVideo s)) (Data (SAudio s)) (disk e) of
        (d, None) \<Rightarrow> (e\<lparr>disk := d\<rparr>, Some DiskError)
      | (d, Some (vs, as)) \<Rightarrow>
          save (save_fails fl) (e\<lparr>disk := d, idx := (idx e)\<lparr>Segments := (Segments (idx e))(itoa (SN s) \<mapsto> record_of s vs as), Used := now\<rparr>\<rparr>))"

text \<open>\<open>Open\<close>'s work on the entry: the index is loaded once per worker, its time of use set and saved.\<close>

definition open_entry :: "faults \<Rightarrow> time \<Rightarrow> bool \<Rightarrow> entry \<Rightarrow> entry \<times> cache_error option" where
  "open_entry fl now is_loaded e =
     (case (if is_loaded then (e, None) else load (remove_fails fl) now (disk e)) of
        (e', Some err) \<Rightarrow> (e', Some err)
      | (e', None) \<Rightarrow> save (save_fails fl) (e'\<lparr>idx := (idx e')\<lparr>Used := now\<rparr>\<rparr>))"

definition SetLast :: "bool \<Rightarrow> int \<Rightarrow> entry \<Rightarrow> entry \<times> cache_error option" where
  "SetLast fails n e = save fails (e\<lparr>idx := (idx e)\<lparr>Last := n\<rparr>\<rparr>)"

section \<open>Eviction\<close>

record cached =
  cname :: string
  csize :: int
  cused :: time

fun evict_loop :: "(string \<Rightarrow> bool) \<Rightarrow> (string \<Rightarrow> bool) \<Rightarrow> int \<Rightarrow> int \<Rightarrow> cached list \<Rightarrow> cached list \<times> bool" where
  "evict_loop in_use rm_fails MaxBytes held_bytes [] = ([], False)"
| "evict_loop in_use rm_fails MaxBytes held_bytes (c # cs) =
     (if held_bytes \<le> MaxBytes then (c # cs, False)
      else if in_use (cname c) then
        (case evict_loop in_use rm_fails MaxBytes held_bytes cs of (kept, failed) \<Rightarrow> (c # kept, failed))
      else if rm_fails (cname c) then (c # cs, True)
      else evict_loop in_use rm_fails MaxBytes (held_bytes - csize c) cs)"

text \<open>\<open>Evict\<close>: the entries kept and whether it failed. \<open>slices.SortFunc\<close> is not stable, so \<open>by_used\<close> is any function that
  sorts by the time of use.\<close>

definition Evict :: "(cached list \<Rightarrow> cached list) \<Rightarrow> (string \<Rightarrow> bool) \<Rightarrow> (string \<Rightarrow> bool) \<Rightarrow> int \<Rightarrow> cached list \<Rightarrow> cached list \<times> bool" where
  "Evict by_used in_use rm_fails MaxBytes dirs =
     (if MaxBytes \<le> 0 then (dirs, False)
      else evict_loop in_use rm_fails MaxBytes (sum_list (map csize dirs)) (by_used dirs))"

section \<open>Entries held by jobs\<close>

record shared =
  sh_idx :: index
  loaded :: bool
  refs :: nat

definition open_shared :: "(string \<rightharpoonup> shared) \<Rightarrow> string \<Rightarrow> bool" where
  "open_shared m name = (case m name of None \<Rightarrow> False | Some sh \<Rightarrow> refs sh > 0)"

definition hold :: "string \<Rightarrow> (string \<rightharpoonup> shared) \<Rightarrow> (string \<rightharpoonup> shared)" where
  "hold name m = (case m name of
      None \<Rightarrow> m(name \<mapsto> \<lparr>sh_idx = empty_index 0, loaded = False, refs = 1\<rparr>)
    | Some sh \<Rightarrow> m(name \<mapsto> sh\<lparr>refs := refs sh + 1\<rparr>))"

definition release_entry :: "string \<Rightarrow> (string \<rightharpoonup> shared) \<Rightarrow> (string \<rightharpoonup> shared)" where
  "release_entry name m = (case m name of
      None \<Rightarrow> m
    | Some sh \<Rightarrow> if refs sh > 0 then m(name \<mapsto> sh\<lparr>refs := refs sh - 1\<rparr>) else m)"

section \<open>Files only grow\<close>

definition grows :: "dir \<Rightarrow> dir \<Rightarrow> bool" where
  "grows d d' \<longleftrightarrow> (\<forall>off len x. readAt (video_mp4 d) off len = Some x \<longrightarrow> readAt (video_mp4 d') off len = Some x)
     \<and> (\<forall>off len x. readAt (audio_mp4 d) off len = Some x \<longrightarrow> readAt (audio_mp4 d') off len = Some x)"

lemma readAt_append: "readAt f off len = Some x \<Longrightarrow> readAt (Some (file_bytes f @ y)) off len = Some x"
  by (auto simp: readAt_def file_bytes_def split: option.splits if_splits)

lemma readAt_own: "readAt (Some (b @ x)) (length b) (length x) = Some x"
  by (simp add: readAt_def)

lemma grows_refl [simp]: "grows d d"
  by (simp add: grows_def)

lemma read_record_grows: "grows d d' \<Longrightarrow> read_record d n r = Some s \<Longrightarrow> read_record d' n r = Some s"
  by (auto simp: grows_def read_record_def split: option.splits prod.splits)

lemma append_both_grows: "append_both fl v a d = (d', r) \<Longrightarrow> grows d d' \<and> index_json d' = index_json d"
  by (auto simp: append_both_def appendTo_def grows_def readAt_append split: option.splits prod.splits)

lemma append_both_spans:
  assumes "append_both fl v a d = (d', Some (vs, as))"
  shows "readAt (video_mp4 d') (Off vs) (Len vs) = Some v" and "readAt (audio_mp4 d') (Off as) (Len as) = Some a"
  using assms by (auto simp: append_both_def appendTo_def readAt_own split: option.splits prod.splits)

section \<open>What an entry holds\<close>

text \<open>The puts so far, each with the inits it was muxed against.\<close>

type_synonym put_log = "(string \<times> string \<times> Segment) list"

definition inits_read :: "dir \<Rightarrow> index \<Rightarrow> string \<Rightarrow> string \<Rightarrow> bool" where
  "inits_read d i v a \<longleftrightarrow> readAt (video_mp4 d) (Off (VideoInit i)) (Len (VideoInit i)) = Some v
     \<and> readAt (audio_mp4 d) (Off (AudioInit i)) (Len (AudioInit i)) = Some a"

definition segments_read :: "put_log \<Rightarrow> dir \<Rightarrow> index \<Rightarrow> string \<Rightarrow> string \<Rightarrow> bool" where
  "segments_read log d i v a \<longleftrightarrow> (\<forall>n r. in_int64 n \<longrightarrow> Segments i (itoa n) = Some r \<longrightarrow>
     (\<exists>s. (v, a, s) \<in> set log \<and> SN s = n \<and> read_record d n r = Some s))"

definition index_inv :: "put_log \<Rightarrow> dir \<Rightarrow> index \<Rightarrow> bool" where
  "index_inv log d i \<longleftrightarrow>
     (if HasInit i then \<exists>v a. inits_read d i v a \<and> segments_read log d i v a else Segments i = Map.empty)"

definition entry_inv :: "put_log \<Rightarrow> entry \<Rightarrow> bool" where
  "entry_inv log e \<longleftrightarrow> index_inv log (disk e) (idx e)
     \<and> (\<forall>i. index_json (disk e) = Saved i \<longrightarrow> index_inv log (disk e) i)"

lemma inits_read_grows: "inits_read d i v a \<Longrightarrow> grows d d' \<Longrightarrow> inits_read d' i v a"
  by (simp add: inits_read_def grows_def)

lemma segments_read_grows: "segments_read log d i v a \<Longrightarrow> grows d d' \<Longrightarrow> segments_read log d' i v a"
  unfolding segments_read_def using read_record_grows [of d d'] by meson

lemma segments_read_log: "segments_read log d i v a \<Longrightarrow> set log \<subseteq> set log' \<Longrightarrow> segments_read log' d i v a"
  unfolding segments_read_def by (meson subsetD)

lemma index_inv_grows: "index_inv log d i \<Longrightarrow> grows d d' \<Longrightarrow> index_inv log d' i"
  unfolding index_inv_def using inits_read_grows [of d i] segments_read_grows [of log d i] by (metis (full_types))

lemma index_inv_log: "index_inv log d i \<Longrightarrow> set log \<subseteq> set log' \<Longrightarrow> index_inv log' d i"
  unfolding index_inv_def using segments_read_log [of log d i] by (metis (full_types))

lemma index_inv_json [simp]: "index_inv log (d\<lparr>index_json := j\<rparr>) i = index_inv log d i"
  by (simp add: index_inv_def inits_read_def segments_read_def read_record_def)

lemma index_inv_irrelevant [simp]:
  "index_inv log d (i\<lparr>Used := t\<rparr>) = index_inv log d i"
  "index_inv log d (i\<lparr>Last := l\<rparr>) = index_inv log d i"
  "index_inv log d (i\<lparr>Info := x\<rparr>) = index_inv log d i"
  by (simp_all add: index_inv_def inits_read_def segments_read_def)

lemma empty_index_inv [simp]: "index_inv log d (empty_index t)"
  by (simp add: index_inv_def empty_index_def)

lemma save_inv: "entry_inv log e \<Longrightarrow> save f e = (e', r) \<Longrightarrow> entry_inv log e'"
  by (auto simp: save_def entry_inv_def split: if_splits)

lemma entry_inv_grows:
  assumes "entry_inv log e" and "grows (disk e) d" and "index_json d = index_json (disk e)" and "index_inv log d i"
  shows "entry_inv log (e\<lparr>disk := d, idx := i\<rparr>)"
  using assms index_inv_grows by (auto simp: entry_inv_def)

section \<open>Every operation keeps it\<close>

definition reset_whole :: "nat option \<Rightarrow> bool" where
  "reset_whole fault \<longleftrightarrow> fault = None \<or> fault = Some 0"

lemma reset_inv:
  assumes "entry_inv log e" and "reset_whole fault" and "resetLocked fault now e = (e', r)"
  shows "entry_inv log e'" and "r = None \<Longrightarrow> Segments (idx e') = Map.empty"
proof -
  have zero: "remove_files 0 d = d" for d by (simp add: remove_files_def)
  have gone: "index_json (remove_files 3 d) = Missing" for d by (simp add: remove_files_def)
  have cases: "r = None \<and> e' = \<lparr>disk = remove_files 3 (disk e), idx = empty_index now\<rparr> \<or> r \<noteq> None \<and> e' = e"
    using assms(2,3) by (auto simp: resetLocked_def reset_whole_def zero)
  then show "entry_inv log e'" using assms(1) by (auto simp: entry_inv_def gone)
  show "r = None \<Longrightarrow> Segments (idx e') = Map.empty" using cases by (auto simp: empty_index_def)
qed

lemma load_inv:
  assumes "entry_inv log e" and "reset_whole fault" and "load fault now (disk e) = (e', r)"
  shows "entry_inv log e'"
proof (cases "index_json (disk e)")
  case Corrupt
  then have "entry_inv log \<lparr>disk = disk e, idx = empty_index 0\<rparr>" by (simp add: entry_inv_def)
  then show ?thesis using reset_inv(1) [OF _ assms(2)] assms(3) Corrupt by (simp add: load_def)
qed (use assms in \<open>auto simp: load_def entry_inv_def\<close>)

lemma write_init_inv:
  assumes inv: "entry_inv log e" and empty: "Segments (idx e) = Map.empty" and w: "write_init fl v a ts info e = (e', r)"
  shows "entry_inv log e'"
proof -
  obtain d sp where ap: "append_both fl v a (disk e) = (d, sp)" by fastforce
  note g = append_both_grows [OF ap]
  show ?thesis
  proof (cases sp)
    case None
    then show ?thesis using w ap g inv index_inv_grows by (auto simp: write_init_def entry_inv_def)
  next
    case (Some vas)
    let ?i = "(idx e)\<lparr>VideoInit := fst vas, AudioInit := snd vas, Timescales := ts, Info := info, HasInit := True\<rparr>"
    have "index_inv log d ?i"
      using append_both_spans [of fl v a "disk e" d "fst vas" "snd vas"] ap Some empty
      by (simp add: index_inv_def inits_read_def segments_read_def)
    then have "entry_inv log (e\<lparr>disk := d, idx := ?i\<rparr>)" using entry_inv_grows [OF inv] g by blast
    moreover have "save (save_fails fl) (e\<lparr>disk := d, idx := ?i\<rparr>) = (e', r)"
      using w ap Some by (simp add: write_init_def split: prod.splits)
    ultimately show ?thesis by (rule save_inv)
  qed
qed

lemma SetInit_inv:
  assumes inv: "entry_inv log e" and "reset_whole (remove_fails fl)" and w: "SetInit fl now v a ts info e = (e', r)"
  shows "entry_inv log e'"
proof -
  obtain f rf where rs: "resetLocked (remove_fails fl) now e = (f, rf)" by fastforce
  note reset = reset_inv [OF inv assms(2) rs]
  have keep: "entry_inv log (e\<lparr>idx := (idx e)\<lparr>Info := info\<rparr>\<rparr>)" using inv by (simp add: entry_inv_def)
  have "Segments (idx e) = Map.empty" if "\<not> HasInit (idx e)" using inv that by (simp add: entry_inv_def index_inv_def)
  then show ?thesis using w rs reset write_init_inv [OF inv, of fl v a ts info e' r] write_init_inv [OF reset(1) reset(2), of fl v a ts info e' r]
      save_inv [OF keep]
    by (auto simp: SetInit_def split: if_splits option.splits)
qed

lemma inv_Init:
  assumes "entry_inv log e" and "HasInit (idx e)"
  obtains v a where "Init e = Some (v, a, Timescales (idx e), Info (idx e))" "inits_read (disk e) (idx e) v a"
    "segments_read log (disk e) (idx e) v a"
  using assms by (auto simp: entry_inv_def index_inv_def inits_read_def Init_def)

definition put_logged :: "Segment \<Rightarrow> entry \<Rightarrow> put_log \<Rightarrow> put_log" where
  "put_logged s e log = (case Init e of Some (v, a, _) \<Rightarrow> log @ [(v, a, s)] | None \<Rightarrow> log)"

lemma put_cases:
  assumes "put_segment fl M now s e = (e', r)"
  obtains (same) "e' = e" "r = None \<Longrightarrow> HasInit (idx e) \<and> Segments (idx e) (itoa (SN s)) \<noteq> None"
    | (fault) d where "e' = e\<lparr>disk := d\<rparr>" "r \<noteq> None" "grows (disk e) d" "index_json d = index_json (disk e)"
    | (stored) d vs as where "HasInit (idx e)" "Segments (idx e) (itoa (SN s)) = None" "grows (disk e) d" "index_json d = index_json (disk e)"
        "save (save_fails fl) (e\<lparr>disk := d, idx := (idx e)\<lparr>Segments := (Segments (idx e))(itoa (SN s) \<mapsto> record_of s vs as), Used := now\<rparr>\<rparr>) = (e', r)"
        "read_record d (SN s) (record_of s vs as) = Some s"
proof -
  obtain d sp where ap: "append_both fl (Data (SVideo s)) (Data (SAudio s)) (disk e) = (d, sp)" by fastforce
  note g = append_both_grows [OF ap]
  have rd: "read_record d (SN s) (record_of s vs as) = Some s" if "sp = Some (vs, as)" for vs as
    using append_both_spans [OF ap [unfolded that]] by (cases s) (simp add: read_record_def record_of_def segment_of_def)
  show thesis
  proof (cases "HasInit (idx e) \<and> Segments (idx e) (itoa (SN s)) = None
      \<and> \<not> (M > 0 \<and> int (size_of (disk e)) + int (length (Data (SVideo s)) + length (Data (SAudio s))) > M)")
    case False
    then show thesis using same assms by (auto simp: put_segment_def split: if_splits)
  next
    case True
    then show thesis using fault stored assms ap g rd by (auto simp: put_segment_def split: option.splits if_splits)
  qed
qed

lemma put_inv:
  assumes inv: "entry_inv log e" and n: "in_int64 (SN s)" and w: "put_segment fl M now s e = (e', r)"
  shows "entry_inv (put_logged s e log) e'"
proof -
  have log: "set log \<subseteq> set (put_logged s e log)" by (auto simp: put_logged_def split: option.splits)
  then have inv': "entry_inv (put_logged s e log) e" using inv index_inv_log by (auto simp: entry_inv_def)
  from w show ?thesis
  proof (cases rule: put_cases)
    case same
    then show ?thesis using inv' by simp
  next
    case (fault d)
    then show ?thesis using inv' index_inv_grows by (auto simp: entry_inv_def)
  next
    case (stored d vs as)
    let ?i = "(idx e)\<lparr>Segments := (Segments (idx e))(itoa (SN s) \<mapsto> record_of s vs as), Used := now\<rparr>"
    obtain v a where va: "Init e = Some (v, a, Timescales (idx e), Info (idx e))" "inits_read (disk e) (idx e) v a"
      "segments_read log (disk e) (idx e) v a" using inv_Init [OF inv stored(1)] .
    have new: "(v, a, s) \<in> set (put_logged s e log)" using va(1) by (simp add: put_logged_def)
    have "segments_read (put_logged s e log) d (idx e) v a"
      using segments_read_grows [OF segments_read_log [OF va(3) log] stored(3)] .
    then have "segments_read (put_logged s e log) d ?i v a"
      using new stored(6) n itoa_inject by (auto simp: segments_read_def) blast
    moreover have "inits_read d ?i v a" using inits_read_grows [OF va(2) stored(3)] by (simp add: inits_read_def)
    ultimately have "index_inv (put_logged s e log) d ?i" using stored(1) by (auto simp: index_inv_def)
    then have "entry_inv (put_logged s e log) (e\<lparr>disk := d, idx := ?i\<rparr>)" using entry_inv_grows [OF inv' stored(3,4)] by blast
    then show ?thesis using stored(5) by (rule save_inv)
  qed
qed

section \<open>The contract of a store of segments\<close>

locale segment_store =
  fixes ok :: "'e \<Rightarrow> bool"
    and get :: "'e \<Rightarrow> int \<Rightarrow> Segment option"
    and put :: "Segment \<Rightarrow> 'e \<Rightarrow> 'e"
  assumes put_ok: "ok e \<Longrightarrow> in_int64 (SN s) \<Longrightarrow> ok (put s e)"
    and get_number: "ok e \<Longrightarrow> in_int64 n \<Longrightarrow> get e n = Some s \<Longrightarrow> SN s = n"
    and put_keeps: "ok e \<Longrightarrow> in_int64 (SN s) \<Longrightarrow> in_int64 n \<Longrightarrow> get e n = Some t \<Longrightarrow> get (put s e) n = Some t"
    and put_adds: "ok e \<Longrightarrow> in_int64 (SN s) \<Longrightarrow> in_int64 n \<Longrightarrow> get (put s e) n = Some t \<Longrightarrow> get e n = Some t \<or> t = s"
begin

lemma puts_ok: "ok e \<Longrightarrow> list_all (\<lambda>s. in_int64 (SN s)) ss \<Longrightarrow> ok (fold put ss e)"
  by (induction ss arbitrary: e) (simp_all add: put_ok)

lemma puts_keep:
  "ok e \<Longrightarrow> list_all (\<lambda>s. in_int64 (SN s)) ss \<Longrightarrow> in_int64 n \<Longrightarrow> get e n = Some t \<Longrightarrow> get (fold put ss e) n = Some t"
  by (induction ss arbitrary: e) (simp_all add: put_ok put_keeps)

lemma puts_add:
  "ok e \<Longrightarrow> list_all (\<lambda>s. in_int64 (SN s)) ss \<Longrightarrow> in_int64 n \<Longrightarrow> get (fold put ss e) n = Some t \<Longrightarrow> get e n = Some t \<or> t \<in> set ss"
proof (induction ss arbitrary: e)
  case (Cons s ss)
  then have "get (put s e) n = Some t \<or> t \<in> set ss" by (simp add: put_ok)
  then show ?case using Cons.prems put_adds [of e s n t] by auto
qed simp

end

definition entry_get :: "entry \<Rightarrow> int \<Rightarrow> Segment option" where
  "entry_get e n = (case snd (get_segment 0 n e) of Inr (Some s) \<Rightarrow> Some s | _ \<Rightarrow> None)"

definition entry_ok :: "entry \<Rightarrow> bool" where
  "entry_ok e \<longleftrightarrow> (\<exists>log. entry_inv log e)"

lemma get_segment_result:
  "snd (get_segment now n e) = (case Segments (idx e) (itoa n) of None \<Rightarrow> Inr None
     | Some r \<Rightarrow> (case read_record (disk e) n r of None \<Rightarrow> Inl DiskError | Some s \<Rightarrow> Inr (Some s)))"
  by (simp add: get_segment_def split: option.splits)

lemma entry_get_read:
  "entry_get e n = (case Segments (idx e) (itoa n) of None \<Rightarrow> None | Some r \<Rightarrow> read_record (disk e) n r)"
  by (simp add: entry_get_def get_segment_result split: option.splits)

lemma inv_get:
  assumes "entry_inv log e" and "in_int64 n" and "Segments (idx e) (itoa n) = Some r"
  obtains v a s where "inits_read (disk e) (idx e) v a" "(v, a, s) \<in> set log" "SN s = n" "read_record (disk e) n r = Some s"
  using assms by (auto simp: entry_inv_def index_inv_def segments_read_def split: if_splits) blast

lemma entry_get_save [simp]: "save f e = (e', r) \<Longrightarrow> entry_get e' n = entry_get e n"
  by (auto simp: save_def entry_get_read read_record_def split: if_splits option.splits)

lemma put_get:
  assumes inv: "entry_inv log e" and n: "in_int64 (SN s)" "in_int64 n" and w: "put_segment fl M now s e = (e', r)"
  shows "entry_get e n = Some t \<Longrightarrow> entry_get e' n = Some t"
    and "entry_get e n = None \<Longrightarrow> entry_get e' n = (if n = SN s \<and> entry_get e' n \<noteq> None then Some s else None)"
    and "r = None \<Longrightarrow> entry_get e' (SN s) \<noteq> None"
proof -
  have there: "entry_get e m \<noteq> None" if "in_int64 m" "Segments (idx e) (itoa m) \<noteq> None" for m
    using that inv_get [OF inv that(1)] by (fastforce simp: entry_get_read)
  have none: "Segments (idx e) (itoa n) = None" if "entry_get e n = None" using there [OF n(2)] that by blast
  from w show "entry_get e n = Some t \<Longrightarrow> entry_get e' n = Some t"
  proof (cases rule: put_cases)
    case (stored d vs as)
    assume g: "entry_get e n = Some t"
    then have "n \<noteq> SN s" using stored(2) by (auto simp: entry_get_read)
    then have "itoa n \<noteq> itoa (SN s)" using n itoa_inject by blast
    then show ?thesis using g stored(3) entry_get_save [OF stored(5)] read_record_grows
      by (auto simp: entry_get_read split: option.splits)
  qed (auto simp: entry_get_read dest: read_record_grows split: option.splits)
  from w show "entry_get e' n = (if n = SN s \<and> entry_get e' n \<noteq> None then Some s else None)" if "entry_get e n = None"
  proof (cases rule: put_cases)
    case (stored d vs as)
    then show ?thesis using entry_get_save [OF stored(5)] none [OF that] n itoa_inject
      by (auto simp: entry_get_read)
  qed (use none [OF that] that in \<open>auto simp: entry_get_read\<close>)
  from w show "r = None \<Longrightarrow> entry_get e' (SN s) \<noteq> None"
  proof (cases rule: put_cases)
    case same
    then show "r = None \<Longrightarrow> entry_get e' (SN s) \<noteq> None" using there [OF n(1)] by simp
  next
    case (stored d vs as)
    then show ?thesis using entry_get_save [OF stored(5)] by (simp add: entry_get_read)
  qed simp
qed

interpretation cs: segment_store entry_ok entry_get "\<lambda>s e. fst (put_segment fl M now s e)" for fl M now
proof unfold_locales
  fix e :: entry and s t :: Segment and n :: int
  obtain e' r where w: "put_segment fl M now s e = (e', r)" by fastforce
  show "entry_ok (fst (put_segment fl M now s e))" if "entry_ok e" "in_int64 (SN s)"
    using that put_inv [OF _ that(2) w] w by (auto simp: entry_ok_def)
  show "SN t = n" if "entry_ok e" "in_int64 n" "entry_get e n = Some t"
    using that inv_get [of _ e n] by (fastforce simp: entry_ok_def entry_get_read split: option.splits)
  show "entry_get (fst (put_segment fl M now s e)) n = Some t"
    if "entry_ok e" "in_int64 (SN s)" "in_int64 n" "entry_get e n = Some t"
    using that put_get(1) [OF _ that(2,3) w] w by (auto simp: entry_ok_def)
  show "entry_get e n = Some t \<or> t = s"
    if "entry_ok e" "in_int64 (SN s)" "in_int64 n" "entry_get (fst (put_segment fl M now s e)) n = Some t"
  proof -
    from that(1) obtain log where inv: "entry_inv log e" by (auto simp: entry_ok_def)
    show ?thesis using put_get(1,2) [OF inv that(2,3) w] that(4) w by (cases "entry_get e n") (auto split: if_splits)
  qed
qed

section \<open>A life of an entry\<close>

datatype op = OpOpen faults time bool | OpSetInit faults time string string "int \<times> int" StreamInfo
  | OpPut faults int time Segment | OpGet time int | OpSetLast bool int

text \<open>\<open>OpOpen\<close> with an index not loaded is a worker that restarts; a crash inside a call is that call with a fault.\<close>

fun entry_op :: "op \<Rightarrow> entry \<times> put_log \<Rightarrow> entry \<times> put_log" where
  "entry_op (OpOpen fl now is_loaded) (e, log) = (fst (open_entry fl now is_loaded e), log)"
| "entry_op (OpSetInit fl now v a ts info) (e, log) = (fst (SetInit fl now v a ts info e), log)"
| "entry_op (OpPut fl M now s) (e, log) = (fst (put_segment fl M now s e), put_logged s e log)"
| "entry_op (OpGet now n) (e, log) = (fst (get_segment now n e), log)"
| "entry_op (OpSetLast f n) (e, log) = (fst (SetLast f n e), log)"

fun op_ok :: "op \<Rightarrow> bool" where
  "op_ok (OpOpen fl _ _) = reset_whole (remove_fails fl)"
| "op_ok (OpSetInit fl _ _ _ _ _) = reset_whole (remove_fails fl)"
| "op_ok (OpPut _ _ _ s) = in_int64 (SN s)"
| "op_ok _ = True"

lemma open_entry_inv:
  assumes inv: "entry_inv log e" and "reset_whole (remove_fails fl)"
  shows "entry_inv log (fst (open_entry fl now is_loaded e))"
proof -
  obtain f r where f: "(if is_loaded then (e, None) else load (remove_fails fl) now (disk e)) = (f, r)" by fastforce
  have "entry_inv log f" using f inv load_inv [OF inv assms(2)] by (auto split: if_splits)
  moreover from this have "entry_inv log (f\<lparr>idx := (idx f)\<lparr>Used := now\<rparr>\<rparr>)" by (simp add: entry_inv_def)
  then have "entry_inv log (fst (save (save_fails fl) (f\<lparr>idx := (idx f)\<lparr>Used := now\<rparr>\<rparr>)))"
    using save_inv surjective_pairing by blast
  ultimately show ?thesis by (cases r) (simp_all add: open_entry_def f)
qed

lemma entry_op_inv: "entry_inv log e \<Longrightarrow> op_ok p \<Longrightarrow> entry_op p (e, log) = (e', log') \<Longrightarrow> entry_inv log' e'"
proof (cases p)
  case (OpSetInit fl now v a ts info)
  then show "entry_inv log e \<Longrightarrow> op_ok p \<Longrightarrow> entry_op p (e, log) = (e', log') \<Longrightarrow> entry_inv log' e'"
    using SetInit_inv [of log e fl now v a ts info, OF _ _ surjective_pairing] by auto
next
  case (OpPut fl M now s)
  then show "entry_inv log e \<Longrightarrow> op_ok p \<Longrightarrow> entry_op p (e, log) = (e', log') \<Longrightarrow> entry_inv log' e'"
    using put_inv [of log e s fl M now, OF _ _ surjective_pairing] by auto
next
  case (OpSetLast f n)
  then show "entry_inv log e \<Longrightarrow> op_ok p \<Longrightarrow> entry_op p (e, log) = (e', log') \<Longrightarrow> entry_inv log' e'"
    by (cases f) (auto simp: SetLast_def save_def entry_inv_def)
next
  case (OpOpen fl now is_loaded)
  then show "entry_inv log e \<Longrightarrow> op_ok p \<Longrightarrow> entry_op p (e, log) = (e', log') \<Longrightarrow> entry_inv log' e'"
    using open_entry_inv [of log e fl now is_loaded] by auto
qed (auto simp: get_segment_def entry_inv_def split: option.splits)

lemma entry_run_inv: "entry_inv log e \<Longrightarrow> list_all op_ok ps \<Longrightarrow> fold entry_op ps (e, log) = (e', log') \<Longrightarrow> entry_inv log' e'"
proof (induction ps arbitrary: e log)
  case (Cons p ps)
  obtain f l where step: "entry_op p (e, log) = (f, l)" by fastforce
  have "entry_inv l f" using entry_op_inv [OF Cons.prems(1) _ step] Cons.prems(2) by simp
  then show ?case using Cons.IH [of l f] Cons.prems step by simp
qed simp

definition fresh_entry :: "dir \<Rightarrow> entry" where
  "fresh_entry d = \<lparr>disk = d, idx = empty_index 0\<rparr>"

definition new_dir :: dir where
  "new_dir = \<lparr>video_mp4 = None, audio_mp4 = None, index_json = Missing\<rparr>"

lemma fresh_entry_inv: "index_json d \<in> {Missing, Corrupt} \<Longrightarrow> entry_inv log (fresh_entry d)"
  by (auto simp: fresh_entry_def entry_inv_def)

section \<open>Properties\<close>


definition no_faults :: faults where
  "no_faults = \<lparr>append_video = None, append_audio = None, save_fails = False, remove_fails = None\<rparr>"

definition demo_segment :: Segment where
  "demo_segment = \<lparr>SN = 7, SStart = 0, SEnd = 5 * second, SVideo = \<lparr>Data = ''vv'', FT = 0, FD = 5\<rparr>,
     SAudio = \<lparr>Data = ''a'', FT = 0, FD = 5\<rparr>, OnGrid = True\<rparr>"

definition demo_ops :: "op list" where
  "demo_ops = [OpOpen no_faults 1 False, OpSetInit no_faults 2 ''V'' ''A'' (90000, 48000) no_info,
     OpPut (no_faults\<lparr>append_audio := Some 0\<rparr>) 0 3 demo_segment, OpPut no_faults 0 4 demo_segment, OpOpen no_faults 5 False]"


text \<open>
  Whatever fails, a put changes nothing but its own number, and never a segment already there; a put that reports no
  error leaves its number answered, by that very segment if it was not there before.
\<close>

theorem cache_put_get:
  assumes "entry_inv log e" and "in_int64 (SN s)" and "in_int64 n" and "put_segment fl M now s e = (e', r)"
  shows "(n \<noteq> SN s \<longrightarrow> entry_get e' n = entry_get e n) \<and> (entry_get e n \<noteq> None \<longrightarrow> entry_get e' n = entry_get e n)
    \<and> (r = None \<longrightarrow> entry_get e' (SN s) = (case entry_get e (SN s) of None \<Rightarrow> Some s | Some t \<Rightarrow> Some t))"
proof (intro conjI impI)
  note p = put_get [OF assms] put_get [OF assms(1,2,2,4)]
  show "entry_get e' n = entry_get e n" if "n \<noteq> SN s" using p(1,2) that by (cases "entry_get e n") auto
  show "entry_get e' n = entry_get e n" if "entry_get e n \<noteq> None" using p(1) that by auto
  show "entry_get e' (SN s) = (case entry_get e (SN s) of None \<Rightarrow> Some s | Some t \<Rightarrow> Some t)" if "r = None"
    using p(3,4,5) that by (auto split: option.splits)
qed

theorem cache_put_get_witness:
  "entry_get (fst (put_segment no_faults 0 4 demo_segment
     (\<lparr>disk = \<lparr>video_mp4 = Some ''V'', audio_mp4 = Some ''A'', index_json = Missing\<rparr>,
       idx = (empty_index 0)\<lparr>VideoInit := \<lparr>Off = 0, Len = 1\<rparr>, AudioInit := \<lparr>Off = 0, Len = 1\<rparr>, HasInit := True\<rparr>\<rparr>))) 7 = Some demo_segment"
  (is "entry_get (fst (put_segment no_faults 0 4 demo_segment ?e)) 7 = _")
proof -
  have inv: "entry_inv [] ?e"
    by (simp add: entry_inv_def index_inv_def inits_read_def segments_read_def readAt_def empty_index_def)
  have n: "in_int64 (SN demo_segment)" and seven: "SN demo_segment = 7" by (simp_all add: demo_segment_def in_int64_def)
  have r: "snd (put_segment no_faults 0 4 demo_segment ?e) = None"
    by (simp add: put_segment_def append_both_def appendTo_def save_def no_faults_def empty_index_def)
  have none: "entry_get ?e 7 = None" by (simp add: entry_get_read empty_index_def)
  from cache_put_get [OF inv n n surjective_pairing, of no_faults 0 4] r none show ?thesis by (simp add: seven)
qed

text \<open>Eviction. What is kept is a subsequence; what is dropped is a closed entry before every kept closed one.\<close>

definition sorts_by_use :: "(cached list \<Rightarrow> cached list) \<Rightarrow> bool" where
  "sorts_by_use f \<longleftrightarrow> (\<forall>cs. mset (f cs) = mset cs \<and> sorted (map cused (f cs)))"

lemma evict_loop_spec:
  assumes "evict_loop in_use rm_fails M held_bytes cs = (kept, failed)" and "sorted (map cused cs)"
    and "\<And>c. c \<in> set cs \<Longrightarrow> 0 \<le> csize c"
  shows "\<exists>dropped. mset cs = mset dropped + mset kept \<and> sorted (map cused kept)
    \<and> (\<forall>c\<in>set dropped. \<not> in_use (cname c) \<and> (\<forall>k\<in>set kept. \<not> in_use (cname k) \<longrightarrow> cused c \<le> cused k))
    \<and> (\<not> failed \<longrightarrow> held_bytes - sum_list (map csize dropped) \<le> M \<or> (\<forall>k\<in>set kept. in_use (cname k)))
    \<and> (dropped \<noteq> [] \<longrightarrow> held_bytes - sum_list (map csize dropped) + csize (last dropped) > M)"
  using assms
proof (induction cs arbitrary: held_bytes kept)
  case Nil
  then show ?case by auto
next
  case (Cons c cs)
  consider (fits) "held_bytes \<le> M" | (in_use) "held_bytes > M" "in_use (cname c)"
    | (fails) "held_bytes > M" "\<not> in_use (cname c)" "rm_fails (cname c)"
    | (drop) "held_bytes > M" "\<not> in_use (cname c)" "\<not> rm_fails (cname c)" by linarith
  then show ?case
  proof cases
    case in_use
    then obtain kept' where k: "evict_loop in_use rm_fails M held_bytes cs = (kept', failed)" "kept = c # kept'"
      using Cons.prems(1) by (auto split: prod.splits)
    obtain dropped where d: "mset cs = mset dropped + mset kept'" "sorted (map cused kept')"
      "\<forall>c\<in>set dropped. \<not> in_use (cname c) \<and> (\<forall>k\<in>set kept'. \<not> in_use (cname k) \<longrightarrow> cused c \<le> cused k)"
      "\<not> failed \<longrightarrow> held_bytes - sum_list (map csize dropped) \<le> M \<or> (\<forall>k\<in>set kept'. in_use (cname k))"
      "dropped \<noteq> [] \<longrightarrow> held_bytes - sum_list (map csize dropped) + csize (last dropped) > M"
      using Cons.IH [OF k(1)] Cons.prems(2,3) by auto
    have "set kept' \<subseteq> set cs" using d(1) by (metis mset_subset_eq_add_right set_mset_mono set_mset_mset)
    then have "sorted (map cused kept)" using d(2) k(2) Cons.prems(2) by auto
    then show ?thesis using d in_use k(2) by (intro exI [of _ dropped]) auto
  next
    case drop
    then have k: "evict_loop in_use rm_fails M (held_bytes - csize c) cs = (kept, failed)" using Cons.prems(1) by auto
    obtain dropped where d: "mset cs = mset dropped + mset kept" "sorted (map cused kept)"
      "\<forall>c\<in>set dropped. \<not> in_use (cname c) \<and> (\<forall>k\<in>set kept. \<not> in_use (cname k) \<longrightarrow> cused c \<le> cused k)"
      "\<not> failed \<longrightarrow> held_bytes - csize c - sum_list (map csize dropped) \<le> M \<or> (\<forall>k\<in>set kept. in_use (cname k))"
      "dropped \<noteq> [] \<longrightarrow> held_bytes - csize c - sum_list (map csize dropped) + csize (last dropped) > M"
      using Cons.IH [OF k] Cons.prems(2,3) by auto
    have "set kept \<subseteq> set cs" using d(1) by (metis mset_subset_eq_add_right set_mset_mono set_mset_mset)
    then have "\<forall>k\<in>set kept. cused c \<le> cused k" using Cons.prems(2) by auto
    then show ?thesis using d drop by (intro exI [of _ "c # dropped"]) (auto simp: algebra_simps)
  qed (use Cons.prems in \<open>auto intro: exI [of _ "[]"]\<close>)
qed

text \<open>
  C40. Eviction never removes an entry a job holds; it removes in order of use, none more recently used than a closed entry
  it keeps, and none it need not; and unless a removal failed, what is left fits the limit or every entry left is held.
\<close>

theorem evict_keeps_open_and_recent:
  assumes "sorts_by_use by_used" and "0 < M" and "\<And>c. c \<in> set dirs \<Longrightarrow> 0 \<le> csize c"
    and "Evict by_used in_use rm_fails M dirs = (kept, failed)"
  shows "\<exists>dropped. mset dirs = mset dropped + mset kept
    \<and> (\<forall>c\<in>set dropped. \<not> in_use (cname c) \<and> (\<forall>k\<in>set kept. \<not> in_use (cname k) \<longrightarrow> cused c \<le> cused k))
    \<and> (failed \<or> sum_list (map csize kept) \<le> M \<or> list_all (\<lambda>k. in_use (cname k)) kept)
    \<and> (dropped \<noteq> [] \<longrightarrow> sum_list (map csize kept) + csize (last dropped) > M)"
proof -
  let ?t = "sum_list (map csize dirs)"
  have run: "evict_loop in_use rm_fails M ?t (by_used dirs) = (kept, failed)"
    using assms(2,4) by (simp add: Evict_def)
  have perm: "mset (by_used dirs) = mset dirs" and srt: "sorted (map cused (by_used dirs))"
    using assms(1) by (simp_all add: sorts_by_use_def)
  have "\<And>c. c \<in> set (by_used dirs) \<Longrightarrow> 0 \<le> csize c" using perm assms(3) by (metis mset_eq_setD)
  from evict_loop_spec [OF run srt this] obtain dropped where d: "mset dirs = mset dropped + mset kept"
    "\<forall>c\<in>set dropped. \<not> in_use (cname c) \<and> (\<forall>k\<in>set kept. \<not> in_use (cname k) \<longrightarrow> cused c \<le> cused k)"
    "\<not> failed \<longrightarrow> ?t - sum_list (map csize dropped) \<le> M \<or> (\<forall>k\<in>set kept. in_use (cname k))"
    "dropped \<noteq> [] \<longrightarrow> ?t - sum_list (map csize dropped) + csize (last dropped) > M"
    unfolding perm by auto
  have "sum_mset (image_mset csize (mset dirs)) = sum_mset (image_mset csize (mset dropped)) + sum_mset (image_mset csize (mset kept))"
    unfolding d(1) by simp
  then have "?t = sum_list (map csize dropped) + sum_list (map csize kept)"
    by (simp add: sum_mset_sum_list [symmetric])
  then show ?thesis using d by (intro exI [of _ dropped]) (auto simp: list_all_iff)
qed

theorem evict_keeps_open_and_recent_witness:
  "\<exists>dropped. mset [\<lparr>cname = ''a'', csize = 6, cused = 1\<rparr>, \<lparr>cname = ''b'', csize = 5, cused = 2\<rparr>]
     = mset dropped + mset [\<lparr>cname = ''a'', csize = 6, cused = 1\<rparr>]
    \<and> (\<forall>c\<in>set dropped. cname c \<noteq> ''a'')"
proof -
  have "sorts_by_use (sort_key cused)" by (simp add: sorts_by_use_def)
  moreover have "Evict (sort_key cused) (\<lambda>n. n = ''a'') (\<lambda>_. False) 10 [\<lparr>cname = ''a'', csize = 6, cused = 1\<rparr>, \<lparr>cname = ''b'', csize = 5, cused = 2\<rparr>]
      = ([\<lparr>cname = ''a'', csize = 6, cused = 1\<rparr>], False)" by (simp add: Evict_def)
  ultimately have "\<exists>dropped. mset [\<lparr>cname = ''a'', csize = 6, cused = 1\<rparr>, \<lparr>cname = ''b'', csize = 5, cused = 2\<rparr>]
      = mset dropped + mset [\<lparr>cname = ''a'', csize = 6, cused = 1\<rparr>]
    \<and> (\<forall>c\<in>set dropped. \<not> cname c = ''a'' \<and> (\<forall>k\<in>set [\<lparr>cname = ''a'', csize = 6, cused = 1\<rparr>]. \<not> cname k = ''a'' \<longrightarrow> cused c \<le> cused k))
    \<and> (False \<or> sum_list (map csize [\<lparr>cname = ''a'', csize = 6, cused = 1\<rparr>]) \<le> 10 \<or> list_all (\<lambda>k. cname k = ''a'') [\<lparr>cname = ''a'', csize = 6, cused = 1\<rparr>])
    \<and> (dropped \<noteq> [] \<longrightarrow> sum_list (map csize [\<lparr>cname = ''a'', csize = 6, cused = 1\<rparr>]) + csize (last dropped) > 10)"
    by (intro evict_keeps_open_and_recent) auto
  then show ?thesis by blast
qed

end
