(* ===== verification/Remux_Manifest.thy ===== *)
theory Remux_Manifest
  imports Remux_Job
begin

text \<open>
  The DASH manifest of \<open>src/pkg/remux/mpd.go\<close>: the times, and the segment timeline, which writes a start only where a
  segment does not follow on and counts the following segments of the same duration. \<open>timeline_rows\<close> is the loop of
  \<open>template\<close>; \<open>read_rows\<close> is how a player reads the rows back. The rest of \<open>Render\<close> is fixed text around them.
\<close>

section \<open>The model\<close>

record TimelineEntry =
  T :: int
  D :: int

record Representation =
  Timescale :: int
  Timeline :: "TimelineEntry list"

text \<open>\<open>write_time\<close>: hours and minutes when there are any, then seconds to the tenth.\<close>

definition seconds :: "duration \<Rightarrow> string" where
  "seconds d =
     (let s = go_div d second;
          tenths = go_div (go_mod d second) (100 * millisecond);
          h = go_div s 3600;
          m = go_mod (go_div s 60) 60
      in ''PT'' @ (if h > 0 then itoa h @ ''H'' else []) @ (if h > 0 \<or> m > 0 then itoa m @ ''M'' else [])
         @ itoa (go_mod s 60) @ ''.'' @ itoa tenths @ ''S'')"

definition last_duration :: "Representation \<Rightarrow> duration" where
  "last_duration r =
     (if Timeline r \<noteq> [] \<and> Timescale r > 0
      then go_div (wrap64 (D (last (Timeline r)) * second)) (Timescale r) else 0)"

definition longest :: "Representation \<Rightarrow> duration" where
  "longest r =
     (let d = fold (\<lambda>e d. max d (D e)) (Timeline r) 0 in
      if Timescale r = 0 then 0 else go_div (wrap64 (d * second)) (Timescale r))"

fun repeats :: "TimelineEntry \<Rightarrow> TimelineEntry \<Rightarrow> TimelineEntry list \<Rightarrow> nat" where
  "repeats e prev [] = 0"
| "repeats e prev (f # fs) = (if D f \<noteq> D e \<or> T f \<noteq> wrap64 (T prev + D prev) then 0 else Suc (repeats e f fs))"

text \<open>A row is the start if written, the duration and the repeat count.\<close>

type_synonym row = "int option \<times> int \<times> nat"

lemma repeats_le: "repeats e prev fs \<le> length fs"
  by (induction fs arbitrary: prev) auto

function timeline_rows :: "int \<Rightarrow> TimelineEntry list \<Rightarrow> row list" where
  "timeline_rows next [] = []"
| "timeline_rows next (e # es) =
     (let r = repeats e e es in
      ((if T e \<noteq> next then Some (T e) else None), D e, r)
        # timeline_rows (wrap64 (T e + wrap64 ((int r + 1) * D e))) (drop r es))"
  by pat_completeness auto

termination
  by (relation "measure (\<lambda>(_, es). length es)") auto

definition attr :: "string \<Rightarrow> string \<Rightarrow> string" where
  "attr n v = n @ [CHR ''='', CHR 0x22] @ v @ [CHR 0x22, CHR '' '']"

definition row_text :: "row \<Rightarrow> string" where
  "row_text row = (case row of (t, d, r) \<Rightarrow>
     replicate 6 (CHR 0x09) @ ''<S '' @ (case t of None \<Rightarrow> [] | Some t' \<Rightarrow> attr ''t'' (itoa t')) @ attr ''d'' (itoa d)
       @ (if r > 0 then attr ''r'' (nat_digits r) else []) @ ''/>'' @ [CHR 0x0A])"

definition timeline_text :: "TimelineEntry list \<Rightarrow> string" where
  "timeline_text es = concat (map row_text (timeline_rows (-1) es))"

section \<open>Reading the rows back\<close>

fun expand :: "int \<Rightarrow> int \<Rightarrow> nat \<Rightarrow> TimelineEntry list" where
  "expand t d 0 = [\<lparr>T = t, D = d\<rparr>]"
| "expand t d (Suc r) = \<lparr>T = t, D = d\<rparr> # expand (t + d) d r"

fun read_rows :: "int \<Rightarrow> row list \<Rightarrow> TimelineEntry list" where
  "read_rows now [] = []"
| "read_rows now ((t, d, r) # rows) =
     (let t0 = (case t of Some x \<Rightarrow> x | None \<Rightarrow> now) in expand t0 d r @ read_rows (t0 + (int r + 1) * d) rows)"

definition media_times :: "TimelineEntry list \<Rightarrow> bool" where
  "media_times es \<longleftrightarrow> list_all (\<lambda>e. 0 \<le> T e \<and> 0 \<le> D e \<and> T e + D e < 2 ^ 63) es"

lemma media_wrap: "0 \<le> T e \<Longrightarrow> 0 \<le> D e \<Longrightarrow> T e + D e < 2 ^ 63 \<Longrightarrow> wrap64 (T e + D e) = T e + D e"
  by (rule wrap64_id) (simp add: in_int64_def)

text \<open>The repeated entries are an arithmetic progression, and the run ends where its last segment ends.\<close>

lemma repeats_run:
  "media_times (p # fs) \<Longrightarrow> D p = D e \<Longrightarrow>
   p # take (repeats e p fs) fs = expand (T p) (D e) (repeats e p fs)
   \<and> T p + (int (repeats e p fs) + 1) * D e < 2 ^ 63"
proof (induction fs arbitrary: p)
  case Nil
  then show ?case by (cases p) (simp add: media_times_def)
next
  case (Cons f fs)
  show ?case
  proof (cases "D f \<noteq> D e \<or> T f \<noteq> wrap64 (T p + D p)")
    case True
    then show ?thesis using Cons.prems by (cases p) (auto simp: media_times_def)
  next
    case False
    then have f: "T f = T p + D e" "D f = D e" using Cons.prems media_wrap [of p] by (auto simp: media_times_def)
    have "media_times (f # fs)" using Cons.prems by (simp add: media_times_def)
    note ih = Cons.IH [OF this f(2)]
    let ?r = "repeats e f fs"
    have r: "repeats e p (f # fs) = Suc ?r" using False by simp
    have "\<lparr>T = T p, D = D e\<rparr> = p" using Cons.prems(2) by (cases p) simp
    then have "p # take (Suc ?r) (f # fs) = expand (T p) (D e) (Suc ?r)" using ih f(1) by simp
    moreover have "T p + (int (Suc ?r) + 1) * D e = T f + (int ?r + 1) * D e" by (simp add: f(1) algebra_simps)
    ultimately show ?thesis using ih unfolding r by simp
  qed
qed

lemma read_timeline_rows:
  "media_times es \<Longrightarrow> now = nxt \<or> (\<forall>e\<in>set (take 1 es). T e \<noteq> nxt) \<Longrightarrow> read_rows now (timeline_rows nxt es) = es"
proof (induction nxt es arbitrary: now rule: timeline_rows.induct)
  case (2 nxt e es)
  let ?r = "repeats e e es"
  let ?n = "T e + (int ?r + 1) * D e"
  have run: "e # take ?r es = expand (T e) (D e) ?r" and bound: "?n < 2 ^ 63"
    using repeats_run [of e es e] 2(2) by auto
  have nn: "0 \<le> T e" "0 \<le> D e" using 2(2) by (simp_all add: media_times_def)
  then have "0 \<le> (int ?r + 1) * D e" by simp
  then have "in_int64 ((int ?r + 1) * D e)" "in_int64 ?n" using bound nn unfolding in_int64_def by linarith+
  then have wrap: "wrap64 (T e + wrap64 ((int ?r + 1) * D e)) = ?n" by (simp only: wrap64_id)
  have rest: "media_times (drop ?r es)" using 2(2) by (auto simp: media_times_def list_all_iff dest: in_set_dropD)
  have start: "(case if T e \<noteq> nxt then Some (T e) else None of Some x \<Rightarrow> x | None \<Rightarrow> now) = T e"
    using 2(3) by auto
  have "read_rows now (timeline_rows nxt (e # es)) = expand (T e) (D e) ?r @ read_rows ?n (timeline_rows ?n (drop ?r es))"
    using start by (simp only: timeline_rows.simps Let_def read_rows.simps wrap)
  also have "\<dots> = expand (T e) (D e) ?r @ drop ?r es" using 2(1) [OF refl rest, of ?n] wrap by simp
  also have "\<dots> = e # es" by (simp add: run [symmetric])
  finally show ?case .
qed simp

section \<open>Properties\<close>

text \<open>
  A player that reads the timeline's rows gets back exactly the segments that were cut, each with its start and its
  duration, whatever gaps and runs of equal durations they have: the compressed rows lose nothing.
\<close>

theorem timeline_roundtrip:
  "media_times es \<Longrightarrow> read_rows 0 (timeline_rows (-1) es) = es"
  by (rule read_timeline_rows) (auto simp: media_times_def list_all_iff dest!: in_set_takeD)

theorem timeline_roundtrip_witness:
  "read_rows 0 (timeline_rows (-1) [\<lparr>T = 0, D = 5\<rparr>, \<lparr>T = 5, D = 5\<rparr>, \<lparr>T = 12, D = 5\<rparr>, \<lparr>T = 17, D = 3\<rparr>])
    = [\<lparr>T = 0, D = 5\<rparr>, \<lparr>T = 5, D = 5\<rparr>, \<lparr>T = 12, D = 5\<rparr>, \<lparr>T = 17, D = 3\<rparr>]"
  by (rule timeline_roundtrip) (simp add: media_times_def)

end
