(* ===== verification/Remux_Worker.thy ===== *)
theory Remux_Worker
  imports Remux_Cache Remux_Manifest
begin

text \<open>
  A remux worker's job, \<open>src/pkg/remux/worker/server.go\<close>: what is served from the cache and where the pipeline takes
  over, and the session that sends files and manifests to the client. Reading the cache is a function of the segment's
  number; a send may fail, as the parameter \<open>ok\<close> says of the events sent so far and the next one.
\<close>

section \<open>Serving from the cache\<close>

type_synonym reader = "int \<Rightarrow> cache_error + Segment option"

text \<open>The loop over the cached chain: it may not end for an arbitrary reader.\<close>

partial_function (option) chain :: "reader \<Rightarrow> int \<Rightarrow> Segment \<Rightarrow> (Segment list \<times> cache_error option) option" where
  "chain get n seg = (case get (n + 1) of
      Inl e \<Rightarrow> Some ([seg], Some e)
    | Inr None \<Rightarrow> Some ([seg], None)
    | Inr (Some nxt) \<Rightarrow>
        if SStart nxt = SEnd seg then Option.bind (chain get (n + 1) nxt) (\<lambda>r. Some (seg # fst r, snd r))
        else Some ([seg], None))"

datatype outcome = CacheFailed cache_error | FinishNow | RunFrom int duration

definition serve_cached :: "bool \<Rightarrow> reader \<Rightarrow> int \<Rightarrow> int \<Rightarrow> (Segment list \<times> outcome) option" where
  "serve_cached has_init get last_number n =
     (if \<not> has_init then Some ([], RunFrom n (-1))
      else case get n of
        Inl e \<Rightarrow> Some ([], CacheFailed e)
      | Inr None \<Rightarrow> Some ([], RunFrom n (-1))
      | Inr (Some seg) \<Rightarrow>
          if \<not> OnGrid seg then Some ([], RunFrom n (-1))
          else Option.bind (chain get n seg) (\<lambda>r. Some (fst r,
            case snd r of
              Some e \<Rightarrow> CacheFailed e
            | None \<Rightarrow>
                let m = n + int (length (fst r)) in
                if last_number > 0 \<and> m > last_number then FinishNow else RunFrom m (SEnd (last (fst r))))))"

section \<open>The session\<close>

record manifest =
  Final :: bool
  MDuration :: duration
  MStartNumber :: int
  VTimeline :: "TimelineEntry list"
  ATimeline :: "TimelineEntry list"

datatype event = EFile string string | EManifest manifest

record session =
  uncached :: bool
  sentInit :: bool
  scales :: "int \<times> int"
  sess_manifest :: manifest
  sess_end :: duration
  events :: "event list"

datatype sess_error = SendFailed | TimescalesDiffer

type_synonym sender = "event list \<Rightarrow> event \<Rightarrow> bool"

definition new_session :: "int \<Rightarrow> session" where
  "new_session n = \<lparr>uncached = False, sentInit = False, scales = (0, 0),
     sess_manifest = \<lparr>Final = False, MDuration = 0, MStartNumber = n, VTimeline = [], ATimeline = []\<rparr>, sess_end = 0, events = []\<rparr>"

definition send :: "sender \<Rightarrow> event \<Rightarrow> session \<Rightarrow> session \<times> sess_error option" where
  "send ok ev s = (if ok (events s) ev then (s\<lparr>events := events s @ [ev]\<rparr>, None) else (s, Some SendFailed))"

definition and_then :: "session \<times> sess_error option \<Rightarrow> (session \<Rightarrow> session \<times> sess_error option) \<Rightarrow> session \<times> sess_error option" where
  "and_then r f = (case r of (s, None) \<Rightarrow> f s | (s, Some e) \<Rightarrow> (s, Some e))"

definition sendInit :: "sender \<Rightarrow> string \<Rightarrow> string \<Rightarrow> int \<times> int \<Rightarrow> session \<Rightarrow> session \<times> sess_error option" where
  "sendInit ok v a ts s =
     (if sentInit s then (s, None)
      else and_then (send ok (EFile (InitFile 0) v) (s\<lparr>sentInit := True, scales := ts\<rparr>)) (send ok (EFile (InitFile 1) a)))"

text \<open>The sink's \<open>Init\<close>; \<open>cached\<close> is whether the cache took the inits.\<close>

definition sink_init :: "sender \<Rightarrow> bool \<Rightarrow> string \<Rightarrow> string \<Rightarrow> int \<times> int \<Rightarrow> StreamInfo \<Rightarrow> session \<Rightarrow> session \<times> sess_error option" where
  "sink_init ok cached v a ts info s =
     (let s' = (if cached then s else s\<lparr>uncached := True\<rparr>) in
      if sentInit s' \<and> ts \<noteq> scales s' then (s', Some TimescalesDiffer)
      else sendInit ok v a ts (s'\<lparr>sess_manifest := (sess_manifest s')\<lparr>MDuration := IDuration info\<rparr>\<rparr>))"

text \<open>The sink's \<open>Segment\<close>; \<open>put_fails\<close> is whether the cache refused it, asked only while the session is cached.\<close>

definition list_segment :: "Segment \<Rightarrow> session \<Rightarrow> session" where
  "list_segment seg s = s\<lparr>sess_manifest := (sess_manifest s)\<lparr>
       VTimeline := VTimeline (sess_manifest s) @ [\<lparr>T = FT (SVideo seg), D = FD (SVideo seg)\<rparr>],
       ATimeline := ATimeline (sess_manifest s) @ [\<lparr>T = FT (SAudio seg), D = FD (SAudio seg)\<rparr>]\<rparr>, sess_end := SEnd seg\<rparr>"

definition sink_segment :: "sender \<Rightarrow> bool \<Rightarrow> Segment \<Rightarrow> session \<Rightarrow> session \<times> sess_error option" where
  "sink_segment ok put_fails seg s =
     and_then (send ok (EFile (ChunkFile 0 (nat (SN seg))) (Data (SVideo seg)))
         (if \<not> uncached s \<and> put_fails then s\<lparr>uncached := True\<rparr> else s)) (\<lambda>s.
     and_then (send ok (EFile (ChunkFile 1 (nat (SN seg))) (Data (SAudio seg))) s) (\<lambda>s.
     let s' = list_segment seg s in send ok (EManifest (sess_manifest s')) s'))"

definition finish :: "sender \<Rightarrow> session \<Rightarrow> session \<times> sess_error option" where
  "finish ok s =
     (let m = (sess_manifest s)\<lparr>Final := True\<rparr>;
          m' = (if MDuration m = 0 then m\<lparr>MDuration := sess_end s\<rparr> else m)
      in send ok (EManifest m') (s\<lparr>sess_manifest := m'\<rparr>))"

fun sink_segments :: "sender \<Rightarrow> (bool \<times> Segment) list \<Rightarrow> session \<Rightarrow> session \<times> sess_error option" where
  "sink_segments ok [] s = (s, None)"
| "sink_segments ok (x # xs) s = and_then (sink_segment ok (fst x) (snd x) s) (sink_segments ok xs)"

section \<open>The chain\<close>

definition numbered :: "int \<Rightarrow> Segment list \<Rightarrow> bool" where
  "numbered n ss \<longleftrightarrow> map SN ss = map (\<lambda>k. n + int k) [0..<length ss]"

fun continuous :: "Segment list \<Rightarrow> bool" where
  "continuous (a # b # ss) \<longleftrightarrow> SStart b = SEnd a \<and> continuous (b # ss)"
| "continuous _ \<longleftrightarrow> True"

lemma chain_returns:
  "get (n + int k + 1) = Inr None \<Longrightarrow> \<exists>r. chain get n seg = Some r"
proof (induction k arbitrary: n seg)
  case 0
  then show ?case by (subst chain.simps) simp
next
  case (Suc k)
  have next_returns: "\<exists>r. chain get (n + 1) nxt = Some r" for nxt
    using Suc.IH [of "n + 1" nxt] Suc.prems by (simp add: algebra_simps)
  show ?case
  proof (cases "\<exists>nxt. get (n + 1) = Inr (Some nxt) \<and> SStart nxt = SEnd seg")
    case True
    then obtain nxt r where "get (n + 1) = Inr (Some nxt)" "SStart nxt = SEnd seg" "chain get (n + 1) nxt = Some r"
      using next_returns by blast
    then show ?thesis by (subst chain.simps) simp
  next
    case False
    then show ?thesis by (subst chain.simps) (auto split: sum.splits option.splits)
  qed
qed

lemma chain_cases:
  assumes "chain get n seg = Some (ss, r)"
  shows "ss = [seg] \<or> (\<exists>nxt ss'. ss = seg # ss' \<and> get (n + 1) = Inr (Some nxt) \<and> SStart nxt = SEnd seg
    \<and> chain get (n + 1) nxt = Some (ss', r))"
  using assms by (subst (asm) chain.simps) (auto simp: bind_eq_Some_conv split: sum.splits option.splits if_splits)

lemma numbered_Cons: "numbered n (s # ss) \<longleftrightarrow> SN s = n \<and> numbered (n + 1) ss"
  by (auto simp: numbered_def map_upt_Suc algebra_simps simp del: upt_Suc)

lemma chain_spec:
  assumes num: "\<And>m s. get m = Inr (Some s) \<Longrightarrow> SN s = m"
  shows "chain get n seg = Some (ss, r) \<Longrightarrow> SN seg = n \<Longrightarrow>
    ss \<noteq> [] \<and> hd ss = seg \<and> numbered n ss \<and> continuous ss \<and> (\<forall>s\<in>set (tl ss). get (SN s) = Inr (Some s))"
proof (induction ss arbitrary: n seg)
  case Nil
  then show ?case using chain_cases [OF Nil(1)] by simp
next
  case (Cons s ss)
  from chain_cases [OF Cons.prems(1)] show ?case
  proof (elim disjE exE conjE)
    assume "s # ss = [seg]"
    then show ?thesis using Cons.prems(2) by (simp add: numbered_Cons) (simp add: numbered_def)
  next
    fix nxt ss' assume e: "s # ss = seg # ss'" "get (n + 1) = Inr (Some nxt)" "SStart nxt = SEnd seg" "chain get (n + 1) nxt = Some (ss', r)"
    have "SN nxt = n + 1" using num e(2) by blast
    with Cons.IH [of "n + 1" nxt] e have ih: "ss \<noteq> []" "hd ss = nxt" "numbered (n + 1) ss" "continuous ss"
      "\<forall>s\<in>set (tl ss). get (SN s) = Inr (Some s)" by auto
    then obtain ts where ts: "ss = nxt # ts" by (cases ss) auto
    then show ?thesis using ih e Cons.prems(2) \<open>SN nxt = n + 1\<close> by (auto simp: numbered_Cons)
  qed
qed

section \<open>Sends\<close>

definition sent_file :: "string \<Rightarrow> event list \<Rightarrow> bool" where
  "sent_file name evs \<longleftrightarrow> (\<exists>b. EFile name b \<in> set evs)"

definition files_before :: "event list \<Rightarrow> manifest \<Rightarrow> bool" where
  "files_before evs m \<longleftrightarrow> sent_file (InitFile 0) evs \<and> sent_file (InitFile 1) evs
     \<and> (\<forall>k < length (VTimeline m). sent_file (ChunkFile 0 (nat (MStartNumber m + int k))) evs)
     \<and> (\<forall>k < length (ATimeline m). sent_file (ChunkFile 1 (nat (MStartNumber m + int k))) evs)"

text \<open>Every manifest among the events comes after the files it lists.\<close>

definition manifests_ok :: "event list \<Rightarrow> bool" where
  "manifests_ok evs \<longleftrightarrow> (\<forall>i m. i < length evs \<longrightarrow> evs ! i = EManifest m \<longrightarrow> files_before (take i evs) m)"

lemma manifests_ok_file: "manifests_ok evs \<Longrightarrow> manifests_ok (evs @ [EFile n b])"
  by (auto simp: manifests_ok_def nth_append less_Suc_eq)

lemma manifests_ok_manifest: "manifests_ok evs \<Longrightarrow> files_before evs m \<Longrightarrow> manifests_ok (evs @ [EManifest m])"
  by (auto simp: manifests_ok_def nth_append less_Suc_eq)

lemma sent_file_append: "sent_file n (evs @ evs') \<longleftrightarrow> sent_file n evs \<or> sent_file n evs'"
  by (auto simp: sent_file_def)

lemma sent_file_Cons [simp]:
  "sent_file n (EFile n' b # evs) \<longleftrightarrow> n = n' \<or> sent_file n evs" "\<not> sent_file n []"
  by (auto simp: sent_file_def)

lemma files_before_append: "files_before evs m \<Longrightarrow> files_before (evs @ evs') m"
  by (auto simp: files_before_def sent_file_append)

definition session_inv :: "int \<Rightarrow> nat \<Rightarrow> session \<Rightarrow> bool" where
  "session_inv n k s \<longleftrightarrow> manifests_ok (events s) \<and> files_before (events s) (sess_manifest s)
     \<and> MStartNumber (sess_manifest s) = n \<and> length (VTimeline (sess_manifest s)) = k \<and> length (ATimeline (sess_manifest s)) = k"

lemma sink_segment_inv:
  assumes inv: "session_inv n k s" and num: "SN seg = n + int k" and run: "sink_segment ok pf seg s = (s', r)"
  shows "manifests_ok (events s') \<and> (r = None \<longrightarrow> session_inv n (Suc k) s')"
proof -
  let ?v = "EFile (ChunkFile 0 (nat (SN seg))) (Data (SVideo seg))"
  let ?a = "EFile (ChunkFile 1 (nat (SN seg))) (Data (SAudio seg))"
  let ?s = "if \<not> uncached s \<and> pf then s\<lparr>uncached := True\<rparr> else s"
  let ?m = "sess_manifest (list_segment seg ?s)"
  have ev: "events ?s = events s" "sess_manifest ?s = sess_manifest s" by simp_all
  have ok: "manifests_ok (events s)" using inv by (simp add: session_inv_def)
  have files: "files_before (events s @ [?v] @ [?a]) ?m"
    using inv num by (auto simp: files_before_def session_inv_def list_segment_def sent_file_append less_Suc_eq)
  have "manifests_ok (events s @ [?v] @ [?a] @ [EManifest ?m])"
    using manifests_ok_manifest [OF manifests_ok_file [OF manifests_ok_file [OF ok]] files [simplified append_assoc [symmetric]]] by simp
  moreover have "r = None \<Longrightarrow> events s' = events s @ [?v] @ [?a] @ [EManifest ?m] \<and> sess_manifest s' = ?m"
    using run by (auto simp: sink_segment_def and_then_def send_def Let_def list_segment_def ev split: if_splits)
  moreover have "r \<noteq> None \<Longrightarrow> events s' \<in> {events s, events s @ [?v], events s @ [?v] @ [?a]}"
    using run by (auto simp: sink_segment_def and_then_def send_def Let_def list_segment_def ev split: if_splits)
  ultimately show ?thesis
    using ok manifests_ok_file [OF ok, of "ChunkFile 0 (nat (SN seg))" "Data (SVideo seg)"]
      manifests_ok_file [OF manifests_ok_file [OF ok]] files files_before_append [OF files, of "[EManifest ?m]"] inv
    by (cases r) (auto simp: session_inv_def list_segment_def)
qed

lemma sink_segments_inv:
  "session_inv n k s \<Longrightarrow> numbered (n + int k) (map snd xs) \<Longrightarrow> sink_segments ok xs s = (s', r) \<Longrightarrow>
   manifests_ok (events s') \<and> (r = None \<longrightarrow> session_inv n (k + length xs) s')"
proof (induction xs arbitrary: k s)
  case Nil
  then show ?case by (simp add: session_inv_def)
next
  case (Cons x xs)
  have num: "SN (snd x) = n + int k" "numbered (n + int (Suc k)) (map snd xs)"
    using Cons.prems(2) by (simp_all add: numbered_Cons algebra_simps)
  obtain t q where step: "sink_segment ok (fst x) (snd x) s = (t, q)" by fastforce
  note inv = sink_segment_inv [OF Cons.prems(1) num(1) step]
  show ?case
  proof (cases q)
    case None
    then have "sink_segments ok xs t = (s', r)" using Cons.prems(3) step by (simp add: and_then_def)
    then show ?thesis using Cons.IH [OF _ num(2), of t] inv None by simp
  next
    case (Some e)
    then show ?thesis using Cons.prems(3) step inv by (auto simp: and_then_def)
  qed
qed

lemma sendInit_inv:
  assumes "sendInit ok v a ts (new_session n) = (s, r)"
  shows "manifests_ok (events s) \<and> (r = None \<longrightarrow> session_inv n 0 s)"
  using assms
  by (auto simp: sendInit_def and_then_def send_def new_session_def session_inv_def files_before_def manifests_ok_def
      nth_Cons split: if_splits nat.splits)

section \<open>Properties\<close>

text \<open>
  C36. What a job is served from the cache is a playable chain: it starts with a segment on the grid at the number the job
  asked for, its numbers are consecutive, each segment starts where the last ended, and every one is what the cache
  answers; the pipeline then starts at the next number, at the source time where the chain ended. It returns whenever
  some number is not in the cache.
\<close>

theorem cached_chain_is_playable:
  assumes num: "\<And>m s. get m = Inr (Some s) \<Longrightarrow> SN s = m" and "get (n + int k) = Inr None"
  shows "\<exists>ss r. serve_cached has_init get last_number n = Some (ss, r) \<and> numbered n ss \<and> continuous ss
    \<and> (\<forall>s\<in>set ss. get (SN s) = Inr (Some s)) \<and> (ss \<noteq> [] \<longrightarrow> OnGrid (hd ss))
    \<and> (\<forall>m t. r = RunFrom m t \<longrightarrow> m = n + int (length ss) \<and> t = (if ss = [] then -1 else SEnd (last ss)))
    \<and> (r = FinishNow \<longrightarrow> ss \<noteq> [] \<and> n + int (length ss) > last_number)"
proof (cases "\<exists>seg. has_init \<and> get n = Inr (Some seg) \<and> OnGrid seg")
  case False
  then show ?thesis by (auto simp: serve_cached_def numbered_def split: sum.splits option.splits)
next
  case True
  then obtain seg where seg: "has_init" "get n = Inr (Some seg)" "OnGrid seg" by blast
  then obtain k' where k': "k = Suc k'" using assms(2) by (cases k) auto
  have "get (n + int k' + 1) = Inr None" using assms(2) k' by (simp add: algebra_simps)
  then obtain ss r where ch: "chain get n seg = Some (ss, r)" using chain_returns by (metis surj_pair)
  note sp = chain_spec [OF num ch num [OF seg(2)]]
  have "\<forall>s\<in>set ss. get (SN s) = Inr (Some s)"
    using sp seg(2) num [OF seg(2)] by (cases ss) auto
  then show ?thesis using ch sp seg by (auto simp: serve_cached_def Let_def split: option.splits)
qed

definition demo_reader :: reader where
  "demo_reader n = (if n = 7 then Inr (Some demo_segment) else Inr None)"

theorem cached_chain_is_playable_witness:
  "\<exists>ss r. serve_cached True demo_reader 0 7 = Some (ss, r) \<and> numbered 7 ss \<and> continuous ss"
proof -
  have "\<And>m s. demo_reader m = Inr (Some s) \<Longrightarrow> SN s = m" by (auto simp: demo_reader_def demo_segment_def split: if_splits)
  moreover have "demo_reader (7 + int 1) = Inr None" by (simp add: demo_reader_def)
  ultimately show ?thesis using cached_chain_is_playable [of demo_reader 7 1 True 0] by blast
qed

text \<open>A job's reader of an entry, and a chain that is there to be followed.\<close>

definition entry_reader :: "entry \<Rightarrow> reader" where
  "entry_reader e n = snd (get_segment 0 n e)"

lemma chain_prefix:
  "chain get n seg = Some (rs, r) \<Longrightarrow> continuous (seg # ss) \<Longrightarrow> (\<And>i. i < length ss \<Longrightarrow> get (n + 1 + int i) = Inr (Some (ss ! i)))
    \<Longrightarrow> prefix (seg # ss) rs"
proof (induction ss arbitrary: n seg rs)
  case Nil
  then show ?case using chain_cases [OF Nil(1)] by auto
next
  case (Cons t ts)
  have "get (n + 1) = Inr (Some t)" using Cons.prems(3) [of 0] by simp
  then obtain rs' where rs': "rs = seg # rs'" "chain get (n + 1) t = Some (rs', r)"
    using Cons.prems(1,2) by (subst (asm) chain.simps) (auto simp: bind_eq_Some_conv)
  have "get (n + 1 + 1 + int i) = Inr (Some (ts ! i))" if "i < length ts" for i
    using Cons.prems(3) [of "Suc i"] that by (simp add: algebra_simps)
  then have "prefix (t # ts) rs'" using Cons.IH [OF rs'(2)] Cons.prems(2) by auto
  then show ?case by (simp add: rs'(1))
qed

lemma numbered_nth: "numbered n ss \<Longrightarrow> i < length ss \<Longrightarrow> SN (ss ! i) = n + int i"
proof -
  assume "numbered n ss" and i: "i < length ss"
  then have "map SN ss ! i = map (\<lambda>k. n + int k) [0..<length ss] ! i" by (simp only: numbered_def)
  then show ?thesis using i by simp
qed

text \<open>
  C25. A replay is served the first run's segments, byte for byte: when a run has put a chain of segments that starts on the
  grid, none of them there before and none refused, any later job from its first number is served the whole chain from the
  cache, whatever else was put in between.
\<close>

theorem replay_serves_first_run:
  assumes ok: "entry_ok e" and nums: "list_all (\<lambda>s. in_int64 (SN s)) (ss @ later)"
    and e': "e' = fold (\<lambda>s e. fst (put_segment fl M now s e)) later (fold (\<lambda>s e. fst (put_segment fl M now s e)) ss e)"
    and chain: "ss \<noteq> []" "numbered n ss" "continuous ss" "OnGrid (hd ss)"
    and new: "\<And>s. s \<in> set ss \<Longrightarrow> entry_get e (SN s) = None"
    and kept: "\<And>s. s \<in> set ss \<Longrightarrow> entry_get (fold (\<lambda>s e. fst (put_segment fl M now s e)) ss e) (SN s) \<noteq> None"
    and absent: "entry_reader e' (n + int k) = Inr None"
  shows "\<exists>rs r. serve_cached True (entry_reader e') last_number n = Some (rs, r) \<and> prefix ss rs"
proof -
  let ?f = "fold (\<lambda>s e. fst (put_segment fl M now s e)) ss e"
  have nss: "list_all (\<lambda>s. in_int64 (SN s)) ss" and nmore: "list_all (\<lambda>s. in_int64 (SN s)) later" using nums by simp_all
  have okf: "entry_ok ?f" using cs.puts_ok [OF ok nss] .
  have there: "entry_reader e' (n + int i) = Inr (Some (ss ! i))" if i: "i < length ss" for i
  proof -
    have s: "ss ! i \<in> set ss" and num: "SN (ss ! i) = n + int i" using i numbered_nth [OF chain(2)] by simp_all
    have n64: "in_int64 (n + int i)" using nss s num by (metis list_all_iff)
    obtain t where t: "entry_get ?f (n + int i) = Some t" using kept [OF s] num by auto
    then have "t \<in> set ss" using cs.puts_add [OF ok nss n64 t] new [OF s] num by auto
    then obtain j where j: "j < length ss" "t = ss ! j" by (auto simp: in_set_conv_nth)
    have "SN t = n + int i" using cs.get_number [OF okf n64 t] .
    then have "t = ss ! i" using j numbered_nth [OF chain(2) j(1)] by simp
    then have "entry_get e' (n + int i) = Some (ss ! i)" using cs.puts_keep [OF okf nmore n64] t e' by simp
    then show ?thesis by (auto simp: entry_reader_def entry_get_read get_segment_result split: option.splits)
  qed
  obtain seg rest where ss: "ss = seg # rest" using chain(1) by (cases ss) auto
  have first: "entry_reader e' n = Inr (Some seg)" using there [of 0] ss by simp
  then have "k \<noteq> 0" using absent by (intro notI) simp
  then obtain k' where k': "k = Suc k'" by (cases k) auto
  have "entry_reader e' (n + int k' + 1) = Inr None" using absent k' by (simp add: algebra_simps)
  then obtain rs r where ch: "chain (entry_reader e') n seg = Some (rs, r)" using chain_returns by (metis surj_pair)
  have "entry_reader e' (n + 1 + int i) = Inr (Some (rest ! i))" if "i < length rest" for i
    using there [of "Suc i"] that ss by (simp add: algebra_simps)
  then have "prefix ss rs" using chain_prefix [OF ch] chain(3) ss by simp
  then show ?thesis using ch first chain(4) ss by (auto simp: serve_cached_def)
qed

definition demo_entry :: entry where
  "demo_entry = \<lparr>disk = \<lparr>video_mp4 = Some ''V'', audio_mp4 = Some ''A'', index_json = Missing\<rparr>,
     idx = (empty_index 0)\<lparr>VideoInit := \<lparr>Off = 0, Len = 1\<rparr>, AudioInit := \<lparr>Off = 0, Len = 1\<rparr>, HasInit := True\<rparr>\<rparr>"

theorem replay_serves_first_run_witness:
  "\<exists>rs r. serve_cached True (entry_reader (fst (put_segment no_faults 0 4 demo_segment demo_entry))) 0 7 = Some (rs, r)
     \<and> prefix [demo_segment] rs"
proof -
  let ?e = "fold (\<lambda>s e. fst (put_segment no_faults 0 4 s e)) [] (fold (\<lambda>s e. fst (put_segment no_faults 0 4 s e)) [demo_segment] demo_entry)"
  have "entry_inv [] demo_entry"
    by (simp add: demo_entry_def entry_inv_def index_inv_def inits_read_def segments_read_def readAt_def empty_index_def)
  then have ok: "entry_ok demo_entry" by (auto simp: entry_ok_def)
  have sn: "SN demo_segment = 7" "OnGrid demo_segment" by (simp_all add: demo_segment_def)
  have none: "entry_get demo_entry 7 = None" by (simp add: entry_get_read demo_entry_def empty_index_def)
  have some: "entry_get (fst (put_segment no_faults 0 4 demo_segment demo_entry)) 7 \<noteq> None" by code_simp
  have absent: "entry_reader (fst (put_segment no_faults 0 4 demo_segment demo_entry)) 8 = Inr None" by code_simp
  from replay_serves_first_run [OF ok, of "[demo_segment]" "[]" ?e no_faults 0 4 7 1 0] sn none some absent
  show ?thesis by (simp add: in_int64_def numbered_def)
qed



end
