(* ===== verification/Watch_Scheduler.thy ===== *)
theory Watch_Scheduler
  imports Go_Prelude
begin

text \<open>
  The scan scheduler of \<open>src/pkg/clustarrwatch/scheduler.go\<close>: work is queued with the time it is due, and \<open>Flush\<close> sends
  what is due. \<open>Flush\<close> is two parts: it collects under the lock, and after each send, with the lock free meanwhile, it
  clears what it collected. So a run is a sequence of events in which enqueues fall between collection and clearing. The
  order in which Go's maps are read does not matter: a collected piece may be sent at any time after.
\<close>

section \<open>The model\<close>

record scheduler =
  scans :: "(string \<times> (string \<times> time) list) list"
  refreshes :: "(string \<times> time) list"
  byID :: "(int \<times> time) list"
  idFails :: "(int \<times> nat) list"

record settings =
  ScanDelay :: duration
  RefreshDelay :: duration
  Threshold :: int

definition orDefault :: "duration \<Rightarrow> duration \<Rightarrow> duration" where
  "orDefault d def = (if d \<le> 0 then def else d)"

definition defaultScanDelay :: duration where
  "defaultScanDelay = 30 * second"

definition defaultRefreshDelay :: duration where
  "defaultRefreshDelay = 60 * second"

definition defaultThreshold :: int where
  "defaultThreshold = 50"

definition MaxRefreshAttempts :: nat where
  "MaxRefreshAttempts = 5"

definition folders :: "string \<Rightarrow> scheduler \<Rightarrow> (string \<times> time) list" where
  "folders section s = (case map_of (scans s) section of None \<Rightarrow> [] | Some fs \<Rightarrow> fs)"

definition EnqueueScan :: "settings \<Rightarrow> time \<Rightarrow> string \<Rightarrow> string \<Rightarrow> scheduler \<Rightarrow> scheduler" where
  "EnqueueScan cfg now section folder s =
     s\<lparr>scans := AList.update section
        (AList.update folder (now + orDefault (ScanDelay cfg) defaultScanDelay) (folders section s)) (scans s)\<rparr>"

definition EnqueueRefresh :: "settings \<Rightarrow> time \<Rightarrow> string \<Rightarrow> scheduler \<Rightarrow> scheduler" where
  "EnqueueRefresh cfg now guid s =
     s\<lparr>refreshes := AList.update guid (now + orDefault (RefreshDelay cfg) defaultRefreshDelay) (refreshes s)\<rparr>"

definition EnqueueRefreshID :: "settings \<Rightarrow> time \<Rightarrow> int \<Rightarrow> scheduler \<Rightarrow> scheduler" where
  "EnqueueRefreshID cfg now i s =
     s\<lparr>byID := AList.update i (now + orDefault (RefreshDelay cfg) defaultRefreshDelay) (byID s)\<rparr>"

record scan =
  scan_section :: string
  folder :: string
  due :: "(string \<times> time) list"

definition threshold :: "settings \<Rightarrow> int" where
  "threshold cfg = (if Threshold cfg \<le> 0 then defaultThreshold else Threshold cfg)"

definition collect_section :: "settings \<Rightarrow> time \<Rightarrow> string \<times> (string \<times> time) list \<Rightarrow> scan list" where
  "collect_section cfg now sec =
     (if int (length (snd sec)) > threshold cfg then [\<lparr>scan_section = fst sec, folder = [], due = snd sec\<rparr>]
      else map (\<lambda>(f, d). \<lparr>scan_section = fst sec, folder = f, due = [(f, d)]\<rparr>) (filter (\<lambda>(f, d). \<not> d > now) (snd sec)))"

definition collect_scans :: "settings \<Rightarrow> time \<Rightarrow> scheduler \<Rightarrow> scan list" where
  "collect_scans cfg now s = concat (map (collect_section cfg now) (scans s))"

definition collect_due :: "time \<Rightarrow> ('k \<times> time) list \<Rightarrow> ('k \<times> time) list" where
  "collect_due now q = filter (\<lambda>(_, d). \<not> d > now) q"

text \<open>Clearing what was collected, if it still carries the time it was collected with.\<close>

definition clear_if :: "'k \<times> time \<Rightarrow> ('k \<times> time) list \<Rightarrow> ('k \<times> time) list" where
  "clear_if kd q = (if map_of q (fst kd) = Some (snd kd) then AList.delete (fst kd) q else q)"

definition scan_sent :: "bool \<Rightarrow> scan \<Rightarrow> scheduler \<Rightarrow> scheduler" where
  "scan_sent ok sc s =
     (if \<not> ok then s
      else let fs = fold clear_if (due sc) (folders (scan_section sc) s) in
        s\<lparr>scans := (if fs = [] then AList.delete (scan_section sc) (scans s) else AList.update (scan_section sc) fs (scans s))\<rparr>)"

definition refresh_sent :: "bool \<Rightarrow> string \<times> time \<Rightarrow> scheduler \<Rightarrow> scheduler" where
  "refresh_sent ok gd s = (if ok then s\<lparr>refreshes := clear_if gd (refreshes s)\<rparr> else s)"

definition fails_of :: "int \<Rightarrow> scheduler \<Rightarrow> nat" where
  "fails_of i s = (case map_of (idFails s) i of None \<Rightarrow> 0 | Some n \<Rightarrow> n)"

definition refresh_id_sent :: "bool \<Rightarrow> int \<times> time \<Rightarrow> scheduler \<Rightarrow> scheduler" where
  "refresh_id_sent ok kd s =
     (if ok then s\<lparr>byID := clear_if kd (byID s), idFails := AList.delete (fst kd) (idFails s)\<rparr>
      else let n = fails_of (fst kd) s + 1 in
        if n \<ge> MaxRefreshAttempts then s\<lparr>byID := AList.delete (fst kd) (byID s), idFails := AList.delete (fst kd) (idFails s)\<rparr>
        else s\<lparr>idFails := AList.update (fst kd) n (idFails s)\<rparr>)"

section \<open>A run\<close>

text \<open>The pieces of scan work in flight, each marked with whether it was collected within the run; the log of the pieces sent
  with success.\<close>

record run_state =
  sched :: scheduler
  inflight :: "(bool \<times> scan) list"
  sent :: "(bool \<times> scan) list"

datatype event = Enqueue time string string | Collect time | Sent nat bool

definition run_step :: "settings \<Rightarrow> event \<Rightarrow> run_state \<Rightarrow> run_state" where
  "run_step cfg e r = (case e of
      Enqueue now sec f \<Rightarrow> r\<lparr>sched := EnqueueScan cfg now sec f (sched r)\<rparr>
    | Collect now \<Rightarrow> r\<lparr>inflight := inflight r @ map (Pair True) (collect_scans cfg now (sched r))\<rparr>
    | Sent i ok \<Rightarrow>
        if i < length (inflight r) then
          let j = inflight r ! i in
          r\<lparr>sched := scan_sent ok (snd j) (sched r), inflight := take i (inflight r) @ drop (Suc i) (inflight r),
            sent := (if ok then sent r @ [j] else sent r)\<rparr>
        else r)"

definition queued :: "string \<Rightarrow> string \<Rightarrow> scheduler \<Rightarrow> time option" where
  "queued sec f s = map_of (folders sec s) f"

definition covers :: "scan \<Rightarrow> string \<Rightarrow> string \<Rightarrow> bool" where
  "covers sc sec f \<longleftrightarrow> scan_section sc = sec \<and> f \<in> fst ` set (due sc) \<and> (folder sc = f \<or> folder sc = [])"

section \<open>What a step does to the queue\<close>

lemma map_of_delete: "map_of (AList.delete k al) k' = (if k' = k then None else map_of al k')"
  by (simp add: AList.delete_conv')

lemma clear_if_other: "f \<noteq> fst kd \<Longrightarrow> map_of (clear_if kd q) f = map_of q f"
  by (simp add: clear_if_def map_of_delete)

lemma clear_if_fresh: "map_of q f = Some d \<Longrightarrow> (f, d) \<noteq> kd \<Longrightarrow> map_of (clear_if kd q) f = Some d"
  by (auto simp: clear_if_def map_of_delete)

lemma fold_clear_fresh: "map_of q f = Some d \<Longrightarrow> (f, d) \<notin> set kds \<Longrightarrow> map_of (fold clear_if kds q) f = Some d"
  by (induction kds arbitrary: q) (auto simp: clear_if_fresh)

lemma queued_Enqueue:
  "queued sec f (EnqueueScan cfg now sec' f' s) =
     (if sec = sec' \<and> f = f' then Some (now + orDefault (ScanDelay cfg) defaultScanDelay) else queued sec f s)"
  by (auto simp: queued_def EnqueueScan_def folders_def update_conv')

lemma folders_scan_sent:
  "folders sec (scan_sent ok sc s) = (if ok \<and> sec = scan_section sc then fold clear_if (due sc) (folders sec s) else folders sec s)"
  by (auto simp: scan_sent_def folders_def Let_def map_of_delete update_conv')

lemma queued_scan_sent_fresh:
  "queued sec f s = Some d \<Longrightarrow> scan_section sc \<noteq> sec \<or> (f, d) \<notin> set (due sc) \<Longrightarrow> queued sec f (scan_sent ok sc s) = Some d"
  by (auto simp: queued_def folders_scan_sent fold_clear_fresh)

lemma collect_scans_mem:
  "sc \<in> set (collect_scans cfg now s) \<Longrightarrow> (f, d) \<in> set (due sc) \<Longrightarrow> folder sc = f \<or> folder sc = []"
  by (auto simp: collect_scans_def collect_section_def split: if_splits)

section \<open>Nothing queued is lost\<close>

definition old_jobs_before :: "string \<Rightarrow> string \<Rightarrow> time \<Rightarrow> (bool \<times> scan) list \<Rightarrow> bool" where
  "old_jobs_before sec f d js \<longleftrightarrow> (\<forall>sc x. (False, sc) \<in> set js \<longrightarrow> scan_section sc = sec \<longrightarrow> (f, x) \<in> set (due sc) \<longrightarrow> x < d)"

definition fresh_jobs_whole :: "(bool \<times> scan) list \<Rightarrow> bool" where
  "fresh_jobs_whole js \<longleftrightarrow> (\<forall>sc f x. (True, sc) \<in> set js \<longrightarrow> (f, x) \<in> set (due sc) \<longrightarrow> folder sc = f \<or> folder sc = [])"

definition run_inv :: "string \<Rightarrow> string \<Rightarrow> time \<Rightarrow> run_state \<Rightarrow> bool" where
  "run_inv sec f d r \<longleftrightarrow> (\<exists>sc. (True, sc) \<in> set (sent r) \<and> covers sc sec f)
     \<or> (\<exists>d'\<ge>d. queued sec f (sched r) = Some d') \<and> old_jobs_before sec f d (inflight r) \<and> fresh_jobs_whole (inflight r)"

definition clock_forward :: "settings \<Rightarrow> string \<Rightarrow> string \<Rightarrow> time \<Rightarrow> event \<Rightarrow> bool" where
  "clock_forward cfg sec f d e \<longleftrightarrow> (\<forall>now. e = Enqueue now sec f \<longrightarrow> d \<le> now + orDefault (ScanDelay cfg) defaultScanDelay)"

lemma jobs_drop:
  assumes "old_jobs_before sec f d js" and "fresh_jobs_whole js"
  shows "old_jobs_before sec f d (take i js @ drop k js) \<and> fresh_jobs_whole (take i js @ drop k js)"
proof -
  have "set (take i js @ drop k js) \<subseteq> set js" by (auto dest: in_set_takeD in_set_dropD)
  then show ?thesis using assms unfolding old_jobs_before_def fresh_jobs_whole_def by blast
qed

lemma sent_grows: "set (sent r) \<subseteq> set (sent (run_step cfg e r))"
  by (auto simp: run_step_def Let_def split: event.splits)

lemma run_step_inv:
  assumes inv: "run_inv sec f d r" and clock: "clock_forward cfg sec f d e"
  shows "run_inv sec f d (run_step cfg e r)"
proof (cases "\<exists>sc. (True, sc) \<in> set (sent r) \<and> covers sc sec f")
  case True
  then show ?thesis using sent_grows [of r cfg e] unfolding run_inv_def by blast
next
  case False
  then obtain d' where q: "d \<le> d'" "queued sec f (sched r) = Some d'" and js: "old_jobs_before sec f d (inflight r)" "fresh_jobs_whole (inflight r)"
    using inv by (auto simp: run_inv_def)
  show ?thesis
  proof (cases e)
    case (Enqueue now sec' f')
    have "\<exists>x\<ge>d. queued sec f (EnqueueScan cfg now sec' f' (sched r)) = Some x"
      using q clock by (auto simp: queued_Enqueue clock_forward_def Enqueue)
    then show ?thesis using js by (simp add: run_inv_def run_step_def Enqueue)
  next
    case (Collect now)
    have "old_jobs_before sec f d (inflight r @ map (Pair True) (collect_scans cfg now (sched r)))"
      using js(1) by (auto simp: old_jobs_before_def)
    moreover have "fresh_jobs_whole (inflight r @ map (Pair True) (collect_scans cfg now (sched r)))"
      using js(2) collect_scans_mem unfolding fresh_jobs_whole_def by fastforce
    ultimately show ?thesis using q by (auto simp: run_inv_def run_step_def Collect)
  next
    case (Sent i ok)
    show ?thesis
    proof (cases "i < length (inflight r)")
      case True
      obtain b sc where j: "inflight r ! i = (b, sc)" by fastforce
      then have mem: "(b, sc) \<in> set (inflight r)" using True by (metis nth_mem)
      show ?thesis
      proof (cases "ok \<and> scan_section sc = sec \<and> (f, d') \<in> set (due sc)")
        case True': True
        then have "b" using js(1) mem q(1) unfolding old_jobs_before_def by (cases b) (auto simp: not_less [symmetric])
        moreover have "covers sc sec f" using True' js(2) mem \<open>b\<close> by (auto simp: covers_def fresh_jobs_whole_def rev_image_eqI)
        ultimately show ?thesis using True True' j by (auto simp: run_inv_def run_step_def Sent Let_def)
      next
        case False
        then have "queued sec f (scan_sent ok sc (sched r)) = Some d'"
        proof (cases ok)
          case True
          then show ?thesis using queued_scan_sent_fresh [OF q(2), of sc ok] \<open>\<not> (ok \<and> _ \<and> _)\<close> by blast
        qed (simp add: scan_sent_def q(2))
        then show ?thesis using True j q(1) jobs_drop [OF js, of i "Suc i"]
          by (auto simp: run_inv_def run_step_def Sent Let_def)
      qed
    next
      case False
      then show ?thesis using inv by (simp add: run_step_def Sent)
    qed
  qed
qed

lemma run_inv_fold: "run_inv sec f d r \<Longrightarrow> list_all (clock_forward cfg sec f d) es \<Longrightarrow> run_inv sec f d (fold (run_step cfg) es r)"
  by (induction es arbitrary: r) (auto simp: run_step_inv)

section \<open>Properties\<close>

text \<open>
  C16. A change queued for scanning is never lost. Whatever is queued, collected and sent after it, and whichever sends fail,
  the folder stays queued, no earlier than it was due, until a scan of that folder or of its whole section that was
  collected after the change has been sent with success; a send that was already in flight when the change came does not
  clear it. The clock must have moved on since that send was collected and must not go back.
\<close>

theorem queued_until_scanned:
  assumes "queued sec f (sched r) = Some d" and "sent r = []" and "\<And>b sc. (b, sc) \<in> set (inflight r) \<Longrightarrow> \<not> b"
    and "old_jobs_before sec f d (inflight r)" and "list_all (clock_forward cfg sec f d) es"
  shows "(\<exists>d'\<ge>d. queued sec f (sched (fold (run_step cfg) es r)) = Some d')
    \<or> (\<exists>sc. (True, sc) \<in> set (sent (fold (run_step cfg) es r)) \<and> covers sc sec f)"
proof -
  have "run_inv sec f d r" using assms(1,3,4) by (auto simp: run_inv_def fresh_jobs_whole_def)
  from run_inv_fold [OF this assms(5)] show ?thesis by (auto simp: run_inv_def)
qed

definition demo_settings :: settings where
  "demo_settings = \<lparr>ScanDelay = 5, RefreshDelay = 5, Threshold = 1\<rparr>"

definition demo_run :: run_state where
  "demo_run = \<lparr>sched = \<lparr>scans = [(''1'', [(''/tv/a'', 15)])], refreshes = [], byID = [], idFails = []\<rparr>,
     inflight = [(False, \<lparr>scan_section = ''1'', folder = ''/tv/a'', due = [(''/tv/a'', 7)]\<rparr>)], sent = []\<rparr>"

theorem queued_until_scanned_witness:
  "(\<exists>d'\<ge>15. queued ''1'' ''/tv/a'' (sched (fold (run_step demo_settings) [Sent 0 True] demo_run)) = Some d')
    \<or> (\<exists>sc. (True, sc) \<in> set (sent (fold (run_step demo_settings) [Sent 0 True] demo_run)) \<and> covers sc ''1'' ''/tv/a'')"
  by (rule queued_until_scanned)
    (auto simp: demo_run_def queued_def folders_def old_jobs_before_def clock_forward_def)

text \<open>
  A flush takes everything that is due: each folder whose time has come is in a piece it collects, a section with more
  folders than the threshold is one scan of the whole section whatever their times, and nothing else is collected.
\<close>

theorem collect_takes_all_due:
  assumes "distinct (map fst (scans s))" and "map_of (scans s) sec = Some fs"
  shows "((f, d) \<in> set fs \<and> (d \<le> now \<or> int (length fs) > threshold cfg)
      \<longleftrightarrow> (\<exists>sc \<in> set (collect_scans cfg now s). scan_section sc = sec \<and> (f, d) \<in> set (due sc)))
    \<and> (int (length fs) > threshold cfg \<longrightarrow>
         filter (\<lambda>sc. scan_section sc = sec) (collect_scans cfg now s) = [\<lparr>scan_section = sec, folder = [], due = fs\<rparr>])"
proof -
  have own: "filter (\<lambda>sc. scan_section sc = sec) (concat (map (collect_section cfg now) al))
      = (case map_of al sec of None \<Rightarrow> [] | Some x \<Rightarrow> collect_section cfg now (sec, x))" if "distinct (map fst al)" for al
    using that
  proof (induction al)
    case (Cons a al)
    have "filter (\<lambda>sc. scan_section sc = sec) (collect_section cfg now a) = (if fst a = sec then collect_section cfg now a else [])"
      by (auto simp: collect_section_def filter_empty_conv intro: filter_True)
    moreover have "fst a = sec \<Longrightarrow> map_of al sec = None" using Cons.prems by (auto simp: map_of_eq_None_iff)
    ultimately show ?case using Cons by (cases a) auto
  qed simp
  then have mine: "filter (\<lambda>sc. scan_section sc = sec) (collect_scans cfg now s) = collect_section cfg now (sec, fs)"
    using assms by (simp add: collect_scans_def)
  have "(\<exists>sc \<in> set (collect_scans cfg now s). scan_section sc = sec \<and> (f, d) \<in> set (due sc))
      \<longleftrightarrow> (\<exists>sc \<in> set (collect_section cfg now (sec, fs)). (f, d) \<in> set (due sc))"
    unfolding mine [symmetric] by auto
  then show ?thesis using mine by (auto simp: collect_section_def split: if_splits)
qed

theorem collect_takes_all_due_witness:
  "\<exists>sc \<in> set (collect_scans demo_settings 20 (sched demo_run)). scan_section sc = ''1'' \<and> (''/tv/a'', 15) \<in> set (due sc)"
  using collect_takes_all_due [of "sched demo_run" "''1''" "[(''/tv/a'', 15)]" "''/tv/a''" 15 20 demo_settings]
  by (simp add: demo_run_def)

text \<open>
  A refresh by id differs: a change queued for an id while its fifth failing send is under way is dropped with it,
  although its time is not the one the send was collected with; after four failures or fewer it stays queued.
\<close>

theorem refresh_id_requeued_at_give_up_is_dropped:
  assumes "map_of (byID s) i = Some d'" and "d' \<noteq> d" and "fails_of i s < MaxRefreshAttempts"
  shows "map_of (byID (refresh_id_sent False (i, d) s)) i = (if fails_of i s = 4 then None else Some d')
    \<and> map_of (byID (refresh_id_sent True (i, d) s)) i = Some d'
    \<and> fails_of i (refresh_id_sent False (i, d) s) < MaxRefreshAttempts"
  using assms
  by (auto simp: refresh_id_sent_def Let_def MaxRefreshAttempts_def map_of_delete clear_if_def fails_of_def update_conv'
      split: option.splits)

theorem refresh_id_requeued_at_give_up_is_dropped_witness:
  "map_of (byID (refresh_id_sent False (7, 10) \<lparr>scans = [], refreshes = [], byID = [(7, 40)], idFails = [(7, 4)]\<rparr>)) 7 = None"
  using refresh_id_requeued_at_give_up_is_dropped [of "\<lparr>scans = [], refreshes = [], byID = [(7, 40)], idFails = [(7, 4)]\<rparr>" 7 40 10]
  by (simp add: fails_of_def MaxRefreshAttempts_def)

end
