(* ===== verification/Video_Filter.thy ===== *)
theory Video_Filter
  imports Go_Prelude
begin

text \<open>
  Plex's \<open>-filter_complex\<close> as \<open>src/pkg/video/filter.go\<close> reads it: labelled chains of filters, split at unescaped
  separators, and the walk from a mapped label back to the input stream it is made from. A refusal is the format and
  the arguments the code gives \<open>refuse\<close>; it is a value of the sum's left side.
\<close>

section \<open>The model\<close>

datatype refusal = Refuse string "string list"

type_synonym 'a parsed = "refusal + 'a"

definition refuse :: "string \<Rightarrow> string list \<Rightarrow> 'a parsed" where
  [simp]: "refuse format a = Inl (Refuse format a)"

record kv =
  arg_k :: string
  arg_v :: string

record flt =
  f_name :: string
  f_args :: "kv list"

record chain =
  c_in :: "string list"
  c_filters :: "flt list"
  c_out :: string

record overlay =
  o_src :: int
  o_filters :: "flt list"

abbreviation backslash :: char where "backslash \<equiv> CHR 0x5C"

fun split_unescaped :: "char \<Rightarrow> string \<Rightarrow> string \<Rightarrow> string list" where
  "split_unescaped sep acc [] = [rev acc]"
| "split_unescaped sep acc (c # r) =
     (if c = backslash then (case r of [] \<Rightarrow> [rev (c # acc)] | d # r' \<Rightarrow> split_unescaped sep (d # c # acc) r')
      else if c = sep then rev acc # split_unescaped sep [] r
      else split_unescaped sep (c # acc) r)"

definition splitUnescaped :: "string \<Rightarrow> char \<Rightarrow> string list" where
  "splitUnescaped s sep = split_unescaped sep [] s"

subsection \<open>The regular expressions\<close>

text \<open>\<open>\\s\<close>, and \<open>strconv.Atoi\<close> of a run of digits with its error dropped, which is the largest integer when the run
  is out of range.\<close>

definition re_space :: "char \<Rightarrow> bool" where
  "re_space c \<longleftrightarrow> (of_char c :: nat) \<in> {9, 10, 12, 13, 32}"

definition atoi_clamped :: "string \<Rightarrow> int" where
  "atoi_clamped ds = min (int (digits_val ds)) (2 ^ 63 - 1)"

definition all_digits :: "string \<Rightarrow> bool" where
  "all_digits s \<longleftrightarrow> s \<noteq> [] \<and> list_all is_digit s"

text \<open>\<open>^0:(\\d+)$\<close>.\<close>

definition streamRef :: "string \<Rightarrow> int option" where
  "streamRef m = (if prefix ''0:'' m \<and> all_digits (drop 2 m) then Some (atoi_clamped (drop 2 m)) else None)"

text \<open>One bracketed label at the front, \<open>\\[([^\\]]*)\\]\<close>, and what follows it.\<close>

definition label_at :: "string \<Rightarrow> (string \<times> string) option" where
  "label_at s = (case s of
       c # r \<Rightarrow> if c = CHR ''['' then (case cut_at CHR '']'' r of (x, rest, ok) \<Rightarrow> if ok then Some (x, rest) else None) else None
     | [] \<Rightarrow> None)"

text \<open>The end of \<open>chainShape\<close>: \<open>(.*?)\\s*\\[([^\\]]+)\\]\\s*$\<close>, the shortest body first.\<close>

definition last_label :: "string \<Rightarrow> string option" where
  "last_label s = (case label_at (dropWhile re_space s) of
       Some (x, rest) \<Rightarrow> if x \<noteq> [] \<and> list_all re_space rest then Some x else None
     | None \<Rightarrow> None)"

fun body_and_label :: "string \<Rightarrow> (string \<times> string) option" where
  "body_and_label s = (case last_label s of
       Some l \<Rightarrow> Some ([], l)
     | None \<Rightarrow> (case s of
           [] \<Rightarrow> None
         | c # r \<Rightarrow> if of_char c = (10 :: nat) then None
             else map_option (\<lambda>(b, l). (c # b, l)) (body_and_label r)))"

declare body_and_label.simps [simp del]

lemma cut_at_length [termination_simp]: "cut_at c s = (b, a, True) \<Longrightarrow> length a < length s"
  by (induction s arbitrary: b) (auto split: if_splits prod.splits intro: less_SucI)

lemma label_at_length: "label_at s = Some (x, rest) \<Longrightarrow> length rest < length s"
  by (auto simp: label_at_def split: list.splits if_splits prod.splits dest: cut_at_length)

text \<open>The front, \<open>((?:\\[[^\\]]*\\]\\s*)+)\<close>: as many labels as leave an end that matches.\<close>

function labels_body_label :: "string \<Rightarrow> (string list \<times> string \<times> string) option" where
  "labels_body_label s = (case label_at s of None \<Rightarrow> None
     | Some (l, rest) \<Rightarrow> let t = dropWhile re_space rest in
        (case labels_body_label t of
           Some (ls, b, out) \<Rightarrow> Some (l # ls, b, out)
         | None \<Rightarrow> map_option (\<lambda>(b, out). ([l], b, out)) (body_and_label t)))"
  by pat_completeness auto
termination
proof (relation "measure length")
  fix s x l rest t
  assume "label_at s = Some x" "(l, rest) = x" "t = dropWhile re_space rest"
  then have "length rest < length s" "length t \<le> length rest" by (auto dest: label_at_length simp: length_dropWhile_le)
  then show "(t, s) \<in> measure length" by simp
qed simp

declare labels_body_label.simps [simp del]

definition chainShape :: "string \<Rightarrow> (string list \<times> string \<times> string) option" where
  "chainShape part = labels_body_label (dropWhile re_space part)"

subsection \<open>Parsing\<close>

definition parse_kv :: "string \<Rightarrow> kv" where
  "parse_kv a = (case cut_at CHR ''='' a of (k, val, ok) \<Rightarrow>
     let (k, val) = (if ok then (k, val) else ([], k)) in \<lparr>arg_k = k, arg_v = trim_func (\<lambda>c. c = CHR 0x27) val\<rparr>)"

definition parse_filter :: "string \<Rightarrow> flt option" where
  "parse_filter f = (case cut_at CHR ''='' (trim_space f) of (name, args, _) \<Rightarrow>
     if name = [] then None
     else Some \<lparr>f_name = name, f_args = (if args \<noteq> [] then map parse_kv (splitUnescaped args CHR '':'') else [])\<rparr>)"

definition parse_chain :: "string \<Rightarrow> chain parsed" where
  "parse_chain part = (case chainShape part of
       None \<Rightarrow> refuse ''filter chain %q'' [part]
     | Some (ins, body, out) \<Rightarrow>
         (let fs = map parse_filter (splitUnescaped body CHR '','') in
          if None \<in> set fs then refuse ''filter chain %q'' [part]
          else Inr \<lparr>c_in = ins, c_filters = map the fs, c_out = out\<rparr>))"

fun parse_chains :: "string list \<Rightarrow> chain list parsed" where
  "parse_chains [] = Inr []"
| "parse_chains (p # ps) = (case parse_chain p of Inl e \<Rightarrow> Inl e
     | Inr c \<Rightarrow> (case parse_chains ps of Inl e \<Rightarrow> Inl e | Inr cs \<Rightarrow> Inr (c # cs)))"

definition parseFilterComplex :: "string \<Rightarrow> chain list parsed" where
  "parseFilterComplex v = parse_chains (splitUnescaped v CHR '';'')"

subsection \<open>From a map back to its stream\<close>

text \<open>\<open>resolve2\<close> resolves an overlay's second input, \<open>None\<close> where overlays are not allowed. The first argument is the
  number of iterations the loop still has.\<close>

definition is_overlay :: "chain \<Rightarrow> bool" where
  "is_overlay c \<longleftrightarrow> length (c_in c) = 2 \<and> length (c_filters c) = 1 \<and> f_name (c_filters c ! 0) = ''overlay''
     \<and> f_args (c_filters c ! 0) = []"

definition follow_chain :: "(string \<Rightarrow> (int \<times> flt list) parsed) option \<Rightarrow> chain \<Rightarrow> flt list \<Rightarrow> overlay option
    \<Rightarrow> (flt list \<times> overlay option) parsed" where
  "follow_chain resolve2 c filters over =
     (if is_overlay c
      then (case resolve2 of
          None \<Rightarrow> refuse ''a second overlay'' []
        | Some follow2 \<Rightarrow> if over \<noteq> None then refuse ''a second overlay'' []
            else (case follow2 (c_in c ! 1) of Inl e \<Rightarrow> Inl e
              | Inr (src, fs) \<Rightarrow> Inr (filters, Some \<lparr>o_src = src, o_filters = fs\<rparr>)))
      else if length (c_in c) \<noteq> 1 then refuse ''a chain of %d inputs'' [itoa (int (length (c_in c)))]
      else Inr (c_filters c @ filters, over))"

fun follow_loop :: "(string \<Rightarrow> (int \<times> flt list) parsed) option \<Rightarrow> chain list \<Rightarrow> nat \<Rightarrow> string \<Rightarrow> flt list \<Rightarrow> overlay option
    \<Rightarrow> (int \<times> flt list \<times> overlay option) parsed" where
  "follow_loop resolve2 cs 0 want filters over = refuse ''label %q loops'' [want]"
| "follow_loop resolve2 cs (Suc n) want filters over =
     (case find (\<lambda>c. c_out c = want) cs of
        None \<Rightarrow> refuse ''label %q names no chain'' [want]
      | Some c \<Rightarrow> (case follow_chain resolve2 c filters over of
          Inl e \<Rightarrow> Inl e
        | Inr (filters', over') \<Rightarrow> (case streamRef (c_in c ! 0) of
            Some src \<Rightarrow> Inr (src, filters', over')
          | None \<Rightarrow> follow_loop resolve2 cs n (c_in c ! 0) filters' over')))"

definition follow :: "string \<Rightarrow> chain list \<Rightarrow> (string \<Rightarrow> (int \<times> flt list) parsed) option \<Rightarrow> (int \<times> flt list \<times> overlay option) parsed" where
  "follow want cs resolve2 = follow_loop resolve2 cs (length cs + 1) want [] None"

definition follow2 :: "chain list \<Rightarrow> string \<Rightarrow> (int \<times> flt list) parsed" where
  "follow2 cs inp = (case streamRef inp of Some n \<Rightarrow> Inr (n, [])
     | None \<Rightarrow> (case follow inp cs None of Inl e \<Rightarrow> Inl e | Inr (src, fs, _) \<Rightarrow> Inr (src, fs)))"

definition resolve :: "string \<Rightarrow> chain list \<Rightarrow> (int \<times> flt list \<times> overlay option) parsed" where
  "resolve m cs = (case streamRef m of
       Some n \<Rightarrow> Inr (n, [], None)
     | None \<Rightarrow> (case label_at m of
         Some (l, []) \<Rightarrow> follow l cs (Some (follow2 cs))
       | _ \<Rightarrow> refuse ''map %q'' [m]))"

section \<open>Splitting\<close>

lemma join_Cons: "ys \<noteq> [] \<Longrightarrow> join sep (x # ys) = x @ sep @ join sep ys"
  by (cases ys) simp_all

text \<open>The splitter's four cases, each applied only where its guard holds.\<close>

lemma split_unescaped_cases [simp]:
  "split_unescaped sep acc [backslash] = [rev (backslash # acc)]"
  "split_unescaped sep acc (backslash # d # r) = split_unescaped sep (d # backslash # acc) r"
  "sep \<noteq> backslash \<Longrightarrow> split_unescaped sep acc (sep # r) = rev acc # split_unescaped sep [] r"
  "c \<noteq> backslash \<Longrightarrow> c \<noteq> sep \<Longrightarrow> split_unescaped sep acc (c # r) = split_unescaped sep (c # acc) r"
  by simp_all

declare split_unescaped.simps(2) [simp del]

lemma split_unescaped_induct [case_names Nil EscEnd Esc Sep Plain]:
  assumes "\<And>acc. P acc []" and "\<And>acc. P acc [backslash]"
    and "\<And>acc d r. P (d # backslash # acc) r \<Longrightarrow> P acc (backslash # d # r)"
    and "\<And>acc r. sep \<noteq> backslash \<Longrightarrow> P [] r \<Longrightarrow> P acc (sep # r)"
    and "\<And>acc c r. c \<noteq> backslash \<Longrightarrow> c \<noteq> sep \<Longrightarrow> P (c # acc) r \<Longrightarrow> P acc (c # r)"
  shows "P acc s"
proof (induction s arbitrary: acc rule: length_induct)
  case (1 s)
  show ?case
  proof (cases s)
    case (Cons c r)
    with 1 assms(2-) show ?thesis by (cases r; cases "c = backslash"; cases "c = sep") simp_all
  qed (simp add: assms(1))
qed

lemma split_unescaped_nonempty [simp]: "split_unescaped sep acc s \<noteq> []"
  by (induction acc s rule: split_unescaped_induct [where sep = sep]) simp_all

lemma join_split_unescaped: "join [sep] (split_unescaped sep acc s) = rev acc @ s"
  by (induction acc s rule: split_unescaped_induct [where sep = sep]) (simp_all add: join_Cons)

text \<open>A part holds no separator that is not escaped: reading it again does not split it.\<close>

lemma split_unescaped_parts:
  assumes "sep \<noteq> backslash"
    and "\<And>r. split_unescaped sep [] (rev acc @ r) = split_unescaped sep acc r"
    and "p \<in> set (split_unescaped sep acc s)"
  shows "split_unescaped sep [] p = [p]"
  using assms
proof (induction acc s rule: split_unescaped_induct [where sep = sep])
  case (Nil acc)
  then show ?case using Nil.prems(2) [of "[]"] by simp
next
  case (EscEnd acc)
  then show ?case using EscEnd.prems(2) [of "[backslash]"] by simp
next
  case (Esc acc d r)
  have "split_unescaped sep [] (rev (d # backslash # acc) @ t) = split_unescaped sep (d # backslash # acc) t" for t
    using Esc.prems(2) [of "backslash # d # t"] by simp
  with Esc show ?case by simp
next
  case (Sep acc r)
  then show ?case using Sep.prems(2) [of "[]"] by auto
next
  case (Plain acc c r)
  have "split_unescaped sep [] (rev (c # acc) @ t) = split_unescaped sep (c # acc) t" for t
    using Plain.prems(2) [of "c # t"] Plain.hyps by simp
  with Plain show ?case by simp
qed

text \<open>
  Splitting a filter graph loses nothing and splits everything: the parts, joined again by the separator, are the
  text that was split, and none of them holds a separator that no backslash escapes.
\<close>

theorem split_unescaped_lossless:
  assumes "sep \<noteq> backslash"
  shows "join [sep] (splitUnescaped s sep) = s
    \<and> (\<forall>p \<in> set (splitUnescaped s sep). splitUnescaped p sep = [p])"
  using split_unescaped_parts [OF assms, of "[]"] by (simp add: splitUnescaped_def join_split_unescaped)

definition demo_text :: string where
  "demo_text = [CHR ''a'', backslash, CHR '':'', CHR ''b'', CHR '':'', CHR ''c'']"

theorem split_unescaped_lossless_witness:
  "splitUnescaped demo_text CHR '':'' = [[CHR ''a'', backslash, CHR '':'', CHR ''b''], ''c'']
    \<and> join [CHR '':''] (splitUnescaped demo_text CHR '':'') = demo_text"
  using split_unescaped_lossless [of "CHR '':''" demo_text]
  by (simp add: splitUnescaped_def demo_text_def)

section \<open>The walk\<close>

text \<open>The label reaches an input stream within \<open>n\<close> chains.\<close>

fun reaches_stream :: "chain list \<Rightarrow> nat \<Rightarrow> string \<Rightarrow> bool" where
  "reaches_stream cs 0 want = False"
| "reaches_stream cs (Suc n) want = (case find (\<lambda>c. c_out c = want) cs of
       None \<Rightarrow> False
     | Some c \<Rightarrow> streamRef (c_in c ! 0) \<noteq> None \<or> reaches_stream cs n (c_in c ! 0))"

lemma reaches_stream_mono: "reaches_stream cs n want \<Longrightarrow> n \<le> m \<Longrightarrow> reaches_stream cs m want"
proof (induction n arbitrary: want m)
  case (Suc n)
  then obtain k where "m = Suc k" "n \<le> k" by (cases m) auto
  with Suc show ?case by (auto split: option.splits)
qed simp

lemma follow_loop_reaches: "follow_loop resolve2 cs n want fs ov = Inr r \<Longrightarrow> reaches_stream cs n want"
proof (induction n arbitrary: want fs ov)
  case (Suc n)
  then show ?case by (auto split: option.splits sum.splits prod.splits)
qed simp

lemma follow_loop_enough:
  "follow_loop resolve2 cs n want fs ov = Inr r \<Longrightarrow> reaches_stream cs m want \<Longrightarrow> follow_loop resolve2 cs m want fs ov = Inr r"
proof (induction n arbitrary: want fs ov m)
  case (Suc n)
  then obtain k where "m = Suc k" by (cases m) auto
  with Suc show ?case by (auto split: option.splits sum.splits prod.splits)
qed simp

text \<open>The least number of chains to a stream drops by one with each step, so no label is met twice and the labels met
  are as many outputs.\<close>

lemma first_reach_labels:
  assumes "reaches_stream cs n want" and "\<And>m. m < n \<Longrightarrow> \<not> reaches_stream cs m want"
  shows "\<exists>ls. length ls = n \<and> distinct ls \<and> set ls \<subseteq> c_out ` set cs
    \<and> (\<forall>l \<in> set ls. \<exists>k. 0 < k \<and> k \<le> n \<and> reaches_stream cs k l \<and> (\<forall>m<k. \<not> reaches_stream cs m l))
    \<and> want \<in> set ls"
  using assms
proof (induction n arbitrary: want)
  case 0
  then show ?case by simp
next
  case (Suc n)
  from Suc.prems(1) obtain c where c: "find (\<lambda>c. c_out c = want) cs = Some c" by (auto split: option.splits)
  then have cw: "c \<in> set cs" "c_out c = want" by (auto simp: find_Some_iff)
  show ?case
  proof (cases "n = 0")
    case True
    then have "\<forall>m<1. \<not> reaches_stream cs m want" by simp
    with True Suc.prems(1) cw show ?thesis by (intro exI [of _ "[want]"]) auto
  next
    case False
    have nostream: "streamRef (c_in c ! 0) = None"
      using Suc.prems(2) [of 1] False c by (auto split: option.splits)
    with Suc.prems(1) c have r: "reaches_stream cs n (c_in c ! 0)" by simp
    have least: "\<not> reaches_stream cs m (c_in c ! 0)" if "m < n" for m
      using Suc.prems(2) [of "Suc m"] that c by auto
    from Suc.IH [OF r least] obtain ls where ls: "length ls = n" "distinct ls" "set ls \<subseteq> c_out ` set cs"
      "\<forall>l \<in> set ls. \<exists>k. 0 < k \<and> k \<le> n \<and> reaches_stream cs k l \<and> (\<forall>m<k. \<not> reaches_stream cs m l)" by blast
    have fresh: "want \<notin> set ls"
    proof
      assume "want \<in> set ls"
      with ls(4) obtain k where "k \<le> n" "reaches_stream cs k want" by blast
      with Suc.prems(2) [of k] show False by simp
    qed
    show ?thesis
    proof (intro exI [of _ "want # ls"] conjI ballI)
      fix l assume "l \<in> set (want # ls)"
      then show "\<exists>k. 0 < k \<and> k \<le> Suc n \<and> reaches_stream cs k l \<and> (\<forall>m<k. \<not> reaches_stream cs m l)"
        using Suc.prems ls(4) by (metis le_SucI le_refl set_ConsD zero_less_Suc)
    qed (use ls fresh cw in auto)
  qed
qed

lemma reaches_within_length:
  assumes "reaches_stream cs n want"
  shows "reaches_stream cs (length cs) want"
proof -
  define k where "k = (LEAST k. reaches_stream cs k want)"
  have k: "reaches_stream cs k want" "\<And>m. m < k \<Longrightarrow> \<not> reaches_stream cs m want"
    using assms by (auto simp: k_def intro: LeastI dest: not_less_Least)
  from first_reach_labels [OF k] obtain ls where "length ls = k" "distinct ls" "set ls \<subseteq> c_out ` set cs" by blast
  then have "k \<le> card (c_out ` set cs)" by (metis card_mono distinct_card finite_imageI finite_set)
  also have "\<dots> \<le> length cs" by (metis card_image_le card_length finite_set order_trans)
  finally show ?thesis using k(1) reaches_stream_mono by blast
qed

text \<open>
  C31. The bound on the walk over the filter graph refuses no graph that could be read: if any number of steps leads
  from a label to its input stream, the loop's one more than the number of chains gives the same stream, filters and
  overlay; only labels that loop are refused for looping.
\<close>

theorem follow_bound_is_enough:
  assumes "follow_loop resolve2 cs n want [] None = Inr r"
  shows "follow want cs resolve2 = Inr r"
  unfolding follow_def
  using follow_loop_enough [OF assms] reaches_stream_mono reaches_within_length [OF follow_loop_reaches [OF assms]]
  by (metis le_add1)

definition demo_graph :: "chain list" where
  "demo_graph = [\<lparr>c_in = [''0:0''], c_filters = [\<lparr>f_name = ''scale'', f_args = []\<rparr>], c_out = ''0''\<rparr>,
     \<lparr>c_in = [''0''], c_filters = [\<lparr>f_name = ''format'', f_args = []\<rparr>], c_out = ''1''\<rparr>]"

theorem follow_bound_is_enough_witness:
  "follow ''1'' demo_graph None = Inr (0, [\<lparr>f_name = ''scale'', f_args = []\<rparr>, \<lparr>f_name = ''format'', f_args = []\<rparr>], None)"
  by (rule follow_bound_is_enough [where n = 5])
    (simp add: numeral_eq_Suc demo_graph_def follow_chain_def is_overlay_def streamRef_def all_digits_def is_digit_def
      atoi_clamped_def digits_val_def digit_val_def)

end
