(* ===== verification/Go_Text.thy ===== *)
theory Go_Text
  imports Go_Prelude "HOL-Library.Multiset" "HOL-Library.List_Lexorder" "HOL-Library.Char_ord" "HOL-Library.Product_Lexorder"
begin

text \<open>
  More of Go's library than \<open>Go_Prelude\<close> holds: \<open>cmp.Compare\<close> and \<open>strings.Compare\<close>, \<open>slices.SortFunc\<close>, ASCII case,
  \<open>strconv.Atoi\<close> with its error ignored, \<open>strings.Cut\<close> at a string, and the query escaping of \<open>net/url\<close>.

  A sort is the stable insertion sort, which is what \<open>slices.SortStableFunc\<close> promises and \<open>slices.SortFunc\<close> does up to
  twelve elements; beyond them \<open>SortFunc\<close> leaves the order of equal elements open, so a theorem about it must not depend
  on that order. Strings compare byte by byte, as \<open>List_Lexorder\<close> does. Case folding is that of ASCII letters.
\<close>

section \<open>Comparing and sorting\<close>

definition compare_with :: "'a::linorder \<Rightarrow> 'a \<Rightarrow> int" where
  "compare_with a b = (if a < b then -1 else if a > b then 1 else 0)"

lemma compare_with_simps [simp]:
  "compare_with a b < 0 \<longleftrightarrow> a < b" "compare_with a b = 0 \<longleftrightarrow> a = b" "0 < compare_with a b \<longleftrightarrow> b < a"
  by (auto simp: compare_with_def)

fun insert_stable :: "('a \<Rightarrow> 'a \<Rightarrow> bool) \<Rightarrow> 'a \<Rightarrow> 'a list \<Rightarrow> 'a list" where
  "insert_stable lt x [] = [x]"
| "insert_stable lt x (y # ys) = (if lt y x then y # insert_stable lt x ys else x # y # ys)"

definition sort_stable :: "('a \<Rightarrow> 'a \<Rightarrow> bool) \<Rightarrow> 'a list \<Rightarrow> 'a list" where
  "sort_stable lt xs = foldr (insert_stable lt) xs []"

definition sort_func :: "('a \<Rightarrow> 'a \<Rightarrow> int) \<Rightarrow> 'a list \<Rightarrow> 'a list" where
  "sort_func c xs = sort_stable (\<lambda>a b. c a b < 0) xs"

lemma sort_stable_Nil [simp]: "sort_stable lt [] = []"
  by (simp add: sort_stable_def)

lemma sort_stable_Cons: "sort_stable lt (x # xs) = insert_stable lt x (sort_stable lt xs)"
  by (simp add: sort_stable_def)

lemma mset_insert_stable [simp]: "mset (insert_stable lt x ys) = add_mset x (mset ys)"
  by (induction ys) auto

lemma mset_sort_stable [simp]: "mset (sort_stable lt xs) = mset xs"
  by (induction xs) (simp_all add: sort_stable_Cons)

lemma set_insert_stable [simp]: "set (insert_stable lt x ys) = insert x (set ys)"
  by (induction ys) auto

lemma set_sort_stable [simp]: "set (sort_stable lt xs) = set xs"
  by (metis mset_sort_stable set_mset_mset)

lemma length_sort_stable [simp]: "length (sort_stable lt xs) = length xs"
  by (metis mset_sort_stable size_mset)

lemma set_sort_func [simp]: "set (sort_func c xs) = set xs"
  by (simp add: sort_func_def)

lemma mset_sort_func [simp]: "mset (sort_func c xs) = mset xs"
  by (simp add: sort_func_def)

lemma length_sort_func [simp]: "length (sort_func c xs) = length xs"
  by (simp add: sort_func_def)

text \<open>A comparison by a key of a linear order is the library's stable sort by that key.\<close>

lemma sort_stable_key: "(\<And>a b. lt a b \<longleftrightarrow> f a < f b) \<Longrightarrow> sort_stable lt xs = sort_key f xs"
proof (induction xs)
  case (Cons x xs)
  have "insert_stable lt x ys = insort_key f x ys" for ys
    by (induction ys) (use Cons.prems in \<open>simp_all add: not_less [symmetric]\<close>)
  then show ?case using Cons.IH [OF Cons.prems] by (simp add: sort_stable_Cons)
qed simp

lemma sort_func_key: "(\<And>a b. c a b < 0 \<longleftrightarrow> f a < f b) \<Longrightarrow> sort_func c xs = sort_key f xs"
  unfolding sort_func_def by (rule sort_stable_key)

section \<open>Letters and numbers\<close>

definition lower :: "char \<Rightarrow> char" where
  "lower c = (let n = (of_char c :: nat) in if 65 \<le> n \<and> n \<le> 90 then char_of (n + 32) else c)"

definition upper :: "char \<Rightarrow> char" where
  "upper c = (let n = (of_char c :: nat) in if 97 \<le> n \<and> n \<le> 122 then char_of (n - 32) else c)"

abbreviation ToLower :: "string \<Rightarrow> string" where "ToLower \<equiv> map lower"
abbreviation ToUpper :: "string \<Rightarrow> string" where "ToUpper \<equiv> map upper"

definition EqualFold :: "string \<Rightarrow> string \<Rightarrow> bool" where
  "EqualFold a b \<longleftrightarrow> ToLower a = ToLower b"

text \<open>What \<open>n, _ := strconv.Atoi(s)\<close> leaves in \<open>n\<close>: 0 for what is no number, the nearest bound for one out of range.\<close>

definition atoi_value :: "string \<Rightarrow> int" where
  "atoi_value s = (case parse_int s of Some n \<Rightarrow> n
     | None \<Rightarrow> (let (neg, ds) = (case s of [] \<Rightarrow> (False, s)
                      | c # r \<Rightarrow> if c = CHR ''-'' then (True, r) else if c = CHR ''+'' then (False, r) else (False, s))
        in if ds \<noteq> [] \<and> list_all is_digit ds then (if neg then - (2 ^ 63) else 2 ^ 63 - 1) else 0))"

text \<open>\<open>strings.Cut\<close> at a non-empty separator.\<close>

definition cut_str :: "string \<Rightarrow> string \<Rightarrow> string \<times> string \<times> bool" where
  "cut_str sep s = (case index_of sep s of None \<Rightarrow> (s, [], False) | Some i \<Rightarrow> (take i s, drop (i + length sep) s, True))"

section \<open>net/url: query escaping and url.Values\<close>

definition hex_digit :: "nat \<Rightarrow> char" where
  "hex_digit n = (if n < 10 then char_of (48 + n) else char_of (55 + n))"

definition hex_nibble :: "char \<Rightarrow> nat option" where
  "hex_nibble c = (let n = (of_char c :: nat) in
     if 48 \<le> n \<and> n \<le> 57 then Some (n - 48) else if 97 \<le> n \<and> n \<le> 102 then Some (n - 87)
     else if 65 \<le> n \<and> n \<le> 70 then Some (n - 55) else None)"

definition url_unreserved :: "char \<Rightarrow> bool" where
  "url_unreserved c = (let n = (of_char c :: nat) in
     (48 \<le> n \<and> n \<le> 57) \<or> (65 \<le> n \<and> n \<le> 90) \<or> (97 \<le> n \<and> n \<le> 122) \<or> c \<in> set ''-_.~'')"

definition escape_char :: "char \<Rightarrow> string" where
  "escape_char c = (if url_unreserved c then [c] else if c = CHR '' '' then ''+''
     else [CHR ''%'', hex_digit (of_char c div 16), hex_digit (of_char c mod 16)])"

definition QueryEscape :: "string \<Rightarrow> string" where
  "QueryEscape s = concat (map escape_char s)"

fun QueryUnescape :: "string \<Rightarrow> string option" where
  "QueryUnescape [] = Some []"
| "QueryUnescape (c # s) =
     (if c = CHR ''%'' then (case s of
          a # b # r \<Rightarrow> (case (hex_nibble a, hex_nibble b) of
              (Some x, Some y) \<Rightarrow> map_option (\<lambda>t. char_of (16 * x + y) # t) (QueryUnescape r)
            | _ \<Rightarrow> None)
        | _ \<Rightarrow> None)
      else map_option (\<lambda>t. (if c = CHR ''+'' then CHR '' '' else c) # t) (QueryUnescape s))"

text \<open>A \<open>url.Values\<close> in which every key was set once with \<open>Set\<close>, and its \<open>Encode\<close>: sorted by key.\<close>

type_synonym url_values = "(string \<times> string) list"

definition Encode :: "url_values \<Rightarrow> string" where
  "Encode q = join ''&'' (map (\<lambda>(k, v). QueryEscape k @ ''='' @ QueryEscape v) (sort_key fst q))"

lemma hex_nibble_digit [simp]: "n < 16 \<Longrightarrow> hex_nibble (hex_digit n) = Some n"
  by (simp add: hex_nibble_def hex_digit_def Let_def)

lemma query_unescape_char: "QueryUnescape (escape_char c @ s) = map_option ((#) c) (QueryUnescape s)"
proof -
  have "(of_char c :: nat) < 256" using nat_of_char_less_256 by simp
  then have d: "(of_char c :: nat) div 16 < 16" by (simp add: less_mult_imp_div_less)
  have "url_unreserved c \<Longrightarrow> c \<noteq> CHR ''%'' \<and> c \<noteq> CHR ''+''"
    by (auto simp: url_unreserved_def)
  with d show ?thesis by (auto simp: escape_char_def mult.commute)
qed

lemma query_unescape_escape: "QueryUnescape (QueryEscape s) = Some s"
  by (induction s) (simp_all add: QueryEscape_def query_unescape_char)

end
