(* ===== verification/Go_Float.thy ===== *)
theory Go_Float
  imports Go_Text Complex_Main
begin

text \<open>
  Go's \<open>float64\<close> as the argument parsers use it: \<open>strconv.ParseFloat\<close>, the arithmetic and comparisons, \<open>math.Round\<close>,
  the conversion to \<open>int64\<close> and \<open>strconv.FormatFloat(x, 'f', -1, 64)\<close>. A finite value is the rational it stands for, and
  every operation rounds its exact result to the nearest value of the format, ties to even, so the model rounds
  wherever the program does. The sign of a zero is not kept. Converting a value outside the 64-bit range is left to the
  platform by the language (amd64 gives the least integer, arm64 saturates): it is the argument \<open>platform\<close>.
\<close>

section \<open>Rounding\<close>

datatype float64 = Fin rat | Inf bool | NaN

definition pow2 :: "int \<Rightarrow> rat" where
  "pow2 e = (if 0 \<le> e then 2 ^ nat e else 1 / 2 ^ nat (- e))"

function ilog2 :: "int \<Rightarrow> nat" where
  "ilog2 n = (if n < 2 then 0 else Suc (ilog2 (n div 2)))"
  by pat_completeness auto
termination
  by (relation "measure nat") auto

declare ilog2.simps [simp del]

text \<open>The exponent of a positive \<open>x\<close>: the \<open>e\<close> with \<open>pow2 e \<le> x < pow2 (e + 1)\<close>.\<close>

definition exponent :: "rat \<Rightarrow> int" where
  "exponent x = (if 1 \<le> x then int (ilog2 \<lfloor>x\<rfloor>) else - int (Suc (ilog2 (\<lceil>1 / x\<rceil> - 1))))"

definition round_even :: "rat \<Rightarrow> int" where
  "round_even x = (let d = \<lfloor>x\<rfloor>; r = x - of_int d in
     if r < 1 / 2 then d else if 1 / 2 < r then d + 1 else if even d then d else d + 1)"

definition unit_in_last_place :: "rat \<Rightarrow> rat" where
  "unit_in_last_place x = pow2 (max (exponent x) (- 1022) - 52)"

definition round_rat :: "rat \<Rightarrow> rat" where
  "round_rat x = (if x = 0 then 0
     else let u = unit_in_last_place \<bar>x\<bar> in sgn x * (of_int (round_even (\<bar>x\<bar> / u)) * u))"

definition to_float :: "rat \<Rightarrow> float64" where
  "to_float x = (let y = round_rat x in if y \<noteq> 0 \<and> 1024 \<le> exponent \<bar>y\<bar> then Inf (x < 0) else Fin y)"

section \<open>Arithmetic\<close>

fun f_mul :: "float64 \<Rightarrow> float64 \<Rightarrow> float64" where
  "f_mul (Fin x) (Fin y) = to_float (x * y)"
| "f_mul (Inf s) (Fin y) = (if y = 0 then NaN else Inf (s \<noteq> (y < 0)))"
| "f_mul (Fin x) (Inf s) = (if x = 0 then NaN else Inf (s \<noteq> (x < 0)))"
| "f_mul (Inf s) (Inf t) = Inf (s \<noteq> t)"
| "f_mul _ _ = NaN"

text \<open>Division by a finite value other than zero, the only division the code makes.\<close>

fun f_div :: "float64 \<Rightarrow> rat \<Rightarrow> float64" where
  "f_div (Fin x) y = to_float (x / y)"
| "f_div (Inf s) y = Inf (s \<noteq> (y < 0))"
| "f_div NaN y = NaN"

fun f_minus :: "float64 \<Rightarrow> rat \<Rightarrow> float64" where
  "f_minus (Fin x) y = to_float (x - y)"
| "f_minus (Inf s) y = Inf s"
| "f_minus NaN y = NaN"

fun f_abs :: "float64 \<Rightarrow> float64" where
  "f_abs (Fin x) = Fin \<bar>x\<bar>"
| "f_abs (Inf s) = Inf False"
| "f_abs NaN = NaN"

text \<open>Comparisons with a constant; every comparison with \<open>NaN\<close> is false.\<close>

fun f_less :: "float64 \<Rightarrow> rat \<Rightarrow> bool" where
  "f_less (Fin x) y = (x < y)"
| "f_less (Inf s) y = s"
| "f_less NaN y = False"

fun f_greater :: "float64 \<Rightarrow> rat \<Rightarrow> bool" where
  "f_greater (Fin x) y = (y < x)"
| "f_greater (Inf s) y = (\<not> s)"
| "f_greater NaN y = False"

fun f_leq :: "float64 \<Rightarrow> rat \<Rightarrow> bool" where
  "f_leq (Fin x) y = (x \<le> y)"
| "f_leq (Inf s) y = s"
| "f_leq NaN y = False"

fun f_geq :: "float64 \<Rightarrow> rat \<Rightarrow> bool" where
  "f_geq (Fin x) y = (y \<le> x)"
| "f_geq (Inf s) y = (\<not> s)"
| "f_geq NaN y = False"

definition round_away :: "rat \<Rightarrow> int" where
  "round_away x = (if x < 0 then - \<lfloor>1 / 2 - x\<rfloor> else \<lfloor>x + 1 / 2\<rfloor>)"

fun f_round :: "float64 \<Rightarrow> float64" where
  "f_round (Fin x) = Fin (of_int (round_away x))"
| "f_round x = x"

definition trunc_int :: "rat \<Rightarrow> int" where
  "trunc_int x = (if x < 0 then \<lceil>x\<rceil> else \<lfloor>x\<rfloor>)"

fun f_int :: "(float64 \<Rightarrow> int) \<Rightarrow> float64 \<Rightarrow> int" where
  "f_int platform (Fin x) = (if in_int64 (trunc_int x) then trunc_int x else platform (Fin x))"
| "f_int platform x = platform x"

section \<open>strconv.ParseFloat\<close>

definition is_hex_letter :: "char \<Rightarrow> bool" where
  "is_hex_letter c = (let n = (of_char (lower c) :: nat) in 97 \<le> n \<and> n \<le> 102)"

definition hex_val :: "char \<Rightarrow> nat" where
  "hex_val c = (if is_digit c then digit_val c else of_char (lower c) - 87)"

text \<open>Underscores only between digits, or between a base prefix and a digit; \<open>saw\<close> is the last character's kind.\<close>

fun underscore_ok :: "bool \<Rightarrow> char \<Rightarrow> string \<Rightarrow> bool" where
  "underscore_ok hex saw [] = (saw \<noteq> CHR ''_'')"
| "underscore_ok hex saw (c # r) =
     (if is_digit c \<or> hex \<and> is_hex_letter c then underscore_ok hex CHR ''0'' r
      else if c = CHR ''_'' then saw = CHR ''0'' \<and> underscore_ok hex c r
      else saw \<noteq> CHR ''_'' \<and> underscore_ok hex CHR ''!'' r)"

text \<open>The mantissa's loop: the value of the digits, how many stand after the point, whether there was a digit, and
  what is left. \<open>dot\<close> is set once the point was read.\<close>

fun mantissa :: "bool \<Rightarrow> bool \<Rightarrow> int \<Rightarrow> int \<Rightarrow> bool \<Rightarrow> string \<Rightarrow> int \<times> int \<times> bool \<times> string" where
  "mantissa hex dot m k digits [] = (m, k, digits, [])"
| "mantissa hex dot m k digits (c # r) =
     (if c = CHR ''_'' then mantissa hex dot m k digits r
      else if c = CHR ''.'' then (if dot then (m, k, digits, c # r) else mantissa hex True m k digits r)
      else if is_digit c \<or> hex \<and> is_hex_letter c
        then mantissa hex dot ((if hex then 16 else 10) * m + int (hex_val c)) (if dot then k + 1 else k) True r
      else (m, k, digits, c # r))"

fun exponent_digits :: "int \<Rightarrow> string \<Rightarrow> int \<times> string" where
  "exponent_digits e [] = (e, [])"
| "exponent_digits e (c # r) =
     (if is_digit c then exponent_digits (if e < 10000 then 10 * e + int (digit_val c) else e) r
      else if c = CHR ''_'' then exponent_digits e r
      else (e, c # r))"

definition scale10 :: "int \<Rightarrow> rat" where
  "scale10 e = (if 0 \<le> e then 10 ^ nat e else 1 / 10 ^ nat (- e))"

definition read_exponent :: "bool \<Rightarrow> string \<Rightarrow> (int \<times> string) option" where
  "read_exponent hex s = (case s of
       c # r \<Rightarrow> if lower c = (if hex then CHR ''p'' else CHR ''e'')
         then (let (neg, ds) = (case r of d # r' \<Rightarrow> if d = CHR ''+'' then (False, r') else if d = CHR ''-'' then (True, r') else (False, r)
                              | [] \<Rightarrow> (False, r))
               in case ds of d # _ \<Rightarrow> if is_digit d
                      then (case exponent_digits 0 ds of (e, rest) \<Rightarrow> Some (if neg then - e else e, rest)) else None
                  | [] \<Rightarrow> None)
         else if hex then None else Some (0, s)
     | [] \<Rightarrow> if hex then None else Some (0, s))"

definition read_number :: "bool \<Rightarrow> bool \<Rightarrow> string \<Rightarrow> rat option" where
  "read_number hex underscores s = (case mantissa hex False 0 0 False s of (m, k, digits, rest) \<Rightarrow>
     if \<not> digits then None
     else (case read_exponent hex rest of None \<Rightarrow> None
       | Some (e, rest') \<Rightarrow>
           if rest' \<noteq> [] \<or> underscores \<and> \<not> underscore_ok hex (if hex then CHR ''0'' else CHR ''^'') s then None
           else Some (of_int m * (if hex then pow2 (e - 4 * k) else scale10 (e - k)))))"

text \<open>\<open>None\<close> is the error: the text is no number, or its value is beyond the largest \<open>float64\<close>.\<close>

definition ParseFloat :: "string \<Rightarrow> float64 option" where
  "ParseFloat s =
     (let (neg, signed, u) = (case s of c # r \<Rightarrow> if c = CHR ''-'' then (True, True, r) else if c = CHR ''+'' then (False, True, r) else (False, False, s)
                            | [] \<Rightarrow> (False, False, s));
          l = map lower u
      in if l = ''inf'' \<or> l = ''infinity'' then Some (Inf neg)
         else if l = ''nan'' \<and> \<not> signed then Some NaN
         else let hex = (length u > 2 \<and> take 2 l = ''0x'')
         in case read_number hex (CHR ''_'' \<in> set u) (if hex then drop 2 u else u) of None \<Rightarrow> None
            | Some x \<Rightarrow> (case to_float (if neg then - x else x) of Fin y \<Rightarrow> Some (Fin y) | _ \<Rightarrow> None))"

section \<open>strconv.FormatFloat\<close>

text \<open>The shortest decimal that reads back as \<open>x\<close>, for \<open>x \<ge> 0\<close>: \<open>n\<close> scaled by \<open>k\<close> decimals, the least \<open>k\<close> first. A
  \<open>float64\<close> has at most 1074 decimals and 309 digits before the point, so the fuel never runs out.\<close>

definition decimal :: "int \<Rightarrow> int \<Rightarrow> string" where
  "decimal n k = (if k \<le> 0 then (if n = 0 then ''0'' else itoa n @ replicate (nat (- k)) CHR ''0'')
     else let ds = itoa n; p = replicate (Suc (nat k) - length ds) CHR ''0'' @ ds; i = length p - nat k
          in take i p @ CHR ''.'' # drop i p)"

fun shortest :: "nat \<Rightarrow> int \<Rightarrow> rat \<Rightarrow> string" where
  "shortest 0 k x = decimal (round_even (x * scale10 k)) k"
| "shortest (Suc fuel) k x = (let n = round_even (x * scale10 k) in
     if to_float (of_int n * scale10 (- k)) = Fin x then decimal n k else shortest fuel (k + 1) x)"

fun FormatFloat :: "float64 \<Rightarrow> string" where
  "FormatFloat (Fin x) = (if x < 0 then CHR ''-'' # shortest 1400 (- int (length (itoa \<lfloor>- x\<rfloor>))) (- x)
     else shortest 1400 (- int (length (itoa \<lfloor>x\<rfloor>))) x)"
| "FormatFloat (Inf s) = (if s then ''-Inf'' else ''+Inf'')"
| "FormatFloat NaN = ''NaN''"

section \<open>Error bounds\<close>

lemma round_even_close: "\<bar>of_int (round_even x) - x\<bar> \<le> 1 / 2"
proof -
  have "of_int \<lfloor>x\<rfloor> \<le> x" "x < of_int \<lfloor>x\<rfloor> + 1" by linarith+
  then show ?thesis by (auto simp: round_even_def Let_def)
qed

lemma round_even_nonneg: "0 \<le> x \<Longrightarrow> 0 \<le> round_even x"
proof -
  assume "0 \<le> x"
  then have "0 \<le> \<lfloor>x\<rfloor>" by simp
  then show ?thesis by (simp add: round_even_def Let_def)
qed

lemma round_even_int [simp]: "round_even (of_int n) = n"
  by (simp add: round_even_def)

lemma round_away_close: "\<bar>of_int (round_away x) - x\<bar> \<le> 1 / 2"
proof (cases "x < 0")
  case True
  then have "of_int (round_away x) = - (of_int \<lfloor>1 / 2 - x\<rfloor> :: rat)" by (simp add: round_away_def)
  moreover have "of_int \<lfloor>1 / 2 - x\<rfloor> \<le> 1 / 2 - x" "1 / 2 - x < of_int \<lfloor>1 / 2 - x\<rfloor> + 1" by linarith+
  ultimately show ?thesis by linarith
next
  case False
  then have "of_int (round_away x) = (of_int \<lfloor>x + 1 / 2\<rfloor> :: rat)" by (simp add: round_away_def)
  moreover have "of_int \<lfloor>x + 1 / 2\<rfloor> \<le> x + 1 / 2" "x + 1 / 2 < of_int \<lfloor>x + 1 / 2\<rfloor> + 1" by linarith+
  ultimately show ?thesis by linarith
qed

lemma pow2_pos [simp]: "0 < pow2 e"
  by (simp add: pow2_def)

lemma pow2_add: "pow2 (a + b) = pow2 a * pow2 b"
proof -
  have eq: "pow2 e = 2 powi e" for e by (simp add: pow2_def power_int_def inverse_eq_divide power_one_over)
  show ?thesis by (simp add: eq power_int_add)
qed

lemma pow2_mono: "a \<le> b \<Longrightarrow> pow2 a \<le> pow2 b"
proof -
  assume "a \<le> b"
  then have "pow2 b = pow2 a * 2 ^ nat (b - a)" using pow2_add [of a "b - a"] by (simp add: pow2_def)
  moreover have "(1 :: rat) \<le> 2 ^ nat (b - a)" by simp
  ultimately show ?thesis using pow2_pos [of a] mult_left_mono [of 1 "2 ^ nat (b - a)" "pow2 a"] by simp
qed

lemma ilog2_bounds:
  "1 \<le> n \<Longrightarrow> 2 ^ ilog2 n \<le> n \<and> n < 2 ^ Suc (ilog2 n)"
proof (induction n rule: ilog2.induct)
  case (1 n)
  show ?case
  proof (cases "n < 2")
    case True
    with "1.prems" show ?thesis by (simp add: ilog2.simps [of n])
  next
    case False
    then have "2 ^ ilog2 (n div 2) \<le> n div 2 \<and> n div 2 < 2 ^ Suc (ilog2 (n div 2))" using 1 by simp
    with False show ?thesis by (simp add: ilog2.simps [of n]) linarith
  qed
qed

lemma exponent_bounds:
  assumes "0 < x"
  shows "pow2 (exponent x) \<le> x \<and> x < pow2 (exponent x + 1)"
proof (cases "1 \<le> x")
  case True
  let ?e = "ilog2 \<lfloor>x\<rfloor>"
  have b: "2 ^ ?e \<le> \<lfloor>x\<rfloor>" "\<lfloor>x\<rfloor> < 2 ^ Suc ?e" using True ilog2_bounds [of "\<lfloor>x\<rfloor>"] by simp_all
  have "(2 ^ ?e :: rat) \<le> x" using b(1) by (simp add: le_floor_iff)
  moreover have "x < (2 ^ Suc ?e :: rat)" using b(2) by (simp add: floor_less_iff)
  ultimately show ?thesis using True by (simp add: exponent_def pow2_def nat_add_distrib)
next
  case False
  let ?n = "\<lceil>1 / x\<rceil> - 1" let ?k = "ilog2 ?n"
  have "1 < 1 / x" using assms False by simp
  then have "1 \<le> ?n" by linarith
  note b = ilog2_bounds [OF this]
  have "2 ^ ?k < \<lceil>1 / x\<rceil>" using b by linarith
  then have lo: "(2 ^ ?k :: rat) < 1 / x" by (simp add: less_ceiling_iff)
  have "\<lceil>1 / x\<rceil> \<le> 2 ^ Suc ?k" using b by linarith
  then have hi: "1 / x \<le> (2 ^ Suc ?k :: rat)" by (simp add: ceiling_le_iff)
  have "pow2 (exponent x) = 1 / 2 ^ Suc ?k" using False by (simp add: exponent_def pow2_def del: power_Suc)
  moreover have "pow2 (exponent x + 1) = 1 / 2 ^ ?k" using False by (simp add: exponent_def pow2_def)
  moreover have "1 / 2 ^ Suc ?k \<le> x" "x < 1 / 2 ^ ?k" using lo hi assms by (simp_all add: field_simps)
  ultimately show ?thesis by simp
qed

lemma round_rat_close: "\<bar>round_rat x - x\<bar> \<le> max (\<bar>x\<bar> * pow2 (- 53)) (pow2 (- 1075))"
proof (cases "x = 0")
  case True
  then show ?thesis by (simp add: round_rat_def max_def order_less_imp_le)
next
  case False
  define u where "u = unit_in_last_place \<bar>x\<bar>"
  have up: "0 < u" by (simp add: u_def unit_in_last_place_def)
  have "round_rat x - x = sgn x * (of_int (round_even (\<bar>x\<bar> / u)) - \<bar>x\<bar> / u) * u"
    using False up by (simp add: round_rat_def u_def [symmetric] Let_def algebra_simps abs_mult_sgn)
  then have "\<bar>round_rat x - x\<bar> = \<bar>of_int (round_even (\<bar>x\<bar> / u)) - \<bar>x\<bar> / u\<bar> * u"
    using False up by (simp add: abs_mult)
  also have "\<dots> \<le> 1 / 2 * u" using round_even_close up by (intro mult_right_mono) simp_all
  also have "\<dots> \<le> max (\<bar>x\<bar> * pow2 (- 53)) (pow2 (- 1075))"
  proof (cases "exponent \<bar>x\<bar> \<le> - 1022")
    case True
    then have "1 / 2 * u = pow2 (- 1075)" by (simp add: u_def unit_in_last_place_def pow2_def max_def)
    then show ?thesis by simp
  next
    case False
    then have "1 / 2 * u = pow2 (exponent \<bar>x\<bar>) * pow2 (- 53)"
      using pow2_add [of "exponent \<bar>x\<bar>" "- 52"] by (simp add: u_def unit_in_last_place_def max_def) (simp add: pow2_def)
    also have "\<dots> \<le> \<bar>x\<bar> * pow2 (- 53)"
      using exponent_bounds [of "\<bar>x\<bar>"] \<open>x \<noteq> 0\<close> by (intro mult_right_mono) (simp_all add: order_less_imp_le)
    finally show ?thesis by simp
  qed
  finally show ?thesis .
qed

lemma to_float_close: "to_float x = Fin y \<Longrightarrow> \<bar>y - x\<bar> \<le> max (\<bar>x\<bar> * pow2 (- 53)) (pow2 (- 1075))"
  using round_rat_close [of x] by (simp add: to_float_def Let_def split: if_splits)

section \<open>Evaluation\<close>

text \<open>Rounding of numerals by rewriting.\<close>

lemma floor_rat_numeral:
  "\<lfloor>numeral a / numeral b :: rat\<rfloor> = numeral a div numeral b" "\<lfloor>1 / numeral b :: rat\<rfloor> = 1 div numeral b"
  "\<lceil>numeral a / numeral b :: rat\<rceil> = - (- numeral a div numeral b)"
  using floor_divide_of_int_eq [of "numeral a" "numeral b", where 'a = rat] floor_divide_of_int_eq [of 1 "numeral b", where 'a = rat]
    floor_divide_of_int_eq [of "- numeral a" "numeral b", where 'a = rat]
  by (simp_all add: ceiling_def)

lemma ilog2_numeral:
  "ilog2 1 = 0" "ilog2 (numeral (num.Bit0 n)) = Suc (ilog2 (numeral n))" "ilog2 (numeral (num.Bit1 n)) = Suc (ilog2 (numeral n))"
  by (simp_all add: ilog2.simps [of 1] ilog2.simps [of "numeral (num.Bit0 n)"] ilog2.simps [of "numeral (num.Bit1 n)"])

lemmas float_eval = to_float_def round_rat_def unit_in_last_place_def exponent_def ilog2_numeral pow2_def round_even_def
  floor_rat_numeral

lemmas parse_float_eval = ParseFloat_def read_number_def read_exponent_def hex_val_def digit_val_def is_digit_def
  is_hex_letter_def lower_def scale10_def float_eval

end
