(* ===== verification/Video_Parse.thy ===== *)
theory Video_Parse
  imports Exec_Dispatch Remux_Job Video_Filter Go_Float
begin

text \<open>
  The allow-list parser of \<open>src/pkg/video/parse.go\<close>: a Plex Transcoder argv becomes a conversion job, or is refused
  with what it was refused for. The loop over the arguments, the outputs, the burn-ins and the two muxers are as the
  code has them. \<open>url\<close> is \<open>url.Parse\<close>: scheme and path, or nothing where it fails; \<open>platform\<close> is the conversion of
  a float outside the 64-bit range. A Go map the code ranges over is an association list, whose order is any.
\<close>

section \<open>The tables\<close>

definition valueOptions :: "string list" where
  "valueOptions = [''-codec'', ''-analyzeduration'', ''-probesize'', ''-eae_prefix'', ''-ss'', ''-i'', ''-fps_mode'',
     ''-loglevel'', ''-loglevel_plex'', ''-progressurl'', ''-filter_complex'', ''-map'', ''-live_start_index'', ''-copypriorss'',
     ''-crf'', ''-maxrate'', ''-bufsize'', ''-r'', ''-preset'', ''-x264opts'', ''-force_key_frames'', ''-metadata'', ''-b'',
     ''-segment_format'', ''-f'', ''-individual_header_trailer'', ''-segment_time'', ''-segment_start_number'',
     ''-segment_time_delta'', ''-segment_list'', ''-segment_list_type'', ''-segment_list_size'',
     ''-segment_list_separate_stream_times'', ''-segment_list_unfinished'', ''-max_delay'', ''-avoid_negative_ts'',
     ''-map_metadata'', ''-map_chapters'', ''-map_inlineass'', ''-seg_duration'', ''-dash_segment_type'', ''-init_seg_name'',
     ''-media_seg_name'', ''-window_size'', ''-delete_removed'', ''-skip_to_segment'', ''-manifest_name'']"

definition flagOptions :: "string list" where
  "flagOptions = [''-start_at_zero'', ''-copyts'', ''-y'', ''-nostats'', ''-xioerror'']"

definition perOutput :: "string list" where
  "perOutput = [''-codec'', ''-crf'', ''-maxrate'', ''-bufsize'', ''-r'', ''-preset'', ''-x264opts'', ''-force_key_frames'',
     ''-b'', ''-copypriorss'']"

definition fixed :: "(string \<times> string) list" where
  "fixed = [(''-fps_mode'', ''cfr''), (''-individual_header_trailer'', ''0''), (''-segment_list_type'', ''csv''),
     (''-segment_list_separate_stream_times'', ''1''), (''-segment_list_unfinished'', ''1''),
     (''-avoid_negative_ts'', ''disabled''), (''-map_metadata'', ''-1''), (''-map_chapters'', ''-1''),
     (''-dash_segment_type'', ''mp4''), (''-delete_removed'', ''false''),
     (''-init_seg_name'', InitName), (''-media_seg_name'', MediaName)]"

definition segmentOptions :: "string list" where
  "segmentOptions = [''-segment_format'', ''-individual_header_trailer'', ''-segment_time'', ''-segment_start_number'',
     ''-segment_time_delta'', ''-segment_list'', ''-segment_list_type'', ''-segment_list_size'',
     ''-segment_list_separate_stream_times'', ''-segment_list_unfinished'']"

definition dashOptions :: "string list" where
  "dashOptions = [''-seg_duration'', ''-dash_segment_type'', ''-init_seg_name'', ''-media_seg_name'', ''-window_size'',
     ''-delete_removed'', ''-skip_to_segment'', ''-manifest_name'']"

definition videoEncoders :: "string list" where
  "videoEncoders = [''libx264'']"

definition ignoredOptions :: "string list" where
  "ignoredOptions = [''-analyzeduration'', ''-probesize'', ''-loglevel'', ''-loglevel_plex'', ''-max_delay'', ''-preset'',
     ''-x264opts'']"

section \<open>Numbers\<close>

text \<open>\<open>bitRate\<close>, \<open>frameRate\<close> and \<open>seconds\<close>; \<open>None\<close> is the error. The product of \<open>bitRate\<close> is a 64-bit one.\<close>

definition bitRate :: "string \<Rightarrow> int option" where
  "bitRate v =
     (let (mult, v) = (if suffix ''k'' v then (1000, trim_suffix v ''k'')
        else if suffix ''M'' v then (1000000, trim_suffix v ''M'') else (1, v))
      in case parse_int v of None \<Rightarrow> None
         | Some n \<Rightarrow> if n \<le> 0 then None else Some (wrap64 (n * mult)))"

lemma go_mod_less: "b \<noteq> 0 \<Longrightarrow> \<bar>go_mod a b\<bar> < \<bar>b\<bar>"
proof -
  assume "b \<noteq> 0"
  have "go_mod a b = sgn a * (\<bar>a\<bar> - \<bar>a\<bar> div \<bar>b\<bar> * \<bar>b\<bar>)"
    by (cases "a = 0") (auto simp: go_mod_def go_div_def sgn_if algebra_simps)
  then have "go_mod a b = sgn a * (\<bar>a\<bar> mod \<bar>b\<bar>)" by (simp add: minus_div_mult_eq_mod)
  then have "\<bar>go_mod a b\<bar> \<le> \<bar>a\<bar> mod \<bar>b\<bar>" using \<open>b \<noteq> 0\<close> by (simp add: abs_mult abs_sgn_eq)
  also have "\<dots> < \<bar>b\<bar>" using \<open>b \<noteq> 0\<close> by simp
  finally show ?thesis .
qed

function go_gcd :: "int \<Rightarrow> int \<Rightarrow> int" where
  "go_gcd a b = (if b \<noteq> 0 then go_gcd b (go_mod a b) else a)"
  by pat_completeness auto
termination
  by (relation "measure (\<lambda>(a, b). nat \<bar>b\<bar>)") (simp_all add: go_mod_less)

declare go_gcd.simps [simp del]

definition ntsc_rate :: "int \<Rightarrow> rat" where
  "ntsc_rate n = round_rat (of_int n * 1000 / 1001)"

definition near_ntsc :: "float64 \<Rightarrow> int \<Rightarrow> bool" where
  "near_ntsc f n \<longleftrightarrow> f_less (f_div (f_abs (f_minus f (ntsc_rate n))) (ntsc_rate n)) (round_rat (1 / 10000))"

definition frameRate :: "(float64 \<Rightarrow> int) \<Rightarrow> string \<Rightarrow> Rational option" where
  "frameRate platform v = (case ParseFloat v of None \<Rightarrow> None
     | Some f \<Rightarrow> if f_leq f 0 \<or> f_greater f 1000 then None
         else (case find (near_ntsc f) [24, 30, 48, 60, 120] of
             Some n \<Rightarrow> Some \<lparr>Num = n * 1000, Den = 1001\<rparr>
           | None \<Rightarrow> (let m = f_int platform (f_round (f_mul f (Fin 1000))); g = go_gcd m 1000
                     in Some \<lparr>Num = go_div m g, Den = go_div 1000 g\<rparr>)))"

definition nanos :: "(float64 \<Rightarrow> int) \<Rightarrow> float64 \<Rightarrow> duration" where
  "nanos platform s = f_int platform (f_mul s (Fin (of_int second)))"

definition seconds :: "(float64 \<Rightarrow> int) \<Rightarrow> string \<Rightarrow> duration option" where
  "seconds platform v = map_option (\<lambda>s. f_int platform (f_round (f_mul s (Fin (of_int second))))) (ParseFloat v)"

section \<open>Inputs\<close>

definition inputOf :: "string \<Rightarrow> Input parsed" where
  "inputOf v =
     (if v = [] then refuse ''an empty input'' []
      else if prefix ''/media/'' v \<and> \<not> sublist ''/../'' v
        then Inr \<lparr>IPath = v, Streamed = False, IFormat = [], IName = [], Source = [], Live = False\<rparr>
      else Inr \<lparr>IPath = [], Streamed = True, IFormat = [],
             IName = (if sublist ''://'' v then [] else last (split_on CHR ''/'' v)), Source = v, Live = False\<rparr>)"

definition liveInput :: "(string \<Rightarrow> (string \<times> string) option) \<Rightarrow> Input \<Rightarrow> Input parsed" where
  "liveInput url i = (case url (Source i) of
       Some (scheme, path) \<Rightarrow>
         if \<not> Streamed i \<or> scheme \<noteq> ''http'' \<and> scheme \<noteq> ''https'' \<or> \<not> suffix ''.m3u8'' path
         then refuse ''a live input that is no playlist on Plex'' []
         else Inr (i\<lparr>Live := True, IFormat := ''mpegts'', IName := []\<rparr>)
     | None \<Rightarrow> refuse ''a live input that is no playlist on Plex'' [])"

section \<open>Burn-ins\<close>

fun unescape :: "string \<Rightarrow> string" where
  "unescape [] = []"
| "unescape (c # r) = (if c = backslash then (case r of [] \<Rightarrow> [c] | d # r' \<Rightarrow> d # unescape r') else c # unescape r)"

record style_state =
  st_overrides :: string
  st_outline :: float64
  st_shadow :: float64
  st_size :: int
  st_scale :: float64

definition style_arg :: "kv \<Rightarrow> style_state \<Rightarrow> style_state parsed" where
  "style_arg a st =
     (let v = unescape (unescape (arg_v a)); k = arg_k a; bad = refuse ''inlineass %s %q'' [k, v] in
      if k \<in> {''font_path'', ''fontconfig_file'', ''language''} then Inr st
      else if k = ''overrides'' then Inr (st\<lparr>st_overrides := v\<rparr>)
      else if k = ''font_size'' then (case parse_int v of None \<Rightarrow> bad | Some n \<Rightarrow> Inr (st\<lparr>st_size := n\<rparr>))
      else if k = ''font_scale'' then (case ParseFloat v of None \<Rightarrow> bad | Some f \<Rightarrow> Inr (st\<lparr>st_scale := f\<rparr>))
      else if k = ''outline'' then (case ParseFloat v of None \<Rightarrow> bad | Some f \<Rightarrow> Inr (st\<lparr>st_outline := f\<rparr>))
      else if k = ''shadow'' then (case ParseFloat v of None \<Rightarrow> bad | Some f \<Rightarrow> Inr (st\<lparr>st_shadow := f\<rparr>))
      else refuse ''inlineass option %q'' [k])"

fun style_args :: "kv list \<Rightarrow> style_state \<Rightarrow> style_state parsed" where
  "style_args [] st = Inr st"
| "style_args (a # as) st = (case style_arg a st of Inl e \<Rightarrow> Inl e | Inr st' \<Rightarrow> style_args as st')"

text \<open>The factor from Plex's 1080 lines to libass's 288, a constant the compiler rounds once.\<close>

definition libass_factor :: float64 where
  "libass_factor = Fin (round_rat (288 / 1080))"

definition style_size :: "float64 \<Rightarrow> string" where
  "style_size x = FormatFloat (f_div (f_round (f_mul (f_mul x libass_factor) (Fin 100))) 100)"

definition inlineStyle :: "(float64 \<Rightarrow> int) \<Rightarrow> kv list \<Rightarrow> string parsed" where
  "inlineStyle platform args =
     (case style_args args \<lparr>st_overrides = [], st_outline = Fin (- 1), st_shadow = Fin (- 1), st_size = 0, st_scale = Fin 1\<rparr> of
        Inl e \<Rightarrow> Inl e
      | Inr st \<Rightarrow> Inr (join '','' (
          (if st_overrides st \<noteq> [] then [st_overrides st] else [])
          @ (if 0 < st_size st
             then [''Fontsize='' @ itoa (f_int platform (f_round (f_mul (f_mul (to_float (of_int (st_size st))) (st_scale st)) libass_factor)))]
             else [])
          @ (if f_geq (st_outline st) 0 then [''Outline='' @ style_size (st_outline st)] else [])
          @ (if f_geq (st_shadow st) 0 then [''Shadow='' @ style_size (st_shadow st)] else []))))"

text \<open>\<open>^(\\d+):(s:)?(\\d+)$\<close>: the input, whether the number is a subtitle's, and the number.\<close>

definition inlineRef :: "string \<Rightarrow> (int \<times> bool \<times> int) option" where
  "inlineRef m = (case cut_at CHR '':'' m of (a, b, ok) \<Rightarrow>
     if \<not> ok \<or> \<not> all_digits a then None
     else let sub = prefix ''s:'' b; n = (if sub then drop 2 b else b)
          in if all_digits n then Some (atoi_clamped a, sub, atoi_clamped n) else None)"

definition textBurn :: "string \<Rightarrow> string \<Rightarrow> Job \<Rightarrow> Job parsed" where
  "textBurn mapped nullMap j =
     (let text_burn = (case Burn j of Some b \<Rightarrow> \<not> Image b | None \<Rightarrow> False) in
      if \<not> text_burn \<and> mapped = [] \<and> nullMap = [] then Inr j
      else if \<not> text_burn \<and> mapped \<noteq> [] then refuse ''-map_inlineass without an inlineass filter'' []
      else if text_burn \<and> mapped = [] then refuse ''an inlineass filter without -map_inlineass'' []
      else if nullMap \<noteq> mapped then refuse ''a null output of %s, the burn-in %s'' [nullMap, mapped]
      else (case inlineRef mapped of
          None \<Rightarrow> refuse ''-map_inlineass %q'' [mapped]
        | Some (i, sub, n) \<Rightarrow>
            if int (length (Inputs j)) \<le> i
            then refuse ''-map_inlineass names input %d of %d'' [itoa i, itoa (int (length (Inputs j)))]
            else if sub \<and> (\<not> Streamed (Inputs j ! nat i) \<or> n \<noteq> 0)
            then refuse ''-map_inlineass %q: by subtitle number only a sidecar's one subtitle'' [mapped]
            else Inr (j\<lparr>Burn := map_option (\<lambda>b. b\<lparr>BInput := i, BStream := n\<rparr>) (Burn j)\<rparr>)))"

definition imageBurn :: "int \<Rightarrow> VideoOut \<Rightarrow> overlay \<Rightarrow> Job \<Rightarrow> Job parsed" where
  "imageBurn video v ov j =
     (if o_src ov = video then refuse ''an overlay of the video stream on itself'' []
      else (case o_filters ov of
          [f] \<Rightarrow> (case f_args f of
              [a, b] \<Rightarrow>
                if f_name f \<noteq> ''scale'' then refuse ''an overlay not scaled as Plex scales a subtitle'' []
                else (case (parse_int (arg_v a), parse_int (arg_v b)) of
                    (Some w, Some h) \<Rightarrow>
                      if arg_k a \<noteq> [] \<or> arg_k b \<noteq> [] then refuse ''overlay scale %v'' [arg_v a, arg_v b]
                      else if w \<noteq> Width v \<or> h \<noteq> Height v
                      then refuse ''a subtitle scaled to %dx%d, the video to %dx%d'' [itoa w, itoa h, itoa (Width v), itoa (Height v)]
                      else if Burn j \<noteq> None then refuse ''a second burn-in'' []
                      else Inr (j\<lparr>Burn := Some \<lparr>BInput = 0, BStream = o_src ov, Image = True, Style = []\<rparr>\<rparr>)
                  | _ \<Rightarrow> refuse ''overlay scale %v'' [arg_v a, arg_v b])
            | _ \<Rightarrow> refuse ''an overlay not scaled as Plex scales a subtitle'' [])
        | _ \<Rightarrow> refuse ''an overlay not scaled as Plex scales a subtitle'' []))"

section \<open>Outputs\<close>

record out_map =
  om_src :: int
  om_filters :: "flt list"
  om_overlay :: "overlay option"
  om_opts :: "(string \<times> string) list"

definition opt :: "(string \<times> string) list \<Rightarrow> string \<Rightarrow> string" where
  "opt opts k = (case map_of opts k of None \<Rightarrow> [] | Some v \<Rightarrow> v)"

definition pixFmt :: "string \<Rightarrow> string parsed" where
  "pixFmt fmts = (case find (\<lambda>want. want \<in> set (split_on CHR ''|'' fmts)) [''nv12'', ''yuv420p''] of
     Some want \<Rightarrow> Inr want | None \<Rightarrow> refuse ''pixel formats %q'' [fmts])"

fun scale_args :: "kv list \<Rightarrow> VideoOut \<Rightarrow> VideoOut parsed" where
  "scale_args [] v = Inr v"
| "scale_args (a # as) v =
     (if arg_k a = ''w'' \<or> arg_k a = ''h''
      then (case parse_int (arg_v a) of
          Some n \<Rightarrow> if n \<le> 0 then refuse ''scale %s=%q'' [arg_k a, arg_v a]
            else scale_args as (if arg_k a = ''w'' then v\<lparr>Width := n\<rparr> else v\<lparr>Height := n\<rparr>)
        | None \<Rightarrow> refuse ''scale %s=%q'' [arg_k a, arg_v a])
      else if arg_k a = ''force_divisible_by'' then scale_args as v
      else refuse ''scale option %q'' [arg_k a])"

fun format_args :: "kv list \<Rightarrow> string \<Rightarrow> string parsed" where
  "format_args [] fmts = Inr fmts"
| "format_args (a # as) fmts =
     (if arg_k a \<noteq> ''pix_fmts'' then refuse ''format option %q'' [arg_k a] else format_args as (arg_v a))"

definition video_filter :: "(float64 \<Rightarrow> int) \<Rightarrow> flt \<Rightarrow> VideoOut \<times> Job \<Rightarrow> (VideoOut \<times> Job) parsed" where
  "video_filter platform f vj = (case vj of (v, j) \<Rightarrow>
     if f_name f = ''scale'' then (case scale_args (f_args f) v of Inl e \<Rightarrow> Inl e | Inr v' \<Rightarrow> Inr (v', j))
     else if f_name f = ''inlineass''
     then (case inlineStyle platform (f_args f) of Inl e \<Rightarrow> Inl e
         | Inr style \<Rightarrow> if Burn j \<noteq> None then refuse ''a second burn-in'' []
             else Inr (v, j\<lparr>Burn := Some \<lparr>BInput = 0, BStream = 0, Image = False, Style = style\<rparr>\<rparr>))
     else if f_name f = ''format''
     then (case format_args (f_args f) [] of Inl e \<Rightarrow> Inl e
         | Inr fmts \<Rightarrow> (case pixFmt fmts of Inl e \<Rightarrow> Inl e | Inr pf \<Rightarrow> Inr (v\<lparr>PixFmt := pf\<rparr>, j)))
     else refuse ''video filter %q'' [f_name f])"

fun video_filters :: "(float64 \<Rightarrow> int) \<Rightarrow> flt list \<Rightarrow> VideoOut \<times> Job \<Rightarrow> (VideoOut \<times> Job) parsed" where
  "video_filters platform [] vj = Inr vj"
| "video_filters platform (f # fs) vj = (case video_filter platform f vj of Inl e \<Rightarrow> Inl e
     | Inr vj' \<Rightarrow> video_filters platform fs vj')"

text \<open>\<open>^expr:gte\\(t,n_forced\\*([0-9]+(?:\\.[0-9]+)?)\\)$\<close>.\<close>

definition keyframeExpr :: "string \<Rightarrow> string option" where
  "keyframeExpr val =
     (let p = ''expr:gte(t,n_forced*''; n = take (length val - length p - 1) (drop (length p) val) in
      if prefix p val \<and> suffix '')'' val \<and> length p < length val
        \<and> (case cut_at CHR ''.'' n of (a, b, ok) \<Rightarrow> all_digits a \<and> (ok \<longrightarrow> all_digits b))
      then Some n else None)"

definition keyframe_every :: "(float64 \<Rightarrow> int) \<Rightarrow> string \<Rightarrow> duration" where
  "keyframe_every platform n = nanos platform (case ParseFloat n of Some s \<Rightarrow> s | None \<Rightarrow> Inf False)"

definition video_opt :: "(float64 \<Rightarrow> int) \<Rightarrow> string \<Rightarrow> string \<Rightarrow> VideoOut \<Rightarrow> VideoOut parsed" where
  "video_opt platform k val v =
     (let bad = refuse ''%s %q'' [k, val] in
      if k \<in> {''-codec'', ''-preset'', ''-x264opts''} then Inr v
      else if k = ''-crf'' then (case parse_int val of None \<Rightarrow> bad | Some n \<Rightarrow> Inr (v\<lparr>CRF := n\<rparr>))
      else if k = ''-maxrate'' then (case bitRate val of None \<Rightarrow> bad | Some n \<Rightarrow> Inr (v\<lparr>MaxRate := n\<rparr>))
      else if k = ''-bufsize'' then (case bitRate val of None \<Rightarrow> bad | Some n \<Rightarrow> Inr (v\<lparr>BufSize := n\<rparr>))
      else if k = ''-r'' then (case frameRate platform val of None \<Rightarrow> bad | Some r \<Rightarrow> Inr (v\<lparr>FrameRate := r\<rparr>))
      else if k = ''-force_key_frames'' then (case keyframeExpr val of None \<Rightarrow> refuse ''-force_key_frames %q'' [val]
         | Some n \<Rightarrow> Inr (v\<lparr>KeyframeEvery := keyframe_every platform n\<rparr>))
      else refuse ''video option %s'' [k])"

fun video_opts :: "(float64 \<Rightarrow> int) \<Rightarrow> (string \<times> string) list \<Rightarrow> VideoOut \<Rightarrow> VideoOut parsed" where
  "video_opts platform [] v = Inr v"
| "video_opts platform (o1 # os) v = (case video_opt platform (fst o1) (snd o1) v of Inl e \<Rightarrow> Inl e
     | Inr v' \<Rightarrow> video_opts platform os v')"

definition zero_video :: VideoOut where
  "zero_video = \<lparr>VStream = 0, Width = 0, Height = 0, PixFmt = [], CRF = 0, MaxRate = 0, BufSize = 0,
     FrameRate = \<lparr>Num = 0, Den = 0\<rparr>, KeyframeEvery = 0, Deinterlace = False, ToneMap = False\<rparr>"

definition videoOut :: "(float64 \<Rightarrow> int) \<Rightarrow> out_map \<Rightarrow> Job \<Rightarrow> Job parsed" where
  "videoOut platform out j =
     (case video_filters platform (om_filters out) (zero_video\<lparr>VStream := om_src out\<rparr>, j) of Inl e \<Rightarrow> Inl e
      | Inr (v, j) \<Rightarrow>
          if Width v = 0 \<or> Height v = 0 \<or> PixFmt v = [] then refuse ''a video output without Plex's scale and format'' []
          else (case (case om_overlay out of None \<Rightarrow> Inr j | Some ov \<Rightarrow> imageBurn (om_src out) v ov j) of Inl e \<Rightarrow> Inl e
            | Inr j \<Rightarrow> (case video_opts platform (om_opts out) v of Inl e \<Rightarrow> Inl e
                | Inr v \<Rightarrow>
                    if Den (FrameRate v) = 0 \<or> KeyframeEvery v \<le> 0 \<or> MaxRate v \<le> 0 \<or> BufSize v \<le> 0
                    then refuse ''a video output without a frame rate, forced keyframes, maxrate and bufsize'' []
                    else Inr (j\<lparr>Video := v\<rparr>))))"

fun resample_args :: "kv list \<Rightarrow> AudioOut \<Rightarrow> AudioOut parsed" where
  "resample_args [] a = Inr a"
| "resample_args (x # xs) a =
     (if arg_k x = ''async'' \<or> arg_k x = ''rematrix_maxval'' then resample_args xs a
      else if arg_k x = ''ochl''
      then (if arg_v x = ''stereo'' then resample_args xs (a\<lparr>Channels := 2\<rparr>)
            else if arg_v x = ''mono'' then resample_args xs (a\<lparr>Channels := 1\<rparr>)
            else refuse ''channel layout %q'' [arg_v x])
      else if arg_k x = ''osr''
      then (case parse_int (arg_v x) of
          Some n \<Rightarrow> if n \<le> 0 then refuse ''osr %q'' [arg_v x] else resample_args xs (a\<lparr>SampleRate := n\<rparr>)
        | None \<Rightarrow> refuse ''osr %q'' [arg_v x])
      else refuse ''aresample option %q'' [arg_k x])"

fun audio_filters :: "flt list \<Rightarrow> AudioOut \<Rightarrow> AudioOut parsed" where
  "audio_filters [] a = Inr a"
| "audio_filters (f # fs) a =
     (if Copy a \<or> f_name f \<noteq> ''aresample'' then refuse ''audio filter %q'' [f_name f]
      else (case resample_args (f_args f) a of Inl e \<Rightarrow> Inl e | Inr a' \<Rightarrow> audio_filters fs a'))"

definition audio_opt :: "string \<Rightarrow> string \<Rightarrow> AudioOut \<Rightarrow> AudioOut parsed" where
  "audio_opt k val a =
     (if k = ''-codec'' \<or> k = ''language'' then Inr a
      else if k = ''-copypriorss'' then (if val \<noteq> ''0'' then refuse ''-copypriorss %q'' [val] else Inr a)
      else if k = ''-b'' then (case bitRate val of None \<Rightarrow> refuse ''-b %q'' [val] | Some n \<Rightarrow> Inr (a\<lparr>BitRate := n\<rparr>))
      else refuse ''audio option %s'' [k])"

fun audio_opts :: "(string \<times> string) list \<Rightarrow> AudioOut \<Rightarrow> AudioOut parsed" where
  "audio_opts [] a = Inr a"
| "audio_opts (o1 # os) a = (case audio_opt (fst o1) (snd o1) a of Inl e \<Rightarrow> Inl e | Inr a' \<Rightarrow> audio_opts os a')"

definition audioOut :: "out_map \<Rightarrow> AudioOut parsed" where
  "audioOut out =
     (case audio_filters (om_filters out) \<lparr>AStream = om_src out, Copy = (opt (om_opts out) ''-codec'' = ''copy''), Channels = 0,
         SampleRate = 0, BitRate = 0, Language = opt (om_opts out) ''language''\<rparr> of Inl e \<Rightarrow> Inl e
      | Inr a \<Rightarrow> (case audio_opts (om_opts out) a of Inl e \<Rightarrow> Inl e
          | Inr a \<Rightarrow> if \<not> Copy a \<and> BitRate a = 0 then refuse ''an AAC output with no bit rate'' [] else Inr a))"

text \<open>The loop over the outputs, with the index of the video output found so far.\<close>

fun outputs_loop :: "(float64 \<Rightarrow> int) \<Rightarrow> int \<Rightarrow> out_map list \<Rightarrow> int option \<Rightarrow> Job \<Rightarrow> (int option \<times> Job) parsed" where
  "outputs_loop platform i [] video j = Inr (video, j)"
| "outputs_loop platform i (out # outs) video j =
     (let codec = opt (om_opts out) ''-codec'' in
      if codec = [] then refuse ''output %d has no codec'' [itoa i]
      else if codec \<in> set videoEncoders
      then (if video \<noteq> None then refuse ''a second video output'' []
            else (case videoOut platform out j of Inl e \<Rightarrow> Inl e | Inr j' \<Rightarrow> outputs_loop platform (i + 1) outs (Some i) j'))
      else if codec = ''aac'' \<or> codec = ''copy''
      then (if Audio j \<noteq> None then refuse ''a second audio output'' []
            else (case audioOut out of Inl e \<Rightarrow> Inl e | Inr a \<Rightarrow> outputs_loop platform (i + 1) outs video (j\<lparr>Audio := Some a\<rparr>)))
      else refuse ''codec %q for output %d'' [codec, itoa i])"

fun resolve_maps :: "int \<Rightarrow> string list \<Rightarrow> chain list \<Rightarrow> (int \<times> (string \<times> string) list) list \<Rightarrow> out_map list parsed" where
  "resolve_maps i [] cs perOut = Inr []"
| "resolve_maps i (m # ms) cs perOut = (case resolve m cs of Inl e \<Rightarrow> Inl e
     | Inr (src, fs, over) \<Rightarrow> (case resolve_maps (i + 1) ms cs perOut of Inl e \<Rightarrow> Inl e
         | Inr outs \<Rightarrow> Inr (\<lparr>om_src = src, om_filters = fs, om_overlay = over,
             om_opts = (case map_of perOut i of Some os \<Rightarrow> os | None \<Rightarrow> [])\<rparr> # outs)))"

definition outputs :: "(float64 \<Rightarrow> int) \<Rightarrow> string list \<Rightarrow> chain list \<Rightarrow> (int \<times> (string \<times> string) list) list \<Rightarrow> Job \<Rightarrow> Job parsed" where
  "outputs platform maps cs perOut j = (case resolve_maps 0 maps cs perOut of Inl e \<Rightarrow> Inl e
     | Inr outs \<Rightarrow> (case find (\<lambda>(idx, _). idx < 0 \<or> int (length outs) \<le> idx) perOut of
         Some (idx, _) \<Rightarrow> refuse ''options for output %d of %d'' [itoa idx, itoa (int (length outs))]
       | None \<Rightarrow> (case outputs_loop platform 0 outs None j of Inl e \<Rightarrow> Inl e
           | Inr (video, j') \<Rightarrow> if video = None then refuse ''no H.264 video output'' [] else Inr j')))"

section \<open>The muxers\<close>

text \<open>An integer option that is at least \<open>low\<close>, left at \<open>dflt\<close> when absent.\<close>

definition int_opt :: "(string \<times> string) list \<Rightarrow> string \<Rightarrow> int \<Rightarrow> int \<Rightarrow> int parsed" where
  "int_opt opts k low dflt = (case map_of opts k of None \<Rightarrow> Inr dflt
     | Some v \<Rightarrow> (case parse_int v of Some n \<Rightarrow> if n < low then refuse (k @ '' %q'') [v] else Inr n
        | None \<Rightarrow> refuse (k @ '' %q'') [v]))"

definition duration_opt :: "(float64 \<Rightarrow> int) \<Rightarrow> (string \<times> string) list \<Rightarrow> string \<Rightarrow> duration parsed" where
  "duration_opt platform opts k = (case seconds platform (opt opts k) of
     Some d \<Rightarrow> if d \<le> 0 then refuse (k @ '' %q'') [opt opts k] else Inr d
   | None \<Rightarrow> refuse (k @ '' %q'') [opt opts k])"

definition muxer_dash :: "(float64 \<Rightarrow> int) \<Rightarrow> (string \<times> string) list \<Rightarrow> string \<Rightarrow> Job \<Rightarrow> Job parsed" where
  "muxer_dash platform opts target j =
     (if target \<noteq> ''dash'' then refuse ''dash output %q'' [target]
      else (case find (\<lambda>k. opt opts k = []) [''-init_seg_name'', ''-media_seg_name'', ''-manifest_name''] of
          Some k \<Rightarrow> refuse ''dash without %s'' [k]
        | None \<Rightarrow> (case duration_opt platform opts ''-seg_duration'' of Inl e \<Rightarrow> Inl e
            | Inr d \<Rightarrow> (case int_opt opts ''-skip_to_segment'' 1 1 of Inl e \<Rightarrow> Inl e
                | Inr n \<Rightarrow> (case int_opt opts ''-window_size'' 0 0 of Inl e \<Rightarrow> Inl e
                    | Inr w \<Rightarrow> Inr (j\<lparr>Output := OutputDASH,
                        Segments := \<lparr>Duration = d, StartNumber = n, Pattern = MediaName, ListSize = w, TimeDelta = 0\<rparr>\<rparr>))))))"

definition delta_opt :: "(float64 \<Rightarrow> int) \<Rightarrow> (string \<times> string) list \<Rightarrow> string \<Rightarrow> duration parsed" where
  "delta_opt platform opts k = (case map_of opts k of None \<Rightarrow> Inr 0
     | Some v \<Rightarrow> (case seconds platform v of Some d \<Rightarrow> if d < 0 then refuse (k @ '' %q'') [v] else Inr d
        | None \<Rightarrow> refuse (k @ '' %q'') [v]))"

definition muxer_hls :: "(float64 \<Rightarrow> int) \<Rightarrow> (string \<times> string) list \<Rightarrow> string \<Rightarrow> Job \<Rightarrow> Job parsed" where
  "muxer_hls platform opts target j =
     (if opt opts ''-segment_format'' \<noteq> ''mpegts'' then refuse ''segment format %q'' [opt opts ''-segment_format'']
      else if target \<noteq> ''media-%05d.ts'' then refuse ''segment pattern %q'' [target]
      else (case duration_opt platform opts ''-segment_time'' of Inl e \<Rightarrow> Inl e
        | Inr d \<Rightarrow> (case delta_opt platform opts ''-segment_time_delta'' of Inl e \<Rightarrow> Inl e
            | Inr delta \<Rightarrow> (case int_opt opts ''-segment_start_number'' 0 0 of Inl e \<Rightarrow> Inl e
                | Inr n \<Rightarrow> (case int_opt opts ''-segment_list_size'' 0 0 of Inl e \<Rightarrow> Inl e
                    | Inr w \<Rightarrow> if SegmentListURL j = [] then refuse ''no segment list'' []
                        else Inr (j\<lparr>Output := OutputHLS,
                          Segments := \<lparr>Duration = d, StartNumber = n, Pattern = target, ListSize = w, TimeDelta = delta\<rparr>\<rparr>))))))"

definition muxer :: "(float64 \<Rightarrow> int) \<Rightarrow> (string \<times> string) list \<Rightarrow> string \<Rightarrow> Job \<Rightarrow> Job parsed" where
  "muxer platform opts target j =
     (let f = opt opts ''-f'' in
      (case find (\<lambda>k. map_of opts k \<noteq> None) (if f = ''dash'' then segmentOptions else dashOptions) of
         Some k \<Rightarrow> refuse ''%s with the %s muxer'' [k, f]
       | None \<Rightarrow> if f = ''dash'' then muxer_dash platform opts target j
           else if f = ''ssegment'' then muxer_hls platform opts target j
           else refuse ''muxer %q'' [f]))"

section \<open>Parse\<close>

record parse_state =
  p_job :: Job
  p_maps :: "string list"
  p_chains :: "chain list"
  p_opts :: "(string \<times> string) list"
  p_perOut :: "(int \<times> (string \<times> string) list) list"
  p_live :: bool

definition perOutOf :: "(int \<times> (string \<times> string) list) list \<Rightarrow> int \<Rightarrow> (string \<times> string) list" where
  "perOutOf m idx = (case map_of m idx of None \<Rightarrow> [] | Some os \<Rightarrow> os)"

definition set_perOut :: "int \<Rightarrow> string \<Rightarrow> string \<Rightarrow> parse_state \<Rightarrow> parse_state" where
  "set_perOut idx k v st = st\<lparr>p_perOut := AList.update idx (AList.update k v (perOutOf (p_perOut st) idx)) (p_perOut st)\<rparr>"

definition parse_input :: "(string \<Rightarrow> (string \<times> string) option) \<Rightarrow> string \<Rightarrow> parse_state \<Rightarrow> parse_state parsed" where
  "parse_input url v st = (case inputOf v of Inl e \<Rightarrow> Inl e
     | Inr i \<Rightarrow> (case (if p_live st then liveInput url i else Inr i) of Inl e \<Rightarrow> Inl e
         | Inr i' \<Rightarrow> Inr (st\<lparr>p_job := (p_job st)\<lparr>Inputs := Inputs (p_job st) @ [i']\<rparr>, p_live := False\<rparr>)))"

text \<open>One option with its value; \<open>input\<close> says it stands before the last \<open>-i\<close>.\<close>

definition parse_option :: "(float64 \<Rightarrow> int) \<Rightarrow> (string \<Rightarrow> (string \<times> string) option) \<Rightarrow> bool \<Rightarrow> string \<Rightarrow> string \<Rightarrow> string \<Rightarrow> string
    \<Rightarrow> parse_state \<Rightarrow> parse_state parsed" where
  "parse_option platform url input a base spec v st =
     (if base = ''-i'' then parse_input url v st
      else if base = ''-live_start_index''
      then (if \<not> input \<or> v \<noteq> ''0'' then refuse ''-live_start_index %q'' [v] else Inr (st\<lparr>p_live := True\<rparr>))
      else if base = ''-ss''
      then (if \<not> input then refuse ''-ss after the input'' []
            else (case ParseFloat v of None \<Rightarrow> refuse ''-ss %q'' [v]
              | Some s \<Rightarrow> if f_less s 0 then refuse ''-ss %q'' [v]
                  else Inr (st\<lparr>p_job := (p_job st)\<lparr>Start := nanos platform s\<rparr>\<rparr>)))
      else if input \<and> (base = ''-codec'' \<or> base = ''-eae_prefix'') then Inr st
      else if base \<in> set ignoredOptions then Inr st
      else if base = ''-metadata''
      then (case (cut_prefix spec ''s:'', cut_prefix v ''language='') of ((n, ok), (lang, lok)) \<Rightarrow>
              (case parse_int n of None \<Rightarrow> refuse ''option %q'' [a]
               | Some idx \<Rightarrow> if \<not> ok then refuse ''option %q'' [a]
                   else if \<not> lok then refuse ''metadata %q'' [v]
                   else Inr (set_perOut idx ''language'' lang st)))
      else if base \<in> set perOutput
      then (case parse_int spec of None \<Rightarrow> refuse ''option %q'' [a] | Some idx \<Rightarrow> Inr (set_perOut idx base v st))
      else if base = ''-map'' then Inr (st\<lparr>p_maps := p_maps st @ [v]\<rparr>)
      else if base = ''-filter_complex''
      then (case parseFilterComplex v of Inl e \<Rightarrow> Inl e | Inr cs \<Rightarrow> Inr (st\<lparr>p_chains := p_chains st @ cs\<rparr>))
      else if spec \<noteq> [] then refuse ''option %q'' [a]
      else (case map_of fixed base of
          Some want \<Rightarrow> if v \<noteq> want then refuse ''%s %q'' [base, v] else Inr (st\<lparr>p_opts := AList.update base v (p_opts st)\<rparr>)
        | None \<Rightarrow> Inr (st\<lparr>p_opts := AList.update base v (p_opts st)\<rparr>)))"

fun parse_args :: "(float64 \<Rightarrow> int) \<Rightarrow> (string \<Rightarrow> (string \<times> string) option) \<Rightarrow> nat option \<Rightarrow> nat \<Rightarrow> string list \<Rightarrow> parse_state
    \<Rightarrow> parse_state parsed" where
  "parse_args platform url final i [] st = Inr st"
| "parse_args platform url final i (a # as) st =
     (if a \<in> set flagOptions then parse_args platform url final (i + 1) as st
      else (case cut_at CHR '':'' a of (base, spec, _) \<Rightarrow>
        if base \<notin> set valueOptions then refuse ''option %q'' [a]
        else (case as of
            [] \<Rightarrow> refuse ''option %q'' [a]
          | v # as' \<Rightarrow> (case parse_option platform url (case final of Some l \<Rightarrow> i + 1 < l | None \<Rightarrow> False) a base spec v st of
              Inl e \<Rightarrow> Inl e
            | Inr st' \<Rightarrow> parse_args platform url final (i + 2) as' st'))))"

definition zero_job :: Job where
  "zero_job = \<lparr>Output = OutputHLS, Session = [], Inputs = [], Start = 0, Video = zero_video, Audio = None, Burn = None,
     Segments = \<lparr>Duration = 0, StartNumber = 0, Pattern = [], ListSize = 0, TimeDelta = 0\<rparr>,
     File = \<lparr>FFormat = [], MuxerOptions = Map.empty\<rparr>, Token = [], ProgressURL = [], SegmentListURL = [], ManifestURL = [],
     OutputPath = []\<rparr>"

text \<open>A text burn-in's null output at the end of the argv: the subtitle it renders, and the argv without it.\<close>

definition strip_null :: "string list \<Rightarrow> string \<times> string list" where
  "strip_null args = (let n = length args in
     if 8 \<le> n \<and> args ! (n - 7) = ''-map'' \<and> drop (n - 5) args = [''-f'', ''null'', ''-codec'', ''ass'', ''nullfile'']
     then (args ! (n - 6), take (n - 7) args) else ([], args))"

definition finish_parse :: "(float64 \<Rightarrow> int) \<Rightarrow> (string \<Rightarrow> (string \<times> string) option) \<Rightarrow> string \<Rightarrow> string \<Rightarrow> parse_state \<Rightarrow> Job parsed" where
  "finish_parse platform url nullMap target st =
     (let o1 = p_opts st; j = p_job st;
          j' = j\<lparr>ProgressURL := opt o1 ''-progressurl'', SegmentListURL := opt o1 ''-segment_list'',
                ManifestURL := opt o1 ''-manifest_name'',
                Session := sessionOf (map_option snd \<circ> url) (opt o1 ''-progressurl'')\<rparr> in
      if Inputs j = [] then refuse ''no input'' []
      else if p_live st then refuse ''-live_start_index without an input'' []
      else if ProgressURL j' = [] \<or> Session j' = [] then refuse ''no progress URL naming a session'' []
      else (case outputs platform (p_maps st) (p_chains st) (p_perOut st) j' of Inl e \<Rightarrow> Inl e
        | Inr j1 \<Rightarrow> (case textBurn (opt o1 ''-map_inlineass'') nullMap j1 of Inl e \<Rightarrow> Inl e
            | Inr j2 \<Rightarrow> muxer platform o1 target j2)))"

definition Parse :: "(float64 \<Rightarrow> int) \<Rightarrow> (string \<Rightarrow> (string \<times> string) option) \<Rightarrow> string list \<Rightarrow> (string \<times> string) list \<Rightarrow> Job parsed" where
  "Parse platform url args env =
     (if length args < 2 \<or> prefix ''-'' (last args) then refuse ''no output'' []
      else (case strip_null args of (nullMap, args) \<Rightarrow>
        (let target = last args; args = butlast args in
         case parse_args platform url (lastInput args) 0 args
             \<lparr>p_job = zero_job\<lparr>Token := opt env ''X_PLEX_TOKEN''\<rparr>, p_maps = [], p_chains = [], p_opts = [], p_perOut = [], p_live = False\<rparr> of
           Inl e \<Rightarrow> Inl e
         | Inr st \<Rightarrow> finish_parse platform url nullMap target st)))"

end
