(* ===== verification/Video_Parse_Sound.thy ===== *)
theory Video_Parse_Sound
  imports Video_Parse "HOL-Library.Multiset"
begin

text \<open>
  What the parser of conversions guarantees: the shape of every job it accepts, that the order in which Go ranges over an
  output's options does not matter, and how close the frame rate it hands the encoder is to the one Plex printed.
\<close>

section \<open>What an accepted job satisfies\<close>

text \<open>An input is a library file the worker opens itself, under \<open>/media\<close> and not climbing out of it, or a source the
  manager streams.\<close>

definition good_input :: "Input \<Rightarrow> bool" where
  "good_input i \<longleftrightarrow> (if Streamed i then IPath i = [] \<and> Source i \<noteq> [] \<and> (Live i \<longrightarrow> IFormat i = ''mpegts'')
     else prefix ''/media/'' (IPath i) \<and> \<not> sublist ''/../'' (IPath i) \<and> Source i = [] \<and> \<not> Live i)"

definition good_video :: "VideoOut \<Rightarrow> bool" where
  "good_video v \<longleftrightarrow> 0 < Width v \<and> 0 < Height v \<and> PixFmt v \<in> {''nv12'', ''yuv420p''} \<and> Den (FrameRate v) \<noteq> 0
     \<and> 0 < KeyframeEvery v \<and> 0 < MaxRate v \<and> 0 < BufSize v"

definition audio_shape :: "AudioOut \<Rightarrow> bool" where
  "audio_shape a \<longleftrightarrow> Channels a \<in> {0, 1, 2} \<and> 0 \<le> SampleRate a"

definition good_audio :: "AudioOut \<Rightarrow> bool" where
  "good_audio a \<longleftrightarrow> (if Copy a then Channels a = 0 \<and> SampleRate a = 0 else BitRate a \<noteq> 0)
     \<and> audio_shape a"

definition good_burn :: "Job \<Rightarrow> bool" where
  "good_burn j \<longleftrightarrow> pred_option (\<lambda>b. 0 \<le> BInput b \<and> BInput b < int (length (Inputs j))
     \<and> (Image b \<longrightarrow> BInput b = 0 \<and> BStream b \<noteq> VStream (Video j))) (Burn j)"

definition good_segments :: "Job \<Rightarrow> bool" where
  "good_segments j \<longleftrightarrow> (let s = Segments j in 0 < Duration s \<and> 0 \<le> ListSize s \<and> 0 \<le> TimeDelta s \<and>
     (case Output j of
        OutputHLS \<Rightarrow> 0 \<le> StartNumber s \<and> Pattern s = ''media-%05d.ts'' \<and> SegmentListURL j \<noteq> []
      | OutputDASH \<Rightarrow> 1 \<le> StartNumber s \<and> Pattern s = MediaName \<and> ManifestURL j \<noteq> []
      | OutputFile \<Rightarrow> False))"

definition good_job :: "Job \<Rightarrow> bool" where
  "good_job j \<longleftrightarrow> Inputs j \<noteq> [] \<and> list_all good_input (Inputs j) \<and> Session j \<noteq> [] \<and> ProgressURL j \<noteq> []
     \<and> good_video (Video j) \<and> pred_option good_audio (Audio j) \<and> good_burn j \<and> good_segments j"

subsection \<open>The loop over the arguments\<close>

definition args_inv :: "parse_state \<Rightarrow> bool" where
  "args_inv st \<longleftrightarrow> list_all good_input (Inputs (p_job st)) \<and> Burn (p_job st) = None \<and> Audio (p_job st) = None"

lemma inputOf_good: "inputOf v = Inr i \<Longrightarrow> good_input i"
  by (auto simp: inputOf_def good_input_def split: if_splits)

lemma liveInput_good: "liveInput url i = Inr i' \<Longrightarrow> good_input i \<Longrightarrow> good_input i'"
  by (auto simp: liveInput_def good_input_def split: option.splits if_splits)

lemma parse_input_inv: "parse_input url v st = Inr st' \<Longrightarrow> args_inv st \<Longrightarrow> args_inv st'"
  by (auto simp: parse_input_def args_inv_def dest: inputOf_good liveInput_good split: sum.splits if_splits)

lemma set_perOut_inv [simp]: "args_inv (set_perOut idx k v st) = args_inv st"
  by (simp add: args_inv_def set_perOut_def)

lemma parse_option_inv:
  assumes "parse_option platform url inp a base spec v st = Inr st'" and "args_inv st"
  shows "args_inv st'"
proof (cases "base = ''-i''")
  case True
  with assms show ?thesis using parse_input_inv by (simp add: parse_option_def)
next
  case False
  with assms show ?thesis
    by (auto simp: parse_option_def args_inv_def [of "st\<lparr>p_live := True\<rparr>"] split: if_splits option.splits sum.splits prod.splits)
      (auto simp: args_inv_def)
qed

lemma parse_args_inv: "parse_args platform url final i as st = Inr st' \<Longrightarrow> args_inv st \<Longrightarrow> args_inv st'"
proof (induction platform url final i as st rule: parse_args.induct)
  case (2 platform url final i a as st)
  from "2.prems" show ?case
    by (auto split: if_splits prod.splits list.splits sum.splits dest: "2.IH" parse_option_inv)
qed simp

subsection \<open>The video output\<close>

lemma scale_args_ok:
  "scale_args as v = Inr v' \<Longrightarrow> 0 \<le> Width v \<Longrightarrow> 0 \<le> Height v \<Longrightarrow>
     0 \<le> Width v' \<and> 0 \<le> Height v' \<and> PixFmt v' = PixFmt v \<and> VStream v' = VStream v"
  by (induction as v rule: scale_args.induct) (auto split: if_splits option.splits)

lemma pixFmt_ok: "pixFmt l = Inr p \<Longrightarrow> p \<in> {''nv12'', ''yuv420p''}"
  by (auto simp: pixFmt_def split: if_splits option.splits)

text \<open>What the filters keep: sizes that are not negative, a format of the two or none yet, and a job changed only by a
  text burn-in.\<close>

definition filters_inv :: "int \<Rightarrow> Job \<Rightarrow> VideoOut \<times> Job \<Rightarrow> bool" where
  "filters_inv src j0 vj \<longleftrightarrow> (case vj of (v, j) \<Rightarrow> VStream v = src \<and> 0 \<le> Width v \<and> 0 \<le> Height v
     \<and> PixFmt v \<in> {[], ''nv12'', ''yuv420p''} \<and> (\<exists>b. j = j0\<lparr>Burn := b\<rparr> \<and> pred_option (\<lambda>b. \<not> Image b \<and> BInput b = 0) b))"

lemma video_filter_inv: "video_filter platform f vj = Inr vj' \<Longrightarrow> filters_inv src j0 vj \<Longrightarrow> filters_inv src j0 vj'"
  by (auto simp: video_filter_def filters_inv_def dest: scale_args_ok pixFmt_ok split: if_splits sum.splits prod.splits)

lemma video_filters_inv: "video_filters platform fs vj = Inr vj' \<Longrightarrow> filters_inv src j0 vj \<Longrightarrow> filters_inv src j0 vj'"
  by (induction platform fs vj rule: video_filters.induct) (auto split: sum.splits dest: video_filter_inv)

lemma imageBurn_ok:
  "imageBurn video v ov j = Inr j' \<Longrightarrow> Burn j = None \<and> (\<exists>b. j' = j\<lparr>Burn := Some b\<rparr> \<and> BInput b = 0 \<and> BStream b \<noteq> video)"
  by (auto simp: imageBurn_def split: if_splits list.splits option.splits)

lemma video_opts_keep:
  "video_opts platform os v = Inr v' \<Longrightarrow> Width v' = Width v \<and> Height v' = Height v \<and> PixFmt v' = PixFmt v \<and> VStream v' = VStream v"
  by (induction platform os v rule: video_opts.induct)
    (auto simp: video_opt_def Let_def split: sum.splits if_splits option.splits)

lemma videoOut_ok:
  assumes "videoOut platform out j = Inr j'" and "Burn j = None"
  shows "good_video (Video j') \<and> (\<exists>v b. j' = j\<lparr>Burn := b, Video := v\<rparr>
    \<and> pred_option (\<lambda>b. BInput b = 0 \<and> (Image b \<longrightarrow> BStream b \<noteq> VStream v)) b)"
proof -
  let ?v0 = "zero_video\<lparr>VStream := om_src out\<rparr>"
  have start: "filters_inv (om_src out) j (?v0, j)"
    using assms(2) by (auto simp: filters_inv_def zero_video_def intro!: exI [of _ None])
  from assms(1) obtain v1 j1 j2 v2 where step:
    "video_filters platform (om_filters out) (?v0, j) = Inr (v1, j1)"
    "Width v1 \<noteq> 0" "Height v1 \<noteq> 0" "PixFmt v1 \<noteq> []"
    "(case om_overlay out of None \<Rightarrow> Inr j1 | Some ov \<Rightarrow> imageBurn (om_src out) v1 ov j1) = Inr j2"
    "video_opts platform (om_opts out) v1 = Inr v2"
    "Den (FrameRate v2) \<noteq> 0" "0 < KeyframeEvery v2" "0 < MaxRate v2" "0 < BufSize v2" "j' = j2\<lparr>Video := v2\<rparr>"
    by (auto simp: videoOut_def split: sum.splits prod.splits if_splits)
  note keep = video_opts_keep [OF step(6)]
  from video_filters_inv [OF step(1) start] obtain b1 where f: "VStream v1 = om_src out" "0 \<le> Width v1" "0 \<le> Height v1"
    "PixFmt v1 \<in> {[], ''nv12'', ''yuv420p''}" "j1 = j\<lparr>Burn := b1\<rparr>" "pred_option (\<lambda>b. \<not> Image b \<and> BInput b = 0) b1"
    by (auto simp: filters_inv_def)
  have "\<exists>b. j2 = j\<lparr>Burn := b\<rparr> \<and> pred_option (\<lambda>b. BInput b = 0 \<and> (Image b \<longrightarrow> BStream b \<noteq> VStream v2)) b"
  proof (cases "om_overlay out")
    case None
    with step(5) f(5,6) show ?thesis by (auto intro!: exI [of _ b1] elim: option.pred_mono_strong)
  next
    case (Some ov)
    with step(5) imageBurn_ok [of "om_src out" v1 ov j1 j2] keep f(1,5) show ?thesis by auto
  qed
  moreover have "good_video v2" using step f keep by (auto simp: good_video_def)
  ultimately show ?thesis using step(11) by auto
qed

subsection \<open>The audio output\<close>

lemma resample_args_ok: "resample_args xs a = Inr a' \<Longrightarrow> Copy a' = Copy a \<and> (audio_shape a \<longrightarrow> audio_shape a')"
  by (induction xs a rule: resample_args.induct) (auto simp: audio_shape_def split: if_splits option.splits)

lemma audio_filters_ok: "audio_filters fs a = Inr a' \<Longrightarrow> Copy a' = Copy a \<and> (Copy a \<longrightarrow> a' = a) \<and> (audio_shape a \<longrightarrow> audio_shape a')"
proof (induction fs a rule: audio_filters.induct)
  case (2 f fs a)
  then obtain a1 where "\<not> Copy a" "f_name f = ''aresample''" "resample_args (f_args f) a = Inr a1" "audio_filters fs a1 = Inr a'"
    by (auto split: if_splits sum.splits)
  with "2.IH" [of a1] resample_args_ok [of "f_args f" a a1] show ?case by simp
qed simp

lemma audio_opts_keep: "audio_opts os a = Inr a' \<Longrightarrow> Copy a' = Copy a \<and> Channels a' = Channels a \<and> SampleRate a' = SampleRate a"
  by (induction os a rule: audio_opts.induct) (auto simp: audio_opt_def split: sum.splits if_splits option.splits)

lemma audioOut_ok:
  assumes "audioOut out = Inr a"
  shows "good_audio a"
proof -
  define a0 where "a0 = \<lparr>AStream = om_src out, Copy = (opt (om_opts out) ''-codec'' = ''copy''), Channels = 0,
    SampleRate = 0, BitRate = 0, Language = opt (om_opts out) ''language''\<rparr>"
  have a0: "audio_shape a0" "Channels a0 = 0" "SampleRate a0 = 0" by (simp_all add: a0_def audio_shape_def)
  obtain a1 where "audio_filters (om_filters out) a0 = Inr a1" "audio_opts (om_opts out) a1 = Inr a" "Copy a \<or> BitRate a \<noteq> 0"
    using assms by (auto simp: audioOut_def a0_def split: sum.splits if_splits)
  with a0 audio_filters_ok [of "om_filters out" a0 a1] audio_opts_keep [of "om_opts out" a1 a]
  show ?thesis by (auto simp: good_audio_def audio_shape_def)
qed

subsection \<open>All outputs, the burn-in, the muxer\<close>

definition outputs_inv :: "Job \<Rightarrow> bool \<Rightarrow> Job \<Rightarrow> bool" where
  "outputs_inv j0 video j \<longleftrightarrow> (\<exists>v b a. j = j0\<lparr>Burn := b, Video := v, Audio := a\<rparr> \<and> pred_option good_audio a
     \<and> (if video then good_video v \<and> pred_option (\<lambda>b. BInput b = 0 \<and> (Image b \<longrightarrow> BStream b \<noteq> VStream v)) b else b = None))"

lemma outputs_loop_inv:
  "outputs_loop platform i outs video j = Inr (video', j') \<Longrightarrow> outputs_inv j0 (video \<noteq> None) j \<Longrightarrow> outputs_inv j0 (video' \<noteq> None) j'"
proof (induction platform i outs video j rule: outputs_loop.induct)
  case (2 platform i out outs video j)
  let ?codec = "opt (om_opts out) ''-codec''"
  consider (video) j1 where "?codec \<noteq> []" "?codec \<in> set videoEncoders" "video = None" "videoOut platform out j = Inr j1"
      "outputs_loop platform (i + 1) outs (Some i) j1 = Inr (video', j')"
    | (audio) a where "?codec \<noteq> []" "?codec \<notin> set videoEncoders" "?codec = ''aac'' \<or> ?codec = ''copy''" "Audio j = None" "audioOut out = Inr a"
      "outputs_loop platform (i + 1) outs video (j\<lparr>Audio := Some a\<rparr>) = Inr (video', j')"
    using "2.prems"(1) by (auto simp: Let_def split: if_splits sum.splits)
  then show ?case
  proof cases
    case video
    with "2.prems"(2) obtain v a where j: "j = j0\<lparr>Burn := None, Video := v, Audio := a\<rparr>" "pred_option good_audio a"
      by (auto simp: outputs_inv_def)
    from j(1) have "Burn j = None" by simp
    from videoOut_ok [OF video(4) this] obtain v1 b1 where "good_video (Video j1)" "j1 = j\<lparr>Burn := b1, Video := v1\<rparr>"
      "pred_option (\<lambda>b. BInput b = 0 \<and> (Image b \<longrightarrow> BStream b \<noteq> VStream v1)) b1" by blast
    with j have "outputs_inv j0 True j1" unfolding outputs_inv_def by (intro exI [of _ v1] exI [of _ b1] exI [of _ a]) simp
    then show ?thesis using video(5) by (intro "2.IH"(1) [OF refl video(1,2) _ video(4)]) (simp_all add: video(3))
  next
    case audio
    have "outputs_inv j0 (video \<noteq> None) (j\<lparr>Audio := Some a\<rparr>)"
      using "2.prems"(2) audioOut_ok [OF audio(5)] by (fastforce simp: outputs_inv_def)
    then show ?thesis using audio by (intro "2.IH"(2) [OF refl audio(1,2,3) _ audio(5)]) simp_all
  qed
qed simp

lemma outputs_ok:
  assumes "outputs platform maps cs perOut j = Inr j'" and "Burn j = None" and "Audio j = None"
  shows "outputs_inv j True j'"
proof -
  have "j = j\<lparr>Burn := None, Video := Video j, Audio := None\<rparr>" using assms(2,3) by simp
  then have "outputs_inv j False j" unfolding outputs_inv_def by (metis (full_types) option.pred_inject(1))
  moreover obtain outs video where "outputs_loop platform 0 outs None j = Inr (video, j')" "video \<noteq> None"
    using assms(1) by (auto simp: outputs_def split: sum.splits option.splits if_splits)
  ultimately show ?thesis using outputs_loop_inv [of platform 0 outs None j video j' j] by simp
qed

lemma textBurn_ok:
  assumes "textBurn mapped nullMap j = Inr j'"
    and "pred_option (\<lambda>b. BInput b = 0 \<and> (Image b \<longrightarrow> BStream b \<noteq> VStream (Video j))) (Burn j)" and "Inputs j \<noteq> []"
  shows "good_burn j' \<and> (\<exists>b. j' = j\<lparr>Burn := b\<rparr>)"
proof (cases "\<exists>b. Burn j = Some b \<and> \<not> Image b")
  case True
  then obtain b where b: "Burn j = Some b" "\<not> Image b" by blast
  with assms(1) obtain i sub n where "inlineRef mapped = Some (i, sub, n)" "i < int (length (Inputs j))"
      "j' = j\<lparr>Burn := Some (b\<lparr>BInput := i, BStream := n\<rparr>)\<rparr>"
    by (auto simp: textBurn_def Let_def split: if_splits option.splits)
  moreover have "0 \<le> i" using \<open>inlineRef mapped = Some (i, sub, n)\<close>
    by (auto simp: inlineRef_def Let_def atoi_clamped_def split: prod.splits if_splits)
  ultimately show ?thesis using b by (auto simp: good_burn_def)
next
  case False
  then have none: "(case Burn j of Some b \<Rightarrow> \<not> Image b | None \<Rightarrow> False) = False" by (auto split: option.splits)
  have bounds: "good_burn j" using assms(2,3) by (auto simp: good_burn_def elim!: option.pred_mono_strong)
  show ?thesis
  proof (cases "Burn j")
    case None
    have "inlineRef [] = None" by (simp add: inlineRef_def)
    with None none assms(1) have "j' = j" by (auto simp: textBurn_def Let_def split: if_splits option.splits)
    then show ?thesis using bounds by (auto intro: exI [of _ "Burn j"])
  next
    case (Some b)
    with none have img: "Image b" by simp
    have "inlineRef [] = None" by (simp add: inlineRef_def)
    with Some img assms(1) have "j' = j" by (auto simp: textBurn_def Let_def split: if_splits option.splits)
    then show ?thesis using bounds by (auto intro: exI [of _ "Burn j"])
  qed
qed

lemma int_opt_ok: "int_opt opts k low d = Inr n \<Longrightarrow> low \<le> d \<Longrightarrow> low \<le> n"
  by (auto simp: int_opt_def split: option.splits if_splits)

lemma duration_opt_ok: "duration_opt platform opts k = Inr d \<Longrightarrow> 0 < d"
  by (auto simp: duration_opt_def split: option.splits if_splits)

lemma delta_opt_ok: "delta_opt platform opts k = Inr d \<Longrightarrow> 0 \<le> d"
  by (auto simp: delta_opt_def split: option.splits if_splits)

lemma muxer_ok:
  assumes "muxer platform opts target j = Inr j'" and "ManifestURL j = opt opts ''-manifest_name''"
  shows "good_segments j' \<and> (\<exists>k s. j' = j\<lparr>Output := k, Segments := s\<rparr>)"
proof -
  consider "muxer_dash platform opts target j = Inr j'" | "muxer_hls platform opts target j = Inr j'"
    using assms(1) by (auto simp: muxer_def Let_def split: option.splits if_splits)
  then show ?thesis
  proof cases
    case 1
    with assms(2) show ?thesis
      by (auto simp: muxer_dash_def good_segments_def split: if_splits option.splits sum.splits
          dest!: duration_opt_ok int_opt_ok)
  next
    case 2
    then show ?thesis
      by (auto simp: muxer_hls_def good_segments_def split: if_splits option.splits sum.splits
          dest!: duration_opt_ok delta_opt_ok int_opt_ok)
  qed
qed

lemma finish_parse_ok:
  assumes "finish_parse platform url nullMap target st = Inr j" and "args_inv st"
  shows "good_job j"
proof -
  define j0 where "j0 = (p_job st)\<lparr>ProgressURL := opt (p_opts st) ''-progressurl'', SegmentListURL := opt (p_opts st) ''-segment_list'',
    ManifestURL := opt (p_opts st) ''-manifest_name'', Session := sessionOf (map_option snd \<circ> url) (opt (p_opts st) ''-progressurl'')\<rparr>"
  obtain j1 j2 where step: "Inputs (p_job st) \<noteq> []" "ProgressURL j0 \<noteq> []" "Session j0 \<noteq> []"
    "outputs platform (p_maps st) (p_chains st) (p_perOut st) j0 = Inr j1"
    "textBurn (opt (p_opts st) ''-map_inlineass'') nullMap j1 = Inr j2" "muxer platform (p_opts st) target j2 = Inr j"
    using assms(1) by (auto simp: finish_parse_def Let_def j0_def split: if_splits sum.splits)
  have j0: "list_all good_input (Inputs j0)" "Burn j0 = None" "Audio j0 = None" "Inputs j0 \<noteq> []"
    "ManifestURL j0 = opt (p_opts st) ''-manifest_name''"
    using assms(2) step(1) by (simp_all add: j0_def args_inv_def)
  from outputs_ok [OF step(4) j0(2,3)] obtain v b a where j1: "j1 = j0\<lparr>Burn := b, Video := v, Audio := a\<rparr>"
    "pred_option good_audio a" "good_video v" "pred_option (\<lambda>b. BInput b = 0 \<and> (Image b \<longrightarrow> BStream b \<noteq> VStream v)) b"
    by (auto simp: outputs_inv_def)
  from textBurn_ok [OF step(5)] j1 j0(4) obtain b' where j2: "good_burn j2" "j2 = j1\<lparr>Burn := b'\<rparr>" by auto
  from muxer_ok [OF step(6)] j2(2) j1(1) j0(5) obtain k s where "good_segments j" "j = j2\<lparr>Output := k, Segments := s\<rparr>" by auto
  then show ?thesis using j0 j1 j2 step(2,3) by (simp add: good_job_def good_burn_def)
qed


text \<open>A captured conversion, shortened.\<close>

definition demo_argv :: "string list" where
  "demo_argv = [''-codec:0'', ''hevc'', ''-i'', ''/media/m/a.mp4'', ''-copyts'', ''-progressurl'', ''http://p/session/s1/u/progress'',
     ''-filter_complex'', ''[0:0]scale=w=720:h=404[0];[0]format=pix_fmts=yuv420p|nv12[1]'', ''-map'', ''[1]'',
     ''-codec:0'', ''libx264'', ''-crf:0'', ''17'', ''-maxrate:0'', ''1818k'', ''-bufsize:0'', ''3636k'', ''-r:0'', ''23.976'',
     ''-force_key_frames:0'', ''expr:gte(t,n_forced*8)'', ''-map'', ''0:2'', ''-codec:1'', ''copy'',
     ''-segment_format'', ''mpegts'', ''-f'', ''ssegment'', ''-segment_time'', ''8'', ''-segment_list'', ''http://p/l'', ''media-%05d.ts'']"

definition demo_url :: "string \<Rightarrow> (string \<times> string) option" where
  "demo_url s = Some (''http'', drop (length ''http://p'') s)"

definition demo_video :: VideoOut where
  "demo_video = \<lparr>VStream = 0, Width = 720, Height = 404, PixFmt = ''nv12'', CRF = 17, MaxRate = 1818000, BufSize = 3636000,
     FrameRate = \<lparr>Num = 24000, Den = 1001\<rparr>, KeyframeEvery = 8 * second, Deinterlace = False, ToneMap = False\<rparr>"

definition demo_outs :: "out_map list" where
  "demo_outs = [\<lparr>om_src = 0, om_filters = [\<lparr>f_name = ''scale'', f_args = [\<lparr>arg_k = ''w'', arg_v = ''720''\<rparr>, \<lparr>arg_k = ''h'', arg_v = ''404''\<rparr>]\<rparr>,
       \<lparr>f_name = ''format'', f_args = [\<lparr>arg_k = ''pix_fmts'', arg_v = ''yuv420p|nv12''\<rparr>]\<rparr>], om_overlay = None,
       om_opts = [(''-codec'', ''libx264''), (''-crf'', ''17''), (''-maxrate'', ''1818k''), (''-bufsize'', ''3636k''), (''-r'', ''23.976''),
         (''-force_key_frames'', ''expr:gte(t,n_forced*8)'')]\<rparr>,
     \<lparr>om_src = 2, om_filters = [], om_overlay = None, om_opts = [(''-codec'', ''copy'')]\<rparr>]"

definition demo_opts :: "(string \<times> string) list" where
  "demo_opts = [(''-progressurl'', ''http://p/session/s1/u/progress''), (''-segment_format'', ''mpegts''), (''-f'', ''ssegment''),
     (''-segment_time'', ''8''), (''-segment_list'', ''http://p/l'')]"

lemma demo_args:
  "map_sum id (\<lambda>st. (p_opts st, p_live st, Inputs (p_job st) \<noteq> [], Burn (p_job st) = None, Audio (p_job st) = None,
       resolve_maps 0 (p_maps st) (p_chains st) (p_perOut st), map fst (p_perOut st)))
     (parse_args (\<lambda>_. 0) demo_url (lastInput (butlast demo_argv)) 0 (butlast demo_argv)
       \<lparr>p_job = zero_job\<lparr>Token := opt [] ''X_PLEX_TOKEN''\<rparr>, p_maps = [], p_chains = [], p_opts = [], p_perOut = [], p_live = False\<rparr>)
   = Inr (demo_opts, False, True, True, True, Inr demo_outs, [0, 1])"
  by code_simp

lemma demo_floats:
  "ParseFloat ''23.976'' = Some (Fin (210895126300459 / 8796093022208))" "ParseFloat ''8'' = Some (Fin 8)"
  "near_ntsc (Fin (210895126300459 / 8796093022208)) 24"
  "f_mul (Fin 8) (Fin 1000000000) = Fin 8000000000"
  by (simp_all add: parse_float_eval near_ntsc_def ntsc_rate_def Let_def)

lemma demo_values:
  "seconds (\<lambda>_. 0) ''8'' = Some (8 * second)" "frameRate (\<lambda>_. 0) ''23.976'' = Some \<lparr>Num = 24000, Den = 1001\<rparr>"
  "nanos (\<lambda>_. 0) (Fin 8) = 8 * second"
  by (simp_all add: seconds_def nanos_def frameRate_def demo_floats round_away_def trunc_int_def in_int64_def floor_rat_numeral del: f_mul.simps)

lemma demo_videoOut:
  assumes "Burn j = None"
  shows "videoOut (\<lambda>_. 0) (demo_outs ! 0) j = Inr (j\<lparr>Video := demo_video\<rparr>)"
proof -
  have ints: "parse_int ''17'' = Some 17" "bitRate ''1818k'' = Some 1818000" "bitRate ''3636k'' = Some 3636000"
      "keyframeExpr ''expr:gte(t,n_forced*8)'' = Some ''8''" "pixFmt ''yuv420p|nv12'' = Inr ''nv12''"
      "parse_int ''720'' = Some 720" "parse_int ''404'' = Some 404"
    by code_simp+
  show ?thesis
    by (simp add: videoOut_def demo_outs_def video_filter_def video_opt_def keyframe_every_def ints demo_values demo_floats
        zero_video_def demo_video_def Let_def)
qed
lemma parse_demo: "\<exists>j. Parse (\<lambda>_. 0) demo_url demo_argv [] = Inr j \<and> Session j = ''s1'' \<and> Video j = demo_video"
proof -
  let ?s0 = "\<lparr>p_job = zero_job\<lparr>Token := opt [] ''X_PLEX_TOKEN''\<rparr>, p_maps = [], p_chains = [], p_opts = [], p_perOut = [], p_live = False\<rparr>"
  obtain st where st: "parse_args (\<lambda>_. 0) demo_url (lastInput (butlast demo_argv)) 0 (butlast demo_argv) ?s0 = Inr st"
    "p_opts st = demo_opts" "\<not> p_live st" "Inputs (p_job st) \<noteq> []" "Burn (p_job st) = None" "Audio (p_job st) = None"
    "resolve_maps 0 (p_maps st) (p_chains st) (p_perOut st) = Inr demo_outs" "map fst (p_perOut st) = [0, 1]"
    using demo_args by (cases "parse_args (\<lambda>_. 0) demo_url (lastInput (butlast demo_argv)) 0 (butlast demo_argv) ?s0") auto
  have idx: "find (\<lambda>(idx, _). idx < 0 \<or> int (length demo_outs) \<le> idx) (p_perOut st) = None"
    using st(8) by (auto simp: find_None_iff demo_outs_def)
  have outs: "demo_outs = [demo_outs ! 0, demo_outs ! Suc 0]" "opt (om_opts (demo_outs ! 0)) ''-codec'' = ''libx264''"
     "opt (om_opts (demo_outs ! Suc 0)) ''-codec'' = ''copy''" "\<exists>a. audioOut (demo_outs ! Suc 0) = Inr a"
    by (simp_all add: demo_outs_def opt_def audioOut_def audio_opt_def)
  obtain a where a: "audioOut (demo_outs ! Suc 0) = Inr a" using outs(4) by blast
  have loop: "outputs_loop (\<lambda>_. 0) 0 demo_outs None j = Inr (Some 0, j\<lparr>Video := demo_video, Audio := Some a\<rparr>)"
    if "Burn j = None" "Audio j = None" for j
    using that by (subst outs(1)) (simp add: outs(2,3) a videoEncoders_def demo_videoOut Let_def)
  have strip: "strip_null demo_argv = ([], demo_argv)" "2 \<le> length demo_argv" "\<not> prefix ''-'' ''media-%05d.ts''" "last demo_argv = ''media-%05d.ts''"
    by code_simp+
  have session: "sessionOf (map_option snd \<circ> demo_url) ''http://p/session/s1/u/progress'' = ''s1''" by code_simp
  have opts: "opt demo_opts ''-progressurl'' = ''http://p/session/s1/u/progress''" "opt demo_opts ''-map_inlineass'' = []"
    "opt demo_opts ''-f'' = ''ssegment''" "find (\<lambda>k. map_of demo_opts k \<noteq> None) dashOptions = None"
    "opt demo_opts ''-segment_format'' = ''mpegts''" "opt demo_opts ''-segment_time'' = ''8''"
    "map_of demo_opts ''-segment_time_delta'' = None" "map_of demo_opts ''-segment_start_number'' = None" "map_of demo_opts ''-segment_list_size'' = None"
    "opt demo_opts ''-segment_list'' = ''http://p/l''"
    by code_simp+
  have dash: "find (\<lambda>k. \<exists>y. map_of demo_opts k = Some y) dashOptions = None" using opts(4) by simp
  have long: "\<not> length demo_argv < 2" using strip(2) by simp
  show ?thesis
    by (simp add: Parse_def dash long Let_def strip(1,3,4) st(1) finish_parse_def st(2-7) opts session outputs_def idx loop textBurn_def muxer_def muxer_hls_def
       duration_opt_def delta_opt_def int_opt_def demo_values)
qed

section \<open>The order of a map's entries\<close>

text \<open>The change an option makes to the output, \<open>None\<close> where it is refused.\<close>

definition video_change :: "(float64 \<Rightarrow> int) \<Rightarrow> string \<times> string \<Rightarrow> (VideoOut \<Rightarrow> VideoOut) option" where
  "video_change platform kv = (case kv of (k, val) \<Rightarrow>
      if k \<in> {''-codec'', ''-preset'', ''-x264opts''} then Some id
      else if k = ''-crf'' then map_option (\<lambda>n v. v\<lparr>CRF := n\<rparr>) (parse_int val)
      else if k = ''-maxrate'' then map_option (\<lambda>n v. v\<lparr>MaxRate := n\<rparr>) (bitRate val)
      else if k = ''-bufsize'' then map_option (\<lambda>n v. v\<lparr>BufSize := n\<rparr>) (bitRate val)
      else if k = ''-r'' then map_option (\<lambda>r v. v\<lparr>FrameRate := r\<rparr>) (frameRate platform val)
      else if k = ''-force_key_frames'' then map_option (\<lambda>n v. v\<lparr>KeyframeEvery := keyframe_every platform n\<rparr>) (keyframeExpr val)
      else None)"

definition audio_change :: "string \<times> string \<Rightarrow> (AudioOut \<Rightarrow> AudioOut) option" where
  "audio_change kv = (case kv of (k, val) \<Rightarrow>
      if k = ''-codec'' \<or> k = ''language'' then Some id
      else if k = ''-copypriorss'' then (if val \<noteq> ''0'' then None else Some id)
      else if k = ''-b'' then map_option (\<lambda>n a. a\<lparr>BitRate := n\<rparr>) (bitRate val)
      else None)"

lemma video_opts_fold:
  "video_opts platform os v = Inr v' \<longleftrightarrow> (\<forall>x \<in> set os. video_change platform x \<noteq> None) \<and> v' = fold (\<lambda>x. the (video_change platform x)) os v"
proof (induction platform os v rule: video_opts.induct)
  case (2 platform x os v)
  have "(\<exists>e. video_opt platform (fst x) (snd x) v = Inl e \<and> video_change platform x = None)
      \<or> (\<exists>u. video_opt platform (fst x) (snd x) v = Inr (u v) \<and> video_change platform x = Some u)"
    by (cases x) (auto simp: video_opt_def video_change_def Let_def split: option.splits)
  with 2 show ?case by auto
qed auto

lemma audio_opts_fold:
  "audio_opts os v = Inr v' \<longleftrightarrow> (\<forall>x \<in> set os. audio_change x \<noteq> None) \<and> v' = fold (\<lambda>x. the (audio_change x)) os v"
proof (induction os v rule: audio_opts.induct)
  case (2 x os v)
  have "(\<exists>e. audio_opt (fst x) (snd x) v = Inl e \<and> audio_change x = None)
      \<or> (\<exists>u. audio_opt (fst x) (snd x) v = Inr (u v) \<and> audio_change x = Some u)"
    by (cases x) (auto simp: audio_opt_def audio_change_def split: option.splits)
  with 2 show ?case by auto
qed auto

lemma changes_commute:
  "fst x \<noteq> fst y \<Longrightarrow> video_change platform x = Some f \<Longrightarrow> video_change platform y = Some g \<Longrightarrow> f (g v) = g (f v)"
  "fst x \<noteq> fst y \<Longrightarrow> audio_change x = Some f' \<Longrightarrow> audio_change y = Some g' \<Longrightarrow> f' (g' a) = g' (f' a)"
  by (cases x; cases y; auto simp: video_change_def audio_change_def split: if_splits)+

lemma fold_changes_perm:
  assumes "mset os' = mset os" and "distinct (map fst os)" and "\<forall>x \<in> set os. chg x \<noteq> None"
    and "\<And>x y f g s. fst x \<noteq> fst y \<Longrightarrow> chg x = Some f \<Longrightarrow> chg y = Some g \<Longrightarrow> f (g s) = g (f s)"
  shows "fold (\<lambda>x. the (chg x)) os' s = fold (\<lambda>x. the (chg x)) os s"
proof -
  have "the (chg x) \<circ> the (chg y) = the (chg y) \<circ> the (chg x)" if xy: "x \<in> set os" "y \<in> set os" for x y
  proof (cases "x = y")
    case False
    then have "fst x \<noteq> fst y" using xy assms(2) by (auto simp: distinct_map inj_on_def)
    moreover obtain f g where "chg x = Some f" "chg y = Some g" using xy assms(3) by blast
    ultimately show ?thesis using assms(4) [of x y f g] by (simp add: fun_eq_iff)
  qed simp
  then have "fold (\<lambda>x. the (chg x)) os = fold (\<lambda>x. the (chg x)) os'"
    using assms(1) by (intro fold_multiset_equiv) simp_all
  then show ?thesis by simp
qed

lemma video_opts_perm:
  assumes "mset os' = mset os" and "distinct (map fst os)"
  shows "video_opts platform os' v = Inr v' \<longleftrightarrow> video_opts platform os v = Inr v'"
proof -
  have sets: "set os' = set os" by (rule mset_eq_setD [OF assms(1)])
  have "fold (\<lambda>x. the (video_change platform x)) os' v = fold (\<lambda>x. the (video_change platform x)) os v" if "\<forall>x \<in> set os. video_change platform x \<noteq> None"
    by (rule fold_changes_perm [OF assms that]) (rule changes_commute(1))
  then show ?thesis unfolding video_opts_fold sets by auto
qed

lemma audio_opts_perm:
  assumes "mset os' = mset os" and "distinct (map fst os)"
  shows "audio_opts os' v = Inr v' \<longleftrightarrow> audio_opts os v = Inr v'"
proof -
  have sets: "set os' = set os" by (rule mset_eq_setD [OF assms(1)])
  have "fold (\<lambda>x. the (audio_change x)) os' v = fold (\<lambda>x. the (audio_change x)) os v" if "\<forall>x \<in> set os. audio_change x \<noteq> None"
    by (rule fold_changes_perm [OF assms that]) (rule changes_commute(2))
  then show ?thesis unfolding audio_opts_fold sets by auto
qed

lemma case_Inl_eq_Inr: "(case x of Inl e \<Rightarrow> Inl e | Inr v \<Rightarrow> F v) = Inr z \<longleftrightarrow> (\<exists>v. x = Inr v \<and> F v = Inr z)"
  by (cases x) simp_all

lemma if_eq_Inr: "(if b then refuse f a else y) = Inr z \<longleftrightarrow> \<not> b \<and> y = Inr z"
  by simp

text \<open>
  Go ranges over a map in any order, and the parser ranges over the options of an output: whichever order it meets
  them in, an output is accepted with the same result or refused (the option named in the refusal may differ).
\<close>

theorem option_order_is_irrelevant:
  assumes "mset os' = mset os" and "distinct (map fst os)"
  shows "(videoOut platform (out\<lparr>om_opts := os'\<rparr>) j = Inr j' \<longleftrightarrow> videoOut platform (out\<lparr>om_opts := os\<rparr>) j = Inr j')
    \<and> (audioOut (out\<lparr>om_opts := os'\<rparr>) = Inr a \<longleftrightarrow> audioOut (out\<lparr>om_opts := os\<rparr>) = Inr a)"
proof
  have same: "video_opts platform os' v = Inr r \<longleftrightarrow> video_opts platform os v = Inr r" for v r
    by (rule video_opts_perm [OF assms])
  show "videoOut platform (out\<lparr>om_opts := os'\<rparr>) j = Inr j' \<longleftrightarrow> videoOut platform (out\<lparr>om_opts := os\<rparr>) j = Inr j'"
    by (cases "om_overlay out") (simp_all add: videoOut_def case_Inl_eq_Inr split_beta if_eq_Inr same del: refuse_def)
next
  have same: "audio_opts os' v = Inr r \<longleftrightarrow> audio_opts os v = Inr r" for v r
    by (rule audio_opts_perm [OF assms])
  have "distinct (map fst os')" using assms by (metis mset_eq_imp_distinct_iff mset_map)
  then have "map_of os' = map_of os" using assms mset_eq_setD [OF assms(1)] by (metis map_of_inject_set)
  then have "opt os' = opt os" by (simp add: opt_def fun_eq_iff)
  then show "audioOut (out\<lparr>om_opts := os'\<rparr>) = Inr a \<longleftrightarrow> audioOut (out\<lparr>om_opts := os\<rparr>) = Inr a"
    by (simp add: audioOut_def case_Inl_eq_Inr same)
qed

theorem option_order_is_irrelevant_witness:
  "\<exists>r. videoOut (\<lambda>_. 0) ((demo_outs ! 0)\<lparr>om_opts := rev (om_opts (demo_outs ! 0))\<rparr>) zero_job = Inr r \<and> Video r = demo_video"
proof -
  have b: "Burn zero_job = None" by (simp add: zero_job_def)
  have d: "distinct (map fst (om_opts (demo_outs ! 0)))" by (simp add: demo_outs_def)
  have m: "mset (rev (om_opts (demo_outs ! 0))) = mset (om_opts (demo_outs ! 0))" by simp
  show ?thesis
    using option_order_is_irrelevant [OF m d, of "\<lambda>_. 0" "demo_outs ! 0" zero_job "zero_job\<lparr>Video := demo_video\<rparr>"] demo_videoOut [OF b] by simp
qed

section \<open>The frame rate\<close>

lemma round_rat_rel: "\<bar>round_rat x - x\<bar> \<le> \<bar>x\<bar> / 10 ^ 6 + 1 / 10 ^ 12"
proof -
  have "pow2 (- 1075) \<le> pow2 (- 53)" by (rule pow2_mono) simp
  moreover have p: "pow2 (- 53) = 1 / 2 ^ 53" by (simp add: pow2_def)
  moreover have "(1 / 2 ^ 53 :: rat) \<le> 1 / 10 ^ 12" by simp
  ultimately have small: "pow2 (- 1075) \<le> 1 / 10 ^ 12" by linarith
  have "\<bar>x\<bar> * pow2 (- 53) \<le> \<bar>x\<bar> * (1 / 10 ^ 6)" unfolding p by (rule mult_left_mono) simp_all
  then show ?thesis using round_rat_close [of x] small by (simp add: max_def split: if_splits)
qed

lemma to_float_rel: "to_float x = Fin y \<Longrightarrow> \<bar>y - x\<bar> \<le> \<bar>x\<bar> / 10 ^ 6 + 1 / 10 ^ 12"
  using round_rat_rel [of x] by (auto simp: to_float_def Let_def split: if_splits)

lemma to_float_finite:
  assumes "\<bar>x\<bar> \<le> 10 ^ 6"
  shows "to_float x = Fin (round_rat x)"
proof -
  have "exponent \<bar>round_rat x\<bar> < 1024" if "round_rat x \<noteq> 0"
  proof (rule ccontr)
    assume "\<not> exponent \<bar>round_rat x\<bar> < 1024"
    then have "pow2 53 \<le> pow2 (exponent \<bar>round_rat x\<bar>)" by (intro pow2_mono) simp
    also have "\<dots> \<le> \<bar>round_rat x\<bar>" using exponent_bounds [of "\<bar>round_rat x\<bar>"] that by simp
    also have "\<dots> \<le> \<bar>x\<bar> + (\<bar>x\<bar> / 10 ^ 6 + 1 / 10 ^ 12)" using round_rat_rel [of x] by linarith
    also have "\<dots> \<le> 10 ^ 6 + 2" using assms by simp
    finally show False by (simp add: pow2_def)
  qed
  then show ?thesis by (auto simp: to_float_def Let_def)
qed

lemma near_ntsc_close:
  assumes "near_ntsc (Fin f) n" and "n \<in> {24, 30, 48, 60, 120}"
  shows "\<bar>f - of_int (n * 1000) / 1001\<bar> \<le> f / 5000"
proof -
  define x where "x = (of_int n * 1000 / 1001 :: rat)"
  define N where "N = ntsc_rate n"
  have xb: "23 \<le> x" using assms(2) by (auto simp: x_def)
  have Nx: "\<bar>N - x\<bar> \<le> x / 10 ^ 6 + 1 / 10 ^ 12" using round_rat_rel [of x] xb by (simp add: N_def ntsc_rate_def x_def)
  then have N: "22 < N" using xb by simp
  obtain d where d: "to_float (f - N) = Fin d"
    using assms(1) N by (cases "to_float (f - N)") (auto simp: near_ntsc_def N_def)
  have pos: "\<not> \<bar>d\<bar> / N < 0" using N by (simp add: not_less)
  then have "to_float (\<bar>d\<bar> / N) \<noteq> Inf True" "to_float (\<bar>d\<bar> / N) \<noteq> NaN" by (simp_all add: to_float_def Let_def)
  then obtain q where q: "to_float (\<bar>d\<bar> / N) = Fin q" "q < round_rat (1 / 10000)"
    using assms(1) d by (cases "to_float (\<bar>d\<bar> / N)") (auto simp: near_ntsc_def N_def [symmetric])
  have "q < 101 / 10 ^ 6" using q(2) abs_ge_self [of "round_rat (1 / 10000) - 1 / 10000"] round_rat_rel [of "1 / 10000"]
    by (simp add: power_divide)
  moreover have "0 \<le> \<bar>d\<bar> / N" using N by simp
  ultimately have "\<bar>d\<bar> / N \<le> 102 / 10 ^ 6" using to_float_rel [OF q(1)] by simp
  then have "\<bar>d\<bar> \<le> 102 / 10 ^ 6 * N" using N by (simp add: divide_le_eq)
  then have "\<bar>f - N\<bar> \<le> 104 / 10 ^ 6 * N" using to_float_rel [OF d] N abs_triangle_ineq4 [of d "d - (f - N)"] by simp
  then have "\<bar>f - x\<bar> \<le> 110 / 10 ^ 6 * x" using Nx abs_le_D1 [OF Nx] xb abs_triangle_ineq [of "f - N" "N - x"] by simp
  then have "\<bar>f - x\<bar> \<le> f / 5000" using xb abs_ge_minus_self [of "f - x"] by simp
  then show ?thesis by (simp add: x_def)
qed

lemma go_gcd_0 [simp]: "go_gcd a 0 = a"
  by (simp add: go_gcd.simps [of a 0])

lemma go_gcd_dvd: "go_gcd a b dvd a \<and> go_gcd a b dvd b"
proof (induction a b rule: go_gcd.induct)
  case (1 a b)
  show ?case
  proof (cases "b = 0")
    case False
    then have eq: "go_gcd a b = go_gcd b (go_mod a b)" by (simp add: go_gcd.simps [of a b])
    have "go_gcd a b dvd b" "go_gcd a b dvd go_mod a b" using 1 False eq by simp_all
    then have "go_gcd a b dvd go_mod a b + go_div a b * b" by (intro dvd_add dvd_mult)
    then show ?thesis using \<open>go_gcd a b dvd b\<close> by (simp add: go_mod_def)
  qed simp
qed

lemma go_gcd_eq: "0 \<le> a \<Longrightarrow> 0 \<le> b \<Longrightarrow> go_gcd a b = gcd a b"
proof (induction a b rule: go_gcd.induct)
  case (1 a b)
  show ?case
  proof (cases "b = 0")
    case True
    with "1.prems" show ?thesis by simp
  next
    case False
    with "1.prems" have "0 < b" "0 \<le> go_mod a b" "go_mod a b = a mod b" by (simp_all add: go_mod_nonneg)
    with "1.IH" [OF False] False have "go_gcd a b = gcd b (a mod b)" by (simp add: go_gcd.simps [of a b])
    then show ?thesis by (metis gcd_red_int)
  qed
qed

lemma ntsc_coprime: "n \<in> {24, 30, 48, 60, 120} \<Longrightarrow> coprime (n * 1000) (1001 :: int)"
proof -
  have "coprime (24 :: int) 1001" "coprime (30 :: int) 1001" "coprime (48 :: int) 1001" "coprime (60 :: int) 1001"
    "coprime (120 :: int) 1001" "coprime (1000 :: int) 1001" by code_simp+
  then show "n \<in> {24, 30, 48, 60, 120} \<Longrightarrow> coprime (n * 1000) (1001 :: int)" by auto
qed

text \<open>
  The rate the encoder is given is the one Plex printed, as a fraction in lowest terms with a positive denominator: it
  differs from the number read by at most half a millihertz's rounding or by one part in five thousand, for every rate
  that is a finite number; so 23.976, however Plex prints it, becomes the NTSC rate the hardware takes.
\<close>

theorem frame_rate_bounds:
  assumes "frameRate platform v = Some r" and "ParseFloat v = Some (Fin f)"
  shows "0 \<le> Num r \<and> 0 < Den r \<and> coprime (Num r) (Den r) \<and> \<bar>of_int (Num r) / of_int (Den r) - f\<bar> \<le> 1 / 1000 + f / 5000"
proof -
  have f: "0 < f" "f \<le> 1000" using assms by (auto simp: frameRate_def split: if_splits)
  show ?thesis
  proof (cases "find (near_ntsc (Fin f)) [24, 30, 48, 60, 120]")
    case (Some n)
    then have n: "near_ntsc (Fin f) n" "n \<in> {24, 30, 48, 60, 120}" by (auto simp: find_Some_iff split: if_splits)
    have r: "r = \<lparr>Num = n * 1000, Den = 1001\<rparr>" using assms f Some by (simp add: frameRate_def)
    have "coprime (n * 1000) 1001" using n(2) by (rule ntsc_coprime)
    moreover have "\<bar>of_int (n * 1000) / 1001 - f\<bar> \<le> f / 5000" using near_ntsc_close [OF n] by (simp add: abs_minus_commute)
    ultimately show ?thesis using n(2) r f by auto
  next
    case None
    define y where "y = round_rat (f * 1000)"
    define m where "m = round_away y"
    have prod: "f_mul (Fin f) (Fin 1000) = Fin y" using to_float_finite [of "f * 1000"] f by (simp add: y_def)
    have y: "\<bar>y - f * 1000\<bar> \<le> 2" "\<bar>y - f * 1000\<bar> \<le> f / 1000 + 1 / 10 ^ 12" using round_rat_rel [of "f * 1000"] f by (simp_all add: y_def)
    have m: "\<bar>of_int m - y\<bar> \<le> 1 / 2" unfolding m_def by (rule round_away_close)
    have "(-3 :: rat) < of_int m" "of_int m < (2000000 :: rat)" using y(1) m f by linarith+
    then have range: "-3 < m" "m < 2000000" by linarith+
    have "0 \<le> y"
    proof -
      have "0 \<le> round_even (\<bar>f * 1000\<bar> / unit_in_last_place \<bar>f * 1000\<bar>)"
        by (rule round_even_nonneg) (simp add: unit_in_last_place_def order_less_imp_le)
      then show ?thesis using f by (simp add: y_def round_rat_def Let_def unit_in_last_place_def order_less_imp_le)
    qed
    then have m0: "0 \<le> m" by (simp add: m_def round_away_def)
    have i: "f_int platform (f_round (Fin y)) = m"
      using range m0 by (simp add: m_def [symmetric] trunc_int_def in_int64_def)
    have g: "go_gcd m 1000 = gcd m 1000" using m0 by (simp add: go_gcd_eq)
    have gp: "0 < gcd m 1000" by simp
    have r: "r = \<lparr>Num = m div gcd m 1000, Den = 1000 div gcd m 1000\<rparr>"
      using assms f None m0 by (simp add: frameRate_def prod i g go_div_nonneg gp Let_def del: f_mul.simps f_round.simps)
    have "coprime (m div gcd m 1000) (1000 div gcd m 1000)" by (rule div_gcd_coprime) simp
    moreover have "0 \<le> m div gcd m 1000" using m0 gp by (simp add: pos_imp_zdiv_nonneg_iff)
    moreover have "0 < 1000 div gcd m 1000"
      using gcd_le2_int [of 1000 m] gp by (simp add: pos_imp_zdiv_pos_iff)
    moreover have frac: "of_int (m div gcd m 1000) / of_int (1000 div gcd m 1000) = (of_int m / 1000 :: rat)"
      by (simp add: of_int_div)
    moreover have "\<bar>of_int m / 1000 - f\<bar> \<le> 1 / 1000 + f / 5000"
      using abs_le_D1 [OF y(2)] abs_le_D2 [OF y(2)] abs_le_D1 [OF m] abs_le_D2 [OF m] f by (simp add: abs_le_iff)
    ultimately show ?thesis unfolding r Rational.select_convs frac by blast
  qed
qed

theorem frame_rate_bounds_witness:
  "frameRate (\<lambda>_. 0) ''23.976'' = Some \<lparr>Num = 24000, Den = 1001\<rparr> \<and> coprime (24000 :: int) 1001
    \<and> \<bar>24000 / 1001 - 210895126300459 / 8796093022208\<bar> \<le> (1 / 1000 + 210895126300459 / 8796093022208 / 5000 :: rat)"
  using frame_rate_bounds [OF demo_values(2) demo_floats(1)] demo_values(2) by simp

text \<open>
  A frame rate that is no number passes the range check, since every comparison with it is false: whatever the platform
  makes of its conversion, \<open>-r nan\<close> is given a rate with a denominator other than zero, which the later test for a
  missing rate accepts.
\<close>

theorem nan_frame_rate_is_accepted:
  "\<exists>r. frameRate platform ''nan'' = Some r \<and> Den r \<noteq> 0"
proof -
  have p: "ParseFloat ''nan'' = Some NaN" by code_simp
  have none: "find (near_ntsc NaN) ns = None" for ns by (simp add: find_None_iff near_ntsc_def)
  define g where "g = go_gcd (platform NaN) 1000"
  have "g dvd 1000" using go_gcd_dvd by (simp add: g_def)
  then have "g \<noteq> 0" "\<bar>g\<bar> \<le> 1000" using dvd_imp_le_int [of 1000 g] by auto
  then have "0 < 1000 div \<bar>g\<bar>" by (simp add: pos_imp_zdiv_pos_iff)
  then have "go_div 1000 g \<noteq> 0" using \<open>g \<noteq> 0\<close> by (simp add: go_div_def sgn_if)
  then show ?thesis by (simp add: frameRate_def p none g_def [symmetric] Let_def)
qed

end
