(* ===== verification/Remux_Parse.thy ===== *)
theory Remux_Parse
  imports Remux_Job Video_Filter Go_Float
begin

text \<open>
  The parser of browser remuxes, \<open>src/pkg/remux/parse.go\<close>, and the test that a job is one, \<open>classify.go\<close>. As for the
  conversions, \<open>platform\<close> converts a float outside the 64-bit range and a refusal is what the code gives \<open>refuse\<close>; who
  plays a session is asked of Plex, the parameter \<open>players\<close>.
\<close>

section \<open>The tables\<close>

definition remuxValueOptions :: "string list" where
  "remuxValueOptions = [''-codec:0'', ''-codec:1'', ''-analyzeduration'', ''-probesize'', ''-ss'', ''-i'', ''-fps_mode'', ''-loglevel'',
     ''-loglevel_plex'', ''-progressurl'', ''-map'', ''-filter_complex'', ''-metadata:s:1'', ''-b:1'', ''-f'', ''-seg_duration'',
     ''-dash_segment_type'', ''-init_seg_name'', ''-media_seg_name'', ''-window_size'', ''-delete_removed'', ''-skip_to_segment'',
     ''-manifest_name'', ''-avoid_negative_ts'', ''-map_metadata'', ''-map_chapters'', ''-eae_prefix:1'']"

definition remuxFlagOptions :: "string list" where
  "remuxFlagOptions = [''-noaccurate_seek'', ''-start_at_zero'', ''-copyts'', ''-y'', ''-nostats'']"

text \<open>The filter of Plex Web's stereo downmix: its input stream and its sample rate.\<close>

definition downmix_middle :: string where
  "downmix_middle = '' aresample=async=1:ochl='' @ [CHR 0x27] @ ''stereo'' @ [CHR 0x27] @ '':rematrix_maxval=0.000000dB:osr=''"

definition downmix :: "string \<Rightarrow> (int \<times> int) option" where
  "downmix s =
     (if prefix ''[0:'' s
      then (case cut_at CHR '']'' (drop 3 s) of (a, rest, ok) \<Rightarrow>
         if ok \<and> all_digits a \<and> prefix downmix_middle rest \<and> suffix ''[0]'' rest
         then (let m = drop (length downmix_middle) rest; b = take (length m - 3) m in
               if suffix ''[0]'' m \<and> all_digits b then Some (atoi_clamped a, atoi_clamped b) else None)
         else None)
      else None)"

text \<open>\<open>bitRate\<close> here takes any integer; the product is a 64-bit one.\<close>

definition remux_bitRate :: "string \<Rightarrow> int option" where
  "remux_bitRate v =
     (let (mult, v) = (if suffix ''k'' v then (1000, trim_suffix v ''k'')
        else if suffix ''M'' v then (1000000, trim_suffix v ''M'') else (1, v))
      in map_option (\<lambda>n. wrap64 (n * mult)) (parse_int v))"

section \<open>The loop\<close>

record remux_state =
  rj :: remux_job
  r_maps :: "string list"
  r_codec0 :: string
  r_codec1 :: string
  r_input :: bool
  r_filter :: string

definition remux_option :: "(float64 \<Rightarrow> int) \<Rightarrow> string \<Rightarrow> string \<Rightarrow> remux_state \<Rightarrow> remux_state parsed" where
  "remux_option platform a v st =
     (let nanos = \<lambda>s. f_int platform (f_mul s (Fin (of_int second))) in
      if a = ''-i'' then Inr (st\<lparr>rj := (rj st)\<lparr>Input := v\<rparr>, r_input := True\<rparr>)
      else if a = ''-ss''
      then (case ParseFloat v of
          Some s \<Rightarrow> if f_less s 0 then refuse ''-ss %q'' [v] else Inr (st\<lparr>rj := (rj st)\<lparr>JStart := nanos s\<rparr>\<rparr>)
        | None \<Rightarrow> refuse ''-ss %q'' [v])
      else if a = ''-codec:0'' then Inr (if r_input st then st\<lparr>r_codec0 := v\<rparr> else st)
      else if a = ''-codec:1'' then Inr (if r_input st then st\<lparr>r_codec1 := v\<rparr> else st)
      else if a = ''-map'' then Inr (st\<lparr>r_maps := r_maps st @ [v]\<rparr>)
      else if a = ''-filter_complex'' then Inr (st\<lparr>r_filter := v\<rparr>)
      else if a = ''-metadata:s:1''
      then (case cut_prefix v ''language='' of (lang, ok) \<Rightarrow>
              Inr (if ok then st\<lparr>rj := (rj st)\<lparr>AudioLanguage := lang\<rparr>\<rparr> else st))
      else if a = ''-b:1''
      then (case remux_bitRate v of None \<Rightarrow> refuse ''-b:1 %q'' [v] | Some n \<Rightarrow> Inr (st\<lparr>rj := (rj st)\<lparr>AudioBitRate := n\<rparr>\<rparr>))
      else if a = ''-f'' then (if v \<noteq> ''dash'' then refuse ''format %q'' [v] else Inr st)
      else if a = ''-dash_segment_type'' then (if v \<noteq> ''mp4'' then refuse ''segment type %q'' [v] else Inr st)
      else if a = ''-init_seg_name'' then (if v \<noteq> InitName then refuse ''init name %q'' [v] else Inr st)
      else if a = ''-media_seg_name'' then (if v \<noteq> MediaName then refuse ''media name %q'' [v] else Inr st)
      else if a = ''-seg_duration''
      then (case ParseFloat v of
          Some s \<Rightarrow> if f_leq s 0 then refuse ''-seg_duration %q'' [v] else Inr (st\<lparr>rj := (rj st)\<lparr>SegmentDuration := nanos s\<rparr>\<rparr>)
        | None \<Rightarrow> refuse ''-seg_duration %q'' [v])
      else if a = ''-skip_to_segment''
      then (case parse_int v of
          Some n \<Rightarrow> if n < 1 then refuse ''-skip_to_segment %q'' [v] else Inr (st\<lparr>rj := (rj st)\<lparr>SkipToSegment := n\<rparr>\<rparr>)
        | None \<Rightarrow> refuse ''-skip_to_segment %q'' [v])
      else if a = ''-progressurl'' then Inr (st\<lparr>rj := (rj st)\<lparr>JProgressURL := v\<rparr>\<rparr>)
      else if a = ''-manifest_name'' then Inr (st\<lparr>rj := (rj st)\<lparr>JManifestURL := v\<rparr>\<rparr>)
      else Inr st)"

fun remux_args :: "(float64 \<Rightarrow> int) \<Rightarrow> string list \<Rightarrow> remux_state \<Rightarrow> remux_state parsed" where
  "remux_args platform [] st = Inr st"
| "remux_args platform (a # as) st =
     (if a \<in> set remuxFlagOptions then remux_args platform as st
      else if a \<notin> set remuxValueOptions then refuse ''option %q'' [a]
      else (case as of [] \<Rightarrow> refuse ''option %q'' [a]
        | v # as' \<Rightarrow> (case remux_option platform a v st of Inl e \<Rightarrow> Inl e | Inr st' \<Rightarrow> remux_args platform as' st')))"

definition zero_remux :: remux_job where
  "zero_remux = \<lparr>Input = [], JStart = 0, SkipToSegment = 0, SegmentDuration = 0, VideoStream = 0, AudioStream = 0,
     AudioCopy = False, AudioChannels = 0, AudioSampleRate = 0, AudioBitRate = 0, AudioLanguage = [], JProgressURL = [],
     JManifestURL = [], JToken = []\<rparr>"

text \<open>The audio output, from the second \<open>-map\<close>.\<close>

definition remux_audio :: "string \<Rightarrow> remux_state \<Rightarrow> remux_job \<Rightarrow> remux_job parsed" where
  "remux_audio m st j =
     (if m = ''[0]''
      then (case downmix (r_filter st) of
          Some (n, rate) \<Rightarrow> if r_codec1 st \<noteq> ''aac'' then refuse ''audio filter %q with codec %q'' [r_filter st, r_codec1 st]
            else Inr (j\<lparr>AudioStream := n, AudioSampleRate := rate, AudioChannels := 2\<rparr>)
        | None \<Rightarrow> refuse ''audio filter %q with codec %q'' [r_filter st, r_codec1 st])
      else (case (streamRef m, r_filter st) of
          (Some n, []) \<Rightarrow> if r_codec1 st = ''copy'' then Inr (j\<lparr>AudioStream := n, AudioCopy := True, AudioBitRate := 0\<rparr>)
            else if r_codec1 st = ''aac'' then Inr (j\<lparr>AudioStream := n\<rparr>)
            else refuse ''audio codec %q'' [r_codec1 st]
        | _ \<Rightarrow> refuse ''output 1 maps %q with filter %q'' [m, r_filter st]))"

definition remux_finish :: "remux_state \<Rightarrow> remux_job parsed" where
  "remux_finish st =
     (let j = rj st in
      if Input j = [] \<or> SegmentDuration j = 0 \<or> JManifestURL j = [] \<or> JProgressURL j = []
      then refuse ''missing input, segment duration, manifest or progress URL'' []
      else (let j1 = (if SkipToSegment j = 0 then j\<lparr>SkipToSegment := 1\<rparr> else j) in
        case r_maps st of
          [m0, m1] \<Rightarrow>
            if r_codec0 st \<noteq> ''copy'' then refuse ''output 0 is %q, not a copy'' [r_codec0 st]
            else (case streamRef m0 of None \<Rightarrow> refuse ''output 0 maps %q'' [m0]
              | Some v \<Rightarrow> (case remux_audio m1 st (j1\<lparr>VideoStream := v\<rparr>) of Inl e \<Rightarrow> Inl e
                  | Inr j2 \<Rightarrow> if \<not> AudioCopy j2 \<and> AudioBitRate j2 = 0 then refuse ''an AAC output with no bit rate'' []
                      else Inr j2))
        | ms \<Rightarrow> refuse ''%d outputs, want 2'' [itoa (int (length ms))]))"

definition remux_parse :: "(float64 \<Rightarrow> int) \<Rightarrow> string list \<Rightarrow> (string \<rightharpoonup> string) \<Rightarrow> remux_job parsed" where
  "remux_parse platform args env =
     (if args = [] \<or> last args \<noteq> ''dash'' then refuse ''the output is not dash'' []
      else (case remux_args platform (butlast args) \<lparr>rj = zero_remux\<lparr>JToken := (case env ''X_PLEX_TOKEN'' of Some t \<Rightarrow> t | None \<Rightarrow> [])\<rparr>,
               r_maps = [], r_codec0 = [], r_codec1 = [], r_input = False, r_filter = []\<rparr> of
          Inl e \<Rightarrow> Inl e
        | Inr st \<Rightarrow> remux_finish st))"

definition PlexWeb :: string where
  "PlexWeb = ''Plex Web''"

text \<open>\<open>players\<close> is the product Plex says is playing a transcode session, \<open>None\<close> where the question fails or times out.\<close>

definition Classify :: "(float64 \<Rightarrow> int) \<Rightarrow> (string \<Rightarrow> string option) \<Rightarrow> (string \<Rightarrow> string option) \<Rightarrow> string \<Rightarrow> string list
    \<Rightarrow> (string \<rightharpoonup> string) \<Rightarrow> remux_job option" where
  "Classify platform url_path players target args env =
     (if target \<noteq> ''Plex Transcoder'' then None
      else (case remux_parse platform args env of Inl _ \<Rightarrow> None
        | Inr j \<Rightarrow> if players (SessionID url_path j) = Some PlexWeb then Some j else None))"

section \<open>Properties\<close>

definition good_remux :: "remux_job \<Rightarrow> bool" where
  "good_remux j \<longleftrightarrow> Input j \<noteq> [] \<and> SegmentDuration j \<noteq> 0 \<and> JManifestURL j \<noteq> [] \<and> JProgressURL j \<noteq> [] \<and> 1 \<le> SkipToSegment j
     \<and> 0 \<le> VideoStream j \<and> 0 \<le> AudioStream j \<and> 0 \<le> AudioSampleRate j
     \<and> (if AudioCopy j then AudioBitRate j = 0 \<and> AudioChannels j = 0 else AudioBitRate j \<noteq> 0 \<and> AudioChannels j \<in> {0, 2})"

lemma atoi_clamped_nonneg [simp]: "0 \<le> atoi_clamped ds"
  by (simp add: atoi_clamped_def)

lemma streamRef_nonneg: "streamRef m = Some n \<Longrightarrow> 0 \<le> n"
  by (auto simp: streamRef_def split: if_splits)

text \<open>The loop leaves the streams and the layout alone, and the segment number at zero or more.\<close>

definition remux_inv :: "remux_state \<Rightarrow> bool" where
  "remux_inv st \<longleftrightarrow> 0 \<le> SkipToSegment (rj st) \<and> \<not> AudioCopy (rj st) \<and> AudioChannels (rj st) = 0 \<and> AudioSampleRate (rj st) = 0"

lemma remux_option_inv: "remux_option platform a v st = Inr st' \<Longrightarrow> remux_inv st \<Longrightarrow> remux_inv st'"
  unfolding remux_option_def Let_def remux_inv_def by (auto split: if_splits option.splits prod.splits)

lemma remux_args_inv: "remux_args platform as st = Inr st' \<Longrightarrow> remux_inv st \<Longrightarrow> remux_inv st'"
proof (induction platform as st rule: remux_args.induct)
  case (2 platform a as st)
  from "2.prems" show ?case by (auto split: if_splits list.splits sum.splits dest: "2.IH" remux_option_inv)
qed simp

lemma downmix_nonneg: "downmix s = Some (n, r) \<Longrightarrow> 0 \<le> n \<and> 0 \<le> r"
  by (auto simp: downmix_def Let_def split: if_splits prod.splits)

lemma remux_finish_good:
  assumes "remux_finish st = Inr j" and "remux_inv st"
  shows "good_remux j"
  using assms unfolding remux_finish_def Let_def remux_audio_def remux_inv_def good_remux_def
  by (auto split: if_splits list.splits option.splits prod.splits dest: streamRef_nonneg downmix_nonneg)

text \<open>
  A browser remux is accepted only whole: it has an input, a manifest and a progress URL and a segment length, starts at
  segment one or later, copies its video, and its audio is either copied, with no rate, or encoded at some rate, downmixed
  to two channels or left as it is. The pool takes it only when Plex names its player the web player.
\<close>

theorem classified_remux_is_good:
  assumes "Classify platform url_path players target args env = Some j"
  shows "good_remux j \<and> target = ''Plex Transcoder'' \<and> players (SessionID url_path j) = Some ''Plex Web''"
proof -
  obtain st where st: "remux_finish st = Inr j" "players (SessionID url_path j) = Some ''Plex Web''" "target = ''Plex Transcoder''"
    "remux_args platform (butlast args) \<lparr>rj = zero_remux\<lparr>JToken := (case env ''X_PLEX_TOKEN'' of Some t \<Rightarrow> t | None \<Rightarrow> [])\<rparr>,
       r_maps = [], r_codec0 = [], r_codec1 = [], r_input = False, r_filter = []\<rparr> = Inr st"
    using assms by (auto simp: Classify_def remux_parse_def PlexWeb_def split: if_splits sum.splits)
  have "remux_inv st" by (rule remux_args_inv [OF st(4)]) (simp add: remux_inv_def zero_remux_def)
  then show ?thesis using remux_finish_good [OF st(1)] st(2,3) by simp
qed

definition demo_remux_argv :: "string list" where
  "demo_remux_argv = [''-codec:0'', ''h264'', ''-i'', ''/media/a.mkv'', ''-copyts'', ''-map'', ''0:0'', ''-codec:0'', ''copy'',
     ''-filter_complex'', ''[0:1]'' @ downmix_middle @ ''48000[0]'', ''-map'', ''[0]'', ''-codec:1'', ''aac'', ''-b:1'', ''256k'', ''-f'', ''dash'',
     ''-seg_duration'', ''5'', ''-skip_to_segment'', ''12'', ''-progressurl'', ''/session/s1/p'', ''-manifest_name'', ''/m'', ''dash'']"

lemma demo_classify:
  "\<exists>j. Classify (\<lambda>_. 0) Some (\<lambda>s. if s = ''s1'' then Some ''Plex Web'' else None) ''Plex Transcoder'' demo_remux_argv Map.empty = Some j
     \<and> SegmentDuration j = 5 * second"
proof -
  have mix: "downmix (''[0:1]'' @ downmix_middle @ ''48000[0]'') = Some (1, 48000)"
    by (simp add: downmix_def downmix_middle_def all_digits_def is_digit_def atoi_clamped_def digits_val_def digit_val_def suffix_to_prefix)
  have parts: "remux_bitRate ''256k'' = Some 256000"
    "parse_int ''12'' = Some 12" "streamRef ''0:0'' = Some 0"
    "session_part (split_on CHR ''/'' (trim_func (\<lambda>c. c = CHR ''/'') ''/session/s1/p'')) = ''s1''"
    by code_simp+
  have five: "ParseFloat ''5'' = Some (Fin 5)" by (simp add: parse_float_eval)
  have nanos: "f_int (\<lambda>_. 0) (f_mul (Fin 5) (Fin 1000000000)) = 5 * second" by (simp add: float_eval trunc_int_def in_int64_def)
  define flt where "flt = ''[0:1]'' @ downmix_middle @ ''48000[0]''"
  show ?thesis
    unfolding Classify_def remux_parse_def demo_remux_argv_def flt_def [symmetric]
    by (simp add: remux_option_def remuxFlagOptions_def remuxValueOptions_def zero_remux_def five nanos parts remux_finish_def
        remux_audio_def mix [folded flt_def] SessionID_def PlexWeb_def Let_def del: f_mul.simps)
qed

theorem classified_remux_is_good_witness:
  "\<exists>j. Classify (\<lambda>_. 0) Some (\<lambda>s. if s = ''s1'' then Some ''Plex Web'' else None) ''Plex Transcoder'' demo_remux_argv Map.empty = Some j
     \<and> SegmentDuration j = 5 * second \<and> good_remux j"
  using demo_classify classified_remux_is_good by blast

text \<open>A rate of the audio is not checked for its sign, as the conversion's is.\<close>

lemma remux_rate_may_be_negative: "remux_bitRate ''-5k'' = Some (- 5000)"
  by code_simp

end
