(* ===== verification/Plex_Session.thy ===== *)
theory Plex_Session
  imports Go_Prelude
begin

text \<open>
  What a relay does in a Plex transcode session, \<open>src/pkg/plexsession/session.go\<close>: writing a pool's files into the session
  directory and talking to Plex at its own address with the session's token. The directory is a map from names to
  contents, a write or a rename may fail, and \<open>url\<close> and \<open>http\<close> are \<open>url.Parse\<close> and the HTTP client.
\<close>

section \<open>Files\<close>

fun strip_slashes :: "string \<Rightarrow> string" where
  "strip_slashes s = (if s \<noteq> [] \<and> last s = CHR ''/'' then strip_slashes (butlast s) else s)"

declare strip_slashes.simps [simp del]

text \<open>\<open>filepath.Base\<close>.\<close>

definition filepath_base :: "string \<Rightarrow> string" where
  "filepath_base path = (if path = [] then ''.''
     else let s = strip_slashes path in if s = [] then ''/'' else last (split_on CHR ''/'' s))"

text \<open>How the file system answers one \<open>WriteFile\<close>: the write of the temporary file fails, leaving what it leaves of it, or
  the rename does, and then the removal of the temporary file may too.\<close>

datatype disk = DiskOk | WriteFails "string option" | RenameFails bool

type_synonym dir = "string \<rightharpoonup> string"

definition tmp_name :: "string \<Rightarrow> string" where
  "tmp_name name = ''.'' @ name @ ''.tmp''"

definition WriteFile :: "disk \<Rightarrow> (string \<Rightarrow> bool) \<Rightarrow> string \<Rightarrow> string \<Rightarrow> dir \<Rightarrow> dir \<times> bool" where
  "WriteFile dk allowed name data d =
     (if \<not> allowed name \<or> filepath_base name \<noteq> name then (d, False)
      else (case dk of
          WriteFails left \<Rightarrow> (d(tmp_name name := left), False)
        | RenameFails removed \<Rightarrow> (d(tmp_name name := (if removed then None else Some data)), False)
        | DiskOk \<Rightarrow> (d(tmp_name name := None, name \<mapsto> data), True)))"

section \<open>Requests to Plex\<close>

record purl =
  u_scheme :: string
  u_host :: string
  u_path :: string
  u_query :: string

record http_request =
  rq_method :: string
  rq_url :: purl
  rq_token :: "string option"
  rq_body :: string

record http_response =
  rs_status :: int
  rs_body :: "string option"

datatype plex_error = BadURL | Transport | ReadFailed | Status int | AnswerTooLarge

definition MaxAnswerBytes :: nat where
  "MaxAnswerBytes = 65536"

definition at_plex :: "(string \<Rightarrow> purl option) \<Rightarrow> string \<Rightarrow> string \<Rightarrow> string \<Rightarrow> string \<Rightarrow> purl option" where
  "at_plex url addr raw sub query = (case url raw of None \<Rightarrow> None
     | Some u \<Rightarrow> (case url addr of None \<Rightarrow> None
         | Some base \<Rightarrow>
             (let u1 = u\<lparr>u_scheme := u_scheme base, u_host := u_host base\<rparr>;
                  u2 = (if sub \<noteq> [] then u1\<lparr>u_path := u_path u1 @ ''/'' @ sub\<rparr> else u1)
              in Some (if query \<noteq> [] then u2\<lparr>u_query := query\<rparr> else u2))))"

text \<open>\<open>http\<close> answers a request, or fails; a body that cannot be read is \<open>None\<close>.\<close>

definition Ask :: "(string \<Rightarrow> purl option) \<Rightarrow> (http_request \<Rightarrow> http_response option) \<Rightarrow> string \<Rightarrow> string \<Rightarrow> string \<Rightarrow> string \<Rightarrow> string
    \<Rightarrow> string \<Rightarrow> string \<Rightarrow> plex_error + string" where
  "Ask url http addr meth raw sub query body token = (case at_plex url addr raw sub query of None \<Rightarrow> Inl BadURL
     | Some u \<Rightarrow> (case http \<lparr>rq_method = meth, rq_url = u, rq_token = (if token \<noteq> [] then Some token else None), rq_body = body\<rparr> of
         None \<Rightarrow> Inl Transport
       | Some r \<Rightarrow> (case rs_body r of None \<Rightarrow> Inl ReadFailed
           | Some answer \<Rightarrow> if 300 \<le> rs_status r then Inl (Status (rs_status r))
               else if MaxAnswerBytes < length (take (Suc MaxAnswerBytes) answer) then Inl AnswerTooLarge
               else Inr answer)))"

definition Send :: "(string \<Rightarrow> purl option) \<Rightarrow> (http_request \<Rightarrow> http_response option) \<Rightarrow> string \<Rightarrow> string \<Rightarrow> string \<Rightarrow> string \<Rightarrow> string
    \<Rightarrow> string \<Rightarrow> string \<Rightarrow> bool" where
  "Send url http addr meth raw sub query body token = (case Ask url http addr meth raw sub query body token of Inl _ \<Rightarrow> False | Inr _ \<Rightarrow> True)"

section \<open>What a worker may report\<close>

text \<open>\<open>url.ParseQuery\<close>'s keys, \<open>None\<close> where it fails: pairs split at \<open>&\<close>, a semicolon or a bad escape an error, an empty
  pair skipped.\<close>

definition hex_digit :: "char \<Rightarrow> nat option" where
  "hex_digit c = (let n = (of_char c :: nat) in
     if 48 \<le> n \<and> n \<le> 57 then Some (n - 48) else if 97 \<le> n \<and> n \<le> 102 then Some (n - 87)
     else if 65 \<le> n \<and> n \<le> 70 then Some (n - 55) else None)"

fun query_unescape :: "string \<Rightarrow> string option" where
  "query_unescape [] = Some []"
| "query_unescape (c # r) =
     (if c = CHR ''%'' then (case r of
          a # b # r' \<Rightarrow> (case (hex_digit a, hex_digit b) of
              (Some x, Some y) \<Rightarrow> map_option ((#) (char_of (16 * x + y))) (query_unescape r')
            | _ \<Rightarrow> None)
        | _ \<Rightarrow> None)
      else map_option ((#) (if c = CHR ''+'' then CHR '' '' else c)) (query_unescape r))"

definition query_pair :: "string \<Rightarrow> string option option" where
  "query_pair part =
     (if CHR '';'' \<in> set part then None
      else if part = [] then Some None
      else (case cut_at CHR ''='' part of (k, v, _) \<Rightarrow> (case (query_unescape k, query_unescape v) of
          (Some k', Some _) \<Rightarrow> Some (Some k')
        | _ \<Rightarrow> None)))"

definition query_keys :: "string \<Rightarrow> string list option" where
  "query_keys q = (let ps = map query_pair (split_on CHR ''&'' q) in
     if None \<in> set ps then None else Some (List.map_filter the ps))"

definition progressPaths :: "string list" where
  "progressPaths = ['''', ''stream'', ''streamDetail'']"

definition progressKeys :: "string list" where
  "progressKeys = [''progress'', ''size'', ''remaining'', ''speed'', ''duration'', ''width'', ''height'', ''index'', ''id'', ''codec'',
     ''type'', ''profile'', ''language'', ''channels'', ''layout'', ''sampleRate'', ''level'', ''frameRate'', ''interlaced'', ''sar'']"

definition progressAllowed :: "string list \<Rightarrow> string \<Rightarrow> string \<Rightarrow> bool" where
  "progressAllowed keys path query = (path \<in> set progressPaths \<and>
     (case query_keys query of None \<Rightarrow> False | Some ks \<Rightarrow> set ks \<subseteq> set keys))"

text \<open>\<open>^(init-stream[01]|chunk-stream[01]-\\d{5,})\\.m4s$\<close>.\<close>

definition dashName :: "string \<Rightarrow> bool" where
  "dashName n \<longleftrightarrow> n \<in> {''init-stream0.m4s'', ''init-stream1.m4s''}
     \<or> (\<exists>p \<in> {''chunk-stream0-'', ''chunk-stream1-''}. prefix p n \<and> suffix ''.m4s'' n
          \<and> (let ds = take (length n - length p - 4) (drop (length p) n) in 5 \<le> length ds \<and> list_all is_digit ds
              \<and> length p + 4 \<le> length n))"

section \<open>Properties\<close>

lemma strip_slashes_id: "s = [] \<or> last s \<noteq> CHR ''/'' \<Longrightarrow> strip_slashes s = s"
  by (subst strip_slashes.simps) auto

lemma strip_slashes_no_suffix: "strip_slashes s \<noteq> [] \<Longrightarrow> last (strip_slashes s) \<noteq> CHR ''/''"
proof (induction s rule: strip_slashes.induct)
  case (1 s)
  show ?case
  proof (cases "s \<noteq> [] \<and> last s = CHR ''/''")
    case True
    then have "strip_slashes s = strip_slashes (butlast s)" by (subst strip_slashes.simps) simp
    with 1 True show ?thesis by simp
  next
    case False
    then have "strip_slashes s = s" by (intro strip_slashes_id) auto
    with False 1 show ?thesis by simp
  qed
qed

lemma base_no_slash:
  assumes "filepath_base name = name" and "name \<noteq> ''/''"
  shows "CHR ''/'' \<notin> set name \<and> name \<noteq> []"
proof -
  let ?s = "strip_slashes name"
  consider "name = []" | "name \<noteq> []" "?s = []" | "name \<noteq> []" "?s \<noteq> []" by blast
  then show ?thesis
  proof cases
    case 1
    with assms show ?thesis by (simp add: filepath_base_def)
  next
    case 2
    with assms show ?thesis by (simp add: filepath_base_def)
  next
    case 3
    then have "name = last (split_on CHR ''/'' ?s)" using assms by (simp add: filepath_base_def Let_def)
    then show ?thesis using split_on_parts [of name "CHR ''/''" ?s] 3 by (metis last_in_set split_on_nonempty)
  qed
qed

text \<open>
  Plex never reads part of a file, and a pool writes nowhere but in the session directory under a name it is allowed:
  whatever fails, every name other than the temporary one has its old contents, or, at the name that was written, the
  whole of the new; and a name that is refused or climbs out of the directory changes nothing.
\<close>

theorem write_is_atomic:
  assumes "WriteFile dk allowed name data d = (d', ok)" and "name \<noteq> ''/''"
  shows "(ok \<longrightarrow> d' name = Some data \<and> allowed name \<and> CHR ''/'' \<notin> set name)
    \<and> (\<not> ok \<longrightarrow> (\<forall>n. n \<noteq> tmp_name name \<longrightarrow> d' n = d n))
    \<and> (\<forall>n. n \<noteq> tmp_name name \<longrightarrow> n \<noteq> name \<longrightarrow> d' n = d n)
    \<and> (\<not> allowed name \<or> CHR ''/'' \<in> set name \<longrightarrow> d' = d \<and> \<not> ok)"
  using assms base_no_slash [of name] by (auto simp: WriteFile_def tmp_name_def split: if_splits disk.splits)

theorem write_is_atomic_witness:
  "fst (WriteFile (RenameFails True) dashName ''init-stream0.m4s'' ''new'' [''init-stream0.m4s'' \<mapsto> ''old'']) ''init-stream0.m4s'' = Some ''old''"
proof -
  let ?w = "WriteFile (RenameFails True) dashName ''init-stream0.m4s'' ''new'' [''init-stream0.m4s'' \<mapsto> ''old'']"
  have "?w = (fst ?w, False)" by (simp add: WriteFile_def prod_eq_iff)
  from write_is_atomic [OF this] show ?thesis by (simp add: tmp_name_def)
qed

text \<open>A request reaches Plex at its own address, whatever host the job's URL names.\<close>

lemma at_plex_host: "at_plex url addr raw sub query = Some u \<Longrightarrow> \<exists>base. url addr = Some base \<and> u_host u = u_host base \<and> u_scheme u = u_scheme base"
  by (auto simp: at_plex_def Let_def split: option.splits)

end
