(* ===== verification/Remux_Relay.thy ===== *)
theory Remux_Relay
  imports Remux_Parse Plex_Session Hash_Ring Exec_Dispatch
begin

text \<open>
  The manager's side of the remux pool, \<open>src/pkg/remux/relay/relay.go\<close>: a browser remux goes to the worker the hash ring
  names for it, the files the worker streams are written into Plex's session directory, and Plex is told of them. The pool
  and Plex are parameters: each event of a worker's stream comes with how the disk and Plex answer what the relay does
  with it. What the relay did is the list of its acts; the text of a disk's or Plex's error is not modelled.
\<close>

section \<open>The ring key\<close>

text \<open>\<open>time.Duration\<close>'s \<open>String\<close>.\<close>

definition fmt_frac :: "int \<Rightarrow> nat \<Rightarrow> string \<times> int" where
  "fmt_frac u prec =
     (let r = nat (u mod 10 ^ prec); ds = nat_digits r; padded = replicate (prec - length ds) CHR ''0'' @ ds;
          f = rev (dropWhile (\<lambda>c. c = CHR ''0'') (rev padded))
      in ((if f = [] then [] else CHR ''.'' # f), u div 10 ^ prec))"

definition duration_string :: "duration \<Rightarrow> string" where
  "duration_string d =
     (let u = \<bar>d\<bar>; sign = (if d < 0 then ''-'' else []) in
      if u = 0 then ''0s''
      else if u < microsecond then sign @ itoa u @ ''ns''
      else if u < millisecond then (case fmt_frac u 3 of (f, n) \<Rightarrow> sign @ itoa n @ f @ [CHR 0xC2, CHR 0xB5] @ ''s'')
      else if u < second then (case fmt_frac u 6 of (f, n) \<Rightarrow> sign @ itoa n @ f @ ''ms'')
      else (case fmt_frac u 9 of (f, n) \<Rightarrow>
        let s = itoa (n mod 60) @ f @ ''s''; m = n div 60; h = m div 60 in
        sign @ (if 0 < h then itoa h @ ''h'' else []) @ (if 0 < m then itoa (m mod 60) @ ''m'' else []) @ s))"

definition remux_RingKey :: "remux_job \<Rightarrow> string" where
  "remux_RingKey j = Input j @ ''|'' @ itoa (AudioStream j) @ ''|'' @ (if AudioCopy j then ''true'' else ''false'') @ ''|''
     @ itoa (AudioChannels j) @ ''|'' @ itoa (AudioSampleRate j) @ ''|'' @ itoa (AudioBitRate j) @ ''|'' @ duration_string (SegmentDuration j)"

section \<open>The relay\<close>

datatype 'm remux_event = EvFile string string | EvManifest 'm | EvProgress string string | EvDone string | EvOther

text \<open>An event, how the disk answers its write, and whether Plex takes its manifest.\<close>

type_synonym 'm received = "'m remux_event \<times> disk \<times> bool"

datatype 'm relay_act = Wrote string string | PostedManifest 'm | PutProgress string string | SinkStderr string | SinkExit int

definition finish_acts :: "string \<Rightarrow> string option \<Rightarrow> 'm relay_act list" where
  "finish_acts pre err = (case err of None \<Rightarrow> [SinkExit 0] | Some e \<Rightarrow> [SinkStderr (pre @ '': '' @ e @ [CHR 0x0A]), SinkExit 1])"

text \<open>The result is whether the relay took the job, its error, the directory and the acts.\<close>

type_synonym 'm relay_result = "bool \<times> string option \<times> dir \<times> 'm relay_act list"

definition done_with :: "string option \<Rightarrow> dir \<Rightarrow> 'm relay_act list \<Rightarrow> 'm relay_result" where
  "done_with err d acts = (True, err, d, acts @ finish_acts ''remux'' err)"

fun remux_loop :: "stream_end \<Rightarrow> 'm received list \<Rightarrow> bool \<Rightarrow> dir \<Rightarrow> 'm relay_act list \<Rightarrow> 'm relay_result" where
  "remux_loop e [] first d acts =
     (if first then (False, None, d, acts)
      else done_with (Some (case e of Eof \<Rightarrow> ''remux worker ended the stream without Done'' | StreamError x \<Rightarrow> x)) d acts)"
| "remux_loop e ((ev, dk, plex_ok) # evs) first d acts =
     (case ev of
        EvFile name data \<Rightarrow>
          (case WriteFile dk dashName name data d of (d', ok) \<Rightarrow>
             if ok then remux_loop e evs False d' (acts @ [Wrote name data]) else done_with (Some ''write'') d' acts)
      | EvManifest mpd \<Rightarrow>
          if plex_ok then remux_loop e evs first d (acts @ [PostedManifest mpd]) else done_with (Some ''post manifest'') d acts
      | EvProgress path query \<Rightarrow>
          remux_loop e evs first d (if progressAllowed progressKeys path query then acts @ [PutProgress path query] else acts)
      | EvDone msg \<Rightarrow>
          if msg = [] then done_with None d acts
          else if first then (False, None, d, acts)
          else done_with (Some msg) d acts
      | EvOther \<Rightarrow> remux_loop e evs first d acts)"

record 'm remux_pool =
  pool_ready :: "worker list option"
  pool_dial :: "string \<Rightarrow> bool"
  pool_call :: "string \<Rightarrow> pb_remux \<Rightarrow> ('m received list \<times> stream_end) option"

definition addr_of :: "worker list \<Rightarrow> string \<Rightarrow> string" where
  "addr_of ws n = (case map_of (rev (map (\<lambda>w. (WName w, Addr w)) ws)) n of Some a \<Rightarrow> a | None \<Rightarrow> [])"

definition remux_execute :: "(float64 \<Rightarrow> int) \<Rightarrow> (string \<Rightarrow> string option) \<Rightarrow> (string \<Rightarrow> string option) \<Rightarrow> 'm remux_pool \<Rightarrow> request \<Rightarrow> dir
    \<Rightarrow> 'm relay_result" where
  "remux_execute platform url_path players pool r d =
     (case Classify platform url_path players (TargetBinary r) (Args r) (map_of (Env r)) of
        None \<Rightarrow> (False, None, d, [])
      | Some job \<Rightarrow>
          (case pool_ready pool of
             None \<Rightarrow> (False, None, d, [])
           | Some ws \<Rightarrow>
               if ws = [] then (False, None, d, [])
               else (let addr = addr_of ws (Locate (New (map WName ws)) (remux_RingKey job)) in
                 if \<not> pool_dial pool addr then (False, None, d, [])
                 else (case pool_call pool addr (remux_proto job) of
                     None \<Rightarrow> (False, None, d, [])
                   | Some (evs, e) \<Rightarrow> remux_loop e evs True d []))))"

section \<open>Properties\<close>

definition told_shim :: "'m relay_act \<Rightarrow> bool" where
  "told_shim a \<longleftrightarrow> (case a of SinkStderr _ \<Rightarrow> True | SinkExit _ \<Rightarrow> True | _ \<Rightarrow> False)"

definition wrote :: "'m relay_act \<Rightarrow> bool" where
  "wrote a \<longleftrightarrow> (case a of Wrote _ _ \<Rightarrow> True | _ \<Rightarrow> False)"

definition allowed_act :: "'m relay_act \<Rightarrow> bool" where
  "allowed_act a \<longleftrightarrow> (case a of Wrote n _ \<Rightarrow> dashName n \<and> filepath_base n = n | PutProgress p q \<Rightarrow> progressAllowed progressKeys p q | _ \<Rightarrow> True)"

lemma act_kinds [simp]:
  "\<not> told_shim (Wrote n x)" "\<not> told_shim (PostedManifest m)" "\<not> told_shim (PutProgress p q)" "told_shim (SinkStderr t)" "told_shim (SinkExit c)"
  "wrote (Wrote n x)" "\<not> wrote (PostedManifest m)" "\<not> wrote (PutProgress p q)"
  "allowed_act (PostedManifest m)" "allowed_act (SinkStderr t)" "allowed_act (SinkExit c)"
  "allowed_act (Wrote n x) = (dashName n \<and> filepath_base n = n)" "allowed_act (PutProgress p q) = progressAllowed progressKeys p q"
  by (simp_all add: told_shim_def wrote_def allowed_act_def)

text \<open>How a run of the loop ends: the job left to Plex with nothing written or said, or one answer to the shim at the end.\<close>

definition relay_ok :: "dir \<Rightarrow> 'm relay_result \<Rightarrow> bool" where
  "relay_ok d res \<longleftrightarrow> (case res of (handled, err, d', acts) \<Rightarrow> list_all allowed_act acts \<and>
     (if handled then \<exists>pre. acts = pre @ finish_acts ''remux'' err \<and> list_all (\<lambda>a. \<not> told_shim a) pre
      else err = None \<and> d' = d \<and> list_all (\<lambda>a. \<not> told_shim a \<and> \<not> wrote a) acts))"

lemma done_with_ok: "list_all allowed_act acts \<Longrightarrow> list_all (\<lambda>a. \<not> told_shim a) acts \<Longrightarrow> relay_ok d0 (done_with err d acts)"
  by (auto simp: relay_ok_def done_with_def finish_acts_def split: option.splits)

lemma write_ok_name: "WriteFile dk allowed name data d = (d', True) \<Longrightarrow> allowed name \<and> filepath_base name = name"
  by (auto simp: WriteFile_def split: if_splits disk.splits)

lemma remux_loop_ok:
  assumes "list_all allowed_act acts" and "list_all (\<lambda>a. \<not> told_shim a) acts"
    and "first \<longrightarrow> d = d0 \<and> list_all (\<lambda>a. \<not> wrote a) acts"
  shows "relay_ok d0 (remux_loop e evs first d acts)"
  using assms
proof (induction e evs first d acts rule: remux_loop.induct)
  case (1 e first d acts)
  then show ?case by (auto simp: relay_ok_def [of d0 "(False, _)"] list_all_iff intro!: done_with_ok)
next
  case (2 e ev dk plex_ok evs first d acts)
  show ?case
  proof (cases ev)
    case (EvFile name data)
    obtain d' ok where w: "WriteFile dk dashName name data d = (d', ok)" by fastforce
    show ?thesis
    proof (cases ok)
      case True
      with w have "dashName name \<and> filepath_base name = name" by (simp add: write_ok_name)
      with "2.IH"(1) [OF EvFile w [symmetric] True] "2.prems" EvFile w True show ?thesis by simp
    next
      case False
      with "2.prems" EvFile w show ?thesis by (simp add: done_with_ok)
    qed
  next
    case (EvManifest mpd)
    with 2 show ?thesis by (simp add: done_with_ok)
  next
    case (EvProgress path query)
    with 2 show ?thesis by simp
  next
    case (EvDone msg)
    with 2 show ?thesis by (auto simp: done_with_ok relay_ok_def [of d0 "(False, _)"] list_all_iff)
  next
    case EvOther
    with 2 show ?thesis by simp
  qed
qed

lemma remux_execute_ok: "relay_ok d (remux_execute platform url_path players pool r d)"
  unfolding remux_execute_def
  by (auto simp: Let_def relay_ok_def [of d "(False, _)"] split: option.splits intro!: remux_loop_ok)

text \<open>
  C28. A browser remux is left to Plex's own transcoder only while that is safe: then nothing was written into the session
  directory and the shim was told nothing. A job the relay takes is answered to the shim exactly once, at the end, with
  exit 0 just when it succeeded. Only segment files are ever written, and only progress Plex's own transcoder would send
  is passed on under the session's token.
\<close>

theorem remux_falls_back_untouched:
  assumes "remux_execute platform url_path players pool r d = (handled, fault, d', acts)"
  shows "(\<not> handled \<longrightarrow> fault = None \<and> d' = d \<and> (\<forall>a \<in> set acts. \<not> wrote a \<and> \<not> told_shim a))
    \<and> (handled \<longrightarrow> (\<exists>pre. acts = pre @ finish_acts ''remux'' fault \<and> (\<forall>a \<in> set pre. \<not> told_shim a)))
    \<and> (\<forall>a \<in> set acts. allowed_act a)"
  using remux_execute_ok [of d platform url_path players pool r] assms by (auto simp: relay_ok_def list_all_iff)

definition demo_pool :: "string remux_pool" where
  "demo_pool = \<lparr>pool_ready = Some [\<lparr>WName = ''w0'', Addr = ''10.0.0.1'', Node = ''n''\<rparr>], pool_dial = (\<lambda>_. True),
     pool_call = (\<lambda>_ _. Some ([(EvDone ''no such file'', DiskOk, True)], Eof))\<rparr>"

definition demo_request :: request where
  "demo_request = \<lparr>TargetBinary = ''Plex Transcoder'', Args = demo_remux_argv, Env = []\<rparr>"

theorem remux_falls_back_untouched_witness:
  "\<exists>handled fault d' acts. remux_execute (\<lambda>_. 0) Some (\<lambda>s. if s = ''s1'' then Some ''Plex Web'' else None) demo_pool demo_request Map.empty
     = (handled, fault, d', acts) \<and> \<not> handled \<and> fault = None \<and> d' = Map.empty"
proof -
  let ?run = "remux_execute (\<lambda>_. 0) Some (\<lambda>s. if s = ''s1'' then Some ''Plex Web'' else None) demo_pool demo_request Map.empty"
  obtain handled fault d' acts where run: "?run = (handled, fault, d', acts)" by (cases ?run) auto
  have "\<not> fst ?run" using demo_classify by (auto simp: remux_execute_def demo_request_def demo_pool_def Let_def)
  with remux_falls_back_untouched [OF run] run show ?thesis by auto
qed

text \<open>The files and manifests the relay handled are those the worker sent, in its order, up to where the relay stopped.\<close>

fun act_events :: "'m relay_act list \<Rightarrow> 'm remux_event list" where
  "act_events [] = []"
| "act_events (Wrote n x # as) = EvFile n x # act_events as"
| "act_events (PostedManifest m # as) = EvManifest m # act_events as"
| "act_events (_ # as) = act_events as"

fun output_events :: "'m received list \<Rightarrow> 'm remux_event list" where
  "output_events [] = []"
| "output_events ((EvFile n x, _) # es) = EvFile n x # output_events es"
| "output_events ((EvManifest m, _) # es) = EvManifest m # output_events es"
| "output_events (_ # es) = output_events es"

lemma act_events_append: "act_events (xs @ ys) = act_events xs @ act_events ys"
  by (induction xs rule: act_events.induct) simp_all

lemma act_events_finish [simp]: "act_events (finish_acts pre err) = []"
  by (simp add: finish_acts_def split: option.splits)

lemma remux_loop_order:
  "remux_loop e evs first d acts = (handled, err, d', acts') \<Longrightarrow> \<exists>k. act_events acts' = act_events acts @ take k (output_events evs)"
proof (induction e evs first d acts rule: remux_loop.induct)
  case (1 e first d acts)
  then show ?case by (auto simp: done_with_def act_events_append split: if_splits)
next
  case (2 e ev dk plex_ok evs first d acts)
  have stop: "\<exists>k. act_events acts' = act_events acts @ take k (output_events ((ev, dk, plex_ok) # evs))"
    if "act_events acts' = act_events acts" using that by (intro exI [of _ 0]) simp
  show ?case
  proof (cases ev)
    case (EvFile name data)
    obtain d1 ok where w: "WriteFile dk dashName name data d = (d1, ok)" by fastforce
    show ?thesis
    proof (cases ok)
      case True
      with "2.IH"(1) [OF EvFile w [symmetric] True] "2.prems" EvFile w obtain k where
        "act_events acts' = act_events (acts @ [Wrote name data]) @ take k (output_events evs)" by auto
      with EvFile show ?thesis by (intro exI [of _ "Suc k"]) (simp add: act_events_append)
    next
      case False
      with "2.prems" EvFile w show ?thesis by (intro stop) (auto simp: done_with_def act_events_append)
    qed
  next
    case (EvManifest mpd)
    show ?thesis
    proof (cases plex_ok)
      case True
      with 2 EvManifest obtain k where "act_events acts' = act_events (acts @ [PostedManifest mpd]) @ take k (output_events evs)" by auto
      with EvManifest show ?thesis by (intro exI [of _ "Suc k"]) (simp add: act_events_append)
    next
      case False
      with "2.prems" EvManifest show ?thesis by (intro stop) (auto simp: done_with_def act_events_append)
    qed
  next
    case (EvProgress path query)
    with 2 show ?thesis by (auto simp: act_events_append split: if_splits)
  next
    case (EvDone msg)
    with "2.prems" show ?thesis by (intro stop) (auto simp: done_with_def act_events_append split: if_splits)
  next
    case EvOther
    with 2 show ?thesis by auto
  qed
qed

end
