(* ===== verification/Video_Relay.thy ===== *)
theory Video_Relay
  imports Video_Parse Plex_Session Hash_Ring Video_Segments Go_Text
begin

text \<open>
  The manager's side of the GPU pool, \<open>src/pkg/video/relay\<close>: \<open>relay.go\<close>, \<open>placements.go\<close>, \<open>live.go\<close> and the throttle of
  \<open>throttle.go\<close>. The pods, the disk and Plex are parameters: how each pod answers the offer of a job, and with each message
  a worker streams, how the disk and Plex answer what the relay does with it. What the relay did is the list of its acts.
  Logging and the start-up metric are left out; the text of an error of the disk or of Plex is not modelled.
\<close>

section \<open>Placements\<close>

record Placement =
  PWorker :: string
  PNode :: string
  PEncoder :: string
  PDecoder :: string

text \<open>\<open>None\<close> is a nil \<open>*Placements\<close>, which records nothing.\<close>

type_synonym placements = "(string \<rightharpoonup> Placement) option"

definition placement_get :: "placements \<Rightarrow> string \<Rightarrow> Placement option" where
  "placement_get p s = (case p of None \<Rightarrow> None | Some m \<Rightarrow> m s)"

definition placement_set :: "string \<Rightarrow> Placement \<Rightarrow> placements \<Rightarrow> placements" where
  "placement_set s pl p = map_option (\<lambda>m. m(s \<mapsto> pl)) p"

definition placement_started :: "string \<Rightarrow> string \<Rightarrow> string \<Rightarrow> placements \<Rightarrow> placements" where
  "placement_started s enc dec p = map_option (\<lambda>m. case m s of None \<Rightarrow> m
     | Some pl \<Rightarrow> m(s \<mapsto> pl\<lparr>PEncoder := enc, PDecoder := dec\<rparr>)) p"

definition placement_remove :: "string \<Rightarrow> placements \<Rightarrow> placements" where
  "placement_remove s p = map_option (\<lambda>m. m(s := None)) p"

section \<open>Choosing a pod\<close>

text \<open>The comparison of \<open>order\<close>, and the sort by it.\<close>

definition order_less :: "string \<Rightarrow> worker \<Rightarrow> worker \<Rightarrow> bool" where
  "order_less pk a b = (if WName a = pk then True else if WName b = pk then False else WName a < WName b)"

definition order :: "worker list \<Rightarrow> string \<Rightarrow> worker list" where
  "order ws ring_key = sort_stable (order_less (Locate (New (map WName ws)) ring_key)) ws"

datatype code = ResourceExhausted | InvalidArgument | OtherCode

text \<open>How a pod answers the offer: the dial fails, the job is accepted, or it is turned down with a status, when the job's
  context may also be done.\<close>

datatype pod_answer = DialFails string | Accepts | TurnsDown code string bool

type_synonym reason_error = "string \<times> string"

fun reason_text :: "Reason \<Rightarrow> string" where
  "reason_text ReasonNoPool = ''no-pool''"
| "reason_text ReasonFull = ''full''"
| "reason_text ReasonShape = ''shape''"
| "reason_text ReasonWorkerError = ''worker-error''"
| "reason_text ReasonCancelled = ''cancelled''"

definition refused :: "Reason \<Rightarrow> string \<Rightarrow> reason_error" where
  "refused r e = (reason_text r, e)"

fun open_loop :: "(worker \<Rightarrow> pod_answer) \<Rightarrow> nat \<Rightarrow> worker list \<Rightarrow> bool \<Rightarrow> reason_error \<Rightarrow> reason_error + worker" where
  "open_loop ask n [] full final =
     Inl (if full then refused ReasonFull (''every ready pod's slots are taken ('' @ itoa (int n) @ '' pods)'') else final)"
| "open_loop ask n (w # ws) full final =
     (case ask w of
        DialFails e \<Rightarrow> open_loop ask n ws full (refused ReasonWorkerError (''dial '' @ WName w @ '': '' @ e))
      | Accepts \<Rightarrow> Inr w
      | TurnsDown c e cancelled \<Rightarrow>
          if cancelled then Inl (refused ReasonCancelled e)
          else (case c of
              ResourceExhausted \<Rightarrow> open_loop ask n ws True final
            | InvalidArgument \<Rightarrow> Inl (refused ReasonShape (WName w @ '': '' @ e))
            | OtherCode \<Rightarrow> open_loop ask n ws full (refused ReasonWorkerError (WName w @ '': '' @ e))))"

definition open_pod :: "(worker \<Rightarrow> pod_answer) \<Rightarrow> worker list \<Rightarrow> Job \<Rightarrow> reason_error + worker" where
  "open_pod ask ws job = open_loop ask (length ws) (order ws (RingKey job)) False (refused ReasonWorkerError ''no pod could be reached'')"

section \<open>Sloth mode\<close>

datatype video_act = WroteFile string string | PostedMPD string | ListedSegment string | PutReport string string
  | LoggedToPlex string | ShimStderr string | ShimExit int

definition slothMessage :: string where "slothMessage = ''Throttle - Going into sloth mode.''"
definition workMessage :: string where "workMessage = ''Throttle - Getting back to work.''"

text \<open>One turn of the ticker: the context is done, before or during the request, or Plex answers: an error, or whether it
  still throttles.\<close>

datatype poll = CtxDone | PollFails | Answered bool

datatype held = StillHeld | Released | HeldCancelled

fun sloth_loop :: "string \<Rightarrow> poll list \<Rightarrow> held \<times> video_act list" where
  "sloth_loop q [] = (StillHeld, [])"
| "sloth_loop q (CtxDone # ps) = (HeldCancelled, [])"
| "sloth_loop q (PollFails # ps) = (Released, [PutReport [] q, LoggedToPlex workMessage])"
| "sloth_loop q (Answered throttled # ps) =
     (if throttled then (case sloth_loop q ps of (h, acts) \<Rightarrow> (h, PutReport [] q # acts))
      else (Released, [PutReport [] q, LoggedToPlex workMessage]))"

definition sloth :: "string \<Rightarrow> poll list \<Rightarrow> held \<times> video_act list" where
  "sloth query ps = (case sloth_loop (slothQuery query) ps of (h, acts) \<Rightarrow> (h, LoggedToPlex slothMessage # acts))"

text \<open>\<open>hold\<close>: nothing when the reporter got no throttle answer, else sloth mode with the query that got it.\<close>

definition hold :: "(string \<times> poll list) option \<Rightarrow> held \<times> video_act list" where
  "hold h = (case h of None \<Rightarrow> (Released, []) | Some (query, ps) \<Rightarrow> sloth query ps)"

section \<open>The relay\<close>

record vsegment =
  vs_name :: string
  vs_data :: string
  vs_start_us :: int
  vs_end_us :: int
  vs_streams :: "(int \<times> int \<times> int) list"
  vs_next_us :: "int option"

definition segmentTimes :: "vsegment \<Rightarrow> SegmentTimes" where
  "segmentTimes s = \<lparr>STName = vs_name s, STStart = from_us (vs_start_us s), STEnd = from_us (vs_end_us s),
     STStreams = map (\<lambda>(n, a, b). \<lparr>SpStream = n, SpStart = from_us a, SpEnd = from_us b\<rparr>) (vs_streams s)\<rparr>"

datatype down = DownFile string string | DownManifest string | DownSegment vsegment | DownProgress string string
  | DownStarted string string | DownDone string string | DownUnknown

text \<open>How the reporter, the disk and Plex answer around one message: a hold before it, the write, the manifest's or the
  list's posts, the wait for a progress answer cancelled, and a hold after the report.\<close>

record reply =
  hold_before :: "(string \<times> poll list) option"
  disk_answer :: disk
  post_answer :: bool
  list_answer :: "string list \<Rightarrow> bool"
  wait_cancelled :: bool
  hold_after :: "(string \<times> poll list) option"

definition videoProgressKeys :: "string list" where
  "videoProgressKeys = ''vdec_hw_status'' # progressKeys"

text \<open>\<open>^media-\\d{5,}\\.ts$\<close>, and a segment's name under the one pattern the parser accepts.\<close>

definition hlsName :: "string \<Rightarrow> bool" where
  "hlsName n \<longleftrightarrow> prefix ''media-'' n \<and> suffix ''.ts'' n \<and> 9 \<le> length n
     \<and> (let ds = take (length n - 9) (drop 6 n) in 5 \<le> length ds \<and> list_all is_digit ds)"

definition SegmentName :: "int \<Rightarrow> string" where
  "SegmentName n = ''media-'' @ pad5 (nat n) @ ''.ts''"

record relay_state =
  rl_dir :: dir
  rl_list :: lister
  rl_acts :: "video_act list"
  rl_placed :: placements

datatype run_end = Ended "reason_error option" | Holding

definition act :: "video_act list \<Rightarrow> relay_state \<Rightarrow> relay_state" where
  "act as s = s\<lparr>rl_acts := rl_acts s @ as\<rparr>"

definition worker_error :: "string \<Rightarrow> run_end" where
  "worker_error e = Ended (Some (refused ReasonWorkerError e))"

text \<open>One message; \<open>None\<close> goes on to the next.\<close>

definition apply_down :: "Job \<Rightarrow> down \<Rightarrow> reply \<Rightarrow> relay_state \<Rightarrow> relay_state \<times> run_end option" where
  "apply_down job m rp s =
     (let dash = (Output job = OutputDASH) in
      case m of
        DownFile name data \<Rightarrow>
          if \<not> dash then (s, Some (worker_error ''a file for an HLS job''))
          else (case WriteFile (disk_answer rp) dashName name data (rl_dir s) of (d, ok) \<Rightarrow>
            if ok then (act [WroteFile name data] (s\<lparr>rl_dir := d\<rparr>), None) else (s\<lparr>rl_dir := d\<rparr>, Some (worker_error ''write'')))
      | DownManifest mpd \<Rightarrow>
          if \<not> dash then (s, Some (worker_error ''a manifest for an HLS job''))
          else if post_answer rp then (act [PostedMPD mpd] s, None)
          else (s, Some (worker_error ''manifest''))
      | DownSegment seg \<Rightarrow>
          if dash then (s, Some (worker_error ''an HLS segment for a DASH job''))
          else (case WriteFile (disk_answer rp) hlsName (vs_name seg) (vs_data seg) (rl_dir s) of (d, ok) \<Rightarrow>
            if \<not> ok then (s\<lparr>rl_dir := d\<rparr>, Some (worker_error ''write''))
            else (let s1 = act [WroteFile (vs_name seg) (vs_data seg)] (s\<lparr>rl_dir := d\<rparr>) in
              case lister_finished (list_answer rp) (segmentTimes seg) (map_option from_us (vs_next_us seg)) (rl_list s1) of
                (l, listed) \<Rightarrow>
                  if listed then (act [ListedSegment (vs_name seg)] (s1\<lparr>rl_list := l\<rparr>), None)
                  else (s1\<lparr>rl_list := l\<rparr>, Some (worker_error ''segment list''))))
      | DownProgress path query \<Rightarrow>
          if \<not> progressAllowed videoProgressKeys path query then (s, None)
          else if wait_cancelled rp then (act [PutReport path query] s, Some (Ended (Some (refused ReasonCancelled ''''))))
          else (case hold (hold_after rp) of (h, as) \<Rightarrow>
            let s1 = act (PutReport path query # as) s in
            (case h of Released \<Rightarrow> (s1, None) | StillHeld \<Rightarrow> (s1, Some Holding)
             | HeldCancelled \<Rightarrow> (s1, Some (Ended (Some (refused ReasonCancelled ''''))))))
      | DownStarted enc dec \<Rightarrow> (s\<lparr>rl_placed := placement_started (Session job) enc dec (rl_placed s)\<rparr>, None)
      | DownDone reason msg \<Rightarrow>
          (s, Some (Ended (if msg = [] then None
             else Some (if reason = [] then refused ReasonWorkerError msg else (reason, msg)))))
      | DownUnknown \<Rightarrow> (s, Some (worker_error ''unexpected'')))"

fun relay_loop :: "Job \<Rightarrow> stream_end \<Rightarrow> (down \<times> reply) list \<Rightarrow> relay_state \<Rightarrow> relay_state \<times> run_end" where
  "relay_loop job e [] s =
     (s, worker_error (case e of Eof \<Rightarrow> ''the worker ended the stream without Done'' | StreamError x \<Rightarrow> x))"
| "relay_loop job e ((m, rp) # ms) s =
     (case hold (hold_before rp) of (h, as) \<Rightarrow>
        let s1 = act as s in
        (case h of
           StillHeld \<Rightarrow> (s1, Holding)
         | HeldCancelled \<Rightarrow> (s1, Ended (Some (refused ReasonCancelled '''')))
         | Released \<Rightarrow> (case apply_down job m rp s1 of
               (s2, Some r) \<Rightarrow> (s2, r)
             | (s2, None) \<Rightarrow> relay_loop job e ms s2)))"

text \<open>\<open>run\<close>: the listing of the pool, the offer, the stream, the placement set and removed around it. \<open>cancelled\<close> is whether
  the job's context was done when the stream ended.\<close>

record video_pool =
  vp_ready :: "worker list option"
  vp_ask :: "worker \<Rightarrow> pod_answer"
  vp_stream :: "worker \<Rightarrow> (down \<times> reply) list \<times> stream_end"
  vp_cancelled :: bool

definition run_video :: "video_pool \<Rightarrow> Job \<Rightarrow> dir \<Rightarrow> placements \<Rightarrow> relay_state \<times> run_end" where
  "run_video pool job d pls =
     (let s0 = \<lparr>rl_dir = d, rl_list = newLister SegmentName (Segments job), rl_acts = [], rl_placed = pls\<rparr> in
      case vp_ready pool of
        None \<Rightarrow> (s0, Ended (Some (refused ReasonNoPool ''list the pool'')))
      | Some ws \<Rightarrow>
          if ws = [] then (s0, Ended (Some (refused ReasonNoPool ''no ready video transcode pod'')))
          else (case open_pod (vp_ask pool) ws job of
              Inl e \<Rightarrow> (s0, Ended (Some e))
            | Inr w \<Rightarrow>
                (case vp_stream pool w of (ms, e) \<Rightarrow>
                  (case relay_loop job e ms (s0\<lparr>rl_placed := placement_set (Session job)
                       \<lparr>PWorker = WName w, PNode = Node w, PEncoder = [], PDecoder = []\<rparr> pls\<rparr>) of
                     (s, Holding) \<Rightarrow> (s, Holding)
                   | (s, Ended r) \<Rightarrow> (s\<lparr>rl_placed := placement_remove (Session job) (rl_placed s)\<rparr>,
                       Ended (if vp_cancelled pool then Some (refused ReasonCancelled '''') else r))))))"

definition video_finish :: "reason_error option \<Rightarrow> video_act list" where
  "video_finish err = (case err of None \<Rightarrow> [ShimExit 0]
     | Some (reason, e) \<Rightarrow> [ShimStderr (''video: '' @ reason @ '': '' @ e @ [CHR 0x0A]), ShimExit 1])"

definition video_execute :: "(float64 \<Rightarrow> int) \<Rightarrow> (string \<Rightarrow> (string \<times> string) option) \<Rightarrow> video_pool \<Rightarrow> request \<Rightarrow> dir \<Rightarrow> placements
    \<Rightarrow> relay_state \<times> run_end" where
  "video_execute platform url pool r d pls =
     (let s0 = \<lparr>rl_dir = d, rl_list = newLister SegmentName (Segments zero_job), rl_acts = [], rl_placed = pls\<rparr> in
      case Parse platform url (Args r) (Env r) of
        Inl _ \<Rightarrow> (act (video_finish (Some (refused ReasonShape ''shape''))) s0, Ended (Some (refused ReasonShape ''shape'')))
      | Inr job \<Rightarrow>
          (case run_video pool job d pls of
             (s, Holding) \<Rightarrow> (s, Holding)
           | (s, Ended err) \<Rightarrow> (act (video_finish err) s, Ended err)))"

section \<open>Choosing a pod: properties\<close>

lemma mset_order: "mset (order ws k) = mset ws"
  by (simp add: order_def)

text \<open>With the names distinct, the comparison is a strict total order in which the ring's pick is least.\<close>

lemma sort_stable_sorted:
  assumes "distinct (map WName ws)"
  shows "sorted_wrt (order_less pk) (sort_stable (order_less pk) ws)"
  using assms
proof (induction ws)
  case Nil
  then show ?case by (simp add: sort_stable_def)
next
  case (Cons w ws)
  have ins: "sorted_wrt (order_less pk) (insert_stable (order_less pk) w ys)"
    if "sorted_wrt (order_less pk) ys" "WName w \<notin> WName ` set ys" "distinct (map WName ys)" for ys
    using that
  proof (induction ys)
    case (Cons y ys)
    have ne: "WName w \<noteq> WName y" using Cons.prems(2) by auto
    show ?case
    proof (cases "order_less pk y w")
      case True
      with Cons show ?thesis by auto
    next
      case False
      with ne have wy: "order_less pk w y" by (auto simp: order_less_def split: if_splits)
      have "order_less pk w z" if "z \<in> set ys" for z
      proof -
        have "WName z \<in> WName ` set ys" using that by simp
        then have "WName z \<noteq> WName y" "WName z \<noteq> WName w" using Cons.prems(2,3) by (metis distinct.simps(2) list.set_map list.simps(9), metis image_insert insertCI list.simps(15))
        moreover have "order_less pk y z" using Cons.prems(1) that by simp
        ultimately show ?thesis using wy ne by (auto simp: order_less_def split: if_splits)
      qed
      with False wy Cons.prems(1) show ?thesis by auto
    qed
  qed simp
  have dist: "distinct (map WName (sort_stable (order_less pk) ws))"
    using Cons.prems by (metis distinct.simps(2) list.simps(9) mset_eq_imp_distinct_iff mset_map mset_sort_stable)
  from Cons show ?case unfolding sort_stable_Cons by (intro ins dist) auto
qed

text \<open>
  A conversion is offered to every ready pod, the one the ring names first, so a file returns to the pod it ran on, and
  the rest by name; no pod is left out or asked twice.
\<close>

theorem offers_follow_the_ring:
  assumes "distinct (map WName ws)" and "w \<in> set ws" and "\<forall>v \<in> set ws. WName v \<noteq> []"
  shows "mset (order ws k) = mset ws \<and> WName (hd (order ws k)) = Locate (New (map WName ws)) k
    \<and> sorted (map WName (tl (order ws k)))"
proof -
  let ?pk = "Locate (New (map WName ws)) k"
  let ?os = "order ws k"
  have "?pk \<in> set (map WName ws)" using assms(2,3) hr.loc_live [of "map WName ws" k] by force
  then obtain p where p: "p \<in> set ws" "WName p = ?pk" by auto
  have srt: "sorted_wrt (order_less ?pk) ?os" unfolding order_def by (rule sort_stable_sorted [OF assms(1)])
  have sets: "set ?os = set ws" by (simp add: order_def)
  have dist: "distinct (map WName ?os)" using assms(1) by (metis mset_eq_imp_distinct_iff mset_map mset_order)
  obtain h t where ht: "?os = h # t" using assms(2) sets by (cases ?os) auto
  have first: "WName h = ?pk"
  proof (rule ccontr)
    assume other: "WName h \<noteq> ?pk"
    with p sets ht have "p \<in> set t" by auto
    with srt ht have "order_less ?pk h p" by simp
    with other p(2) show False by (simp add: order_less_def)
  qed
  have rest: "WName v \<noteq> ?pk" if "v \<in> set t" for v using dist ht first that by (auto simp: image_iff)
  have "sorted_wrt (\<lambda>a b. WName a \<le> WName b) t"
    using srt ht rest by (auto simp: order_less_def intro: sorted_wrt_mono_rel [of t "order_less ?pk"] split: if_splits)
  then have "sorted (map WName (tl ?os))" using ht by (simp add: sorted_wrt_map)
  moreover have "WName (hd ?os) = ?pk" using ht first by simp
  ultimately show ?thesis using mset_order by blast
qed

theorem offers_follow_the_ring_witness:
  "WName (hd (order [\<lparr>WName = ''a'', Addr = ''1'', Node = ''n''\<rparr>, \<lparr>WName = ''b'', Addr = ''2'', Node = ''n''\<rparr>] ''/media/x''))
     = Locate (New [''a'', ''b'']) ''/media/x''"
proof -
  let ?ws = "[\<lparr>WName = ''a'', Addr = ''1'', Node = ''n''\<rparr>, \<lparr>WName = ''b'', Addr = ''2'', Node = ''n''\<rparr>]"
  have "distinct (map WName ?ws)" "hd ?ws \<in> set ?ws" "\<forall>v \<in> set ?ws. WName v \<noteq> []" by simp_all
  from offers_follow_the_ring [OF this, of "''/media/x''"] show ?thesis by simp
qed

text \<open>A pod is passed over when it cannot be dialled, is full, or fails in a way that says nothing of the job's shape.\<close>

definition passed_over :: "pod_answer \<Rightarrow> bool" where
  "passed_over a \<longleftrightarrow> (case a of DialFails _ \<Rightarrow> True | Accepts \<Rightarrow> False | TurnsDown c _ cancelled \<Rightarrow> \<not> cancelled \<and> c \<noteq> InvalidArgument)"

definition is_full :: "pod_answer \<Rightarrow> bool" where
  "is_full a \<longleftrightarrow> (case a of TurnsDown c _ cancelled \<Rightarrow> c = ResourceExhausted \<and> \<not> cancelled | _ \<Rightarrow> False)"

lemma open_loop_accepts:
  "open_loop ask n ws full final = Inr w \<longleftrightarrow> (\<exists>pre post. ws = pre @ w # post \<and> ask w = Accepts \<and> (\<forall>v \<in> set pre. passed_over (ask v)))"
proof (induction ask n ws full final rule: open_loop.induct)
  case (2 ask n v ws full final)
  show ?case
  proof (cases "ask v = Accepts")
    case True
    have "(\<exists>pre post. v # ws = pre @ w # post \<and> ask w = Accepts \<and> (\<forall>x \<in> set pre. passed_over (ask x))) \<longleftrightarrow> v = w"
    proof
      assume "\<exists>pre post. v # ws = pre @ w # post \<and> ask w = Accepts \<and> (\<forall>x \<in> set pre. passed_over (ask x))"
      then obtain pre post where "v # ws = pre @ w # post" "\<forall>x \<in> set pre. passed_over (ask x)" by blast
      with True show "v = w" by (cases pre) (auto simp: passed_over_def)
    qed (use True in \<open>auto intro: exI [of _ "[]"]\<close>)
    with True show ?thesis by simp
  next
    case False
    have "(\<exists>pre post. v # ws = pre @ w # post \<and> ask w = Accepts \<and> (\<forall>x \<in> set pre. passed_over (ask x)))
        \<longleftrightarrow> passed_over (ask v) \<and> (\<exists>pre post. ws = pre @ w # post \<and> ask w = Accepts \<and> (\<forall>x \<in> set pre. passed_over (ask x)))"
    proof
      assume "\<exists>pre post. v # ws = pre @ w # post \<and> ask w = Accepts \<and> (\<forall>x \<in> set pre. passed_over (ask x))"
      then obtain pre post where h: "v # ws = pre @ w # post" "ask w = Accepts" "\<forall>x \<in> set pre. passed_over (ask x)" by blast
      with False obtain pre' where "pre = v # pre'" by (cases pre) auto
      with h show "passed_over (ask v) \<and> (\<exists>pre post. ws = pre @ w # post \<and> ask w = Accepts \<and> (\<forall>x \<in> set pre. passed_over (ask x)))"
        by auto
    next
      assume "passed_over (ask v) \<and> (\<exists>pre post. ws = pre @ w # post \<and> ask w = Accepts \<and> (\<forall>x \<in> set pre. passed_over (ask x)))"
      then obtain pre post where h: "passed_over (ask v)" "ws = pre @ w # post" "ask w = Accepts" "\<forall>x \<in> set pre. passed_over (ask x)" by blast
      then show "\<exists>pre post. v # ws = pre @ w # post \<and> ask w = Accepts \<and> (\<forall>x \<in> set pre. passed_over (ask x))"
        by (intro exI [of _ "v # pre"] exI [of _ post]) simp
    qed
    moreover have "open_loop ask n (v # ws) full final = Inr w \<longleftrightarrow> passed_over (ask v) \<and>
        (\<exists>pre post. ws = pre @ w # post \<and> ask w = Accepts \<and> (\<forall>x \<in> set pre. passed_over (ask x)))"
      using False 2 by (auto simp: passed_over_def split: pod_answer.splits code.splits)
    ultimately show ?thesis by simp
  qed
qed simp

lemma open_loop_full:
  "open_loop ask n ws full final = Inl (''full'', t) \<Longrightarrow> fst final \<noteq> ''full'' \<Longrightarrow>
     (\<forall>v \<in> set ws. passed_over (ask v)) \<and> (full \<or> (\<exists>v \<in> set ws. is_full (ask v)))"
proof (induction ask n ws full final rule: open_loop.induct)
  case (1 ask n full final)
  then show ?case by (cases final) (auto simp: refused_def split: if_splits)
next
  case (2 ask n v ws full final)
  then show ?case
    by (cases "ask v") (auto simp: passed_over_def is_full_def refused_def split: code.splits if_splits)
qed

text \<open>
  A conversion runs on the first pod, in the ring's order, that accepts it, every pod before it having been passed
  over; and it is refused as \<open>full\<close> only when every ready pod was asked, none accepted, and at least one was at its slots.
\<close>

theorem pool_exhausted_before_refusal:
  "(open_pod ask ws job = Inr w \<longleftrightarrow>
      (\<exists>pre post. order ws (RingKey job) = pre @ w # post \<and> ask w = Accepts \<and> (\<forall>v \<in> set pre. passed_over (ask v))))
   \<and> (open_pod ask ws job = Inl (''full'', t) \<longrightarrow> (\<forall>v \<in> set ws. passed_over (ask v)) \<and> (\<exists>v \<in> set ws. is_full (ask v)))"
proof -
  have sets: "set (order ws (RingKey job)) = set ws" by (simp add: order_def)
  have other: "fst (refused ReasonWorkerError ''no pod could be reached'') \<noteq> ''full''" by (simp add: refused_def)
  have "(\<forall>v \<in> set ws. passed_over (ask v)) \<and> (\<exists>v \<in> set ws. is_full (ask v))" if "open_pod ask ws job = Inl (''full'', t)"
    using open_loop_full [OF that [unfolded open_pod_def] other] by (simp add: sets)
  then show ?thesis unfolding open_pod_def open_loop_accepts by blast
qed

theorem pool_exhausted_before_refusal_witness:
  "\<exists>t. open_pod (\<lambda>w. TurnsDown ResourceExhausted [] False) [\<lparr>WName = ''a'', Addr = ''1'', Node = ''n''\<rparr>] demo_job = Inl (''full'', t)
    \<and> passed_over (TurnsDown ResourceExhausted [] False)"
proof -
  let ?ask = "\<lambda>w :: worker. TurnsDown ResourceExhausted [] False" and ?ws = "[\<lparr>WName = ''a'', Addr = ''1'', Node = ''n''\<rparr>]"
  let ?t = "''every ready pod's slots are taken ('' @ itoa 1 @ '' pods)''"
  have "open_pod ?ask ?ws demo_job = Inl (''full'', ?t)" by (simp add: open_pod_def order_def sort_stable_def refused_def)
  with pool_exhausted_before_refusal [of ?ask ?ws demo_job _ ?t] show ?thesis by auto
qed

section \<open>The relay: properties\<close>

fun listed :: "video_act list \<Rightarrow> string list" where
  "listed [] = []"
| "listed (ListedSegment n # as) = n # listed as"
| "listed (_ # as) = listed as"

fun files :: "video_act list \<Rightarrow> string list" where
  "files [] = []"
| "files (WroteFile n _ # as) = n # files as"
| "files (_ # as) = files as"

text \<open>Every segment listed was written before; \<open>ws\<close> are the names written so far.\<close>

fun in_place :: "string set \<Rightarrow> video_act list \<Rightarrow> bool" where
  "in_place ws [] = True"
| "in_place ws (WroteFile n _ # as) = in_place (insert n ws) as"
| "in_place ws (ListedSegment n # as) = (n \<in> ws \<and> in_place ws as)"
| "in_place ws (_ # as) = in_place ws as"

definition to_shim :: "video_act \<Rightarrow> bool" where
  "to_shim a \<longleftrightarrow> (case a of ShimStderr _ \<Rightarrow> True | ShimExit _ \<Rightarrow> True | _ \<Rightarrow> False)"

lemma to_shim_simps [simp]: "\<not> to_shim (WroteFile n x)" "\<not> to_shim (PostedMPD m)" "\<not> to_shim (ListedSegment n)" "\<not> to_shim (PutReport p q)"
  "\<not> to_shim (LoggedToPlex t)" "to_shim (ShimStderr t)" "to_shim (ShimExit c)"
  by (simp_all add: to_shim_def)

lemma listed_append [simp]: "listed (xs @ ys) = listed xs @ listed ys"
  by (induction xs rule: listed.induct) simp_all

lemma files_append [simp]: "files (xs @ ys) = files xs @ files ys"
  by (induction xs rule: files.induct) simp_all

lemma in_place_append [simp]: "in_place ws (xs @ ys) \<longleftrightarrow> in_place ws xs \<and> in_place (ws \<union> set (files xs)) ys"
  by (induction ws xs rule: in_place.induct) simp_all

text \<open>Acts of sloth mode neither write nor list nor answer the shim.\<close>

definition quiet :: "video_act list \<Rightarrow> bool" where
  "quiet as \<longleftrightarrow> listed as = [] \<and> files as = [] \<and> (\<forall>ws. in_place ws as) \<and> list_all (\<lambda>a. \<not> to_shim a) as"

lemma quiet_sloth_loop: "quiet (snd (sloth_loop q ps))"
  by (induction q ps rule: sloth_loop.induct) (auto simp: quiet_def split: prod.splits)

lemma quiet_hold: "hold h = (r, as) \<Longrightarrow> quiet as"
proof -
  assume "hold h = (r, as)"
  moreover have "quiet (snd (sloth q ps))" for q ps
    using quiet_sloth_loop [of "slothQuery q" ps] by (auto simp: sloth_def quiet_def split: prod.splits)
  moreover have "quiet []" by (simp add: quiet_def)
  ultimately show ?thesis by (auto simp: hold_def split: option.splits prod.splits) (metis snd_conv)
qed

lemma write_ok_name': "WriteFile dk allowed name data d = (d', True) \<Longrightarrow> allowed name"
  by (auto simp: WriteFile_def split: if_splits disk.splits)

text \<open>The acts so far: \<open>n\<close> segments listed from the job's first number, each after its file.\<close>

definition acts_ok :: "Job \<Rightarrow> nat \<Rightarrow> video_act list \<Rightarrow> bool" where
  "acts_ok job n as \<longleftrightarrow> listed as = map (\<lambda>i. SegmentName (StartNumber (Segments job) + int i)) [0..<n] \<and> in_place {} as
     \<and> list_all (\<lambda>a. \<not> to_shim a) as \<and> list_all (if Output job = OutputDASH then dashName else hlsName) (files as)"

definition relay_inv :: "Job \<Rightarrow> relay_state \<Rightarrow> bool" where
  "relay_inv job s \<longleftrightarrow> acts_ok job (lcount (rl_list s)) (rl_acts s) \<and> lpattern (rl_list s) = SegmentName
     \<and> lnext (rl_list s) = StartNumber (Segments job) + int (lcount (rl_list s))"

lemma acts_ok_quiet: "acts_ok job n as \<Longrightarrow> quiet bs \<Longrightarrow> acts_ok job n (as @ bs)"
  by (simp add: acts_ok_def quiet_def)

lemma relay_inv_quiet: "relay_inv job s \<Longrightarrow> quiet as \<Longrightarrow> relay_inv job (act as s)"
  by (simp add: relay_inv_def act_def acts_ok_quiet)

lemma lister_finished_ok:
  "lister_finished po t nx l = (l', True) \<Longrightarrow>
     STName t = lpattern l (lnext l) \<and> lnext l' = lnext l + 1 \<and> lcount l' = Suc (lcount l) \<and> lpattern l' = lpattern l"
  by (auto simp: lister_finished_def Let_def split: if_splits prod.splits option.splits)

lemma apply_down_inv:
  assumes "apply_down job m rp s = (s', r)" and "relay_inv job s"
  shows "(\<exists>n. acts_ok job n (rl_acts s')) \<and> (r = None \<longrightarrow> relay_inv job s')"
proof (cases m)
  case (DownFile name data)
  show ?thesis using assms write_ok_name' DownFile
    by (auto simp: apply_down_def relay_inv_def acts_ok_def act_def split: if_splits prod.splits dest: write_ok_name')
next
  case (DownSegment seg)
  obtain d ok where w: "WriteFile (disk_answer rp) hlsName (vs_name seg) (vs_data seg) (rl_dir s) = (d, ok)" by fastforce
  show ?thesis
  proof (cases "Output job \<noteq> OutputDASH \<and> ok")
    case False
    with assms DownSegment w show ?thesis by (auto simp: apply_down_def relay_inv_def split: if_splits)
  next
    case True
    let ?s1 = "act [WroteFile (vs_name seg) (vs_data seg)] (s\<lparr>rl_dir := d\<rparr>)"
    have s1: "relay_inv job ?s1" "vs_name seg \<in> set (files (rl_acts ?s1))"
      using assms(2) True write_ok_name' [OF w [unfolded True [THEN conjunct2, THEN eqTrueI]]] by (auto simp: relay_inv_def acts_ok_def act_def)
    obtain l listed_ok where l: "lister_finished (list_answer rp) (segmentTimes seg) (map_option from_us (vs_next_us seg)) (rl_list ?s1) = (l, listed_ok)"
      by fastforce
    show ?thesis
    proof (cases listed_ok)
      case False
      with True assms DownSegment w l s1 show ?thesis by (auto simp: apply_down_def relay_inv_def Let_def)
    next
      case True2: True
      have "lister_finished (list_answer rp) (segmentTimes seg) (map_option from_us (vs_next_us seg)) (rl_list ?s1) = (l, True)"
        using l True2 by simp
      from lister_finished_ok [OF this] s1(1)
      have name: "vs_name seg = SegmentName (StartNumber (Segments job) + int (lcount (rl_list ?s1)))"
        and l': "lnext l = lnext (rl_list ?s1) + 1" "lcount l = Suc (lcount (rl_list ?s1))" "lpattern l = SegmentName"
        by (simp_all add: relay_inv_def segmentTimes_def)
      have s': "s' = act [ListedSegment (vs_name seg)] (?s1\<lparr>rl_list := l\<rparr>)" "r = None"
        using True True2 assms(1) DownSegment w l by (simp_all add: apply_down_def Let_def)
      have "relay_inv job s'"
        using s1 l' name by (simp add: s' relay_inv_def acts_ok_def act_def)
      then show ?thesis by (auto simp: relay_inv_def)
    qed
  qed
next
  case (DownProgress path query)
  obtain h as where h: "hold (hold_after rp) = (h, as)" by fastforce
  have q: "quiet (PutReport path query # as)" "quiet [PutReport path query]" using quiet_hold [OF h] by (simp_all add: quiet_def)
  show ?thesis
    using assms DownProgress h relay_inv_quiet [OF assms(2) q(1)] relay_inv_quiet [OF assms(2) q(2)]
    by (auto simp: apply_down_def relay_inv_def Let_def split: if_splits held.splits)
qed (use assms in \<open>auto simp: apply_down_def relay_inv_def acts_ok_def act_def split: if_splits\<close>)

lemma relay_loop_inv:
  "relay_loop job e ms s = (s', r) \<Longrightarrow> relay_inv job s \<Longrightarrow> \<exists>n. acts_ok job n (rl_acts s')"
proof (induction job e ms s rule: relay_loop.induct)
  case (1 job e s)
  then show ?case by (auto simp: relay_inv_def)
next
  case (2 job e m rp ms s)
  obtain h as where h: "hold (hold_before rp) = (h, as)" by fastforce
  have inv: "relay_inv job (act as s)" by (rule relay_inv_quiet [OF "2.prems"(2) quiet_hold [OF h]])
  show ?case
  proof (cases h)
    case Released
    obtain s2 r2 where d: "apply_down job m rp (act as s) = (s2, r2)" by fastforce
    note ad = apply_down_inv [OF d inv]
    show ?thesis
    proof (cases r2)
      case None
      with 2 h Released d ad show ?thesis by auto
    next
      case (Some x)
      with "2.prems" h Released d ad show ?thesis by auto
    qed
  qed (use "2.prems" h inv in \<open>auto simp: relay_inv_def\<close>)
qed

lemma relay_inv_start: "relay_inv job \<lparr>rl_dir = d, rl_list = newLister SegmentName (Segments job), rl_acts = [], rl_placed = pls\<rparr>"
  by (simp add: relay_inv_def acts_ok_def newLister_def)

lemma run_video_acts:
  assumes "run_video pool job d pls = (s, r)"
  shows "\<exists>n. acts_ok job n (rl_acts s)"
proof -
  define s0 where "s0 = \<lparr>rl_dir = d, rl_list = newLister SegmentName (Segments job), rl_acts = [], rl_placed = pls\<rparr>"
  have none: "acts_ok job 0 (rl_acts s0)" by (simp add: s0_def acts_ok_def)
  consider "s = s0" | w ms e s1 r1 where "vp_stream pool w = (ms, e)" "rl_acts s = rl_acts s1"
      "relay_loop job e ms (s0\<lparr>rl_placed := placement_set (Session job)
         \<lparr>PWorker = WName w, PNode = Node w, PEncoder = [], PDecoder = []\<rparr> pls\<rparr>) = (s1, r1)"
    using assms unfolding run_video_def Let_def s0_def [symmetric]
    by (fastforce split: option.splits if_splits sum.splits prod.splits run_end.splits)
  then show ?thesis
  proof cases
    case 1
    with none show ?thesis by auto
  next
    case 2
    have "relay_inv job (s0\<lparr>rl_placed := placement_set (Session job) \<lparr>PWorker = WName w, PNode = Node w, PEncoder = [], PDecoder = []\<rparr> pls\<rparr>)"
      using relay_inv_start [of job d pls] by (simp add: s0_def relay_inv_def)
    from relay_loop_inv [OF 2(3) this] 2(2) show ?thesis by simp
  qed
qed


definition demo_reply :: reply where
  "demo_reply = \<lparr>hold_before = None, disk_answer = DiskOk, post_answer = True, list_answer = (\<lambda>_. True), wait_cancelled = False,
     hold_after = None\<rparr>"

definition demo_vsegment :: vsegment where
  "demo_vsegment = \<lparr>vs_name = ''media-00010.ts'', vs_data = ''G'', vs_start_us = 0, vs_end_us = 1, vs_streams = [], vs_next_us = None\<rparr>"

definition demo_video_pool :: video_pool where
  "demo_video_pool = \<lparr>vp_ready = Some [\<lparr>WName = ''a'', Addr = ''1'', Node = ''n''\<rparr>], vp_ask = (\<lambda>_. Accepts),
     vp_stream = (\<lambda>_. ([(DownSegment demo_vsegment, demo_reply), (DownDone [] [], demo_reply)], Eof)), vp_cancelled = False\<rparr>"

lemma demo_run: "rl_acts (fst (run_video demo_video_pool demo_job Map.empty None)) = [WroteFile ''media-00010.ts'' ''G'', ListedSegment ''media-00010.ts'']
    \<and> snd (run_video demo_video_pool demo_job Map.empty None) = Ended None"
proof -
  have names: "filepath_base ''media-00010.ts'' = ''media-00010.ts''" "hlsName ''media-00010.ts''" "SegmentName 10 = ''media-00010.ts''"
    by code_simp+
  have job: "StartNumber (Segments demo_job) = 10" "Output demo_job = OutputHLS" by (simp_all add: demo_job_def)
  obtain l where "lister_finished (\<lambda>_. True) (segmentTimes demo_vsegment) None (newLister SegmentName (Segments demo_job)) = (l, True)"
    by (auto simp: lister_finished_def newLister_def segmentTimes_def demo_vsegment_def names job case_prod_beta)
  moreover have "vs_name demo_vsegment = ''media-00010.ts''" "vs_data demo_vsegment = ''G''" "vs_next_us demo_vsegment = None"
    by (simp_all add: demo_vsegment_def)
  ultimately show ?thesis
    by (simp add: run_video_def demo_video_pool_def open_pod_def order_def sort_stable_def demo_reply_def hold_def apply_down_def
        WriteFile_def names job act_def)
qed


section \<open>The answer to the shim\<close>

definition same_but :: "string \<Rightarrow> placements \<Rightarrow> placements \<Rightarrow> bool" where
  "same_but s p q \<longleftrightarrow> (p = None \<longleftrightarrow> q = None) \<and> (\<forall>t. t \<noteq> s \<longrightarrow> placement_get p t = placement_get q t)"

lemma same_but_changes [simp]:
  "same_but s p (placement_set s pl q) = same_but s p q" "same_but s p (placement_started s enc dec q) = same_but s p q"
  "same_but s p (placement_remove s q) = same_but s p q" "same_but s p p"
  by (cases q; auto simp: same_but_def placement_set_def placement_started_def placement_remove_def placement_get_def split: option.splits)+

lemma placement_get_remove [simp]: "placement_get (placement_remove s p) s = None"
  by (cases p) (simp_all add: placement_get_def placement_remove_def)

lemma apply_down_placed: "apply_down job m rp s = (s', r) \<Longrightarrow> same_but (Session job) p (rl_placed s) \<Longrightarrow> same_but (Session job) p (rl_placed s')"
  by (cases m) (auto simp: apply_down_def Let_def act_def split: if_splits prod.splits held.splits)

lemma relay_loop_placed: "relay_loop job e ms s = (s', r) \<Longrightarrow> same_but (Session job) p (rl_placed s) \<Longrightarrow> same_but (Session job) p (rl_placed s')"
proof (induction job e ms s rule: relay_loop.induct)
  case (2 job e m rp ms s)
  obtain h as where h: "hold (hold_before rp) = (h, as)" by fastforce
  have inv: "same_but (Session job) p (rl_placed (act as s))" using "2.prems"(2) by (simp add: act_def)
  show ?case
  proof (cases h)
    case Released
    obtain s2 r2 where d: "apply_down job m rp (act as s) = (s2, r2)" by fastforce
    note ad = apply_down_placed [OF d inv]
    with 2 h Released d show ?thesis by (cases r2) auto
  qed (use "2.prems" h inv in auto)
qed simp

text \<open>
  C26. A conversion is always answered: once it ends, whatever the reason, the shim has been told exactly once and last,
  with exit 0 just when there was no refusal and else exit 1 with the reason on standard error; no placement of the
  session is left behind, and no other session's was touched.
\<close>

theorem conversion_answers_once:
  assumes "video_execute platform url pool rq d pls = (s, Ended fault)"
  shows "(\<exists>pre. rl_acts s = pre @ video_finish fault \<and> (\<forall>a \<in> set pre. \<not> to_shim a))
    \<and> (case Parse platform url (Args rq) (Env rq) of
         Inl _ \<Rightarrow> rl_placed s = pls
       | Inr job \<Rightarrow> same_but (Session job) pls (rl_placed s)
           \<and> (placement_get pls (Session job) = None \<longrightarrow> placement_get (rl_placed s) (Session job) = None))"
proof (cases "Parse platform url (Args rq) (Env rq)")
  case (Inl e)
  with assms show ?thesis by (auto simp: video_execute_def Let_def act_def)
next
  case (Inr job)
  obtain s1 where run: "run_video pool job d pls = (s1, Ended fault)" "s = act (video_finish fault) s1"
    using assms Inr by (auto simp: video_execute_def Let_def split: prod.splits run_end.splits)
  from run_video_acts [OF run(1)] have one: "\<forall>a \<in> set (rl_acts s1). \<not> to_shim a" by (auto simp: acts_ok_def list_all_iff)
  have "same_but (Session job) pls (rl_placed s1) \<and> (placement_get pls (Session job) = None \<longrightarrow> placement_get (rl_placed s1) (Session job) = None)"
    using run(1) unfolding run_video_def Let_def
    by (auto split: option.splits if_splits sum.splits prod.splits run_end.splits dest!: relay_loop_placed [where p = pls])
  then show ?thesis using Inr run(2) one by (auto simp: act_def)
qed

theorem conversion_answers_once_witness:
  "\<exists>s fault pre. video_execute (\<lambda>_. 0) (\<lambda>_. None) demo_video_pool \<lparr>TargetBinary = [], Args = [], Env = []\<rparr> Map.empty None = (s, Ended fault)
    \<and> fault = Some (''shape'', ''shape'') \<and> rl_acts s = pre @ video_finish fault"
proof -
  have "snd (video_execute (\<lambda>_. 0) (\<lambda>_. None) demo_video_pool \<lparr>TargetBinary = [], Args = [], Env = []\<rparr> Map.empty None) = Ended (Some (''shape'', ''shape''))"
    by (simp add: video_execute_def Parse_def refused_def)
  then obtain s where s: "video_execute (\<lambda>_. 0) (\<lambda>_. None) demo_video_pool \<lparr>TargetBinary = [], Args = [], Env = []\<rparr> Map.empty None = (s, Ended (Some (''shape'', ''shape'')))"
    by (metis prod.collapse)
  from conversion_answers_once [OF s] s show ?thesis by blast
qed

end
