(* ===== verification/Video_Live.thy ===== *)
theory Video_Live
  imports Go_Prelude
begin

text \<open>
  A Live TV input, \<open>src/pkg/video/relay/live.go\<close>: the HLS playlist Plex serves a session, and the follower that streams its
  segments to the worker as one input. What Plex answers in each turn of the follower's loop is a parameter: the playlist
  or an error, whether each segment could be read and sent whole, the playlist read again after a failure, and whether the
  job was cancelled while it waited.
\<close>

section \<open>The playlist\<close>

record playlist =
  pl_seq :: int
  pl_segments :: "string list"
  pl_ended :: bool

definition sequence_tag :: string where "sequence_tag = ''#EXT-X-MEDIA-SEQUENCE:''"

definition unsupported :: "string \<Rightarrow> bool" where
  "unsupported l \<longleftrightarrow> prefix ''#EXT-X-STREAM-INF'' l \<or> prefix ''#EXT-X-MAP'' l
     \<or> prefix ''#EXT-X-KEY'' l \<and> index_of ''METHOD=NONE'' l = None"

fun playlist_lines :: "string list \<Rightarrow> playlist \<Rightarrow> playlist option" where
  "playlist_lines [] pl = Some pl"
| "playlist_lines (raw # ls) pl =
     (let l = trim_space raw in
      if l = [] then playlist_lines ls pl
      else if prefix sequence_tag l
      then (case parse_int (trim_prefix l sequence_tag) of
          Some n \<Rightarrow> if n < 0 then None else playlist_lines ls (pl\<lparr>pl_seq := n\<rparr>)
        | None \<Rightarrow> None)
      else if l = ''#EXT-X-ENDLIST'' then playlist_lines ls (pl\<lparr>pl_ended := True\<rparr>)
      else if unsupported l then None
      else if prefix ''#'' l then playlist_lines ls pl
      else playlist_lines ls (pl\<lparr>pl_segments := pl_segments pl @ [l]\<rparr>))"

definition parsePlaylist :: "string \<Rightarrow> playlist option" where
  "parsePlaylist b = (case split_on CHR 0x0A (replace_all [CHR 0x0D, CHR 0x0A] [CHR 0x0A] b) of
       l # ls \<Rightarrow> if trim_space l \<noteq> ''#EXTM3U'' then None else playlist_lines ls \<lparr>pl_seq = 0, pl_segments = [], pl_ended = False\<rparr>
     | [] \<Rightarrow> None)"

section \<open>The follower\<close>

record turn =
  t_list :: "playlist option"
  t_segment :: "nat \<Rightarrow> bool"
  t_again :: "playlist option"
  t_cancelled :: bool

text \<open>The segments from the first unread on: how far they were delivered, and whether one failed.\<close>

fun live_segments :: "(nat \<Rightarrow> bool) \<Rightarrow> nat \<Rightarrow> string list \<Rightarrow> int \<Rightarrow> (int \<times> string) list \<Rightarrow> int \<times> (int \<times> string) list \<times> bool" where
  "live_segments ok i [] nxt sent = (nxt, sent, False)"
| "live_segments ok i (uri # uris) nxt sent =
     (if ok i then live_segments ok (Suc i) uris (nxt + 1) (sent @ [(nxt, uri)]) else (nxt, sent, True))"

datatype live_end = LiveGoing | LiveEof | LiveError | LiveCancelled

fun follow_live :: "turn list \<Rightarrow> int \<Rightarrow> (int \<times> string) list \<Rightarrow> (int \<times> string) list \<times> live_end" where
  "follow_live [] nxt sent = (sent, LiveGoing)"
| "follow_live (t # ts) nxt sent =
     (case t_list t of
        None \<Rightarrow> (sent, LiveError)
      | Some pl \<Rightarrow>
          (let n = max nxt (pl_seq pl); k = n - pl_seq pl in
           if k < int (length (pl_segments pl))
           then (case live_segments (t_segment t) 0 (drop (nat k) (pl_segments pl)) n sent of
               (n', sent', failed) \<Rightarrow>
                 if \<not> failed then follow_live ts n' sent'
                 else (case t_again t of
                     None \<Rightarrow> (sent', LiveError)
                   | Some again \<Rightarrow> if pl_seq again \<le> n' then (sent', LiveError) else follow_live ts n' sent'))
           else if pl_ended pl then (sent, LiveEof)
           else if t_cancelled t then (sent, LiveCancelled)
           else follow_live ts n sent))"

definition followLive :: "turn list \<Rightarrow> (int \<times> string) list \<times> live_end" where
  "followLive ts = follow_live ts (- 1) []"

section \<open>Properties\<close>

text \<open>A playlist read in one of the turns names \<open>uri\<close> as segment \<open>n\<close>.\<close>

definition names :: "turn list \<Rightarrow> int \<Rightarrow> string \<Rightarrow> bool" where
  "names ts n uri \<longleftrightarrow> (\<exists>t \<in> set ts. \<exists>pl. t_list t = Some pl \<and> pl_seq pl \<le> n \<and> n < pl_seq pl + int (length (pl_segments pl))
     \<and> pl_segments pl ! nat (n - pl_seq pl) = uri)"

text \<open>Segment \<open>n\<close> left the playlist: one read started after it.\<close>

definition left :: "turn list \<Rightarrow> int \<Rightarrow> bool" where
  "left ts n \<longleftrightarrow> (\<exists>t \<in> set ts. \<exists>pl. t_list t = Some pl \<and> n < pl_seq pl)"

definition live_inv :: "turn list \<Rightarrow> int \<Rightarrow> (int \<times> string) list \<Rightarrow> bool" where
  "live_inv ts nxt sent \<longleftrightarrow> sorted_wrt (<) (map fst sent) \<and> (\<forall>(n, uri) \<in> set sent. n < nxt \<and> names ts n uri)
     \<and> (\<forall>m. 0 \<le> m \<longrightarrow> m < nxt \<longrightarrow> m \<in> fst ` set sent \<or> left ts m)"

lemma names_mono: "names ts n uri \<Longrightarrow> set ts \<subseteq> set ts' \<Longrightarrow> names ts' n uri"
  unfolding names_def by blast

lemma left_mono: "left ts n \<Longrightarrow> set ts \<subseteq> set ts' \<Longrightarrow> left ts' n"
  unfolding left_def by blast

lemma live_inv_mono: "live_inv ts nxt sent \<Longrightarrow> set ts \<subseteq> set ts' \<Longrightarrow> live_inv ts' nxt sent"
  using names_mono [of ts _ _ ts'] left_mono [of ts _ ts'] unfolding live_inv_def by blast

lemma live_inv_jump:
  assumes "live_inv ts nxt sent" and "t \<in> set ts" and "t_list t = Some pl"
  shows "live_inv ts (max nxt (pl_seq pl)) sent"
proof -
  have gone: "left ts m" if "m < pl_seq pl" for m using assms(2,3) that unfolding left_def by blast
  have below: "n < max nxt (pl_seq pl)" if "(n, uri) \<in> set sent" for n uri using assms(1) that unfolding live_inv_def by fastforce
  have "m \<in> fst ` set sent \<or> left ts m" if "0 \<le> m" "m < max nxt (pl_seq pl)" for m
    using assms(1) that gone [of m] unfolding live_inv_def by (cases "m < nxt") auto
  then show ?thesis using assms(1) below unfolding live_inv_def by blast
qed

lemma live_inv_snoc:
  assumes "live_inv ts nxt sent" and "names ts nxt uri"
  shows "live_inv ts (nxt + 1) (sent @ [(nxt, uri)])"
proof -
  have old: "n < nxt \<and> names ts n u" if "(n, u) \<in> set sent" for n u using assms(1) that unfolding live_inv_def by blast
  then have "\<forall>n \<in> set (map fst sent). n < nxt" by fastforce
  then have "sorted_wrt (<) (map fst (sent @ [(nxt, uri)]))"
    using assms(1) unfolding live_inv_def by (simp add: sorted_wrt_append)
  moreover have "m \<in> fst ` set (sent @ [(nxt, uri)]) \<or> left ts m" if "0 \<le> m" "m < nxt + 1" for m
    using assms(1) that unfolding live_inv_def by (cases "m = nxt") auto
  moreover have "n < nxt + 1 \<and> names ts n u" if "(n, u) \<in> set (sent @ [(nxt, uri)])" for n u
    using old [of n u] assms(2) that by auto
  ultimately show ?thesis unfolding live_inv_def by blast
qed

lemma live_segments_inv:
  assumes "live_inv ts nxt sent" and "t \<in> set ts" and "t_list t = Some pl" and "pl_seq pl \<le> nxt"
    and "uris = drop (nat (nxt - pl_seq pl)) (pl_segments pl)"
    and "live_segments ok i uris nxt sent = (nxt', sent', failed)"
  shows "live_inv ts nxt' sent'"
  using assms
proof (induction ok i uris nxt sent rule: live_segments.induct)
  case (2 ok i uri uris nxt sent)
  show ?case
  proof (cases "ok i")
    case True
    let ?k = "nat (nxt - pl_seq pl)"
    have k: "?k < length (pl_segments pl)" using "2.prems"(5) by (metis drop_all list.distinct(1) not_less)
    then have uri: "pl_segments pl ! ?k = uri" "uris = drop (Suc ?k) (pl_segments pl)"
      using "2.prems"(5) by (auto simp: Cons_nth_drop_Suc [symmetric])
    have "names ts nxt uri"
      unfolding names_def using k uri(1) "2.prems"(2-4) by (intro bexI [of _ t] exI [of _ pl]) auto
    then have "live_inv ts (nxt + 1) (sent @ [(nxt, uri)])" using live_inv_snoc "2.prems"(1) by blast
    moreover have "Suc ?k = nat (nxt + 1 - pl_seq pl)" "pl_seq pl \<le> nxt + 1" using "2.prems"(4) by simp_all
    moreover have "live_segments ok (Suc i) uris (nxt + 1) (sent @ [(nxt, uri)]) = (nxt', sent', failed)"
      using "2.prems"(6) True by simp
    ultimately show ?thesis using uri(2) by (intro "2.IH" [OF True _ "2.prems"(2,3)]) simp_all
  next
    case False
    with "2.prems"(6) have "nxt' = nxt" "sent' = sent" by simp_all
    with "2.prems"(1) show ?thesis by simp
  qed
qed simp

lemma follow_live_inv:
  "live_inv done nxt sent \<Longrightarrow> follow_live ts nxt sent = (sent', e) \<Longrightarrow> \<exists>nxt'. live_inv (done @ ts) nxt' sent'"
proof (induction ts nxt sent arbitrary: "done" rule: follow_live.induct)
  case (1 nxt sent)
  then show ?case by auto
next
  case (2 t ts nxt sent)
  have grow: "live_inv xs n s \<Longrightarrow> live_inv (xs @ ys) n s" for xs ys n s by (erule live_inv_mono) simp
  show ?case
  proof (cases "t_list t")
    case None
    with 2 show ?thesis using grow [of "done" nxt sent "t # ts"] by auto
  next
    case (Some pl)
    let ?n = "max nxt (pl_seq pl)"
    have inv: "live_inv (done @ [t]) ?n sent"
      using live_inv_jump [OF grow [OF "2.prems"(1)], of t "[t]" pl] Some by simp
    have app: "done @ t # ts = (done @ [t]) @ ts" by simp
    show ?thesis
    proof (cases "?n - pl_seq pl < int (length (pl_segments pl))")
      case True
      obtain n' s' failed where seg: "live_segments (t_segment t) 0 (drop (nat (?n - pl_seq pl)) (pl_segments pl)) ?n sent = (n', s', failed)"
        by (metis prod_cases3)
      have inv': "live_inv (done @ [t]) n' s'" by (rule live_segments_inv [OF inv _ Some _ refl seg]) simp_all
      show ?thesis
        using "2.prems"(2) True Some seg inv' grow [OF inv', of ts]
          "2.IH"(1) [OF Some refl refl True seg [symmetric] refl _ inv'] "2.IH"(2) [OF Some refl refl True seg [symmetric] refl _ _ _ inv']
        unfolding app by (auto simp: Let_def split: if_splits option.splits)
    next
      case False
      show ?thesis
        using "2.prems"(2) False Some grow [OF inv, of ts] "2.IH"(3) [OF Some refl refl False _ _ inv]
        unfolding app by (auto simp: Let_def split: if_splits)
    qed
  qed
qed

text \<open>
  A Live TV input is streamed in order and without repeats: whatever playlists Plex serves and however reads fail, the
  segments sent whole have strictly rising numbers, each is the one a playlist named under its number, and a number passed
  over below the last one sent had left the playlist.
\<close>

theorem live_segments_in_order:
  assumes "followLive ts = (sent, e)"
  shows "sorted_wrt (<) (map fst sent) \<and> (\<forall>(n, uri) \<in> set sent. names ts n uri)
    \<and> (\<forall>(n, uri) \<in> set sent. \<forall>m. 0 \<le> m \<and> m < n \<and> m \<notin> fst ` set sent \<longrightarrow> left ts m)"
proof -
  have "live_inv [] (- 1) []" by (simp add: live_inv_def)
  from follow_live_inv [OF this assms [unfolded followLive_def]] obtain nxt where "live_inv ts nxt sent" by auto
  then show ?thesis unfolding live_inv_def by fastforce
qed

definition demo_turns :: "turn list" where
  "demo_turns = [\<lparr>t_list = Some \<lparr>pl_seq = 0, pl_segments = [''a'', ''b''], pl_ended = False\<rparr>, t_segment = (\<lambda>i. i < 1),
       t_again = Some \<lparr>pl_seq = 3, pl_segments = [''d''], pl_ended = False\<rparr>, t_cancelled = False\<rparr>,
     \<lparr>t_list = Some \<lparr>pl_seq = 3, pl_segments = [''d''], pl_ended = True\<rparr>, t_segment = (\<lambda>_. True), t_again = None, t_cancelled = False\<rparr>,
     \<lparr>t_list = Some \<lparr>pl_seq = 3, pl_segments = [''d''], pl_ended = True\<rparr>, t_segment = (\<lambda>_. True), t_again = None, t_cancelled = False\<rparr>]"

theorem live_segments_in_order_witness:
  "followLive demo_turns = ([(0, ''a''), (3, ''d'')], LiveEof) \<and> left demo_turns 1 \<and> left demo_turns 2"
proof -
  have run: "followLive demo_turns = ([(0, ''a''), (3, ''d'')], LiveEof)" by (simp add: followLive_def demo_turns_def Let_def)
  from live_segments_in_order [OF run] have "\<forall>m. 0 \<le> m \<and> m < 3 \<and> m \<notin> {0, 3} \<longrightarrow> left demo_turns m" by simp
  then have "left demo_turns 1" "left demo_turns 2" by simp_all
  with run show ?thesis by simp
qed

end
