(* ===== verification/LiveTV_Pms.thy ===== *)
theory LiveTV_Pms
  imports Go_Text
begin

text \<open>
  The data of Plex's Live TV as \<open>src/pkg/plex/api/livetv.go\<close> reads and writes it, the providers and blocks of
  \<open>src/pkg/plex/livetv/converge.go\<close>, and the pure rules of the converger: which device is clustarr's, which address is the
  same, which DVR is a ghost, how channel numbers and keys are ordered, when a channel map differs, and which hour lies in
  the window for a reload. \<open>url.Parse\<close>, \<open>URL.Hostname\<close> and \<open>URL.Port\<close> are the parameter \<open>parse_url\<close>.
\<close>

section \<open>Data\<close>

record ChannelMapping =
  ChannelKey :: string
  DeviceIdentifier :: string
  LineupIdentifier :: string
  Favorite :: string
  Enabled :: string

record Device =
  DKey :: string
  DUUID :: string
  DURI :: string
  DStatus :: string
  ParentID :: int
  ChannelMappings :: "ChannelMapping list"

record DVR =
  VKey :: string
  VUUID :: string
  VLineup :: string
  RefreshedAt :: int
  Devices :: "Device list"

record Activity =
  AUUID :: string
  AType :: string
  Subtitle :: string
  TranscodeSession :: string

definition ActivityGrab :: string where "ActivityGrab = ''grabber.grab''"
definition ActivityGuideLoad :: string where "ActivityGuideLoad = ''provider.epg.load''"
definition MaxChannelMapBytes :: int where "MaxChannelMapBytes = 30000"

datatype pms_error = ErrConflict | ErrNotFound | ErrEmptyChannelMap | ErrChannelMapTooLarge | PmsError string

definition XMLTVLineup :: "string \<Rightarrow> string \<Rightarrow> string" where
  "XMLTVLineup guideURL title = ''lineup://tv.plex.providers.epg.xmltv/'' @ guideURL @ ''#'' @ title"

text \<open>\<open>q.Set\<close> replaces a value, so of two mappings of one device channel the later is sent.\<close>

definition channelMapQuery :: "ChannelMapping list \<Rightarrow> url_values" where
  "channelMapQuery m = AList.update ''channelsEnabled'' (join '','' (map DeviceIdentifier m))
     (fold (\<lambda>cm q. AList.update (''channelMapping['' @ DeviceIdentifier cm @ '']'') (LineupIdentifier cm)
              (AList.update (''channelMappingByKey['' @ DeviceIdentifier cm @ '']'') (ChannelKey cm) q)) m [])"

definition MapBytes :: "ChannelMapping list \<Rightarrow> int" where
  "MapBytes m = int (length (Encode (channelMapQuery m)))"

text \<open>What \<open>SaveChannelMap\<close> refuses before anything is sent.\<close>

definition save_refused :: "ChannelMapping list \<Rightarrow> pms_error option" where
  "save_refused m =
     (if m = [] then Some ErrEmptyChannelMap
      else if MapBytes m > MaxChannelMapBytes then Some ErrChannelMapTooLarge
      else None)"

record Block =
  Start :: string
  DeviceID :: string
  FriendlyName :: string
  GuidePath :: string
  LineupHash :: string
  GuideHash :: string
  Lineup :: string
  URI :: string

record Provider =
  Namespace :: string
  PName :: string
  UID :: string
  Ready :: bool
  PEnabled :: bool
  PAddress :: string
  Blocks :: "Block list"

definition provider_key :: "Provider \<Rightarrow> string" where
  "provider_key p = Namespace p @ ''/'' @ PName p"

definition LeaseName :: "string \<Rightarrow> string" where
  "LeaseName deviceID = ''livetv-'' @ ToLower deviceID"

section \<open>Addresses\<close>

record url_parts =
  Scheme :: string
  Hostname :: string
  Port :: string
  UPath :: string

type_synonym parse_url = "string \<Rightarrow> url_parts option"

definition portOf :: "url_parts \<Rightarrow> string" where
  "portOf u = (if Port u \<noteq> [] then Port u else if Scheme u = ''https'' then ''443'' else ''80'')"

definition sameURL :: "parse_url \<Rightarrow> string \<Rightarrow> string \<Rightarrow> bool" where
  "sameURL parse a b = (case (parse a, parse b) of
       (Some ua, Some ub) \<Rightarrow> Scheme ua = Scheme ub \<and> EqualFold (Hostname ua) (Hostname ub) \<and> portOf ua = portOf ub
          \<and> trim_suffix (UPath ua) ''/'' = trim_suffix (UPath ub) ''/''
     | _ \<Rightarrow> False)"

definition sameHost :: "parse_url \<Rightarrow> url_parts \<Rightarrow> string \<Rightarrow> bool" where
  "sameHost parse u address = (case parse (''http://'' @ address) of
       None \<Rightarrow> False | Some a \<Rightarrow> EqualFold (Hostname u) (Hostname a) \<and> portOf u = portOf a)"

definition underService :: "parse_url \<Rightarrow> string list \<Rightarrow> string \<Rightarrow> bool" where
  "underService parse addresses uri = (case parse uri of None \<Rightarrow> False
     | Some u \<Rightarrow> prefix ''/hdhr/'' (UPath u) \<and> list_ex (sameHost parse u) addresses)"

definition deviceIDPrefix :: string where "deviceIDPrefix = ''device://tv.plex.grabbers.hdhomerun/''"

definition deviceID :: "Device \<Rightarrow> string" where
  "deviceID d = (case cut_prefix (DUUID d) deviceIDPrefix of (i, ok) \<Rightarrow> if ok \<and> i \<noteq> [] then ToUpper i else [])"

definition lineupGuide :: "string \<Rightarrow> string" where
  "lineupGuide lineup = (case cut_prefix lineup ''lineup://tv.plex.providers.epg.xmltv/'' of (rest, ok) \<Rightarrow>
     if \<not> ok then []
     else fst (cut_at CHR ''#'' (case QueryUnescape rest of Some dec \<Rightarrow> dec | None \<Rightarrow> rest)))"

section \<open>Orders\<close>

definition compareKeys :: "string \<Rightarrow> string \<Rightarrow> int" where
  "compareKeys a b = (case (parse_int a, parse_int b) of
       (Some i, Some j) \<Rightarrow> wrap64 (i - j) | _ \<Rightarrow> compare_with a b)"

definition splitNumber :: "string \<Rightarrow> int \<times> int" where
  "splitNumber s = (case cut_at CHR ''.'' s of (ma, mi, _) \<Rightarrow> (atoi_value ma, atoi_value mi))"

definition compareNumbers :: "string \<Rightarrow> string \<Rightarrow> int" where
  "compareNumbers a b = (case (splitNumber a, splitNumber b) of ((am, an), (bm, bn)) \<Rightarrow>
     if am \<noteq> bm then compare_with am bm
     else if an \<noteq> bn then compare_with an bn
     else compare_with a b)"

lemma compareNumbers_key: "compareNumbers a b < 0 \<longleftrightarrow> (splitNumber a, a) < (splitNumber b, b)"
  by (auto simp: compareNumbers_def less_prod_def split: prod.splits)

definition dvrsOf :: "string \<Rightarrow> DVR list \<Rightarrow> DVR list" where
  "dvrsOf uuid dvrs = sort_func (\<lambda>a b. compareKeys (VKey a) (VKey b)) (filter (\<lambda>d. list_ex (\<lambda>v. DUUID v = uuid) (Devices d)) dvrs)"

section \<open>Channel maps\<close>

text \<open>\<open>got\<close> and \<open>wanted\<close> are Go maps; ranging over \<open>got\<close> only counts.\<close>

definition enabled_map :: "ChannelMapping list \<Rightarrow> (string \<times> string) list" where
  "enabled_map present = fold (\<lambda>m got. if Enabled m \<noteq> [] \<and> Enabled m \<noteq> ''1'' then got
     else AList.update (DeviceIdentifier m) (LineupIdentifier m) got) present []"

definition mapDifference :: "ChannelMapping list \<Rightarrow> ChannelMapping list \<Rightarrow> int \<times> int \<times> int" where
  "mapDifference want present =
     (let got = enabled_map present in
      (int (length (filter (\<lambda>m. map_of got (DeviceIdentifier m) = None) want)),
       int (length (filter (\<lambda>m. case map_of got (DeviceIdentifier m) of None \<Rightarrow> False | Some l \<Rightarrow> l \<noteq> LineupIdentifier m) want)),
       int (length (filter (\<lambda>(d, _). d \<notin> DeviceIdentifier ` set want) got))))"

section \<open>The hours of a reload\<close>

definition inWindow :: "int \<Rightarrow> int \<times> int \<Rightarrow> bool" where
  "inWindow h w = (case w of (start, stop) \<Rightarrow>
     if start = stop then False
     else if start < stop then start \<le> h \<and> h < stop
     else start \<le> h \<or> h < stop)"

section \<open>Properties\<close>

lemma deviceID_upper: "map upper (deviceID d) = deviceID d"
proof -
  have "upper (upper c) = upper c" for c
  proof -
    have "((of_char c :: nat) - 32) mod 256 = of_char c - 32"
      using nat_of_char_less_256 [of c] by (intro mod_less) linarith
    then show ?thesis by (auto simp: upper_def Let_def)
  qed
  then show ?thesis by (simp add: deviceID_def split: prod.split)
qed

lemma dvrsOf_in: "d \<in> set (dvrsOf uuid dvrs) \<Longrightarrow> d \<in> set dvrs \<and> (\<exists>v \<in> set (Devices d). DUUID v = uuid)"
  by (auto simp: dvrsOf_def list_ex_iff)

text \<open>The hours of a window that does not wrap are those from its start, before its end, and a window that wraps midnight
  has the same hours counted from its start.\<close>

lemma inWindow_mod:
  assumes "0 \<le> h" "h < 24" "0 \<le> a" "a < 24" "0 \<le> b" "b < 24"
  shows "inWindow h (a, b) \<longleftrightarrow> (h - a) mod 24 < (b - a) mod 24"
proof -
  have m: "(x - y) mod 24 = (if y \<le> x then x - y else x - y + 24)" if "0 \<le> x" "x < 24" "0 \<le> y" "y < 24" for x y :: int
  proof (cases "y \<le> x")
    case False
    have "(x - y) mod 24 = (x - y + 24) mod 24" by simp
    also have "\<dots> = x - y + 24" using that False by (intro mod_pos_pos_trivial) auto
    finally show ?thesis using False by simp
  qed (use that in simp)
  show ?thesis using assms by (auto simp: inWindow_def m)
qed

lemma map_of_enabled_map:
  "map_of (enabled_map present) = map_of (rev (map (\<lambda>m. (DeviceIdentifier m, LineupIdentifier m))
     (filter (\<lambda>m. Enabled m = [] \<or> Enabled m = ''1'') present)))"
proof -
  have "map_of (fold (\<lambda>m got. if Enabled m \<noteq> [] \<and> Enabled m \<noteq> ''1'' then got
     else AList.update (DeviceIdentifier m) (LineupIdentifier m) got) present acc)
   = map_of acc ++ map_of (rev (map (\<lambda>m. (DeviceIdentifier m, LineupIdentifier m))
       (filter (\<lambda>m. Enabled m = [] \<or> Enabled m = ''1'') present)))" for acc
    by (induction present arbitrary: acc) (auto simp: update_conv' fun_eq_iff map_add_def split: option.splits)
  from this [of "[]"] show ?thesis by (simp add: enabled_map_def)
qed

lemma dom_enabled_map: "fst ` set (enabled_map present) = dom (map_of (enabled_map present))"
  by (simp add: dom_map_of_conv_image_fst)

end
