(* ===== verification/LiveTV_Converge.thy ===== *)
theory LiveTV_Converge
  imports LiveTV_Pms Go_Effect
begin

text \<open>
  The Live TV converger of \<open>src/pkg/plex/livetv/converge.go\<close>: one pass of \<open>Run\<close> over the live providers. PMS, the Leases,
  the tuner, the guides in the database, the clock, \<open>url.Parse\<close> and the order in which Go ranges over a map are the record
  \<open>world\<close>: what each call answers may depend on every call made before it. Each call is kept with its answer in the log,
  newest first, so a theorem about the log of a pass holds for any behaviour of what is outside. Log lines are left out, and
  a message or an error is the list of its parts. A failed answer's text is not kept.
\<close>

section \<open>The calls and the state\<close>

type_synonym message = "string list"

record Lease =
  Held :: bool
  Holder :: string
  Annotations :: "string \<rightharpoonup> string"

datatype step_error = ErrWaiting | Failed message

datatype call =
    CDevices "pms_error + Device list"
  | CDVRs "pms_error + DVR list"
  | CActivities "pms_error + Activity list"
  | CAddDevice string "pms_error option"
  | CDiscover string "pms_error option"
  | CDeleteDevice string "pms_error option"
  | CDeleteDVR string "pms_error option"
  | CCreateDVR string string string "pms_error + DVR option"
  | CEPGMap string string "pms_error + ChannelMapping list"
  | CPlexMap string "pms_error + ChannelMapping list"
  | CDevice string "pms_error + Device"
  | CSaveMap string url_values "pms_error option"
  | CReload string "pms_error option"
  | CAcquire string string "(string \<times> string) list" "string + Lease"
  | CAnnotate string string string string "string option"
  | CGuideEmpty string "bool option"
  | CHorizon string "(time option) option"
  | CNow time
  | CStarted "time option"

record world =
  w_devices :: "call list \<Rightarrow> pms_error + Device list"
  w_dvrs :: "call list \<Rightarrow> pms_error + DVR list"
  w_activities :: "call list \<Rightarrow> pms_error + Activity list"
  w_add :: "call list \<Rightarrow> string \<Rightarrow> pms_error option"
  w_discover :: "call list \<Rightarrow> string \<Rightarrow> pms_error option"
  w_delete_device :: "call list \<Rightarrow> string \<Rightarrow> pms_error option"
  w_delete_dvr :: "call list \<Rightarrow> string \<Rightarrow> pms_error option"
  w_create :: "call list \<Rightarrow> string \<Rightarrow> string \<Rightarrow> string \<Rightarrow> pms_error + DVR option"
  w_epg_map :: "call list \<Rightarrow> string \<Rightarrow> string \<Rightarrow> pms_error + ChannelMapping list"
  w_plex_map :: "call list \<Rightarrow> string \<Rightarrow> pms_error + ChannelMapping list"
  w_device :: "call list \<Rightarrow> string \<Rightarrow> pms_error + Device"
  w_save :: "call list \<Rightarrow> string \<Rightarrow> url_values \<Rightarrow> pms_error option"
  w_reload :: "call list \<Rightarrow> string \<Rightarrow> pms_error option"
  w_acquire :: "call list \<Rightarrow> string \<Rightarrow> string \<Rightarrow> (string \<times> string) list \<Rightarrow> string + Lease"
  w_annotate :: "call list \<Rightarrow> string \<Rightarrow> string \<Rightarrow> string \<Rightarrow> string \<Rightarrow> string option"
  w_guide_empty :: "(call list \<Rightarrow> string \<Rightarrow> bool option) option"
  w_horizon :: "(call list \<Rightarrow> string \<Rightarrow> (time option) option) option"
  w_now :: "call list \<Rightarrow> time"
  w_started :: "call list \<Rightarrow> time option"
  w_parse_url :: parse_url
  w_saved_note :: "string \<Rightarrow> (string \<times> string \<times> string) option"
  w_registered_note :: "string \<Rightarrow> (string \<times> string) option"
  w_marshal :: "string list \<Rightarrow> string"
  w_range :: "string list \<Rightarrow> string list"
  w_language :: string
  w_refresh :: "int \<times> int"

record event =
  EProvider :: string
  EReason :: string
  EMessage :: message
  EWarning :: bool

record lt =
  c_saved :: "string \<rightharpoonup> string \<times> string"
  c_told :: "string \<rightharpoonup> message"
  c_held :: "(string \<times> string \<times> (string \<times> string) list) list"
  c_stale :: "string \<rightharpoonup> int \<times> time"
  c_revived :: "string \<rightharpoonup> time"
  c_emptyReloaded :: "string \<rightharpoonup> time"
  c_cloudReloaded :: "string \<rightharpoonup> time"
  c_addresses :: "string list"
  c_registered :: "string \<rightharpoonup> string \<times> string"
  c_mapChecked :: "string \<rightharpoonup> time \<times> int"
  c_mapRestored :: "string \<rightharpoonup> time"
  removalsHeld :: bool
  ps_devices :: "(string \<times> Device) list"
  ps_dvrs :: "DVR list"
  guideBusy :: bool
  ps_changed :: "(string \<times> Provider) list"
  restartSelf :: bool
  ps_pending :: bool
  ps_waiting :: bool
  ps_errs :: "(string \<times> step_error) list"
  log :: "call list"
  events :: "event list"

type_synonym 'a pass = "(lt, step_error, 'a) eff"

definition new_converger :: lt where
  "new_converger = \<lparr>c_saved = Map.empty, c_told = Map.empty, c_held = [], c_stale = Map.empty, c_revived = Map.empty,
     c_emptyReloaded = Map.empty, c_cloudReloaded = Map.empty, c_addresses = [], c_registered = Map.empty,
     c_mapChecked = Map.empty, c_mapRestored = Map.empty, removalsHeld = False, ps_devices = [], ps_dvrs = [],
     guideBusy = False, ps_changed = [], restartSelf = False, ps_pending = False, ps_waiting = False, ps_errs = [],
     log = [], events = []\<rparr>"

text \<open>A call: its answer, and the log with it. \<open>demand\<close> is the early return with a wrapped error.\<close>

definition perform :: "(call list \<Rightarrow> 'a) \<Rightarrow> ('a \<Rightarrow> call) \<Rightarrow> 'a pass" where
  "perform ans c s = (Inr (ans (log s)), s\<lparr>log := c (ans (log s)) # log s\<rparr>)"

definition demand :: "string \<Rightarrow> ('e + 'a) \<Rightarrow> 'a pass" where
  "demand what r = (case r of Inl _ \<Rightarrow> throw (Failed [what]) | Inr x \<Rightarrow> ret x)"

definition demand_ok :: "string \<Rightarrow> 'e option \<Rightarrow> unit pass" where
  "demand_ok what r = (case r of Some _ \<Rightarrow> throw (Failed [what]) | None \<Rightarrow> ret ())"

definition now :: "world \<Rightarrow> time pass" where
  "now W = perform (w_now W) CNow"

definition record_event :: "Provider \<Rightarrow> string \<Rightarrow> message \<Rightarrow> bool \<Rightarrow> unit pass" where
  "record_event p reason m warning =
     modify (\<lambda>s. s\<lparr>events := events s @ [\<lparr>EProvider = provider_key p, EReason = reason, EMessage = m, EWarning = warning\<rparr>]\<rparr>)"

definition recordOnce :: "string \<Rightarrow> Provider \<Rightarrow> string \<Rightarrow> message \<Rightarrow> bool \<Rightarrow> unit pass" where
  "recordOnce k p reason m warning = reads (\<lambda>s.
     if c_told s k = Some m then ret ()
     else and_then (modify (\<lambda>s. s\<lparr>c_told := (c_told s)(k \<mapsto> m)\<rparr>)) (\<lambda>_. record_event p reason m warning))"

definition forget_told :: "string \<Rightarrow> unit pass" where
  "forget_told k = modify (\<lambda>s. s\<lparr>c_told := (c_told s)(k := None)\<rparr>)"

section \<open>Waiting for a guide load\<close>

definition idle :: "world \<Rightarrow> unit pass" where
  "idle W = reads (\<lambda>s.
     if guideBusy s then throw ErrWaiting
     else and_then (perform (w_activities W) CActivities) (\<lambda>r.
       and_then (demand ''list activities'' r) (\<lambda>acts.
         if list_ex (\<lambda>a. AType a = ActivityGuideLoad) acts
         then and_then (modify (\<lambda>s. s\<lparr>guideBusy := True\<rparr>)) (\<lambda>_. throw ErrWaiting)
         else ret ())))"

definition waiting :: "Provider \<Rightarrow> Block \<Rightarrow> string \<Rightarrow> unit pass" where
  "waiting p b what = recordOnce (''wait/'' @ ToUpper (DeviceID b)) p ''DVRWaitingForGuide'' [Start b, what] False"

definition wait :: "Provider \<Rightarrow> Block \<Rightarrow> string \<Rightarrow> 'a pass \<Rightarrow> 'a pass" where
  "wait p b what m = or_else m (\<lambda>e.
     if e = ErrWaiting then and_then (waiting p b what) (\<lambda>_. throw e) else throw e)"

definition grabbing :: "world \<Rightarrow> bool pass" where
  "grabbing W = and_then (perform (w_activities W) CActivities) (\<lambda>r.
     and_then (demand ''list activities'' r) (\<lambda>acts. ret (list_ex (\<lambda>a. AType a = ActivityGrab) acts)))"

section \<open>The pass's view of PMS\<close>

definition addDevices :: "Device list \<Rightarrow> lt \<Rightarrow> lt" where
  "addDevices ds s = s\<lparr>ps_devices := fold (\<lambda>d m. if deviceID d \<noteq> [] then AList.update (deviceID d) d m else m) ds (ps_devices s)\<rparr>"

definition dropDVR :: "string \<Rightarrow> lt \<Rightarrow> lt" where
  "dropDVR k s = s\<lparr>ps_dvrs := filter (\<lambda>d. VKey d \<noteq> k) (ps_dvrs s)\<rparr>"

definition ghosts :: "world \<Rightarrow> lt \<Rightarrow> DVR list" where
  "ghosts W s = filter (\<lambda>d. underService (w_parse_url W) (c_addresses s) (lineupGuide (VLineup d))
     \<and> \<not> list_ex (\<lambda>v. map_of (ps_devices s) (deviceID v) \<noteq> None) (Devices d)) (ps_dvrs s)"

definition changed :: "Provider \<Rightarrow> unit pass" where
  "changed p = modify (\<lambda>s. s\<lparr>ps_changed := AList.update (provider_key p) p (ps_changed s)\<rparr>)"

definition busy :: "unit pass" where
  "busy = modify (\<lambda>s. s\<lparr>guideBusy := True\<rparr>)"

definition set_saved :: "string \<Rightarrow> (string \<times> string) option \<Rightarrow> unit pass" where
  "set_saved i v = modify (\<lambda>s. s\<lparr>c_saved := (c_saved s)(i := v)\<rparr>)"

section \<open>Leases and notes\<close>

definition atURI :: "world \<Rightarrow> lt \<Rightarrow> string \<Rightarrow> string \<Rightarrow> string \<Rightarrow> bool" where
  "atURI W s i devURI uri \<longleftrightarrow> sameURL (w_parse_url W) devURI uri
     \<or> (case c_registered s i of None \<Rightarrow> False | Some (u, stored) \<Rightarrow> u = uri \<and> sameURL (w_parse_url W) stored devURI)"

definition annotate :: "world \<Rightarrow> Provider \<Rightarrow> string \<Rightarrow> string \<Rightarrow> string \<Rightarrow> unit pass" where
  "annotate W p i k v = and_then (perform (\<lambda>l. w_annotate W l (Namespace p) (LeaseName i) k v) (CAnnotate (Namespace p) (LeaseName i) k v)) (\<lambda>_. ret ())"

definition AnnotationSaved :: string where "AnnotationSaved = ''livetv.clusterplex.io/saved''"
definition AnnotationRegistered :: string where "AnnotationRegistered = ''livetv.clusterplex.io/registered''"

definition note_saved :: "world \<Rightarrow> Provider \<Rightarrow> string \<Rightarrow> string \<Rightarrow> string \<times> string \<Rightarrow> unit pass" where
  "note_saved W p i dvr sv = annotate W p i AnnotationSaved (w_marshal W [dvr, fst sv, snd sv])"

definition noteRegistered :: "world \<Rightarrow> Provider \<Rightarrow> string \<Rightarrow> string \<times> string \<Rightarrow> unit pass" where
  "noteRegistered W p i n = and_then (modify (\<lambda>s. s\<lparr>c_registered := (c_registered s)(i \<mapsto> n)\<rparr>))
     (\<lambda>_. annotate W p i AnnotationRegistered (w_marshal W [fst n, snd n]))"

definition lease_labels :: "Provider \<Rightarrow> Block \<Rightarrow> (string \<times> string) list" where
  "lease_labels p b = [(''clustarr.io/iptv-provider'', PName p), (''clustarr.io/iptv-block'', Start b)]"

definition acquire :: "world \<Rightarrow> Provider \<Rightarrow> Block \<Rightarrow> Lease pass" where
  "acquire W p b = (let i = ToUpper (DeviceID b); labels = lease_labels p b in
     and_then (perform (\<lambda>l. w_acquire W l (Namespace p) (LeaseName i) labels) (CAcquire (Namespace p) (LeaseName i) labels)) (\<lambda>r.
     and_then (demand ''lease'' r) (\<lambda>lease.
       if \<not> Held lease then
         and_then (modify (\<lambda>s. s\<lparr>c_held := AList.delete i (c_held s)\<rparr>)) (\<lambda>_. reads (\<lambda>s.
         and_then (case map_of (ps_devices s) i of
             Some dev \<Rightarrow> if URI b \<noteq> [] \<and> sameURL (w_parse_url W) (DURI dev) (URI b)
               then recordOnce (''owned/'' @ i) p ''DVRBlockOwned'' [''two installations'', Start b, i, Holder lease] True
               else recordOnce (''owned/'' @ i) p ''DVRBlockOwned'' [''skipping'', Start b, i, Holder lease] False
           | None \<Rightarrow> recordOnce (''owned/'' @ i) p ''DVRBlockOwned'' [''skipping'', Start b, i, Holder lease] False)
           (\<lambda>_. ret lease)))
       else and_then (forget_told (''owned/'' @ i)) (\<lambda>_.
         and_then (modify (\<lambda>s. s\<lparr>c_held := AList.update i (Namespace p, labels) (c_held s)\<rparr>)) (\<lambda>_. ret lease)))))"

definition keep :: "world \<Rightarrow> Provider \<Rightarrow> Block \<Rightarrow> unit pass" where
  "keep W p b =
     (if DeviceID b = [] \<or> URI b = [] then ret ()
      else reads (\<lambda>s. case map_of (ps_devices s) (ToUpper (DeviceID b)) of
          None \<Rightarrow> ret ()
        | Some dev \<Rightarrow> if \<not> atURI W s (ToUpper (DeviceID b)) (DURI dev) (URI b) then ret ()
            else and_then (acquire W p b) (\<lambda>_. ret ())))"

definition renew_one :: "world \<Rightarrow> string \<Rightarrow> unit pass" where
  "renew_one W i = reads (\<lambda>s. case map_of (c_held s) i of None \<Rightarrow> ret ()
     | Some (ns, labels) \<Rightarrow>
         and_then (perform (\<lambda>l. w_acquire W l ns (LeaseName i) labels) (CAcquire ns (LeaseName i) labels)) (\<lambda>r.
           case r of Inl _ \<Rightarrow> ret ()
           | Inr lease \<Rightarrow> if Held lease then ret () else modify (\<lambda>s. s\<lparr>c_held := AList.delete i (c_held s)\<rparr>)))"

definition renewHeld :: "world \<Rightarrow> unit pass" where
  "renewHeld W = reads (\<lambda>s. for_each (renew_one W) (w_range W (map fst (c_held s))))"

section \<open>Deleting\<close>

definition deleteDVR :: "world \<Rightarrow> string \<Rightarrow> unit pass" where
  "deleteDVR W k = and_then (perform (\<lambda>l. w_delete_dvr W l k) (CDeleteDVR k)) (\<lambda>r.
     case r of None \<Rightarrow> modify (dropDVR k)
     | Some e \<Rightarrow> if e = ErrNotFound then modify (dropDVR k) else throw (Failed [''delete DVR'', k]))"

definition remove_dvr :: "world \<Rightarrow> Provider \<Rightarrow> DVR \<Rightarrow> unit pass" where
  "remove_dvr W p d = and_then (idle W) (\<lambda>_. and_then (deleteDVR W (VKey d)) (\<lambda>_. changed p))"

definition remove :: "world \<Rightarrow> Provider \<Rightarrow> Device \<Rightarrow> unit pass" where
  "remove W p dev = reads (\<lambda>s.
     and_then (for_each (remove_dvr W p) (dvrsOf (DUUID dev) (ps_dvrs s))) (\<lambda>_.
     and_then (idle W) (\<lambda>_.
     and_then (perform (\<lambda>l. w_delete_device W l (DKey dev)) (CDeleteDevice (DKey dev))) (\<lambda>r.
     and_then (case r of None \<Rightarrow> ret () | Some e \<Rightarrow> if e = ErrNotFound then ret () else throw (Failed [''delete device'', DKey dev])) (\<lambda>_.
       modify (\<lambda>s. s\<lparr>ps_devices := AList.delete (deviceID dev) (ps_devices s), c_saved := (c_saved s)(deviceID dev := None),
         c_held := AList.delete (deviceID dev) (c_held s), c_registered := (c_registered s)(deviceID dev := None)\<rparr>))))))"

section \<open>One block\<close>

definition adopt_registered :: "world \<Rightarrow> string \<Rightarrow> Lease \<Rightarrow> unit pass" where
  "adopt_registered W i lease = modify (\<lambda>s.
     case c_registered s i of Some _ \<Rightarrow> s
     | None \<Rightarrow> (case Option.bind (Annotations lease AnnotationRegistered) (w_registered_note W) of
         Some n \<Rightarrow> if fst n \<noteq> [] then s\<lparr>c_registered := (c_registered s)(i \<mapsto> n)\<rparr> else s
       | None \<Rightarrow> s))"

text \<open>The block's own device at a stale address is removed; what is left is the device listed at the block's, if any.\<close>

definition replace_stale :: "world \<Rightarrow> Provider \<Rightarrow> Block \<Rightarrow> string \<Rightarrow> Device option pass" where
  "replace_stale W p b i = reads (\<lambda>s. case map_of (ps_devices s) i of
       None \<Rightarrow> ret None
     | Some dev \<Rightarrow>
         if atURI W s i (DURI dev) (URI b) then ret (Some dev)
         else and_then (wait p b (''replace device '' @ DUUID dev @ '' at '' @ DURI dev) (remove W p dev)) (\<lambda>_.
           and_then (modify (\<lambda>t. t\<lparr>c_held := (case map_of (c_held s) i of Some h \<Rightarrow> AList.update i h (c_held t) | None \<Rightarrow> c_held t),
                                   c_registered := (c_registered t)(i := None)\<rparr>)) (\<lambda>_.
           and_then (note_saved W p i [] ([], [])) (\<lambda>_.
           and_then (record_event p ''DVRDeviceReplaced'' [Start b, i, DURI dev, URI b] False) (\<lambda>_. ret None)))))"

definition add_device :: "world \<Rightarrow> Provider \<Rightarrow> Block \<Rightarrow> string \<Rightarrow> Device pass" where
  "add_device W p b i =
     and_then (perform (\<lambda>l. w_add W l (URI b)) (CAddDevice (URI b))) (\<lambda>r.
     and_then (case r of None \<Rightarrow> ret () | Some e \<Rightarrow> if e = ErrConflict then ret () else throw (Failed [''add device'', URI b])) (\<lambda>_.
     and_then (perform (w_devices W) CDevices) (\<lambda>r.
     and_then (demand ''list devices'' r) (\<lambda>ds.
     and_then (modify (addDevices ds)) (\<lambda>_. reads (\<lambda>s.
       case map_of (ps_devices s) i of
         None \<Rightarrow> throw (Failed [''PMS lists no device'', i, URI b])
       | Some dev \<Rightarrow>
           and_then (set_saved i None) (\<lambda>_.
           and_then (record_event p ''DVRProvisioned'' [''device'', Start b, DUUID dev, URI b] False) (\<lambda>_.
           and_then (if sameURL (w_parse_url W) (DURI dev) (URI b) then ret ()
                     else recordOnce (''stored/'' @ i) p ''DVRDeviceStoredElsewhere'' [Start b, i, DURI dev, URI b] True) (\<lambda>_.
           and_then (noteRegistered W p i (URI b, DURI dev)) (\<lambda>_. ret dev))))))))))"

definition reviveEvery :: duration where "reviveEvery = 60 * second"

text \<open>A time never recorded is the zero time, further back than any of the bounds.\<close>

definition elapsed :: "time \<Rightarrow> time option \<Rightarrow> duration \<Rightarrow> bool" where
  "elapsed t since d = (case since of None \<Rightarrow> True | Some u \<Rightarrow> t - u \<ge> d)"

definition revive :: "world \<Rightarrow> Provider \<Rightarrow> Block \<Rightarrow> string \<Rightarrow> Device \<Rightarrow> unit pass" where
  "revive W p b i dev =
     (if DStatus dev \<noteq> ''dead'' then ret ()
      else and_then (now W) (\<lambda>t. reads (\<lambda>s.
        if \<not> elapsed t (c_revived s i) reviveEvery then ret ()
        else and_then (perform (\<lambda>l. w_discover W l (URI b)) (CDiscover (URI b))) (\<lambda>r.
          and_then (demand_ok ''discover dead device'' r) (\<lambda>_.
          and_then (now W) (\<lambda>t.
          and_then (modify (\<lambda>s. s\<lparr>c_revived := (c_revived s)(i \<mapsto> t)\<rparr>)) (\<lambda>_.
            record_event p ''DVRDeviceRevived'' [Start b, DUUID dev, URI b] True)))))))"

definition drop_duplicate :: "world \<Rightarrow> Provider \<Rightarrow> Block \<Rightarrow> DVR \<Rightarrow> unit pass" where
  "drop_duplicate W p b d =
     and_then (wait p b ''delete duplicate DVRs'' (idle W)) (\<lambda>_.
     and_then (deleteDVR W (VKey d)) (\<lambda>_.
     and_then (changed p) (\<lambda>_. record_event p ''DVRRemoved'' [Start b, VKey d] False)))"

definition staleList :: "world \<Rightarrow> Provider \<Rightarrow> Block \<Rightarrow> Device \<Rightarrow> unit pass" where
  "staleList W p b dev = (let i = ToUpper (DeviceID b) in reads (\<lambda>s.
     let ask = and_then (perform (w_now W) CNow) (\<lambda>t.
         and_then (modify (\<lambda>s. s\<lparr>c_stale := (c_stale s)(i \<mapsto> (ParentID dev, t)), restartSelf := True\<rparr>)) (\<lambda>_.
         and_then (record_event p ''DVRListStale'' [Start b, i, itoa (ParentID dev)] True) (\<lambda>_. throw ErrWaiting)))
     in case c_stale s i of
       None \<Rightarrow> ask
     | Some (parent, at_time) \<Rightarrow>
         if parent \<noteq> ParentID dev then ask
         else and_then (perform (w_started W) CStarted) (\<lambda>started.
           if (case started of None \<Rightarrow> False | Some t \<Rightarrow> at_time < t)
           then modify (\<lambda>s. s\<lparr>c_stale := (c_stale s)(i := None)\<rparr>)
           else throw ErrWaiting)))"

definition zero_dvr :: DVR where
  "zero_dvr = \<lparr>VKey = [], VUUID = [], VLineup = [], RefreshedAt = 0, Devices = []\<rparr>"

definition create_dvr :: "world \<Rightarrow> Provider \<Rightarrow> Block \<Rightarrow> string \<Rightarrow> Device \<Rightarrow> DVR pass" where
  "create_dvr W p b i dev =
     (let lang = (if w_language W = [] then ''eng'' else w_language W);
          lineup = (if Lineup b = [] then XMLTVLineup (URI b @ GuidePath b) (FriendlyName b) else Lineup b)
      in and_then (perform (\<lambda>l. w_create W l lang (DUUID dev) lineup) (CCreateDVR lang (DUUID dev) lineup)) (\<lambda>r.
         and_then (demand ''create DVR'' r) (\<lambda>created.
         and_then (changed p) (\<lambda>_.
         and_then busy (\<lambda>_.
         and_then (if (case created of None \<Rightarrow> True | Some d \<Rightarrow> VKey d = []) then
             and_then (perform (w_dvrs W) CDVRs) (\<lambda>r.
             and_then (demand ''list DVRs'' r) (\<lambda>ds.
             and_then (modify (\<lambda>s. s\<lparr>ps_dvrs := ds\<rparr>)) (\<lambda>_.
               case dvrsOf (DUUID dev) ds of
                 [] \<Rightarrow> throw (Failed [''PMS lists no DVR on the device after creating one''])
               | d # _ \<Rightarrow> ret d)))
           else ret (the created)) (\<lambda>dvr.
         and_then (set_saved i None) (\<lambda>_.
         and_then (record_event p ''DVRProvisioned'' [''DVR'', Start b, VKey dvr] False) (\<lambda>_. ret dvr))))))))"

definition ensure_dvr :: "world \<Rightarrow> Provider \<Rightarrow> Block \<Rightarrow> string \<Rightarrow> Device \<Rightarrow> DVR list \<Rightarrow> DVR pass" where
  "ensure_dvr W p b i dev dvrs = (case dvrs of
       d # _ \<Rightarrow> and_then (modify (\<lambda>s. s\<lparr>c_stale := (c_stale s)(i := None)\<rparr>)) (\<lambda>_. ret d)
     | [] \<Rightarrow>
         and_then (if ParentID dev \<noteq> 0 then staleList W p b dev else ret ()) (\<lambda>_.
         and_then (wait p b ''create the DVR'' (idle W)) (\<lambda>_. create_dvr W p b i dev)))"

definition adopt_saved :: "world \<Rightarrow> string \<Rightarrow> Lease \<Rightarrow> DVR \<Rightarrow> (string \<times> string) pass" where
  "adopt_saved W i lease dvr = reads (\<lambda>s. case c_saved s i of
       Some sv \<Rightarrow> ret sv
     | None \<Rightarrow> (case Option.bind (Annotations lease AnnotationSaved) (w_saved_note W) of
         Some (d, lu, gd) \<Rightarrow> if d = VKey dvr then and_then (set_saved i (Some (lu, gd))) (\<lambda>_. ret (lu, gd)) else ret ([], [])
       | None \<Rightarrow> ret ([], [])))"

definition SaveChannelMap :: "world \<Rightarrow> string \<Rightarrow> ChannelMapping list \<Rightarrow> pms_error option pass" where
  "SaveChannelMap W k m = (case save_refused m of Some e \<Rightarrow> ret (Some e)
     | None \<Rightarrow> perform (\<lambda>l. w_save W l k (channelMapQuery m)) (CSaveMap k (channelMapQuery m)))"

definition save_map :: "world \<Rightarrow> Provider \<Rightarrow> Block \<Rightarrow> string \<Rightarrow> Device \<Rightarrow> DVR \<Rightarrow> (string \<times> string) pass" where
  "save_map W p b i dev dvr =
     and_then (wait p b ''save the channel map'' (idle W)) (\<lambda>_.
     and_then (if Lineup b \<noteq> [] then perform (\<lambda>l. w_plex_map W l (URI b)) (CPlexMap (URI b))
               else perform (\<lambda>l. w_epg_map W l (DUUID dev) (VLineup dvr)) (CEPGMap (DUUID dev) (VLineup dvr))) (\<lambda>r.
     and_then (demand ''read the EPG channel map'' r) (\<lambda>m.
       if MapBytes m > MaxChannelMapBytes then
         and_then (recordOnce (''toolarge/'' @ i) p ''DVRChannelMapTooLarge'' [Start b, itoa (int (length m)), itoa (MapBytes m)] True) (\<lambda>_.
           throw (Failed [''channel map too large'']))
       else and_then (forget_told (''toolarge/'' @ i)) (\<lambda>_.
         and_then (SaveChannelMap W (DKey dev) m) (\<lambda>r.
           and_then (case r of None \<Rightarrow> ret ()
             | Some e \<Rightarrow> if e = ErrEmptyChannelMap
                 then and_then (waiting p b ''save the channel map: PMS matched no channel yet'') (\<lambda>_. throw ErrWaiting)
                 else throw (Failed [''save the channel map''])) (\<lambda>_.
           and_then busy (\<lambda>_.
           and_then (set_saved i (Some (LineupHash b, GuideHash b))) (\<lambda>_.
           and_then (note_saved W p i (VKey dvr) (LineupHash b, GuideHash b)) (\<lambda>_.
           and_then (record_event p ''DVRChannelMapSaved'' [Start b, itoa (int (length m))] False) (\<lambda>_.
             ret (LineupHash b, GuideHash b)))))))))))"

definition emptyGuideRetry :: duration where "emptyGuideRetry = 3600 * second"
definition cloudHorizonFloor :: duration where "cloudHorizonFloor = 7 * 24 * 3600 * second"
definition mapCheckEvery :: duration where "mapCheckEvery = 600 * second"
definition mapRestoreEvery :: duration where "mapRestoreEvery = 3600 * second"

definition hour_utc :: "time \<Rightarrow> int" where
  "hour_utc t = (t div (3600 * second)) mod 24"

definition not_within :: "world \<Rightarrow> time option \<Rightarrow> duration \<Rightarrow> (bool \<Rightarrow> 'a pass) \<Rightarrow> 'a pass" where
  "not_within W since d k = (case since of None \<Rightarrow> k True
     | Some u \<Rightarrow> and_then (now W) (\<lambda>t. k (\<not> t - u < d)))"

definition refreshCloudGuide :: "world \<Rightarrow> Provider \<Rightarrow> Block \<Rightarrow> string \<Rightarrow> DVR \<Rightarrow> unit pass" where
  "refreshCloudGuide W p b i dvr = and_then (now W) (\<lambda>t. reads (\<lambda>s.
     case w_horizon W of None \<Rightarrow> ret ()
     | Some horizon_of \<Rightarrow>
         if VUUID dvr = [] \<or> \<not> inWindow (hour_utc t) (w_refresh W) then ret ()
         else if \<not> elapsed t (c_cloudReloaded s i) emptyGuideRetry then ret ()
         else and_then (perform (\<lambda>l. horizon_of l (VUUID dvr)) (CHorizon (VUUID dvr))) (\<lambda>r.
           case r of None \<Rightarrow> ret ()
           | Some horizon \<Rightarrow>
               if (case horizon of None \<Rightarrow> False | Some h \<Rightarrow> h - t \<ge> cloudHorizonFloor) then ret ()
               else and_then (wait p b ''reload the guide that runs short'' (idle W)) (\<lambda>_.
                 and_then (grabbing W) (\<lambda>g.
                   if g then recordOnce (''refresh/'' @ i) p ''DVRGuideRefreshWaiting'' [Start b] False
                   else and_then (perform (\<lambda>l. w_reload W l (VKey dvr)) (CReload (VKey dvr))) (\<lambda>r.
                     and_then (demand_ok ''reload the guide that runs short'' r) (\<lambda>_.
                     and_then busy (\<lambda>_.
                     and_then (modify (\<lambda>s. s\<lparr>c_cloudReloaded := (c_cloudReloaded s)(i \<mapsto> t)\<rparr>)) (\<lambda>_.
                     and_then (forget_told (''refresh/'' @ i)) (\<lambda>_.
                       record_event p ''DVRGuideRefreshed'' [Start b, VKey dvr] False))))))))))"

definition restoreMap :: "world \<Rightarrow> Provider \<Rightarrow> Block \<Rightarrow> string \<Rightarrow> Device \<Rightarrow> DVR \<Rightarrow> unit pass" where
  "restoreMap W p b i dev dvr = reads (\<lambda>s.
     if guideBusy s \<or> VKey dvr = [] then ret ()
     else not_within W (case c_mapChecked s i of None \<Rightarrow> None
          | Some (u, refreshed) \<Rightarrow> if refreshed = RefreshedAt dvr then Some u else None) mapCheckEvery (\<lambda>due.
       if \<not> due then ret ()
       else and_then (or_else (and_then (idle W) (\<lambda>_. ret True)) (\<lambda>e. if e = ErrWaiting then ret False else throw e)) (\<lambda>quiet.
         if \<not> quiet then ret ()
         else and_then (perform (\<lambda>l. w_device W l (DKey dev)) (CDevice (DKey dev))) (\<lambda>r.
           and_then (demand ''read the device's channel map'' r) (\<lambda>seen.
           and_then (perform (\<lambda>l. w_plex_map W l (URI b)) (CPlexMap (URI b))) (\<lambda>r.
           and_then (demand ''read the tuner's channel map'' r) (\<lambda>want.
           and_then (now W) (\<lambda>t.
           and_then (modify (\<lambda>s. s\<lparr>c_mapChecked := (c_mapChecked s)(i \<mapsto> (t, RefreshedAt dvr))\<rparr>)) (\<lambda>_.
             case mapDifference want (ChannelMappings seen) of (missing, differing, extra) \<Rightarrow>
               if missing + differing + extra = 0 then forget_told (''restore/'' @ i)
               else reads (\<lambda>s. not_within W (c_mapRestored s i) mapRestoreEvery (\<lambda>may.
                 let what = [Start b, DUUID dev, itoa differing, itoa missing, itoa extra] in
                 if \<not> may then recordOnce (''restore/'' @ i) p ''DVRChannelMapRestored'' (''not yet'' # what) True
                 else if MapBytes want > MaxChannelMapBytes then ret ()
                 else and_then (SaveChannelMap W (DKey dev) want) (\<lambda>r.
                   if r = Some ErrEmptyChannelMap then ret ()
                   else and_then (demand_ok ''save the channel map again'' r) (\<lambda>_.
                   and_then busy (\<lambda>_.
                   and_then (now W) (\<lambda>t.
                   and_then (modify (\<lambda>s. s\<lparr>c_mapRestored := (c_mapRestored s)(i \<mapsto> t)\<rparr>)) (\<lambda>_.
                   and_then (forget_told (''restore/'' @ i)) (\<lambda>_.
                     record_event p ''DVRChannelMapRestored'' (''saved'' # what) True)))))))))))))))))"

definition emptyGuide :: "world \<Rightarrow> string \<Rightarrow> DVR \<Rightarrow> bool pass" where
  "emptyGuide W i dvr = (case w_guide_empty W of None \<Rightarrow> ret False
     | Some empty_of \<Rightarrow>
         if VUUID dvr = [] then ret False
         else reads (\<lambda>s. not_within W (c_emptyReloaded s i) emptyGuideRetry (\<lambda>due.
           if \<not> due then ret False
           else and_then (perform (\<lambda>l. empty_of l (VUUID dvr)) (CGuideEmpty (VUUID dvr))) (\<lambda>r.
             ret (case r of None \<Rightarrow> False | Some e \<Rightarrow> e)))))"

definition reload_guide :: "world \<Rightarrow> Provider \<Rightarrow> Block \<Rightarrow> DVR \<Rightarrow> string \<Rightarrow> unit pass" where
  "reload_guide W p b dvr what =
     and_then (wait p b what (idle W)) (\<lambda>_.
     and_then (perform (\<lambda>l. w_reload W l (VKey dvr)) (CReload (VKey dvr))) (\<lambda>r.
     and_then (demand_ok what r) (\<lambda>_. busy)))"

definition ensure_guide :: "world \<Rightarrow> Provider \<Rightarrow> Block \<Rightarrow> string \<Rightarrow> Device \<Rightarrow> DVR \<Rightarrow> string \<times> string \<Rightarrow> unit pass" where
  "ensure_guide W p b i dev dvr sv =
     (if Lineup b \<noteq> [] then and_then (refreshCloudGuide W p b i dvr) (\<lambda>_. restoreMap W p b i dev dvr)
      else if GuideHash b \<noteq> [] \<and> snd sv \<noteq> GuideHash b then
        and_then (reload_guide W p b dvr ''reload the guide'') (\<lambda>_.
        and_then (set_saved i (Some (fst sv, GuideHash b))) (\<lambda>_. note_saved W p i (VKey dvr) (fst sv, GuideHash b)))
      else and_then (emptyGuide W i dvr) (\<lambda>empty.
        if \<not> empty then ret ()
        else and_then (reload_guide W p b dvr ''reload the empty guide'') (\<lambda>_.
          and_then (now W) (\<lambda>t. modify (\<lambda>s. s\<lparr>c_emptyReloaded := (c_emptyReloaded s)(i \<mapsto> t)\<rparr>)))))"

definition converge :: "world \<Rightarrow> Provider \<Rightarrow> Block \<Rightarrow> unit pass" where
  "converge W p b = (let i = ToUpper (DeviceID b) in
     if URI b = [] then throw (Failed [''no URI yet'', Start b])
     else and_then (acquire W p b) (\<lambda>lease.
       if \<not> Held lease then ret ()
       else and_then (adopt_registered W i lease) (\<lambda>_.
         and_then (replace_stale W p b i) (\<lambda>found.
         and_then (case found of Some dev \<Rightarrow> ret dev | None \<Rightarrow> add_device W p b i) (\<lambda>dev.
         and_then (revive W p b i dev) (\<lambda>_. reads (\<lambda>s. let dvrs = dvrsOf (DUUID dev) (ps_dvrs s) in
         and_then (for_each (drop_duplicate W p b) (drop 1 dvrs)) (\<lambda>_.
         and_then (ensure_dvr W p b i dev dvrs) (\<lambda>dvr.
         and_then (adopt_saved W i lease dvr) (\<lambda>sv.
         and_then (if fst sv \<noteq> LineupHash b then save_map W p b i dev dvr else ret sv) (\<lambda>sv.
         and_then (ensure_guide W p b i dev dvr sv) (\<lambda>_. forget_told (''wait/'' @ i)))))))))))))"

section \<open>A pass\<close>

definition fail :: "Provider \<Rightarrow> string \<Rightarrow> step_error \<Rightarrow> unit pass" where
  "fail p what e = (case e of
       ErrWaiting \<Rightarrow> modify (\<lambda>s. s\<lparr>ps_waiting := True\<rparr>)
     | Failed m \<Rightarrow> and_then (modify (\<lambda>s. s\<lparr>ps_pending := True\<rparr>)) (\<lambda>_.
         and_then (if UID p \<noteq> [] then record_event p ''DVRProvisionFailed'' (what # m) True else ret ()) (\<lambda>_.
           modify (\<lambda>s. s\<lparr>ps_errs := ps_errs s @ [(provider_key p, e)]\<rparr>))))"

definition provider_live :: "Provider \<Rightarrow> bool" where
  "provider_live p \<longleftrightarrow> Ready p \<and> PEnabled p \<and> PAddress p \<noteq> []"

definition run_provider :: "world \<Rightarrow> Provider \<Rightarrow> unit pass" where
  "run_provider W p =
     (if \<not> provider_live p then for_each (\<lambda>b. or_else (keep W p b) (fail p (''block '' @ Start b))) (Blocks p)
      else for_each (\<lambda>b. if DeviceID b = [] then ret () else or_else (converge W p b) (fail p (''block '' @ Start b)))
        (sort_func (\<lambda>a b. compareNumbers (Start a) (Start b)) (Blocks p)))"

definition gone :: Provider where
  "gone = \<lparr>Namespace = [], PName = ''(gone)'', UID = [], Ready = False, PEnabled = False, PAddress = [], Blocks = []\<rparr>"

definition named :: "Provider list \<Rightarrow> string \<Rightarrow> bool" where
  "named live i \<longleftrightarrow> list_ex (\<lambda>p. list_ex (\<lambda>b. DeviceID b \<noteq> [] \<and> ToUpper (DeviceID b) = i) (Blocks p)) live"

definition remove_unnamed :: "world \<Rightarrow> Provider list \<Rightarrow> string \<Rightarrow> unit pass" where
  "remove_unnamed W live i = reads (\<lambda>s. case map_of (ps_devices s) i of
       None \<Rightarrow> ret ()
     | Some dev \<Rightarrow>
         if named live i \<or> \<not> underService (w_parse_url W) (c_addresses s) (DURI dev) then ret ()
         else or_else (remove W gone dev) (fail gone (''device '' @ DUUID dev)))"

definition remove_ghost :: "world \<Rightarrow> DVR \<Rightarrow> unit pass" where
  "remove_ghost W d = or_else (remove_dvr W gone d) (fail gone (''ghost DVR '' @ VKey d))"

definition remove_gone :: "world \<Rightarrow> Provider list \<Rightarrow> unit pass" where
  "remove_gone W live = and_then (reads (\<lambda>s.
       if ps_pending s then modify (\<lambda>s. s\<lparr>removalsHeld := True\<rparr>)
       else and_then (modify (\<lambda>s. s\<lparr>removalsHeld := False\<rparr>)) (\<lambda>_.
         for_each (remove_unnamed W live) (w_range W (map fst (ps_devices s)))))) (\<lambda>_.
     reads (\<lambda>s. for_each (remove_ghost W) (ghosts W s)))"

datatype status = Converged | Waiting | Pending | Errored

record pass_result =
  Status :: status
  DVRChanged :: bool
  ChangedP :: "Provider list"
  RestartSelf :: bool

definition outcome_of :: "lt \<Rightarrow> pass_result" where
  "outcome_of s = \<lparr>Status = (if ps_pending s then Pending else if ps_waiting s then Waiting else Converged),
     DVRChanged = ps_changed s \<noteq> [],
     ChangedP = sort_key provider_key (filter (\<lambda>p. UID p \<noteq> []) (map snd (ps_changed s))), RestartSelf = restartSelf s\<rparr>"

definition errored :: pass_result where
  "errored = \<lparr>Status = Errored, DVRChanged = False, ChangedP = [], RestartSelf = False\<rparr>"

text \<open>What the pass keeps of PMS starts empty; what the converger remembers stays.\<close>

definition start_pass :: "Device list \<Rightarrow> DVR list \<Rightarrow> Activity list \<Rightarrow> Provider list \<Rightarrow> lt \<Rightarrow> lt" where
  "start_pass ds vs acts live s = addDevices ds
     (s\<lparr>c_addresses := fold List.insert (filter (\<lambda>a. a \<noteq> []) (map PAddress live)) (c_addresses s),
        ps_devices := [], ps_dvrs := vs, guideBusy := list_ex (\<lambda>a. AType a = ActivityGuideLoad) acts,
        ps_changed := [], restartSelf := False, ps_pending := False, ps_waiting := False, ps_errs := []\<rparr>)"

definition unreadable :: "world \<Rightarrow> pass_result pass" where
  "unreadable W = and_then (renewHeld W) (\<lambda>_. ret errored)"

definition Run :: "world \<Rightarrow> Provider list \<Rightarrow> pass_result pass" where
  "Run W providers =
     and_then (perform (w_devices W) CDevices) (\<lambda>r. case r of Inl _ \<Rightarrow> unreadable W | Inr ds \<Rightarrow>
     and_then (perform (w_dvrs W) CDVRs) (\<lambda>r. case r of Inl _ \<Rightarrow> unreadable W | Inr vs \<Rightarrow>
     and_then (perform (w_activities W) CActivities) (\<lambda>r. case r of Inl _ \<Rightarrow> unreadable W | Inr acts \<Rightarrow>
       let live = sort_key provider_key providers in
       and_then (modify (start_pass ds vs acts live)) (\<lambda>_.
       and_then (for_each (run_provider W) live) (\<lambda>_.
       and_then (remove_gone W live) (\<lambda>_. reads (\<lambda>s. ret (outcome_of s))))))))"

end
