(* ===== verification/LiveTV_Safety.thy ===== *)
theory LiveTV_Safety
  imports LiveTV_Converge
begin

text \<open>
  What a pass of the Live TV converger keeps, whatever PMS and the cluster answer: no DVR is created, deleted or reloaded and
  no channel map saved while a guide loads, and a pass starts at most one load.
\<close>

section \<open>No write while a guide loads\<close>

definition starts_load :: "call \<Rightarrow> bool" where
  "starts_load c = (case c of CCreateDVR _ _ _ (Inr _) \<Rightarrow> True | CSaveMap _ _ None \<Rightarrow> True | CReload _ None \<Rightarrow> True | _ \<Rightarrow> False)"

definition guarded :: "call \<Rightarrow> bool" where
  "guarded c = (case c of CCreateDVR _ _ _ _ \<Rightarrow> True | CSaveMap _ _ _ \<Rightarrow> True | CReload _ _ \<Rightarrow> True
     | CDeleteDVR _ _ \<Rightarrow> True | CDeleteDevice _ _ \<Rightarrow> True | _ \<Rightarrow> False)"

definition quiet_look :: "call \<Rightarrow> bool" where
  "quiet_look c = (case c of CActivities (Inr acts) \<Rightarrow> \<not> list_ex (\<lambda>a. AType a = ActivityGuideLoad) acts | _ \<Rightarrow> False)"

text \<open>Since the last guarded write, PMS was asked and named no guide load. The log is newest first.\<close>

fun asked :: "call list \<Rightarrow> bool" where
  "asked [] = False"
| "asked (c # cs) = (if guarded c then False else quiet_look c \<or> asked cs)"

fun disciplined :: "call list \<Rightarrow> bool" where
  "disciplined [] = True"
| "disciplined (c # cs) = (disciplined cs \<and> (guarded c \<longrightarrow> asked cs \<and> \<not> list_ex starts_load cs))"

definition orderly :: "lt \<Rightarrow> bool" where
  "orderly s \<longleftrightarrow> disciplined (log s) \<and> (list_ex starts_load (log s) \<longrightarrow> guideBusy s)"

lemma wp_perform [simp]: "wp (perform ans c) Q E s = Q (ans (log s)) (s\<lparr>log := c (ans (log s)) # log s\<rparr>)"
  by (simp add: wp_def perform_def)

lemma guarded_simps [simp]:
  "guarded (CCreateDVR a b l r1)" "guarded (CSaveMap a q r)" "guarded (CReload a r)" "guarded (CDeleteDVR a r)" "guarded (CDeleteDevice a r)"
  "\<not> guarded (CDevices r2)" "\<not> guarded (CDVRs r3)" "\<not> guarded (CActivities r4)" "\<not> guarded (CAddDevice a r)" "\<not> guarded (CDiscover a r)"
  "\<not> guarded (CEPGMap a b r5)" "\<not> guarded (CPlexMap a r5)" "\<not> guarded (CDevice a r6)" "\<not> guarded (CAcquire a b l1 r7)"
  "\<not> guarded (CAnnotate a b d e r8)" "\<not> guarded (CGuideEmpty a r9)" "\<not> guarded (CHorizon a ra)" "\<not> guarded (CNow t)" "\<not> guarded (CStarted rb)"
  by (simp_all add: guarded_def)

lemma starts_load_simps [simp]:
  "starts_load (CCreateDVR a b l r1) \<longleftrightarrow> (\<exists>d. r1 = Inr d)" "starts_load (CSaveMap a q r) \<longleftrightarrow> r = None" "starts_load (CReload a r) \<longleftrightarrow> r = None"
  "\<not> starts_load (CDeleteDVR a r)" "\<not> starts_load (CDeleteDevice a r)"
  "\<not> starts_load (CDevices r2)" "\<not> starts_load (CDVRs r3)" "\<not> starts_load (CActivities r4)" "\<not> starts_load (CAddDevice a r)" "\<not> starts_load (CDiscover a r)"
  "\<not> starts_load (CEPGMap a b r5)" "\<not> starts_load (CPlexMap a r5)" "\<not> starts_load (CDevice a r6)" "\<not> starts_load (CAcquire a b l1 r7)"
  "\<not> starts_load (CAnnotate a b d e r8)" "\<not> starts_load (CGuideEmpty a r9)" "\<not> starts_load (CHorizon a ra)" "\<not> starts_load (CNow t)" "\<not> starts_load (CStarted rb)"
  by (auto simp: starts_load_def split: sum.splits option.splits)

lemma quiet_look_activities [simp]: "quiet_look (CActivities (Inr acts)) \<longleftrightarrow> \<not> list_ex (\<lambda>a. AType a = ActivityGuideLoad) acts"
  by (simp add: quiet_look_def)

lemma preserves_perform:
  "(\<And>r. \<not> guarded (c r)) \<Longrightarrow> (\<And>r. \<not> starts_load (c r)) \<Longrightarrow> preserves orderly (perform ans c)"
  by (rule preservesI) (simp add: orderly_def)

lemma preserves_orderly_modify:
  "(\<And>s. log (f s) = log s) \<Longrightarrow> (\<And>s. guideBusy s \<Longrightarrow> guideBusy (f s)) \<Longrightarrow> preserves orderly (modify f)"
  by (rule preserves_modify) (auto simp: orderly_def)

text \<open>After \<open>idle\<close> returns, a guarded write may be sent; nothing else done in between changes that.\<close>

definition armed :: "lt \<Rightarrow> bool" where
  "armed s \<longleftrightarrow> disciplined (log s) \<and> asked (log s) \<and> \<not> list_ex starts_load (log s)"

lemma armed_orderly: "armed s \<Longrightarrow> orderly s"
  by (simp add: armed_def orderly_def)

lemma wp_idle: "orderly s \<Longrightarrow> wp (idle W) (\<lambda>_. armed) (\<lambda>_. orderly) s"
  by (auto simp: idle_def demand_def orderly_def armed_def split: sum.split)

lemma preserves_idle [preserves_intros]: "preserves orderly (idle W)"
  by (rule preservesI, rule wp_mono [OF wp_idle]) (auto simp: armed_orderly)

lemma preserves_record_event [preserves_intros]: "preserves orderly (record_event p r m w)" "preserves armed (record_event p r m w)"
  by (auto simp: record_event_def orderly_def armed_def intro!: preserves_modify)

lemma preserves_recordOnce [preserves_intros]: "preserves orderly (recordOnce k p r m w)" "preserves armed (recordOnce k p r m w)"
  unfolding recordOnce_def by (auto intro!: preserves_intros preserves_modify simp: orderly_def armed_def)

lemma preserves_waiting [preserves_intros]: "preserves orderly (waiting p b w)"
  unfolding waiting_def by (intro preserves_intros)

lemma preserves_wait [preserves_intros]: "preserves orderly m \<Longrightarrow> preserves orderly (wait p b w m)"
  unfolding wait_def by (intro preserves_intros)

lemma wp_wait:
  assumes "wp m Q (\<lambda>_. orderly) s"
  shows "wp (wait p b w m) Q (\<lambda>_. orderly) s"
  unfolding wait_def wp_or_else
proof (rule wp_mono [OF assms])
  fix e :: step_error and t
  assume "orderly t"
  then have "wp (waiting p b w) (\<lambda>_. orderly) (\<lambda>_. orderly) t" by (rule preservesD [OF preserves_waiting])
  then have "wp (waiting p b w) (\<lambda>_. wp (throw e) Q (\<lambda>_. orderly)) (\<lambda>_. orderly) t" by (rule wp_mono) simp_all
  with \<open>orderly t\<close> show "wp (if e = ErrWaiting then and_then (waiting p b w) (\<lambda>_. throw e) else throw e) Q (\<lambda>_. orderly) t"
    by (cases "e = ErrWaiting") simp_all
qed

lemma wp_wait_idle: "orderly s \<Longrightarrow> wp (wait p b w (idle W)) (\<lambda>_. armed) (\<lambda>_. orderly) s"
  by (rule wp_wait, erule wp_idle)

lemmas step_intros = preserves_intros preserves_perform preserves_orderly_modify

lemma preserves_now [preserves_intros]: "preserves orderly (now W)"
  unfolding now_def by (intro preserves_perform) simp_all

lemma preserves_demand [preserves_intros]: "preserves I (demand w r)" "preserves I (demand_ok w q)"
  by (auto simp: demand_def demand_ok_def split: sum.split option.split intro: preserves_intros)

lemma preserves_small [preserves_intros]:
  "preserves orderly (forget_told k)" "preserves orderly (changed p)" "preserves orderly busy" "preserves orderly (set_saved i v)"
  by (auto simp: forget_told_def changed_def busy_def set_saved_def intro!: preserves_orderly_modify)

lemma preserves_annotate [preserves_intros]: "preserves orderly (annotate W p i k v)"
  unfolding annotate_def by (intro preserves_intros preserves_perform) simp_all

lemma preserves_notes [preserves_intros]: "preserves orderly (note_saved W p i d v)" "preserves orderly (noteRegistered W p i n)"
  unfolding note_saved_def noteRegistered_def by (intro preserves_intros preserves_orderly_modify; simp)+

lemma preserves_acquire [preserves_intros]: "preserves orderly (acquire W p b)"
  unfolding acquire_def by (intro preserves_intros preserves_perform preserves_orderly_modify; simp)

lemma preserves_keep [preserves_intros]: "preserves orderly (keep W p b)"
  unfolding keep_def by (intro preserves_intros)

lemma wp_deleteDVR: "armed s \<Longrightarrow> wp (deleteDVR W k) (\<lambda>_. orderly) (\<lambda>_. orderly) s"
  by (auto simp: deleteDVR_def dropDVR_def armed_def orderly_def split: option.split)

text \<open>A guarded step after \<open>idle\<close>.\<close>

lemma preserves_after_idle:
  assumes "\<And>s. armed s \<Longrightarrow> wp n (\<lambda>_. orderly) (\<lambda>_. orderly) s"
  shows "preserves orderly (and_then (idle W) (\<lambda>_. n))" "preserves orderly (and_then (wait p b w (idle W)) (\<lambda>_. n))"
  by (rule preservesI, unfold wp_and_then, rule wp_mono, erule wp_idle wp_wait_idle, use assms in auto)+

lemma wp_continue: "wp m (\<lambda>_. orderly) (\<lambda>_. orderly) s \<Longrightarrow> (\<And>x. preserves orderly (f x)) \<Longrightarrow> wp (and_then m f) (\<lambda>_. orderly) (\<lambda>_. orderly) s"
  unfolding wp_and_then by (erule wp_mono) (auto dest: preservesD)

lemma preserves_remove_dvr [preserves_intros]: "preserves orderly (remove_dvr W p d)"
  unfolding remove_dvr_def by (intro preserves_after_idle wp_continue preserves_intros wp_deleteDVR)

lemma preserves_remove [preserves_intros]: "preserves orderly (remove W p dev)"
  unfolding remove_def
  by (intro preserves_intros preserves_after_idle) (auto simp: armed_def orderly_def split: option.split)

lemma preserves_adopt_registered [preserves_intros]: "preserves orderly (adopt_registered W i l)"
  unfolding adopt_registered_def by (intro preserves_orderly_modify) (auto split: option.split)

lemma preserves_replace_stale [preserves_intros]: "preserves orderly (replace_stale W p b i)"
  unfolding replace_stale_def by (intro preserves_intros preserves_orderly_modify) (auto split: option.split)

lemma preserves_add_device [preserves_intros]: "preserves orderly (add_device W p b i)"
  unfolding add_device_def by (intro preserves_intros preserves_perform preserves_orderly_modify) (auto simp: addDevices_def)

lemma preserves_revive [preserves_intros]: "preserves orderly (revive W p b i dev)"
  unfolding revive_def by (intro preserves_intros preserves_perform preserves_orderly_modify) simp_all

lemma preserves_drop_duplicate [preserves_intros]: "preserves orderly (drop_duplicate W p b d)"
  unfolding drop_duplicate_def by (intro preserves_after_idle wp_continue preserves_intros wp_deleteDVR)

lemma preserves_staleList [preserves_intros]: "preserves orderly (staleList W p b dev)"
  unfolding staleList_def Let_def by (intro preserves_intros preserves_perform preserves_orderly_modify) simp_all

text \<open>A write that starts a load, once its success has set \<open>guideBusy\<close>.\<close>

lemma wp_start_load:
  assumes "armed s" and "\<And>x. preserves orderly (n x)"
    and c: "\<And>r. starts_load (c r) \<Longrightarrow> \<exists>x. r = Inr x" "\<And>r. guarded (c r)"
  shows "wp (and_then (perform ans c) (\<lambda>r. and_then (demand w r) (\<lambda>x. and_then (changed p) (\<lambda>_. and_then busy (\<lambda>_. n x)))))
           (\<lambda>_. orderly) (\<lambda>_. orderly) s"
proof (cases "ans (log s)")
  case (Inl e)
  then show ?thesis using assms(1) c by (auto simp: demand_def armed_def orderly_def)
next
  case (Inr x)
  have "wp (n x) (\<lambda>_. orderly) (\<lambda>_. orderly) t" if "orderly t" for t using assms(2) that by (rule preservesD)
  with Inr show ?thesis using assms(1) c by (simp add: demand_def changed_def busy_def armed_def orderly_def)
qed

lemma wp_start_load_ok:
  assumes "armed s" and "preserves orderly n"
    and c: "\<And>r. starts_load (c r) \<Longrightarrow> r = None" "\<And>r. guarded (c r)"
  shows "wp (and_then (perform ans c) (\<lambda>r. and_then (demand_ok w r) (\<lambda>_. and_then busy (\<lambda>_. n)))) (\<lambda>_. orderly) (\<lambda>_. orderly) s"
proof (cases "ans (log s)")
  case (Some e)
  then show ?thesis using assms(1) c by (auto simp: demand_ok_def armed_def orderly_def)
next
  case None
  have "wp n (\<lambda>_. orderly) (\<lambda>_. orderly) t" if "orderly t" for t using assms(2) that by (rule preservesD)
  with None show ?thesis using assms(1) c by (simp add: demand_ok_def busy_def armed_def orderly_def)
qed

lemma wp_create_dvr: "armed s \<Longrightarrow> wp (create_dvr W p b i dev) (\<lambda>_. orderly) (\<lambda>_. orderly) s"
  unfolding create_dvr_def Let_def
  by (rule wp_start_load) (auto intro!: preserves_intros preserves_perform preserves_orderly_modify)

lemma preserves_ensure_dvr [preserves_intros]: "preserves orderly (ensure_dvr W p b i dev dvrs)"
  unfolding ensure_dvr_def by (intro preserves_intros preserves_after_idle preserves_orderly_modify wp_create_dvr) simp_all

lemma preserves_adopt_saved [preserves_intros]: "preserves orderly (adopt_saved W i l d)"
  unfolding adopt_saved_def by (intro preserves_intros)

text \<open>What is only read between the look and the write.\<close>

lemma preserves_armed_perform: "(\<And>r. \<not> guarded (c r)) \<Longrightarrow> (\<And>r. \<not> starts_load (c r)) \<Longrightarrow> preserves armed (perform ans c)"
  by (rule preservesI) (simp add: armed_def)

lemma preserves_armed_small [preserves_intros]: "preserves armed (forget_told k)" "preserves armed (grabbing W)" "preserves armed (now W)"
  by (auto simp: forget_told_def grabbing_def now_def armed_def intro!: preserves_intros preserves_modify preserves_armed_perform)

lemma wp_armed_then:
  assumes "armed s" and "preserves armed m" and "\<And>x t. armed t \<Longrightarrow> wp (f x) (\<lambda>_. orderly) (\<lambda>_. orderly) t"
  shows "wp (and_then m f) (\<lambda>_. orderly) (\<lambda>_. orderly) s"
  unfolding wp_and_then by (rule wp_mono [OF preservesD [OF assms(2,1)]]) (use assms(3) armed_orderly in auto)

lemma wp_armed_step: "armed s \<Longrightarrow> preserves orderly m \<Longrightarrow> wp m (\<lambda>_. orderly) (\<lambda>_. orderly) s"
  by (simp add: armed_orderly preservesD)

lemma wp_save:
  assumes "armed s" and "preserves orderly n" and "\<And>e. preserves orderly (h e)"
  shows "wp (and_then (SaveChannelMap W k m) (\<lambda>r. case r of None \<Rightarrow> and_then busy (\<lambda>_. n) | Some e \<Rightarrow> h e)) (\<lambda>_. orderly) (\<lambda>_. orderly) s"
proof (cases "save_refused m")
  case (Some e)
  then show ?thesis using preservesD [OF assms(3) armed_orderly [OF assms(1)]] by (simp add: SaveChannelMap_def)
next
  case None
  show ?thesis
  proof (cases "w_save W (log s) k (channelMapQuery m)")
    case None2: None
    have "wp n (\<lambda>_. orderly) (\<lambda>_. orderly) t" if "orderly t" for t using assms(2) that by (rule preservesD)
    with None None2 show ?thesis using assms(1) by (simp add: SaveChannelMap_def busy_def armed_def orderly_def)
  next
    case (Some e)
    have "wp (h e) (\<lambda>_. orderly) (\<lambda>_. orderly) t" if "orderly t" for t using assms(3) that by (rule preservesD)
    with None Some show ?thesis using assms(1) by (simp add: SaveChannelMap_def armed_def orderly_def)
  qed
qed

lemma save_cases:
  "and_then (case r of None \<Rightarrow> ret () | Some e \<Rightarrow> h e) (\<lambda>_. n) = (case r of None \<Rightarrow> n | Some e \<Rightarrow> and_then (h e) (\<lambda>_. n))"
  by (auto simp: and_then_def ret_def fun_eq_iff split: option.split)

lemma restore_cases:
  "(if r = Some ErrEmptyChannelMap then ret () else and_then (demand_ok w r) (\<lambda>_. n))
   = (case r of None \<Rightarrow> n | Some e \<Rightarrow> if e = ErrEmptyChannelMap then ret () else throw (Failed [w]))"
  by (auto simp: demand_ok_def and_then_def ret_def throw_def fun_eq_iff split: option.split)

lemma wp_ifI: "(b \<Longrightarrow> wp m Q E s) \<Longrightarrow> (\<not> b \<Longrightarrow> wp n Q E s) \<Longrightarrow> wp (if b then m else n) Q E s"
  by simp

lemma wp_letI: "(\<And>x. wp (f x) Q E s) \<Longrightarrow> wp (let x = e in f x) Q E s"
  by simp

lemma wp_prodI: "(\<And>x y. wp (f x y) Q E s) \<Longrightarrow> wp (case r of (x, y) \<Rightarrow> f x y) Q E s"
  by (simp split: prod.split)

lemma wp_optionI: "wp m Q E s \<Longrightarrow> (\<And>x. wp (f x) Q E s) \<Longrightarrow> wp (case r of None \<Rightarrow> m | Some x \<Rightarrow> f x) Q E s"
  by (simp split: option.split)

lemma wp_readsI: "(\<And>t. wp (f t) Q E s) \<Longrightarrow> wp (reads f) Q E s"
  by simp

lemma wp_not_within: "armed s \<Longrightarrow> (\<And>x t. armed t \<Longrightarrow> wp (k x) (\<lambda>_. orderly) (\<lambda>_. orderly) t) \<Longrightarrow> wp (not_within W since d k) (\<lambda>_. orderly) (\<lambda>_. orderly) s"
  unfolding not_within_def by (intro wp_optionI wp_armed_then [OF _ preserves_armed_small(3)])

lemma preserves_not_within [preserves_intros]: "(\<And>x. preserves orderly (k x)) \<Longrightarrow> preserves orderly (not_within W since d k)"
  unfolding not_within_def by (intro preserves_intros)

lemma preserves_armed_calls [preserves_intros]:
  "preserves armed (perform ans (CPlexMap u))" "preserves armed (perform ans2 (CEPGMap u l))" "preserves armed (perform ans3 (CDevice u))"
  by (intro preserves_armed_perform; simp)+

lemma preserves_armed_checked [preserves_intros]:
  "preserves armed (modify (\<lambda>s. s\<lparr>c_mapChecked := f s\<rparr>))"
  by (intro preserves_modify) (simp add: armed_def)

lemmas armed_intros = wp_armed_then wp_ifI wp_letI wp_prodI wp_readsI wp_not_within

lemma preserves_save_map [preserves_intros]: "preserves orderly (save_map W p b i dev dvr)"
  unfolding save_map_def save_cases
  apply (rule preserves_after_idle)
  apply (rule wp_armed_then, assumption, intro preserves_intros)
  apply (rule wp_armed_then, assumption, intro preserves_intros)
  apply (rule wp_ifI)
   apply (rule wp_armed_step, assumption, intro preserves_intros)
  apply (rule wp_armed_then, assumption, intro preserves_intros)
  apply (rule wp_save, assumption)
   apply (intro preserves_intros)+
  done

lemma preserves_refreshCloudGuide [preserves_intros]: "preserves orderly (refreshCloudGuide W p b i dvr)"
  unfolding refreshCloudGuide_def
  apply (intro preserves_after_idle preserves_intros preserves_perform, simp, simp)
  apply (rule wp_armed_then, assumption, intro preserves_intros)
  apply (rule wp_ifI)
   apply (rule wp_armed_step, assumption, intro preserves_intros)
  apply (rule wp_start_load_ok, assumption)
    apply (intro preserves_intros preserves_orderly_modify; simp)
   apply simp_all
  done

lemma wp_quiet: "orderly s \<Longrightarrow> wp (or_else (and_then (idle W) (\<lambda>_. ret True)) (\<lambda>e. if e = ErrWaiting then ret False else throw e))
    (\<lambda>q t. if q then armed t else orderly t) (\<lambda>_. orderly) s"
  unfolding wp_or_else wp_and_then by (rule wp_mono [OF wp_idle]) auto

lemma preserves_if_quiet:
  assumes "\<And>s. armed s \<Longrightarrow> wp n (\<lambda>_. orderly) (\<lambda>_. orderly) s"
  shows "preserves orderly (and_then (or_else (and_then (idle W) (\<lambda>_. ret True)) (\<lambda>e. if e = ErrWaiting then ret False else throw e))
    (\<lambda>q. if \<not> q then ret () else n))"
  by (rule preservesI, unfold wp_and_then, rule wp_mono, erule wp_quiet) (use assms in \<open>auto split: if_splits\<close>)

lemma preserves_restoreMap [preserves_intros]: "preserves orderly (restoreMap W p b i dev dvr)"
  unfolding restoreMap_def restore_cases
  apply (rule preserves_reads, rule preserves_if, rule preserves_ret, rule preserves_not_within, rule preserves_if, rule preserves_ret)
  apply (rule preserves_if_quiet)
  apply (rule wp_armed_then, assumption, intro preserves_intros)+
  apply (rule wp_prodI, rule wp_prodI, rule wp_ifI)
   apply (rule wp_armed_step, assumption, intro preserves_intros)
  apply (rule wp_readsI, rule wp_not_within, assumption, rule wp_letI)
  apply (rule wp_ifI)
   apply (rule wp_armed_step, assumption, intro preserves_intros)
  apply (rule wp_ifI)
   apply (rule wp_armed_step, assumption, intro preserves_intros)
  apply (rule wp_save, assumption)
   apply (intro preserves_intros preserves_orderly_modify; simp)+
  done

lemma preserves_emptyGuide [preserves_intros]: "preserves orderly (emptyGuide W i dvr)"
  unfolding emptyGuide_def by (intro preserves_intros preserves_perform) simp_all

lemma preserves_reload_guide [preserves_intros]: "preserves orderly (reload_guide W p b dvr w)"
  unfolding reload_guide_def
  by (rule preserves_after_idle) (auto simp: busy_def demand_ok_def armed_def orderly_def split: option.split)

lemma preserves_ensure_guide [preserves_intros]: "preserves orderly (ensure_guide W p b i dev dvr sv)"
  unfolding ensure_guide_def by (intro preserves_intros preserves_orderly_modify) simp_all

lemma preserves_converge [preserves_intros]: "preserves orderly (converge W p b)"
  unfolding converge_def by (intro preserves_intros)

lemma preserves_fail [preserves_intros]: "preserves orderly (fail p w e)"
  unfolding fail_def by (cases e) (auto intro!: preserves_intros preserves_orderly_modify)

lemma preserves_run_provider [preserves_intros]: "preserves orderly (run_provider W p)"
  unfolding run_provider_def by (intro preserves_intros)

lemma preserves_remove_gone [preserves_intros]: "preserves orderly (remove_gone W live)"
  unfolding remove_gone_def remove_unnamed_def remove_ghost_def by (intro preserves_intros preserves_orderly_modify) simp_all

lemma preserves_renewHeld [preserves_intros]: "preserves orderly (renewHeld W)"
  unfolding renewHeld_def renew_one_def by (intro preserves_intros preserves_perform preserves_orderly_modify) simp_all

lemma preserves_unreadable [preserves_intros]: "preserves orderly (unreadable W)"
  unfolding unreadable_def by (intro preserves_intros)

lemma start_pass_log [simp]: "log (start_pass ds vs acts live s) = log s"
  by (simp add: start_pass_def addDevices_def)

text \<open>Nothing has been written when the pass's view is set up, so the load the first look saw is all that counts.\<close>

lemma wp_start_pass:
  assumes "preserves orderly n" and "disciplined (log s)" and "\<not> list_ex starts_load (log s)"
  shows "wp (and_then (modify (start_pass ds vs acts live)) (\<lambda>_. n)) (\<lambda>_. orderly) (\<lambda>_. orderly) s"
  unfolding wp_and_then wp_modify by (rule preservesD [OF assms(1)]) (use assms(2,3) in \<open>simp add: orderly_def\<close>)

lemma wp_Run: "log s = [] \<Longrightarrow> wp (Run W ps) (\<lambda>_. orderly) (\<lambda>_. orderly) s"
proof -
  assume l: "log s = []"
  have u: "orderly t \<Longrightarrow> wp (unreadable W) (\<lambda>_. orderly) (\<lambda>_. orderly) t" for t by (rule preservesD) (rule preserves_unreadable)
  have n: "preserves orderly (and_then (for_each (run_provider W) live) (\<lambda>_. and_then (remove_gone W live) (\<lambda>_. reads (\<lambda>s. ret (outcome_of s)))))"
    for live by (intro preserves_intros)
  show ?thesis
    unfolding Run_def Let_def
    by (simp del: wp_and_then wp_modify add: wp_and_then [of "perform ans c" for ans c] l u orderly_def wp_start_pass [OF n] split: sum.split)
qed

section \<open>A concrete pass\<close>

text \<open>One block whose device PMS lists without a DVR.\<close>

definition demo_device :: Device where
  "demo_device = \<lparr>DKey = ''7'', DUUID = ''device://tv.plex.grabbers.hdhomerun/ABC1'', DURI = ''u'', DStatus = ''alive'', ParentID = 0, ChannelMappings = []\<rparr>"

definition demo_dvr :: DVR where
  "demo_dvr = \<lparr>VKey = ''9'', VUUID = ''dvr'', VLineup = ''lineup'', RefreshedAt = 0, Devices = [demo_device]\<rparr>"

definition demo_world :: world where
  "demo_world = \<lparr>w_devices = (\<lambda>_. Inr [demo_device]), w_dvrs = (\<lambda>_. Inr []), w_activities = (\<lambda>_. Inr []), w_add = (\<lambda>_ _. None),
     w_discover = (\<lambda>_ _. None), w_delete_device = (\<lambda>_ _. None), w_delete_dvr = (\<lambda>_ _. None), w_create = (\<lambda>_ _ _ _. Inr (Some demo_dvr)),
     w_epg_map = (\<lambda>_ _ _. Inr []), w_plex_map = (\<lambda>_ _. Inr []), w_device = (\<lambda>_ _. Inr demo_device), w_save = (\<lambda>_ _ _. None),
     w_reload = (\<lambda>_ _. None), w_acquire = (\<lambda>_ _ _ _. Inr \<lparr>Held = True, Holder = ''me'', Annotations = Map.empty\<rparr>),
     w_annotate = (\<lambda>_ _ _ _ _. None), w_guide_empty = None, w_horizon = None, w_now = (\<lambda>l. int (length l)), w_started = (\<lambda>_. None),
     w_parse_url = (\<lambda>u. Some \<lparr>Scheme = ''http'', Hostname = ''tuner'', Port = [], UPath = ''/hdhr/'' @ u\<rparr>), w_saved_note = (\<lambda>_. None),
     w_registered_note = (\<lambda>_. None), w_marshal = concat, w_range = (\<lambda>ks. ks), w_language = [], w_refresh = (0, 0)\<rparr>"

definition demo_block :: Block where
  "demo_block = \<lparr>Start = ''1'', DeviceID = ''abc1'', FriendlyName = ''tv'', GuidePath = ''/g'', LineupHash = ''h'', GuideHash = ''g'', Lineup = [], URI = ''u''\<rparr>"

definition demo_provider :: Provider where
  "demo_provider = \<lparr>Namespace = ''ns'', PName = ''p'', UID = ''uid'', Ready = True, PEnabled = True, PAddress = ''tuner'', Blocks = [demo_block]\<rparr>"

lemma demo_create: "\<exists>pre post r t. Run demo_world [demo_provider] new_converger = (r, t)
   \<and> log t = pre @ CCreateDVR ''eng'' (DUUID demo_device) (XMLTVLineup ''u/g'' ''tv'') (Inr (Some demo_dvr)) # post"
proof -
  have "case log (snd (Run demo_world [demo_provider] new_converger)) of
      CCreateDVR a b c (Inr (Some d)) # _ \<Rightarrow> a = ''eng'' \<and> b = DUUID demo_device \<and> c = XMLTVLineup ''u/g'' ''tv'' \<and> d = demo_dvr | _ \<Rightarrow> False"
    by code_simp
  then show ?thesis
    by (auto split: list.splits call.splits sum.splits option.splits) (metis append_Nil prod.collapse)
qed

section \<open>Properties\<close>

lemma asked_split: "asked l \<Longrightarrow> \<exists>mid q rest. l = mid @ q # rest \<and> quiet_look q \<and> (\<forall>d \<in> set mid. \<not> guarded d)"
proof (induction l)
  case (Cons c l)
  show ?case
  proof (cases "quiet_look c")
    case True
    then show ?thesis by (intro exI [of _ "[]"]) auto
  next
    case False
    with Cons obtain mid q rest where "l = mid @ q # rest" "quiet_look q" "\<forall>d \<in> set mid. \<not> guarded d" by (auto split: if_splits)
    moreover have "\<not> guarded c" using Cons.prems by (auto split: if_splits)
    ultimately show ?thesis by (intro exI [of _ "c # mid"]) auto
  qed
qed simp

lemma disciplined_split: "disciplined (pre @ c # post) \<Longrightarrow> guarded c \<Longrightarrow> asked post \<and> \<not> list_ex starts_load post"
  by (induction pre) auto

text \<open>
  C7. A pass of the Live TV converger never creates, deletes or reloads a DVR, deletes a device or saves a channel map unless
  PMS has answered, since the last such write, that it loads no guide; and once a write of the pass has started a load, the
  pass makes no further one. This holds whatever PMS, the Leases and the tuner answer, errors included.
\<close>

theorem no_live_tv_write_while_guide_loads:
  assumes "log s = []" and "Run W ps s = (r, t)" and "log t = pre @ c # post" and "guarded c"
  shows "\<not> list_ex starts_load post
    \<and> (\<exists>mid q rest. post = mid @ q # rest \<and> quiet_look q \<and> (\<forall>d \<in> set mid. \<not> guarded d))"
proof -
  have "orderly t" by (rule wp_final [OF wp_Run [OF assms(1)] assms(2)])
  then have "asked post \<and> \<not> list_ex starts_load post"
    using disciplined_split [of pre c post] assms(3,4) by (simp add: orderly_def)
  then show ?thesis using asked_split by blast
qed

theorem no_live_tv_write_while_guide_loads_witness:
  "\<exists>(t :: lt) pre post mid q rest. log t = pre @ CCreateDVR ''eng'' (DUUID demo_device) (XMLTVLineup ''u/g'' ''tv'') (Inr (Some demo_dvr)) # post
     \<and> post = mid @ q # rest \<and> quiet_look q"
proof -
  obtain pre post r t where "Run demo_world [demo_provider] new_converger = (r, t)"
    "log t = pre @ CCreateDVR ''eng'' (DUUID demo_device) (XMLTVLineup ''u/g'' ''tv'') (Inr (Some demo_dvr)) # post"
    using demo_create by blast
  note run = this
  from no_live_tv_write_while_guide_loads [OF _ run guarded_simps(1)]
  obtain mid q rest where "post = mid @ q # rest" "quiet_look q" by (auto simp: new_converger_def)
  with run(2) show ?thesis by blast
qed

text \<open>
  The look that counts is the one \<open>idle\<close> takes. Before the reload of a cloud guide \<open>grabbing\<close> lists the activities once more,
  and a load it shows there is not looked at: the reload is sent right after PMS named a load.
\<close>

definition late_world :: world where
  "late_world = demo_world\<lparr>w_dvrs := (\<lambda>_. Inr [demo_dvr]), w_horizon := Some (\<lambda>_ _. Some None), w_refresh := (0, 24),
     w_activities := (\<lambda>l. case l of CActivities _ # _ \<Rightarrow> Inr [\<lparr>AUUID = [], AType = ActivityGuideLoad, Subtitle = [], TranscodeSession = []\<rparr>] | _ \<Rightarrow> Inr [])\<rparr>"

lemma reload_ignores_later_look:
  "case filter (\<lambda>c. case c of CReload _ _ \<Rightarrow> True | CActivities _ \<Rightarrow> True | _ \<Rightarrow> False)
      (log (snd (Run late_world [demo_provider\<lparr>Blocks := [demo_block\<lparr>Lineup := ''cloud'', LineupHash := []\<rparr>]\<rparr>] new_converger))) of
     CReload k None # CActivities (Inr acts) # _ \<Rightarrow> k = ''9'' \<and> list_ex (\<lambda>a. AType a = ActivityGuideLoad) acts | _ \<Rightarrow> False"
  by code_simp

end
