(* ===== verification/LiveTV_Owner.thy ===== *)
theory LiveTV_Owner
  imports LiveTV_Safety
begin

text \<open>
  What a pass of the Live TV converger may touch: it registers, changes and reloads only blocks of a live provider whose
  Lease it was told it holds, and it deletes only their devices at another address, and what lies under a livetv Service and
  no live block names.
\<close>

section \<open>Whose a call is\<close>

definition listed :: "call list \<Rightarrow> Device \<Rightarrow> bool" where
  "listed l dev \<longleftrightarrow> (\<exists>ds. CDevices (Inr ds) \<in> set l \<and> dev \<in> set ds)"

definition known_dvr :: "call list \<Rightarrow> DVR \<Rightarrow> bool" where
  "known_dvr l d \<longleftrightarrow> (\<exists>vs. CDVRs (Inr vs) \<in> set l \<and> d \<in> set vs)"

definition holds_block :: "Provider list \<Rightarrow> call list \<Rightarrow> Provider \<Rightarrow> Block \<Rightarrow> bool" where
  "holds_block live l p b \<longleftrightarrow> p \<in> set live \<and> provider_live p \<and> b \<in> set (Blocks p) \<and> DeviceID b \<noteq> []
     \<and> (\<exists>labels lease. CAcquire (Namespace p) (LeaseName (ToUpper (DeviceID b))) labels (Inr lease) \<in> set l \<and> Held lease)"

definition holds_device :: "Provider list \<Rightarrow> call list \<Rightarrow> Device \<Rightarrow> bool" where
  "holds_device live l dev \<longleftrightarrow> listed l dev \<and> (\<exists>p b. holds_block live l p b \<and> deviceID dev = ToUpper (DeviceID b))"

text \<open>The address list is the one the pass began with.\<close>

definition abandoned_device :: "parse_url \<Rightarrow> string list \<Rightarrow> Provider list \<Rightarrow> call list \<Rightarrow> Device \<Rightarrow> bool" where
  "abandoned_device parse adr live l dev \<longleftrightarrow> listed l dev \<and> \<not> named live (deviceID dev) \<and> underService parse adr (DURI dev)"

definition over :: "DVR \<Rightarrow> Device \<Rightarrow> bool" where
  "over d dev \<longleftrightarrow> (\<exists>v \<in> set (Devices d). DUUID v = DUUID dev)"

definition deletable :: "parse_url \<Rightarrow> string list \<Rightarrow> Provider list \<Rightarrow> call list \<Rightarrow> Device \<Rightarrow> bool" where
  "deletable parse adr live l dev \<longleftrightarrow> holds_device live l dev \<or> abandoned_device parse adr live l dev"

definition deletable_dvr :: "parse_url \<Rightarrow> string list \<Rightarrow> Provider list \<Rightarrow> call list \<Rightarrow> DVR \<Rightarrow> bool" where
  "deletable_dvr parse adr live l d \<longleftrightarrow> known_dvr l d
     \<and> ((\<exists>dev. over d dev \<and> deletable parse adr live l dev) \<or> underService parse adr (lineupGuide (VLineup d)))"

definition may_touch :: "parse_url \<Rightarrow> string list \<Rightarrow> Provider list \<Rightarrow> call list \<Rightarrow> call \<Rightarrow> bool" where
  "may_touch parse adr live l c = (case c of
       CAddDevice u _ \<Rightarrow> \<exists>p b. holds_block live l p b \<and> URI b = u
     | CDiscover u _ \<Rightarrow> \<exists>p b. holds_block live l p b \<and> URI b = u
     | CCreateDVR _ uuid _ _ \<Rightarrow> \<exists>dev. holds_device live l dev \<and> DUUID dev = uuid
     | CSaveMap k _ _ \<Rightarrow> \<exists>dev. holds_device live l dev \<and> DKey dev = k
     | CReload k _ \<Rightarrow> \<exists>dev d. holds_device live l dev \<and> VKey d = k
         \<and> (known_dvr l d \<and> over d dev \<or> (\<exists>lang lu. CCreateDVR lang (DUUID dev) lu (Inr (Some d)) \<in> set l))
     | CDeleteDevice k _ \<Rightarrow> \<exists>dev. deletable parse adr live l dev \<and> DKey dev = k
     | CDeleteDVR k _ \<Rightarrow> \<exists>d. deletable_dvr parse adr live l d \<and> VKey d = k
     | _ \<Rightarrow> True)"

fun all_touch :: "parse_url \<Rightarrow> string list \<Rightarrow> Provider list \<Rightarrow> call list \<Rightarrow> bool" where
  "all_touch parse adr live [] = True"
| "all_touch parse adr live (c # l) = (all_touch parse adr live l \<and> may_touch parse adr live l c)"

section \<open>What a pass knows\<close>

text \<open>The devices and DVRs of the pass's view were listed by PMS, and the log has only grown since it was \<open>l\<close>.\<close>

definition view_ok :: "world \<Rightarrow> string list \<Rightarrow> Provider list \<Rightarrow> lt \<Rightarrow> bool" where
  "view_ok W adr live s \<longleftrightarrow> all_touch (w_parse_url W) adr live (log s) \<and> c_addresses s = adr
     \<and> (\<forall>(i, dev) \<in> set (ps_devices s). deviceID dev = i \<and> i \<noteq> [] \<and> listed (log s) dev)
     \<and> (\<forall>d \<in> set (ps_dvrs s). known_dvr (log s) d)"

definition since :: "world \<Rightarrow> string list \<Rightarrow> Provider list \<Rightarrow> call list \<Rightarrow> lt \<Rightarrow> bool" where
  "since W adr live l s \<longleftrightarrow> view_ok W adr live s \<and> suffix l (log s)"

lemma later_set: "suffix l l' \<Longrightarrow> c \<in> set l \<Longrightarrow> c \<in> set l'"
  using set_mono_suffix by blast

lemma later:
  assumes "suffix l l'"
  shows "listed l dev \<Longrightarrow> listed l' dev" "known_dvr l d \<Longrightarrow> known_dvr l' d" "holds_block live l p b \<Longrightarrow> holds_block live l' p b"
    "holds_device live l dev \<Longrightarrow> holds_device live l' dev" "deletable parse adr live l dev \<Longrightarrow> deletable parse adr live l' dev"
    "deletable_dvr parse adr live l d \<Longrightarrow> deletable_dvr parse adr live l' d"
proof -
  show a: "listed l dev \<Longrightarrow> listed l' dev" for dev
    using later_set [OF assms] by (auto simp: listed_def)
  show v: "known_dvr l d \<Longrightarrow> known_dvr l' d"
    using later_set [OF assms] by (auto simp: known_dvr_def)
  show b: "holds_block live l p b \<Longrightarrow> holds_block live l' p b" for p b
    using later_set [OF assms] by (fastforce simp: holds_block_def)
  show c: "holds_device live l dev \<Longrightarrow> holds_device live l' dev" for dev
    unfolding holds_device_def using a b by blast
  show e: "deletable parse adr live l dev \<Longrightarrow> deletable parse adr live l' dev" for dev
    using a c by (auto simp: deletable_def abandoned_device_def)
  show "deletable_dvr parse adr live l d \<Longrightarrow> deletable_dvr parse adr live l' d"
    using v e by (auto simp: deletable_dvr_def)
qed

lemma view_ok_call:
  assumes "view_ok W adr live s" and "may_touch (w_parse_url W) adr live (log s) c"
  shows "view_ok W adr live (s\<lparr>log := c # log s\<rparr>)"
proof -
  have "listed (log s) d \<Longrightarrow> listed (c # log s) d" "known_dvr (log s) v \<Longrightarrow> known_dvr (c # log s) v" for d v
    by (auto simp: listed_def known_dvr_def)
  with assms show ?thesis by (auto simp: view_ok_def)
qed

lemma owner_perform:
  assumes "\<And>m r. suffix l m \<Longrightarrow> may_touch (w_parse_url W) adr live m (c r)"
  shows "preserves (since W adr live l) (perform ans c)"
  by (rule preservesI) (use assms in \<open>simp add: since_def view_ok_call suffix_ConsI\<close>)

lemma owner_modify:
  assumes "\<And>s. log (f s) = log s" "\<And>s. c_addresses (f s) = c_addresses s" "\<And>s. set (ps_devices (f s)) \<subseteq> set (ps_devices s)"
    "\<And>s. set (ps_dvrs (f s)) \<subseteq> set (ps_dvrs s)"
  shows "preserves (since W adr live l) (modify f)"
proof (rule preserves_modify)
  fix s
  assume "since W adr live l s"
  with assms [of s] show "since W adr live l (f s)" unfolding since_def view_ok_def by fastforce
qed

text \<open>A step that looks at the state may use what it finds there, and a step after a call what the call found out.\<close>

lemma owner_reads:
  assumes "\<And>s. view_ok W adr live s \<Longrightarrow> suffix l (log s) \<Longrightarrow> preserves (since W adr live (log s)) (f s)"
  shows "preserves (since W adr live l) (reads f)"
proof (rule preservesI, unfold wp_reads)
  fix s
  assume s: "since W adr live l s"
  then have "preserves (since W adr live (log s)) (f s)" using assms by (simp add: since_def)
  moreover have "since W adr live (log s) s" using s by (simp add: since_def)
  ultimately have "wp (f s) (\<lambda>_. since W adr live (log s)) (\<lambda>_. since W adr live (log s)) s" by (rule preservesD)
  then show "wp (f s) (\<lambda>_. since W adr live l) (\<lambda>_. since W adr live l) s"
    by (rule wp_mono) (use s in \<open>auto simp: since_def intro: suffix_order.trans\<close>)
qed

definition finds :: "world \<Rightarrow> string list \<Rightarrow> Provider list \<Rightarrow> call list \<Rightarrow> 'a pass \<Rightarrow> ('a \<Rightarrow> call list \<Rightarrow> bool) \<Rightarrow> bool" where
  "finds W adr live l m F \<longleftrightarrow> (\<forall>s. since W adr live l s \<longrightarrow>
     wp m (\<lambda>x t. since W adr live l t \<and> F x (log t)) (\<lambda>_. since W adr live l) s)"

lemma owner_then:
  assumes "finds W adr live l m F" and "\<And>x k. suffix l k \<Longrightarrow> F x k \<Longrightarrow> preserves (since W adr live k) (f x)"
  shows "preserves (since W adr live l) (and_then m f)"
proof (rule preservesI, unfold wp_and_then)
  fix s
  assume "since W adr live l s"
  with assms(1) have "wp m (\<lambda>x t. since W adr live l t \<and> F x (log t)) (\<lambda>_. since W adr live l) s" by (simp add: finds_def)
  then show "wp m (\<lambda>x. wp (f x) (\<lambda>_. since W adr live l) (\<lambda>_. since W adr live l)) (\<lambda>_. since W adr live l) s"
  proof (rule wp_mono)
    fix x t
    assume t: "since W adr live l t \<and> F x (log t)"
    then have p: "preserves (since W adr live (log t)) (f x)" using assms(2) by (simp add: since_def)
    have "since W adr live (log t) t" using t by (simp add: since_def)
    with p have "wp (f x) (\<lambda>_. since W adr live (log t)) (\<lambda>_. since W adr live (log t)) t" by (rule preservesD)
    then show "wp (f x) (\<lambda>_. since W adr live l) (\<lambda>_. since W adr live l) t"
      by (rule wp_mono) (use t in \<open>auto simp: since_def intro: suffix_order.trans\<close>)
  qed simp
qed

lemma finds_then:
  assumes "finds W adr live l m F" and "\<And>x k. suffix l k \<Longrightarrow> F x k \<Longrightarrow> finds W adr live k (f x) G"
  shows "finds W adr live l (and_then m f) G"
  unfolding finds_def wp_and_then
proof (intro allI impI)
  fix s
  assume "since W adr live l s"
  with assms(1) have "wp m (\<lambda>x t. since W adr live l t \<and> F x (log t)) (\<lambda>_. since W adr live l) s" by (simp add: finds_def)
  then show "wp m (\<lambda>x. wp (f x) (\<lambda>x t. since W adr live l t \<and> G x (log t)) (\<lambda>_. since W adr live l)) (\<lambda>_. since W adr live l) s"
  proof (rule wp_mono)
    fix x t
    assume t: "since W adr live l t \<and> F x (log t)"
    then have p: "finds W adr live (log t) (f x) G" using assms(2) by (simp add: since_def)
    have "since W adr live (log t) t" using t by (simp add: since_def)
    with p have "wp (f x) (\<lambda>x u. since W adr live (log t) u \<and> G x (log u)) (\<lambda>_. since W adr live (log t)) t" by (simp add: finds_def)
    then show "wp (f x) (\<lambda>x t. since W adr live l t \<and> G x (log t)) (\<lambda>_. since W adr live l) t"
      by (rule wp_mono) (use t in \<open>auto simp: since_def intro: suffix_order.trans\<close>)
  qed simp
qed

lemma finds_keeps: "preserves (since W adr live l) m \<Longrightarrow> finds W adr live l m (\<lambda>_ _. True)"
  by (simp add: finds_def preserves_def)

lemma finds_ret: "(\<And>k. suffix l k \<Longrightarrow> F x k) \<Longrightarrow> finds W adr live l (ret x) F"
  by (simp add: finds_def since_def)

lemma finds_throw: "finds W adr live l (throw e) F"
  by (simp add: finds_def)

lemma finds_reads:
  assumes "\<And>s. view_ok W adr live s \<Longrightarrow> suffix l (log s) \<Longrightarrow> finds W adr live (log s) (f s) F"
  shows "finds W adr live l (reads f) F"
  unfolding finds_def wp_reads
proof (intro allI impI)
  fix s
  assume s: "since W adr live l s"
  then have "finds W adr live (log s) (f s) F" using assms by (simp add: since_def)
  moreover have "since W adr live (log s) s" using s by (simp add: since_def)
  ultimately have "wp (f s) (\<lambda>x t. since W adr live (log s) t \<and> F x (log t)) (\<lambda>_. since W adr live (log s)) s" by (simp add: finds_def)
  then show "wp (f s) (\<lambda>x t. since W adr live l t \<and> F x (log t)) (\<lambda>_. since W adr live l) s"
    by (rule wp_mono) (use s in \<open>auto simp: since_def intro: suffix_order.trans\<close>)
qed

lemma finds_option:
  "(r = None \<Longrightarrow> finds W adr live l m F) \<Longrightarrow> (\<And>x. r = Some x \<Longrightarrow> finds W adr live l (f x) F)
   \<Longrightarrow> finds W adr live l (case r of None \<Rightarrow> m | Some x \<Rightarrow> f x) F"
  by (simp split: option.split)

lemma finds_if: "(b \<Longrightarrow> finds W adr live l m F) \<Longrightarrow> (\<not> b \<Longrightarrow> finds W adr live l n F) \<Longrightarrow> finds W adr live l (if b then m else n) F"
  by simp

lemma finds_call:
  assumes "\<And>m r. suffix l m \<Longrightarrow> may_touch (w_parse_url W) adr live m (c r)" and "\<And>m r. c r \<in> set m \<Longrightarrow> F r m"
  shows "finds W adr live l (perform ans c) F"
  unfolding finds_def wp_perform by (auto simp: since_def view_ok_call suffix_ConsI assms)

lemma finds_demand: "(\<And>x k. r = Inr x \<Longrightarrow> suffix l k \<Longrightarrow> F x k) \<Longrightarrow> finds W adr live l (demand w r) F"
  by (auto simp: demand_def finds_def since_def split: sum.split)

lemma may_touch_free [simp]:
  "may_touch P A live l (CDevices r2)" "may_touch P A live l (CDVRs r3)" "may_touch P A live l (CActivities r4)"
  "may_touch P A live l (CEPGMap a b r5)" "may_touch P A live l (CPlexMap a r5)" "may_touch P A live l (CDevice a r6)"
  "may_touch P A live l (CAcquire a b l1 r7)" "may_touch P A live l (CAnnotate a b d e r8)" "may_touch P A live l (CGuideEmpty a r9)"
  "may_touch P A live l (CHorizon a ra)" "may_touch P A live l (CNow t)" "may_touch P A live l (CStarted rb)"
  by (simp_all add: may_touch_def)

section \<open>The steps\<close>

named_theorems owner_intros \<open>what every step of a pass keeps\<close>

lemma owner_small [owner_intros]:
  "preserves (since W adr live l) (record_event p r m w)" "preserves (since W adr live l) (forget_told k)"
  "preserves (since W adr live l) (changed p)" "preserves (since W adr live l) busy" "preserves (since W adr live l) (set_saved i v)"
  "preserves (since W adr live l) (modify (dropDVR k))"
  by (auto simp: record_event_def forget_told_def changed_def busy_def set_saved_def dropDVR_def intro!: owner_modify)

lemma owner_recordOnce [owner_intros]: "preserves (since W adr live l) (recordOnce k p r m w)"
  unfolding recordOnce_def by (intro preserves_intros owner_intros owner_modify) simp_all

lemma owner_waiting [owner_intros]: "preserves (since W adr live l) (waiting p b w)"
  unfolding waiting_def by (intro owner_intros)

lemma owner_wait [owner_intros]: "preserves (since W adr live l) m \<Longrightarrow> preserves (since W adr live l) (wait p b w m)"
  unfolding wait_def by (intro preserves_intros owner_intros)

lemma owner_asks [owner_intros]:
  "preserves (since W adr live l) (now W)" "preserves (since W adr live l) (idle W)" "preserves (since W adr live l) (grabbing W)"
  "preserves (since W adr live l) (annotate W p i k v)" "preserves (since W adr live l) (perform ans (CPlexMap u))"
  "preserves (since W adr live l) (perform ans2 (CEPGMap u v))"
  unfolding now_def idle_def grabbing_def annotate_def by (intro preserves_intros owner_perform owner_modify; simp)+

lemma owner_notes [owner_intros]:
  "preserves (since W adr live l) (note_saved W p i d v)" "preserves (since W adr live l) (noteRegistered W p i n)"
  unfolding note_saved_def noteRegistered_def by (intro preserves_intros owner_intros owner_modify; simp)+

lemma delete_subset: "set (AList.delete k al) \<subseteq> set al"
  by (simp add: AList.delete_eq)

lemma owner_deleteDVR:
  assumes "deletable_dvr (w_parse_url W) adr live l d"
  shows "preserves (since W adr live l) (deleteDVR W (VKey d))"
  unfolding deleteDVR_def
proof (intro preserves_intros owner_intros owner_perform)
  fix m r
  assume "suffix l m"
  then have "deletable_dvr (w_parse_url W) adr live m d" using assms by (rule later(6))
  then show "may_touch (w_parse_url W) adr live m (CDeleteDVR (VKey d) r)" by (auto simp: may_touch_def)
qed

lemma owner_remove_dvr:
  assumes "deletable_dvr (w_parse_url W) adr live l d"
  shows "preserves (since W adr live l) (remove_dvr W p d)"
  unfolding remove_dvr_def by (intro preserves_intros owner_intros owner_deleteDVR assms)

lemma dvrs_known:
  assumes "view_ok W adr live s" and "d \<in> set (dvrsOf (DUUID dev) (ps_dvrs s))"
  shows "known_dvr (log s) d \<and> over d dev"
  using dvrsOf_in [OF assms(2)] assms(1) by (auto simp: view_ok_def over_def)

lemma owner_remove:
  assumes "deletable (w_parse_url W) adr live l dev"
  shows "preserves (since W adr live l) (remove W p dev)"
  unfolding remove_def
proof (rule owner_reads)
  fix s
  assume s: "view_ok W adr live s" "suffix l (log s)"
  have dev: "deletable (w_parse_url W) adr live (log s) dev" using s(2) assms by (rule later(5))
  have dvr: "deletable_dvr (w_parse_url W) adr live (log s) d" if "d \<in> set (dvrsOf (DUUID dev) (ps_dvrs s))" for d
    using dvrs_known [OF s(1) that] dev by (auto simp: deletable_dvr_def)
  have del: "may_touch (w_parse_url W) adr live m (CDeleteDevice (DKey dev) r)" if "suffix (log s) m" for m r
    using later(5) [OF that dev] by (auto simp: may_touch_def)
  show "preserves (since W adr live (log s)) (and_then (for_each (remove_dvr W p) (dvrsOf (DUUID dev) (ps_dvrs s))) (\<lambda>_.
     and_then (idle W) (\<lambda>_.
     and_then (perform (\<lambda>l. w_delete_device W l (DKey dev)) (CDeleteDevice (DKey dev))) (\<lambda>r.
     and_then (case r of None \<Rightarrow> ret () | Some e \<Rightarrow> if e = ErrNotFound then ret () else throw (Failed [''delete device'', DKey dev])) (\<lambda>_.
       modify (\<lambda>s. s\<lparr>ps_devices := AList.delete (deviceID dev) (ps_devices s), c_saved := (c_saved s)(deviceID dev := None),
         c_held := AList.delete (deviceID dev) (c_held s), c_registered := (c_registered s)(deviceID dev := None)\<rparr>))))))"
    by (intro preserves_intros owner_remove_dvr owner_intros owner_perform owner_modify dvr del)
      (auto dest: subsetD [OF delete_subset])
qed

section \<open>One block\<close>

definition dvr_of :: "call list \<Rightarrow> Device \<Rightarrow> DVR \<Rightarrow> bool" where
  "dvr_of l dev d \<longleftrightarrow> known_dvr l d \<and> over d dev \<or> (\<exists>lang lu. CCreateDVR lang (DUUID dev) lu (Inr (Some d)) \<in> set l)"

lemma dvr_of_later: "suffix l l' \<Longrightarrow> dvr_of l dev d \<Longrightarrow> dvr_of l' dev d"
  unfolding dvr_of_def by (auto dest: later(2) later_set)

lemma may_touch_held:
  "holds_block live l p b \<Longrightarrow> may_touch P A live l (CAddDevice (URI b) r)"
  "holds_block live l p b \<Longrightarrow> may_touch P A live l (CDiscover (URI b) r)"
  "holds_device live l dev \<Longrightarrow> may_touch P A live l (CCreateDVR lang (DUUID dev) lu r1)"
  "holds_device live l dev \<Longrightarrow> may_touch P A live l (CSaveMap (DKey dev) q r)"
  "holds_device live l dev \<Longrightarrow> dvr_of l dev d \<Longrightarrow> may_touch P A live l (CReload (VKey d) r)"
  by (auto simp: may_touch_def dvr_of_def)

lemma owner_acquire [owner_intros]: "preserves (since W adr live l) (acquire W p b)"
  unfolding acquire_def by (intro preserves_intros owner_intros owner_perform owner_modify; simp)

lemma finds_and:
  assumes "preserves (since W adr live l) m" and "\<And>s. since W adr live l s \<Longrightarrow> wp m (\<lambda>x t. F x (log t)) (\<lambda>_ _. True) s"
  shows "finds W adr live l m F"
  unfolding finds_def using wp_and [OF preservesD [OF assms(1)] assms(2)] by simp

lemma acquire_holds:
  assumes "p \<in> set live" "provider_live p" "b \<in> set (Blocks p)" "DeviceID b \<noteq> []"
  shows "finds W adr live l (acquire W p b) (\<lambda>lease k. Held lease \<longrightarrow> holds_block live k p b)"
proof (rule finds_and [OF owner_acquire])
  fix s
  show "wp (acquire W p b) (\<lambda>lease t. Held lease \<longrightarrow> holds_block live (log t) p b) (\<lambda>_ _. True) s"
    using assms by (auto simp: acquire_def Let_def demand_def recordOnce_def record_event_def forget_told_def holds_block_def
      split: sum.split option.split)
qed

lemma owner_adopt [owner_intros]:
  "preserves (since W adr live l) (adopt_registered W i lease)" "preserves (since W adr live l) (adopt_saved W i lease dvr)"
  unfolding adopt_registered_def adopt_saved_def
  by (intro preserves_intros owner_intros owner_modify; simp split: option.split)+

lemma view_device: "view_ok W adr live s \<Longrightarrow> map_of (ps_devices s) i = Some dev \<Longrightarrow> listed (log s) dev \<and> deviceID dev = i"
  by (auto simp: view_ok_def dest!: map_of_SomeD)

lemma held_view:
  assumes "view_ok W adr live s" "map_of (ps_devices s) (ToUpper (DeviceID b)) = Some dev" "holds_block live (log s) p b"
  shows "holds_device live (log s) dev"
  unfolding holds_device_def using view_device [OF assms(1,2)] assms(3) by blast

lemma replace_stale_finds:
  assumes h: "holds_block live l p b"
  shows "finds W adr live l (replace_stale W p b (ToUpper (DeviceID b)))
    (\<lambda>found k. \<forall>dev. found = Some dev \<longrightarrow> holds_device live k dev)"
  unfolding replace_stale_def
proof (rule finds_reads, rule finds_option, rule finds_ret)
  fix s dev
  assume s: "view_ok W adr live s" "suffix l (log s)" and dev: "map_of (ps_devices s) (ToUpper (DeviceID b)) = Some dev"
  have hd: "holds_device live (log s) dev" using s(1) dev later(3) [OF s(2) h] by (rule held_view)
  then have del: "deletable (w_parse_url W) adr live (log s) dev" by (simp add: deletable_def)
  show "finds W adr live (log s) (if atURI W s (ToUpper (DeviceID b)) (DURI dev) (URI b) then ret (Some dev)
         else and_then (wait p b (''replace device '' @ DUUID dev @ '' at '' @ DURI dev) (remove W p dev)) (\<lambda>_.
           and_then (modify (\<lambda>t. t\<lparr>c_held := (case map_of (c_held s) (ToUpper (DeviceID b)) of Some h \<Rightarrow> AList.update (ToUpper (DeviceID b)) h (c_held t) | None \<Rightarrow> c_held t),
                                   c_registered := (c_registered t)(ToUpper (DeviceID b) := None)\<rparr>)) (\<lambda>_.
           and_then (note_saved W p (ToUpper (DeviceID b)) [] ([], [])) (\<lambda>_.
           and_then (record_event p ''DVRDeviceReplaced'' [Start b, ToUpper (DeviceID b), DURI dev, URI b] False) (\<lambda>_. ret None)))))
     (\<lambda>found k. \<forall>dev. found = Some dev \<longrightarrow> holds_device live k dev)"
    by (intro finds_if finds_ret finds_then [OF finds_keeps] owner_wait owner_remove del owner_intros owner_modify)
      (use hd in \<open>auto dest: later(4)\<close>)
qed simp

lemma owner_addDevices: "preserves (since W adr live l) (modify (addDevices ds))" if "CDevices (Inr ds) \<in> set l" for ds
proof (rule preserves_modify)
  fix s
  assume s: "since W adr live l s"
  then have ds: "CDevices (Inr ds) \<in> set (log s)" using that later_set by (auto simp: since_def)
  have upd: "\<forall>(i, dev) \<in> set (fold (\<lambda>d m. if deviceID d \<noteq> [] then AList.update (deviceID d) d m else m) xs m).
     deviceID dev = i \<and> i \<noteq> [] \<and> listed (log s) dev"
    if "set xs \<subseteq> set ds" "\<forall>(i, dev) \<in> set m. deviceID dev = i \<and> i \<noteq> [] \<and> listed (log s) dev" for xs m
    using that
  proof (induction xs arbitrary: m)
    case (Cons x xs)
    have x: "listed (log s) x" using ds Cons.prems(1) by (auto simp: listed_def)
    have up: "set (AList.update k v al) \<subseteq> insert (k, v) (set al)" for k v and al :: "(string \<times> Device) list" by (induction al) auto
    have "\<forall>(i, dev) \<in> set (if deviceID x \<noteq> [] then AList.update (deviceID x) x m else m). deviceID dev = i \<and> i \<noteq> [] \<and> listed (log s) dev"
    proof (cases "deviceID x = []")
      case False
      have "\<forall>(i, dev) \<in> insert (deviceID x, x) (set m). deviceID dev = i \<and> i \<noteq> [] \<and> listed (log s) dev"
        using x Cons.prems(2) False by simp
      then have "\<forall>(i, dev) \<in> set (AList.update (deviceID x) x m). deviceID dev = i \<and> i \<noteq> [] \<and> listed (log s) dev"
        using subsetD [OF up [of "deviceID x" x m]] by blast
      with False show ?thesis by simp
    qed (use Cons.prems(2) in simp)
    with Cons show ?case by simp
  qed simp
  show "since W adr live l (addDevices ds s)"
    using s upd [OF subset_refl, of "ps_devices s"] by (simp add: since_def view_ok_def addDevices_def)
qed

lemma add_device_finds:
  assumes h: "holds_block live l p b"
  shows "finds W adr live l (add_device W p b (ToUpper (DeviceID b))) (\<lambda>dev k. holds_device live k dev)"
  unfolding add_device_def
  apply (rule finds_then [OF finds_keeps])
   apply (rule owner_perform, rule may_touch_held(1), erule later(3) [OF _ h])
  apply (rule finds_then [OF finds_keeps], intro preserves_intros)
  apply (rule finds_then [OF finds_call [where F = "\<lambda>r m. CDevices r \<in> set m"]], simp, assumption)
  apply (rule finds_then [OF finds_demand [where F = "\<lambda>ds m. CDevices (Inr ds) \<in> set m"]], blast intro: later_set)
  apply (rule finds_then [OF finds_keeps], erule owner_addDevices)
  apply (rule finds_reads, rule finds_option, rule finds_throw)
  apply (rule finds_then [OF finds_keeps], rule owner_small)
  apply (rule finds_then [OF finds_keeps], rule owner_small)
  apply (rule finds_then [OF finds_keeps], intro owner_intros preserves_intros)
  apply (rule finds_then [OF finds_keeps], rule owner_notes)
  apply (rule finds_ret)
  subgoal premises facts for x k xa ka xb kb xc kc xd kd s dev xe ke xf kf xg kg xh kh ki
  proof -
    have "suffix l (log s)" using facts by (meson suffix_order.trans)
    then have "holds_block live (log s) p b" using h by (rule later(3))
    then have "holds_device live (log s) dev" using facts by (meson held_view)
    moreover have "suffix (log s) ki" using facts by (meson suffix_order.trans)
    ultimately show ?thesis by (rule later(4) [rotated])
  qed
  done

lemma owner_revive:
  assumes "holds_block live l p b"
  shows "preserves (since W adr live l) (revive W p b i dev)"
  unfolding revive_def
  by (intro preserves_intros owner_intros owner_perform owner_modify) (simp_all add: may_touch_held(2) [OF later(3) [OF _ assms]])

lemma owner_drop_duplicate:
  assumes "deletable_dvr (w_parse_url W) adr live l d"
  shows "preserves (since W adr live l) (drop_duplicate W p b d)"
  unfolding drop_duplicate_def by (intro preserves_intros owner_intros owner_deleteDVR assms)

lemma owner_staleList [owner_intros]: "preserves (since W adr live l) (staleList W p b dev)"
  unfolding staleList_def Let_def by (intro preserves_intros owner_intros owner_perform owner_modify) simp_all

lemma finds_conv: "finds W adr live l m F \<Longrightarrow> (\<And>x k. suffix l k \<Longrightarrow> F x k \<Longrightarrow> G x k) \<Longrightarrow> finds W adr live l m G"
  unfolding finds_def by (fastforce elim: wp_mono simp: since_def)

lemma owner_set_dvrs: "CDVRs (Inr ds) \<in> set l \<Longrightarrow> preserves (since W adr live l) (modify (\<lambda>s. s\<lparr>ps_dvrs := ds\<rparr>))"
  by (rule preserves_modify) (auto simp: since_def view_ok_def known_dvr_def dest: later_set)

lemma create_dvr_finds:
  assumes h: "holds_device live l dev"
  shows "finds W adr live l (create_dvr W p b i dev) (\<lambda>d k. dvr_of k dev d)"
proof -
  define lang where "lang = (if w_language W = [] then ''eng'' else w_language W)"
  define lineup where "lineup = (if Lineup b = [] then XMLTVLineup (URI b @ GuidePath b) (FriendlyName b) else Lineup b)"
  have relist: "finds W adr live k (and_then (perform (w_dvrs W) CDVRs) (\<lambda>r.
             and_then (demand ''list DVRs'' r) (\<lambda>ds.
             and_then (modify (\<lambda>s. s\<lparr>ps_dvrs := ds\<rparr>)) (\<lambda>_.
               case dvrsOf (DUUID dev) ds of
                 [] \<Rightarrow> throw (Failed [''PMS lists no DVR on the device after creating one''])
               | d # _ \<Rightarrow> ret d)))) (\<lambda>d k. dvr_of k dev d)" for k
    apply (rule finds_then [OF finds_call [where F = "\<lambda>r m. CDVRs r \<in> set m"]], simp, assumption)
    apply (rule finds_then [OF finds_demand [where F = "\<lambda>ds m. CDVRs (Inr ds) \<in> set m"]], blast intro: later_set)
    apply (rule finds_then [OF finds_keeps], erule owner_set_dvrs)
    subgoal premises facts for r k1 ds k2 u k3
    proof (cases "dvrsOf (DUUID dev) ds")
      case (Cons d ds')
      then have "d \<in> set ds" "over d dev" using dvrsOf_in [of d "DUUID dev" ds] by (auto simp: over_def)
      then have "dvr_of k2 dev d" using facts by (auto simp: dvr_of_def known_dvr_def)
      then have "dvr_of k3 dev d" using facts by (auto dest: dvr_of_later)
      then show ?thesis by (simp add: Cons finds_ret dvr_of_later)
    qed (simp add: finds_throw)
    done
  show ?thesis
    unfolding create_dvr_def Let_def lang_def [symmetric] lineup_def [symmetric]
    apply (rule finds_then [OF finds_call [where F = "\<lambda>r m. CCreateDVR lang (DUUID dev) lineup r \<in> set m"]])
      apply (rule may_touch_held(3), erule later(4) [OF _ h], assumption)
    apply (rule finds_then [OF finds_demand [where F = "\<lambda>c m. CCreateDVR lang (DUUID dev) lineup (Inr c) \<in> set m"]], blast intro: later_set)
    apply (rule finds_then [OF finds_keeps], rule owner_small)
    apply (rule finds_then [OF finds_keeps], rule owner_small)
    subgoal premises facts for r k1 c k2 u k3 v k4
    proof (rule finds_then [where F = "\<lambda>d k. dvr_of k dev d"])
      have "CCreateDVR lang (DUUID dev) lineup (Inr c) \<in> set k4" using facts by (meson later_set)
      then show "finds W adr live k4 (if case c of None \<Rightarrow> True | Some d \<Rightarrow> VKey d = [] then
             and_then (perform (w_dvrs W) CDVRs) (\<lambda>r.
             and_then (demand ''list DVRs'' r) (\<lambda>ds.
             and_then (modify (\<lambda>s. s\<lparr>ps_dvrs := ds\<rparr>)) (\<lambda>_.
               case dvrsOf (DUUID dev) ds of
                 [] \<Rightarrow> throw (Failed [''PMS lists no DVR on the device after creating one''])
               | d # _ \<Rightarrow> ret d)))
           else ret (the c)) (\<lambda>d k. dvr_of k dev d)"
        by (intro finds_if relist finds_ret) (auto simp: dvr_of_def dest: later_set split: option.splits)
    next
      fix d k
      assume "dvr_of k dev d"
      then show "finds W adr live k (and_then (set_saved i None) (\<lambda>_.
         and_then (record_event p ''DVRProvisioned'' [''DVR'', Start b, VKey d] False) (\<lambda>_. ret d))) (\<lambda>d k. dvr_of k dev d)"
        by (intro finds_then [OF finds_keeps] owner_small finds_ret) (auto dest: dvr_of_later)
    qed
    done
qed

lemma ensure_dvr_finds:
  assumes h: "holds_device live l dev" and d: "\<And>d. d \<in> set dvrs \<Longrightarrow> dvr_of l dev d"
  shows "finds W adr live l (ensure_dvr W p b i dev dvrs) (\<lambda>d k. dvr_of k dev d)"
proof (cases dvrs)
  case (Cons v vs)
  have "preserves (since W adr live l) (modify (\<lambda>s. s\<lparr>c_stale := (c_stale s)(i := None)\<rparr>))" by (rule owner_modify) simp_all
  then show ?thesis unfolding ensure_dvr_def Cons list.case
    by (intro finds_then [OF finds_keeps] finds_ret) (use d in \<open>auto simp: Cons dest: dvr_of_later\<close>)
next
  case Nil
  show ?thesis unfolding ensure_dvr_def Nil list.case
    apply (rule finds_then [OF finds_keeps], intro preserves_intros owner_intros)
    apply (rule finds_then [OF finds_keeps], intro owner_intros)
    apply (rule create_dvr_finds, rule later(4), assumption, rule later(4), assumption, rule h)
    done
qed

lemma owner_save:
  assumes "holds_device live l dev"
  shows "preserves (since W adr live l) (SaveChannelMap W (DKey dev) m)"
  unfolding SaveChannelMap_def
  by (intro preserves_intros owner_perform) (simp_all add: may_touch_held(4) [OF later(4) [OF _ assms]])

lemma owner_save_map:
  assumes "holds_device live l dev"
  shows "preserves (since W adr live l) (save_map W p b i dev dvr)"
  unfolding save_map_def by (intro preserves_intros owner_intros owner_save assms)

lemma owner_reload:
  assumes "holds_device live l dev" "dvr_of l dev dvr"
  shows "preserves (since W adr live l) (perform ans (CReload (VKey dvr)))"
proof (rule owner_perform)
  fix m r
  assume "suffix l m"
  then show "may_touch (w_parse_url W) adr live m (CReload (VKey dvr) r)"
    using later(4) [OF _ assms(1)] dvr_of_later [OF _ assms(2)] by (intro may_touch_held(5))
qed

lemma owner_not_within [owner_intros]: "(\<And>x. preserves (since W adr live l) (k x)) \<Longrightarrow> preserves (since W adr live l) (not_within W u d k)"
  unfolding not_within_def by (intro preserves_intros owner_intros)

lemma owner_guide:
  assumes "holds_device live l dev" "dvr_of l dev dvr"
  shows "preserves (since W adr live l) (refreshCloudGuide W p b i dvr)" "preserves (since W adr live l) (restoreMap W p b i dev dvr)"
    "preserves (since W adr live l) (ensure_guide W p b i dev dvr sv)"
proof -
  show a: "preserves (since W adr live l) (refreshCloudGuide W p b i dvr)"
    unfolding refreshCloudGuide_def
    by (intro preserves_intros owner_intros owner_reload [OF assms] owner_perform owner_modify) simp_all
  show c: "preserves (since W adr live l) (restoreMap W p b i dev dvr)"
    unfolding restoreMap_def
    by (intro preserves_intros owner_intros owner_save assms(1) owner_perform owner_modify) simp_all
  have e: "preserves (since W adr live l) (emptyGuide W i dvr)"
    unfolding emptyGuide_def by (intro preserves_intros owner_intros owner_perform) simp_all
  have g: "preserves (since W adr live l) (reload_guide W p b dvr w)" for w
    unfolding reload_guide_def by (intro preserves_intros owner_intros owner_reload [OF assms])
  show "preserves (since W adr live l) (ensure_guide W p b i dev dvr sv)"
    unfolding ensure_guide_def by (intro preserves_intros a c e g owner_intros owner_modify) simp_all
qed

lemma owner_block:
  assumes h: "holds_device live l dev"
  shows "preserves (since W adr live l) (reads (\<lambda>s.
         and_then (for_each (drop_duplicate W p b) (drop 1 (dvrsOf (DUUID dev) (ps_dvrs s)))) (\<lambda>_.
         and_then (ensure_dvr W p b i dev (dvrsOf (DUUID dev) (ps_dvrs s))) (\<lambda>dvr.
         and_then (adopt_saved W i lease dvr) (\<lambda>sv.
         and_then (if fst sv \<noteq> LineupHash b then save_map W p b i dev dvr else ret sv) (\<lambda>sv.
         and_then (ensure_guide W p b i dev dvr sv) (\<lambda>_. forget_told k)))))))"
proof (rule owner_reads)
  fix s
  assume s: "view_ok W adr live s" "suffix l (log s)"
  have hd: "holds_device live (log s) dev" using s(2) h by (rule later(4))
  have dv: "known_dvr (log s) d \<and> over d dev" if "d \<in> set (dvrsOf (DUUID dev) (ps_dvrs s))" for d
    using s(1) that by (rule dvrs_known)
  show "preserves (since W adr live (log s))
         (and_then (for_each (drop_duplicate W p b) (drop 1 (dvrsOf (DUUID dev) (ps_dvrs s)))) (\<lambda>_.
         and_then (ensure_dvr W p b i dev (dvrsOf (DUUID dev) (ps_dvrs s))) (\<lambda>dvr.
         and_then (adopt_saved W i lease dvr) (\<lambda>sv.
         and_then (if fst sv \<noteq> LineupHash b then save_map W p b i dev dvr else ret sv) (\<lambda>sv.
         and_then (ensure_guide W p b i dev dvr sv) (\<lambda>_. forget_told k))))))"
  proof (rule preserves_and_then)
    show "preserves (since W adr live (log s)) (for_each (drop_duplicate W p b) (drop 1 (dvrsOf (DUUID dev) (ps_dvrs s))))"
      by (intro preserves_for_each owner_drop_duplicate)
        (use hd dv in_set_dropD in \<open>fastforce simp: deletable_dvr_def deletable_def\<close>)
    have "dvr_of (log s) dev d" if "d \<in> set (dvrsOf (DUUID dev) (ps_dvrs s))" for d using dv [OF that] by (simp add: dvr_of_def)
    then show "preserves (since W adr live (log s)) (and_then (ensure_dvr W p b i dev (dvrsOf (DUUID dev) (ps_dvrs s))) (\<lambda>dvr.
         and_then (adopt_saved W i lease dvr) (\<lambda>sv.
         and_then (if fst sv \<noteq> LineupHash b then save_map W p b i dev dvr else ret sv) (\<lambda>sv.
         and_then (ensure_guide W p b i dev dvr sv) (\<lambda>_. forget_told k)))))" for x
      by (intro owner_then [OF ensure_dvr_finds [OF hd]] preserves_intros owner_intros owner_save_map owner_guide) (auto intro: later(4) hd)
  qed
qed

lemma owner_converge:
  assumes "p \<in> set live" "provider_live p" "b \<in> set (Blocks p)" "DeviceID b \<noteq> []"
  shows "preserves (since W adr live l) (converge W p b)"
  unfolding converge_def Let_def
  apply (intro preserves_if preserves_throw)
  apply (rule owner_then [OF acquire_holds [OF assms]])
  subgoal premises facts for lease k
  proof (cases "Held lease")
    case True
    have h: "holds_block live k p b" using facts True by simp
    show ?thesis
      unfolding if_not_P [OF not_not [THEN iffD2, OF True]]
      apply (rule owner_then [OF finds_keeps [OF owner_adopt(1)]])
      apply (rule owner_then [OF replace_stale_finds])
       apply (erule later(3) [OF _ h])
      apply (rule owner_then [where F = "\<lambda>dev k. holds_device live k dev"])
       apply (rule finds_option)
        apply (rule add_device_finds)
        apply (meson later(3) h suffix_order.trans)
       apply (rule finds_ret, simp add: later(4))
      apply (rule owner_then [OF finds_keeps [OF owner_revive]])
       apply (meson later(3) h suffix_order.trans)
      apply (rule owner_block)
      apply (erule (1) later(4))
      done
  qed (simp add: preserves_ret)
  done

section \<open>A pass\<close>

lemma owner_fail [owner_intros]: "preserves (since W adr live l) (fail p w e)"
  unfolding fail_def by (cases e) (auto intro!: preserves_intros owner_intros owner_modify)

lemma owner_run_provider:
  assumes "p \<in> set live"
  shows "preserves (since W adr live l) (run_provider W p)"
proof -
  have c: "preserves (since W adr live l) (if DeviceID b = [] then ret () else or_else (converge W p b) (fail p (''block '' @ Start b)))"
    if "provider_live p" "b \<in> set (Blocks p)" for b
    by (cases "DeviceID b = []") (simp_all add: preserves_ret preserves_or_else owner_fail owner_converge assms that)
  have k: "preserves (since W adr live l) (or_else (keep W p b) (fail p (''block '' @ Start b)))" for b
    unfolding keep_def by (intro preserves_intros owner_intros)
  show ?thesis unfolding run_provider_def
    by (cases "provider_live p"; simp only: not_True_eq_False not_False_eq_True if_True if_False; intro preserves_for_each c k; simp)
qed

lemma owner_remove_unnamed: "preserves (since W adr live l) (remove_unnamed W live i)"
  unfolding remove_unnamed_def
proof (rule owner_reads)
  fix s
  assume s: "view_ok W adr live s" "suffix l (log s)"
  show "preserves (since W adr live (log s)) (case map_of (ps_devices s) i of
       None \<Rightarrow> ret ()
     | Some dev \<Rightarrow>
         if named live i \<or> \<not> underService (w_parse_url W) (c_addresses s) (DURI dev) then ret ()
         else or_else (remove W gone dev) (fail gone (''device '' @ DUUID dev)))"
  proof (cases "map_of (ps_devices s) i")
    case (Some dev)
    have "deletable (w_parse_url W) adr live (log s) dev" if "\<not> (named live i \<or> \<not> underService (w_parse_url W) (c_addresses s) (DURI dev))"
      using that view_device [OF s(1) Some] s(1) by (auto simp: deletable_def abandoned_device_def view_ok_def)
    then show ?thesis
      by (cases "named live i \<or> \<not> underService (w_parse_url W) (c_addresses s) (DURI dev)")
        (auto simp: Some preserves_ret intro!: preserves_or_else owner_fail owner_remove)
  qed (simp add: preserves_ret)
qed

lemma owner_remove_gone: "preserves (since W adr live l) (remove_gone W live)"
  unfolding remove_gone_def
proof (intro preserves_and_then)
  show "preserves (since W adr live l) (reads (\<lambda>s. if ps_pending s then modify (\<lambda>s. s\<lparr>removalsHeld := True\<rparr>)
       else and_then (modify (\<lambda>s. s\<lparr>removalsHeld := False\<rparr>)) (\<lambda>_.
         for_each (remove_unnamed W live) (w_range W (map fst (ps_devices s))))))"
    by (intro preserves_intros owner_modify owner_remove_unnamed) simp_all
  show "preserves (since W adr live l) (reads (\<lambda>s. for_each (remove_ghost W) (ghosts W s)))" for x
    unfolding remove_ghost_def
    by (intro owner_reads preserves_intros owner_intros owner_remove_dvr)
      (auto simp: ghosts_def deletable_dvr_def view_ok_def)
qed

lemma start_pass_view:
  assumes "CDevices (Inr ds) \<in> set (log s)" "CDVRs (Inr vs) \<in> set (log s)" "all_touch (w_parse_url W) adr live (log s)"
    and "adr = fold List.insert (filter (\<lambda>a. a \<noteq> []) (map PAddress live)) (c_addresses s)"
  shows "since W adr live (log s) (start_pass ds vs acts live s)"
proof -
  define s0 where "s0 = s\<lparr>c_addresses := adr, ps_devices := [], ps_dvrs := vs,
     guideBusy := list_ex (\<lambda>a. AType a = ActivityGuideLoad) acts,
     ps_changed := [], restartSelf := False, ps_pending := False, ps_waiting := False, ps_errs := []\<rparr>"
  have "since W adr live (log s) s0" using assms(2,3) by (auto simp: since_def view_ok_def s0_def known_dvr_def)
  then have "since W adr live (log s) (addDevices ds s0)"
    using preservesD [OF owner_addDevices [OF assms(1)]] by fastforce
  then show ?thesis by (simp only: start_pass_def s0_def assms(4))
qed

text \<open>A pass that cannot read PMS only renews the Leases it holds.\<close>

definition touches :: "world \<Rightarrow> string list \<Rightarrow> Provider list \<Rightarrow> lt \<Rightarrow> bool" where
  "touches W adr live s \<longleftrightarrow> all_touch (w_parse_url W) adr live (log s)"

lemma touches_unreadable: "preserves (touches W adr live) (unreadable W)"
proof -
  have "preserves (touches W adr live) (perform ans (CAcquire a b l))" for ans a b l
    by (rule preservesI) (simp add: touches_def)
  then show ?thesis
    unfolding unreadable_def renewHeld_def renew_one_def
    by (intro preserves_intros preserves_modify) (simp_all add: touches_def)
qed

definition pass_addresses :: "Provider list \<Rightarrow> lt \<Rightarrow> string list" where
  "pass_addresses live s = fold List.insert (filter (\<lambda>a. a \<noteq> []) (map PAddress live)) (c_addresses s)"

lemma wp_Run_touches:
  fixes ps :: "Provider list"
  assumes "log s = []"
  defines "live \<equiv> sort_key provider_key ps"
  shows "wp (Run W ps) (\<lambda>_. touches W (pass_addresses live s) live) (\<lambda>_. touches W (pass_addresses live s) live) s"
proof -
  let ?T = "touches W (pass_addresses live s) live"
  have n: "preserves (since W (pass_addresses live s) live l)
     (and_then (for_each (run_provider W) live) (\<lambda>_. and_then (remove_gone W live) (\<lambda>_. reads (\<lambda>s. ret (outcome_of s)))))" for l
    by (intro preserves_intros owner_run_provider owner_remove_gone)
  have go: "wp (and_then (modify (start_pass ds vs acts live)) (\<lambda>_.
       and_then (for_each (run_provider W) live) (\<lambda>_. and_then (remove_gone W live) (\<lambda>_. reads (\<lambda>s. ret (outcome_of s))))))
     (\<lambda>_. ?T) (\<lambda>_. ?T) t"
    if "log t = [CActivities (Inr acts), CDVRs (Inr vs), CDevices (Inr ds)]" "c_addresses t = c_addresses s" for t ds vs acts
  proof -
    have "since W (pass_addresses live s) live (log t) (start_pass ds vs acts live t)"
      by (rule start_pass_view) (use that in \<open>simp_all add: pass_addresses_def\<close>)
    from preservesD [OF n this] show ?thesis
      unfolding wp_and_then [of "modify _"] wp_modify by (rule wp_mono) (simp_all add: since_def view_ok_def touches_def)
  qed
  have u: "wp (unreadable W) (\<lambda>_. ?T) (\<lambda>_. ?T) t" if "?T t" for t using touches_unreadable that by (rule preservesD)
  show ?thesis
    unfolding Run_def Let_def live_def [symmetric]
    by (simp del: wp_and_then wp_modify add: wp_and_then [of "perform ans c" for ans c] assms(1) u touches_def go split: sum.split)
qed

lemma all_touch_split: "all_touch P A live (pre @ c # post) \<Longrightarrow> may_touch P A live post c"
  by (induction pre) auto

lemma may_touch_live: "set live = set live' \<Longrightarrow> may_touch P A live l c = may_touch P A live' l c"
proof -
  assume eq: "set live = set live'"
  then have "named live i = named live' i" for i by (simp add: named_def list_ex_iff)
  moreover have "holds_block live l p b = holds_block live' l p b" for p b using eq by (simp add: holds_block_def)
  ultimately have "holds_device live l dev = holds_device live' l dev" "deletable P A live l dev = deletable P A live' l dev" for dev
    by (simp_all add: holds_device_def deletable_def abandoned_device_def)
  then show ?thesis using \<open>\<And>p b. holds_block live l p b = holds_block live' l p b\<close>
    by (simp add: may_touch_def deletable_dvr_def split: call.split)
qed



text \<open>
  The converger finds a channel map unchanged exactly when the channels PMS has enabled are paired as the tuner pairs
  them: of several entries for one channel the last enabled one counts, and a disabled entry pairs nothing.
\<close>

theorem map_difference_exact:
  assumes "distinct (map DeviceIdentifier want)"
  shows "mapDifference want present = (0, 0, 0) \<longleftrightarrow>
    map_of (rev (map (\<lambda>m. (DeviceIdentifier m, LineupIdentifier m)) (filter (\<lambda>m. Enabled m = [] \<or> Enabled m = ''1'') present)))
    = map_of (map (\<lambda>m. (DeviceIdentifier m, LineupIdentifier m)) want)"
    (is "_ \<longleftrightarrow> ?got = ?want")
proof -
  have want: "?want d = Some l \<longleftrightarrow> (\<exists>m \<in> set want. DeviceIdentifier m = d \<and> LineupIdentifier m = l)" for d l
    using assms by (subst map_of_eq_Some_iff) (auto simp: comp_def)
  have none: "?want d = None \<longleftrightarrow> d \<notin> DeviceIdentifier ` set want" for d
    by (simp add: map_of_eq_None_iff image_image)
  have "mapDifference want present = (0, 0, 0) \<longleftrightarrow>
      (\<forall>m \<in> set want. ?got (DeviceIdentifier m) = Some (LineupIdentifier m)) \<and> dom ?got \<subseteq> DeviceIdentifier ` set want"
    unfolding mapDifference_def Let_def map_of_enabled_map [symmetric] dom_enabled_map [symmetric]
    by (auto simp: filter_empty_conv split: option.splits)
  also have "\<dots> \<longleftrightarrow> ?got = ?want"
  proof
    assume l: "(\<forall>m \<in> set want. ?got (DeviceIdentifier m) = Some (LineupIdentifier m)) \<and> dom ?got \<subseteq> DeviceIdentifier ` set want"
    show "?got = ?want"
    proof
      fix d
      show "?got d = ?want d"
      proof (cases "?want d")
        case None
        then have "d \<notin> dom ?got" using l none by blast
        with None show ?thesis by (simp add: domIff)
      next
        case (Some x)
        then obtain m where "m \<in> set want" "DeviceIdentifier m = d" "LineupIdentifier m = x" using want by blast
        with l Some show ?thesis by auto
      qed
    qed
  next
    assume eq: "?got = ?want"
    have "?want (DeviceIdentifier m) = Some (LineupIdentifier m)" if "m \<in> set want" for m using want that by blast
    moreover have "dom ?want \<subseteq> DeviceIdentifier ` set want" using want by (auto simp: dom_def)
    ultimately show "(\<forall>m \<in> set want. ?got (DeviceIdentifier m) = Some (LineupIdentifier m)) \<and> dom ?got \<subseteq> DeviceIdentifier ` set want"
      unfolding eq by blast
  qed
  finally show ?thesis .
qed

theorem map_difference_exact_witness:
  "\<exists>m. mapDifference [m] [m\<lparr>LineupIdentifier := ''other''\<rparr>, m\<lparr>Enabled := ''1''\<rparr>, m\<lparr>LineupIdentifier := ''off'', Enabled := ''0''\<rparr>] = (0, 0, 0)"
proof -
  let ?m = "\<lparr>ChannelKey = ''k'', DeviceIdentifier = ''d'', LineupIdentifier = ''l'', Favorite = [], Enabled = []\<rparr>"
  have "distinct (map DeviceIdentifier [?m])" by simp
  from map_difference_exact [OF this, of "[?m\<lparr>LineupIdentifier := ''other''\<rparr>, ?m\<lparr>Enabled := ''1''\<rparr>, ?m\<lparr>LineupIdentifier := ''off'', Enabled := ''0''\<rparr>]"]
  show ?thesis by (intro exI [of _ ?m]) (simp add: fun_eq_iff)
qed

end
