(* ===== verification/LiveTV_Grabs.thy ===== *)
theory LiveTV_Grabs
  imports LiveTV_Pms
begin

text \<open>
  The Live TV grabs no player watches, \<open>src/pkg/plex/livetv/stalegrabs.go\<close>: one \<open>Pass\<close> as a function of what the three
  reads of Plex answered, of the clock and of whether each cancel succeeded. The property is about any sequence of passes.
\<close>

definition DefaultStaleGrabAfter :: duration where "DefaultStaleGrabAfter = 300 * second"

definition liveGrabSubtitle :: string where "liveGrabSubtitle = ''Live TV - Session''"

record LiveSession =
  SKey :: string
  SRatingKey :: string

record PlayingItem =
  PKey :: string
  PRatingKey :: string

text \<open>What a pass was told: Plex's three lists, the time, and whether the cancel of the activity at each place succeeded.\<close>

record look =
  l_acts :: "Activity list option"
  l_live :: "LiveSession list option"
  l_playing :: "PlayingItem list option"
  l_now :: time
  l_cancel :: "nat \<Rightarrow> bool"

definition itemOf :: "LiveSession list \<Rightarrow> string \<Rightarrow> string" where
  "itemOf live k = (case map_of (rev (map (\<lambda>s. (SKey s, SRatingKey s)) live)) k of None \<Rightarrow> [] | Some r \<Rightarrow> r)"

definition watched :: "LiveSession list \<Rightarrow> PlayingItem list \<Rightarrow> string \<Rightarrow> bool" where
  "watched live playing k \<longleftrightarrow> list_ex (\<lambda>p. PKey p = k) playing
     \<or> (itemOf live k \<noteq> [] \<and> list_ex (\<lambda>p. PRatingKey p \<noteq> [] \<and> PRatingKey p = itemOf live k) playing)"

definition live_grab :: "Activity \<Rightarrow> bool" where
  "live_grab a \<longleftrightarrow> AType a = ActivityGrab \<and> prefix liveGrabSubtitle (Subtitle a) \<and> TranscodeSession a \<noteq> []"

definition session_key :: "Activity \<Rightarrow> string" where
  "session_key a = ''/livetv/sessions/'' @ TranscodeSession a"

text \<open>One activity of the list: the map of grabs seen unwatched, and what was ended.\<close>

definition grab_step :: "duration \<Rightarrow> time \<Rightarrow> (string \<Rightarrow> bool) \<Rightarrow> bool \<Rightarrow> Activity \<Rightarrow> (string \<rightharpoonup> time) \<times> string list \<Rightarrow> (string \<rightharpoonup> time) \<times> string list" where
  "grab_step grace now is_watched cancelled a st = (case st of (m, ended) \<Rightarrow>
     if \<not> live_grab a then (m, ended)
     else if is_watched (session_key a) then (m(AUUID a := None), ended)
     else (case m (AUUID a) of
         None \<Rightarrow> (m(AUUID a \<mapsto> now), ended)
       | Some since \<Rightarrow>
           if now - since < grace then (m, ended)
           else if \<not> cancelled then (m, ended)
           else (m(AUUID a := None), ended @ [session_key a])))"

fun grab_loop :: "duration \<Rightarrow> time \<Rightarrow> (string \<Rightarrow> bool) \<Rightarrow> (nat \<Rightarrow> bool) \<Rightarrow> nat \<Rightarrow> Activity list \<Rightarrow> (string \<rightharpoonup> time) \<times> string list \<Rightarrow> (string \<rightharpoonup> time) \<times> string list" where
  "grab_loop grace now w ok i [] st = st"
| "grab_loop grace now w ok i (a # acts) st = grab_loop grace now w ok (Suc i) acts (grab_step grace now w (ok i) a st)"

definition Pass :: "duration \<Rightarrow> look \<Rightarrow> (string \<rightharpoonup> time) \<Rightarrow> (string \<rightharpoonup> time) \<times> string list option" where
  "Pass grace lk m = (case (l_acts lk, l_live lk, l_playing lk) of
       (Some acts, Some live, Some playing) \<Rightarrow>
         (case grab_loop (if grace \<le> 0 then DefaultStaleGrabAfter else grace) (l_now lk) (watched live playing) (l_cancel lk) 0 acts (m, []) of
            (m', ended) \<Rightarrow> (\<lambda>u. if list_ex (\<lambda>a. live_grab a \<and> AUUID a = u) acts then m' u else None, Some ended))
     | _ \<Rightarrow> (m, None))"

section \<open>Only what went unwatched for the grace is ended\<close>

text \<open>In a look that was read whole, a Live TV grab that has no player.\<close>

definition unwatched_grab :: "look \<Rightarrow> Activity \<Rightarrow> bool" where
  "unwatched_grab lk a \<longleftrightarrow> (case (l_acts lk, l_live lk, l_playing lk) of
       (Some acts, Some live, Some playing) \<Rightarrow> a \<in> set acts \<and> live_grab a \<and> \<not> watched live playing (session_key a)
     | _ \<Rightarrow> False)"

definition unwatched_in :: "look \<Rightarrow> string \<Rightarrow> bool" where
  "unwatched_in lk u \<longleftrightarrow> (\<exists>a. unwatched_grab lk a \<and> AUUID a = u)"

definition whole :: "look \<Rightarrow> bool" where
  "whole lk \<longleftrightarrow> l_acts lk \<noteq> None \<and> l_live lk \<noteq> None \<and> l_playing lk \<noteq> None"

text \<open>Since the time \<open>t\<close> of an earlier look, every look read whole has found it unwatched. Looks are newest first.\<close>

fun unwatched_since :: "look list \<Rightarrow> string \<Rightarrow> time \<Rightarrow> bool" where
  "unwatched_since [] u t = False"
| "unwatched_since (lk # lks) u t =
     (if \<not> whole lk then unwatched_since lks u t
      else unwatched_in lk u \<and> (l_now lk = t \<or> unwatched_since lks u t))"

fun run_passes :: "duration \<Rightarrow> look list \<Rightarrow> (string \<rightharpoonup> time)" where
  "run_passes grace [] = Map.empty"
| "run_passes grace (lk # lks) = fst (Pass grace lk (run_passes grace lks))"

lemma grab_loop_inv:
  assumes "grab_loop g now w ok i acts (m, ended) = (m', ended')"
    and "\<And>u t. m u = Some t \<Longrightarrow> (m0 u = Some t \<or> t = now)"
    and "\<And>k. k \<in> set ended \<Longrightarrow> P k"
    and "\<And>a t. a \<in> set acts \<Longrightarrow> live_grab a \<Longrightarrow> \<not> w (session_key a) \<Longrightarrow> g \<le> now - t \<Longrightarrow> m0 (AUUID a) = Some t \<or> t = now \<Longrightarrow> P (session_key a)"
  shows "(\<forall>u t. m' u = Some t \<longrightarrow> (m0 u = Some t \<or> t = now)
      \<and> (m u = Some t \<and> (\<forall>a \<in> set acts. \<not> (live_grab a \<and> AUUID a = u)) \<or> (\<exists>a \<in> set acts. live_grab a \<and> AUUID a = u \<and> \<not> w (session_key a))))
    \<and> (\<forall>k \<in> set ended'. P k)"
  using assms
proof (induction acts arbitrary: i m ended)
  case (Cons a acts)
  obtain m1 e1 where st: "grab_step g now w (ok i) a (m, ended) = (m1, e1)" by fastforce
  have mm: "m1 u = Some t \<Longrightarrow> (m u = Some t \<or> t = now)
     \<and> (m u = Some t \<and> \<not> (live_grab a \<and> AUUID a = u) \<or> live_grab a \<and> AUUID a = u \<and> \<not> w (session_key a))" for u t
    using st by (auto simp: grab_step_def split: if_splits option.splits)
  then have m1: "m1 u = Some t \<Longrightarrow> (m0 u = Some t \<or> t = now)
     \<and> (m u = Some t \<and> \<not> (live_grab a \<and> AUUID a = u) \<or> live_grab a \<and> AUUID a = u \<and> \<not> w (session_key a))" for u t
    using Cons.prems(2) by blast
  have e1: "P k" if "k \<in> set e1" for k
  proof (cases "k \<in> set ended")
    case False
    with st that obtain t where "live_grab a" "\<not> w (session_key a)" "m (AUUID a) = Some t" "g \<le> now - t" "k = session_key a"
      by (auto simp: grab_step_def split: if_splits option.splits)
    then show ?thesis using Cons.prems(2) [of "AUUID a" t] Cons.prems(4) [of a t] by simp
  qed (use Cons.prems(3) in simp)
  have "(\<forall>u t. m' u = Some t \<longrightarrow> (m0 u = Some t \<or> t = now)
      \<and> (m1 u = Some t \<and> (\<forall>a \<in> set acts. \<not> (live_grab a \<and> AUUID a = u)) \<or> (\<exists>a \<in> set acts. live_grab a \<and> AUUID a = u \<and> \<not> w (session_key a))))
    \<and> (\<forall>k \<in> set ended'. P k)"
    by (rule Cons.IH [of "Suc i" m1 e1]) (use Cons.prems(1,4) st m1 e1 in auto)
  with m1 show ?case by (auto 4 3)
qed auto

text \<open>What a pass leaves, and what it ends, in terms of the looks up to it.\<close>

lemma pass_inv:
  assumes "Pass g lk m = (m', r)" and "g > 0" and "whole lk"
  shows "(\<forall>u t. m' u = Some t \<longrightarrow> (m u = Some t \<or> t = l_now lk) \<and> unwatched_in lk u)
    \<and> (\<exists>ended. r = Some ended \<and> (\<forall>k \<in> set ended. \<exists>a t. unwatched_grab lk a \<and> session_key a = k \<and> m (AUUID a) = Some t \<and> g \<le> l_now lk - t))"
proof -
  from assms(3) obtain acts live playing where l: "l_acts lk = Some acts" "l_live lk = Some live" "l_playing lk = Some playing"
    by (auto simp: whole_def)
  obtain m1 ended where loop: "grab_loop g (l_now lk) (watched live playing) (l_cancel lk) 0 acts (m, []) = (m1, ended)" by fastforce
  have ug: "unwatched_grab lk a \<longleftrightarrow> a \<in> set acts \<and> live_grab a \<and> \<not> watched live playing (session_key a)" for a
    by (simp add: unwatched_grab_def l)
  have un: "unwatched_in lk u \<longleftrightarrow> (\<exists>a \<in> set acts. live_grab a \<and> AUUID a = u \<and> \<not> watched live playing (session_key a))" for u
    by (auto simp: unwatched_in_def ug)
  have "(\<forall>u t. m1 u = Some t \<longrightarrow> (m u = Some t \<or> t = l_now lk)
      \<and> (m u = Some t \<and> (\<forall>a \<in> set acts. \<not> (live_grab a \<and> AUUID a = u)) \<or> (\<exists>a \<in> set acts. live_grab a \<and> AUUID a = u \<and> \<not> watched live playing (session_key a))))
    \<and> (\<forall>k \<in> set ended. \<exists>a t. unwatched_grab lk a \<and> session_key a = k \<and> m (AUUID a) = Some t \<and> g \<le> l_now lk - t)"
    by (rule grab_loop_inv [OF loop]) (use assms(2) in \<open>auto simp: ug\<close>)
  moreover have "m' = (\<lambda>u. if list_ex (\<lambda>a. live_grab a \<and> AUUID a = u) acts then m1 u else None)" "r = Some ended"
    using assms(1,2) loop by (simp_all add: Pass_def l)
  ultimately show ?thesis by (auto simp: un list_ex_iff split: if_splits)
qed

lemma run_passes_inv: "g > 0 \<Longrightarrow> run_passes g lks u = Some t \<Longrightarrow> unwatched_since lks u t"
proof (induction lks arbitrary: u t)
  case (Cons lk lks)
  obtain m' r where p: "Pass g lk (run_passes g lks) = (m', r)" by fastforce
  show ?case
  proof (cases "whole lk")
    case True
    from pass_inv [OF p Cons.prems(1) True] Cons.prems(2) p
    have "(run_passes g lks u = Some t \<or> t = l_now lk) \<and> unwatched_in lk u" by simp
    with Cons.IH Cons.prems(1) True show ?thesis by auto
  next
    case False
    then have "m' = run_passes g lks" using p by (auto simp: Pass_def whole_def split: option.splits)
    with False p Cons show ?thesis by simp
  qed
qed simp

text \<open>
  Over any sequence of passes, with reads and cancels that may fail, a Live TV grab is ended only when it has no player
  and every pass that could read Plex, from one at least the grace before, found it without one; a recording, whose grab is
  not a live session's, is never ended.
\<close>

theorem grab_ended_only_after_grace:
  assumes "0 < g" and "Pass g lk (run_passes g lks) = (m, Some ended)" and "k \<in> set ended"
  shows "\<exists>a t. unwatched_grab lk a \<and> session_key a = k \<and> unwatched_since lks (AUUID a) t \<and> g \<le> l_now lk - t"
proof -
  have "whole lk" using assms(2) by (auto simp: Pass_def whole_def split: option.splits)
  from pass_inv [OF assms(2,1) this] assms(3)
  obtain a t where "unwatched_grab lk a" "session_key a = k" "run_passes g lks (AUUID a) = Some t" "g \<le> l_now lk - t" by auto
  with run_passes_inv [OF assms(1)] show ?thesis by blast
qed

definition demo_look :: "time \<Rightarrow> look" where
  "demo_look t = \<lparr>l_acts = Some [\<lparr>AUUID = ''a'', AType = ActivityGrab, Subtitle = ''Live TV - Session 1'', TranscodeSession = ''1''\<rparr>],
     l_live = Some [], l_playing = Some [], l_now = t, l_cancel = (\<lambda>_. True)\<rparr>"

theorem grab_ended_only_after_grace_witness:
  "snd (Pass 10 (demo_look 20) (run_passes 10 [demo_look 5])) = Some [''/livetv/sessions/1'']
   \<and> (\<exists>a t. unwatched_grab (demo_look 20) a \<and> unwatched_since [demo_look 5] (AUUID a) t \<and> 10 \<le> l_now (demo_look 20) - t)"
proof
  show e: "snd (Pass 10 (demo_look 20) (run_passes 10 [demo_look 5])) = Some [''/livetv/sessions/1'']" by code_simp
  then have "Pass 10 (demo_look 20) (run_passes 10 [demo_look 5])
      = (fst (Pass 10 (demo_look 20) (run_passes 10 [demo_look 5])), Some [''/livetv/sessions/1''])"
    by (metis prod.collapse)
  from grab_ended_only_after_grace [OF _ this]
  show "\<exists>a t. unwatched_grab (demo_look 20) a \<and> unwatched_since [demo_look 5] (AUUID a) t \<and> 10 \<le> l_now (demo_look 20) - t" by (auto simp del: unwatched_since.simps)
qed

end
