(* ===== verification/Go_Path.thy ===== *)
theory Go_Path
  imports Go_Text
begin

text \<open>
  What the program uses of Go's \<open>path\<close> and, on a Unix system, \<open>path/filepath\<close>: \<open>Clean\<close>, \<open>Join\<close>, \<open>Dir\<close>, \<open>Ext\<close>, \<open>Rel\<close>. A path is
  read as its elements between slashes, which is how their documentation states the rules.
\<close>

section \<open>Cleaning\<close>

definition slash :: char where "slash = CHR 0x2F"
definition rooted :: "string \<Rightarrow> bool" where "rooted p \<longleftrightarrow> p \<noteq> [] \<and> hd p = slash"

text \<open>The elements kept so far, the last one first.\<close>

fun clean_elem :: "bool \<Rightarrow> string \<Rightarrow> string list \<Rightarrow> string list" where
  "clean_elem r el st = (if el = [] \<or> el = ''.'' then st
     else if el = ''..'' then (case st of [] \<Rightarrow> if r then [] else [el] | t # ts \<Rightarrow> if t = ''..'' then el # st else ts)
     else el # st)"

definition elems :: "string \<Rightarrow> string list" where
  "elems p = rev (fold (clean_elem (rooted p)) (split_on slash p) [])"

definition Clean :: "string \<Rightarrow> string" where
  "Clean p = (let s = join [slash] (elems p) in if rooted p then slash # s else if s = [] then ''.'' else s)"

definition Join :: "string list \<Rightarrow> string" where
  "Join ps = (let ps' = filter (\<lambda>p. p \<noteq> []) ps in if ps' = [] then [] else Clean (join [slash] ps'))"

text \<open>Up to and including the last slash, and what follows it.\<close>

definition dir_part :: "string \<Rightarrow> string" where
  "dir_part p = rev (dropWhile (\<lambda>c. c \<noteq> slash) (rev p))"

definition file_part :: "string \<Rightarrow> string" where
  "file_part p = rev (takeWhile (\<lambda>c. c \<noteq> slash) (rev p))"

definition Dir :: "string \<Rightarrow> string" where
  "Dir p = Clean (dir_part p)"

definition Ext :: "string \<Rightarrow> string" where
  "Ext p = (let f = rev (file_part p) in if CHR ''.'' \<in> set f then rev (takeWhile (\<lambda>c. c \<noteq> CHR ''.'') f @ ''.'') else [])"

text \<open>The path from \<open>base\<close> to \<open>targ\<close>, where one can be named without knowing what is on disk.\<close>

fun rel_elems :: "string list \<Rightarrow> string list \<Rightarrow> string list option" where
  "rel_elems (b # bs) (t # ts) = (if b = t then rel_elems bs ts else if b = ''..'' then None else Some (map (\<lambda>_. ''..'') (b # bs) @ t # ts))"
| "rel_elems [] ts = Some ts"
| "rel_elems (b # bs) [] = (if b = ''..'' then None else Some (map (\<lambda>_. ''..'') (b # bs)))"

definition Rel :: "string \<Rightarrow> string \<Rightarrow> string option" where
  "Rel base targ = (if rooted base \<noteq> rooted targ then None
     else map_option (\<lambda>es. if es = [] then ''.'' else join [slash] es) (rel_elems (elems base) (elems targ)))"

section \<open>Clean paths\<close>

definition plain_elem :: "string \<Rightarrow> bool" where
  "plain_elem el \<longleftrightarrow> el \<noteq> [] \<and> el \<noteq> ''.'' \<and> el \<noteq> ''..'' \<and> slash \<notin> set el"

lemma fold_plain: "list_all plain_elem es \<Longrightarrow> fold (clean_elem r) es st = rev es @ st"
  by (induction es arbitrary: st) (auto simp: plain_elem_def)

lemma split_on_join: "es \<noteq> [] \<Longrightarrow> list_all (\<lambda>e. c \<notin> set e) es \<Longrightarrow> split_on c (join [c] es) = es"
proof (induction es)
  case (Cons e es)
  then show ?case by (cases es) (auto simp: split_on_append split_on_no_sep)
qed simp

lemma plain_no_slash: "list_all plain_elem es \<Longrightarrow> list_all (\<lambda>e. slash \<notin> set e) es"
  by (simp add: list_all_iff plain_elem_def)

text \<open>An absolute path that is clean: a slash before each of its plain elements.\<close>

definition abs_path :: "string list \<Rightarrow> string" where
  "abs_path es = slash # join [slash] es"

lemma rooted_abs [simp]: "rooted (abs_path es)"
  by (simp add: rooted_def abs_path_def)

lemma elems_abs: "list_all plain_elem es \<Longrightarrow> elems (abs_path es) = es"
proof -
  assume p: "list_all plain_elem es"
  have "fold (clean_elem True) (split_on slash (join [slash] es)) [] = rev es"
    using p fold_plain [of es True "[]"] split_on_join [of es slash] plain_no_slash by (cases "es = []") auto
  then show ?thesis unfolding elems_def by (simp add: abs_path_def rooted_def)
qed

lemma Clean_abs: "list_all plain_elem es \<Longrightarrow> Clean (abs_path es) = abs_path es"
  by (simp add: Clean_def elems_abs Let_def) (simp add: abs_path_def)

lemma Rel_abs:
  "list_all plain_elem es \<Longrightarrow> list_all plain_elem fs
   \<Longrightarrow> Rel (abs_path es) (abs_path (es @ fs)) = Some (if fs = [] then ''.'' else join [slash] fs)"
proof -
  assume p: "list_all plain_elem es" "list_all plain_elem fs"
  have "rel_elems es (es @ fs) = Some fs" by (induction es) auto
  then show ?thesis using p by (simp add: Rel_def elems_abs)
qed

end
