(* ===== verification/Seed_Rows.thy ===== *)
theory Seed_Rows
  imports Go_Path Go_Float "HOL-Library.Word"
begin

text \<open>
  The rows \<open>src/pkg/plexseed\<close> writes for a file, computed from its probe: \<open>input.go\<close>, \<open>rows.go\<close>, the rows of \<open>sidecars.go\<close> and
  \<open>faststart.go\<close>. A map rendered by \<open>ExtraData\<close> is the list of its pairs without a repeated key; its \<open>url\<close>, which is
  computed from the others, is a function of it. The BCP-47 parser of \<open>golang.org/x/text\<close> is the parameter \<open>base\<close>: the base
  language of a tag, \<open>None\<close> when it has none.
\<close>

section \<open>A probe\<close>

record Audio =
  a_index :: int
  a_codec :: string
  a_profile :: string
  a_language :: string
  a_title :: string
  a_channels :: int
  a_layout :: string
  a_kbps :: int
  a_default :: bool
  a_commentary :: bool

record Subtitle =
  u_index :: int
  u_codec :: string
  u_language :: string
  u_title :: string
  u_forced :: bool
  u_impaired :: bool
  u_bitmap :: bool

record Probe =
  p_container :: string
  VideoCodec :: string
  VideoProfile :: string
  PixelFormat :: string
  VideoBitDepth :: int
  p_width :: int
  p_height :: int
  FpsMilli :: int
  VideoBitrateKbps :: int
  RuntimeMillis :: int
  p_audio :: "Audio list"
  p_subtitles :: "Subtitle list"
  HDR :: string

record Segment =
  sg_kind :: string
  StartMs :: int
  EndMs :: int
  sg_source :: string

record Markers =
  mk_result :: string
  mk_segments :: "Segment list"
  mk_analysis :: "string option"

record Sidecar =
  c_name :: string
  c_language :: string
  c_forced :: bool
  c_hi :: bool

record Input =
  SizeBytes :: int
  ProbeHash :: string
  in_probe :: "Probe option"
  in_markers :: "Markers option"
  OriginalLanguage :: string
  Sidecars :: "Sidecar list"
  in_fast_start :: "bool option"

section \<open>Extra data\<close>

type_synonym extra = "(string \<times> string) list"

definition SourceKey :: string where "SourceKey = ''cp:source''"
definition SourceValue :: string where "SourceValue = ''clustarr''"
definition ProbeHashKey :: string where "ProbeHashKey = ''cp:probeHash''"
definition MarkerKey :: string where "MarkerKey = ''pv:source''"
definition MarkerSource :: string where "MarkerSource = ''theintrodb''"
definition markerVersion :: string where "markerVersion = ''4''"

definition plex_char :: "char \<Rightarrow> bool" where
  "plex_char c \<longleftrightarrow> (let n = (of_char c :: nat) in 97 \<le> n \<and> n \<le> 122 \<or> 65 \<le> n \<and> n \<le> 90 \<or> 48 \<le> n \<and> n \<le> 57 \<or> c = CHR ''-'' \<or> c = CHR ''_'')"

definition plexEscape :: "string \<Rightarrow> string" where
  "plexEscape s = concat (map (\<lambda>c. if plex_char c then [c] else [CHR ''%'', hex_digit (of_char c div 16), hex_digit (of_char c mod 16)]) s)"

definition ExtraData_url :: "extra \<Rightarrow> string" where
  "ExtraData_url kv = join ''&'' (map (\<lambda>(k, v). plexEscape k @ ''='' @ plexEscape v) (sort_key fst kv))"

text \<open>A pair when \<open>v\<close> is not empty.\<close>

definition opt_pair :: "string \<Rightarrow> string \<Rightarrow> extra" where
  "opt_pair k v = (if v = [] then [] else [(k, v)])"

section \<open>The numbers\<close>

definition MaxInt32 :: int where "MaxInt32 = 2147483647"
definition MediaAnalysisVersion :: int where "MediaAnalysisVersion = 8"

definition colorTRC :: "string \<Rightarrow> string" where
  "colorTRC h = (if h = [] \<or> h = ''none'' \<or> h = ''dolbyVisionSdr'' then ''bt709''
     else if h = ''hlg10'' \<or> h = ''dolbyVisionHlg'' then ''arib-std-b67'' else ''smpte2084'')"

definition streamBps :: "int \<Rightarrow> int" where
  "streamBps kbps = (if kbps \<le> 0 \<or> kbps * 1000 > MaxInt32 then 0 else kbps * 1000)"

definition fileBitrate :: "int \<Rightarrow> int \<Rightarrow> int" where
  "fileBitrate sizeBytes runtimeMillis = (if sizeBytes \<le> 0 \<or> runtimeMillis \<le> 0 then 0
     else min (go_div (wrap64 (wrap64 (sizeBytes * 8) * 1000)) runtimeMillis) MaxInt32)"

text \<open>\<open>strconv.FormatFloat(x, 'f', 3, 64)\<close>: the exact value rounded to three decimals, ties to even.\<close>

fun fixed3 :: "float64 \<Rightarrow> string" where
  "fixed3 (Fin x) = (let n = round_even (\<bar>x\<bar> * 1000) in (if x < 0 then ''-'' else []) @ itoa (n div 1000) @ ''.'' @
     replicate (3 - length (itoa (n mod 1000))) CHR ''0'' @ itoa (n mod 1000))"
| "fixed3 (Inf s) = (if s then ''-Inf'' else ''+Inf'')"
| "fixed3 NaN = ''NaN''"

section \<open>Codecs and languages\<close>

definition plexCodecs :: "(string \<times> string) list" where
  "plexCodecs = [(''subrip'', ''srt''), (''hdmv_pgs_subtitle'', ''pgs''), (''dvd_subtitle'', ''vobsub''), (''webvtt'', ''vtt''), (''dts'', ''dca'')]"

definition PlexCodec :: "string \<Rightarrow> string" where
  "PlexCodec c = (case map_of plexCodecs (ToLower c) of Some p \<Rightarrow> p | None \<Rightarrow> ToLower c)"

definition PlexLanguage :: "(string \<Rightarrow> string option) \<Rightarrow> string \<Rightarrow> string" where
  "PlexLanguage base code = (if code \<in> {[], ''und'', ''unk'', ''mis'', ''zxx''} then []
     else if length code = 3 \<and> ''qaa'' \<le> code \<and> code \<le> ''qtz'' then []
     else case base code of None \<Rightarrow> [] | Some b \<Rightarrow> if b = ''und'' then [] else b)"

definition AudioLanguage :: "(string \<Rightarrow> string option) \<Rightarrow> Audio \<Rightarrow> string \<Rightarrow> string" where
  "AudioLanguage base a originalLanguage = (let l = PlexLanguage base (a_language a) in
     if l \<noteq> [] then l else PlexLanguage base originalLanguage)"

definition leadAudio :: "Audio list \<Rightarrow> Audio option" where
  "leadAudio tracks = (case find a_default tracks of Some a \<Rightarrow> Some a | None \<Rightarrow> (case tracks of [] \<Rightarrow> None | a # _ \<Rightarrow> Some a))"

fun chroma_loop :: "string \<Rightarrow> (string \<times> string) list \<Rightarrow> string" where
  "chroma_loop f [] = []"
| "chroma_loop f ((t, out) # cs) =
     (if index_of (''yuv'' @ t) f \<noteq> None \<or> index_of (''yuvj'' @ t) f \<noteq> None then out else chroma_loop f cs)"

definition chromaSubsampling :: "string \<Rightarrow> string" where
  "chromaSubsampling pixfmt = chroma_loop pixfmt [(''420'', ''4:2:0''), (''422'', ''4:2:2''), (''444'', ''4:4:4'')]"

section \<open>The rows of a file\<close>

record MediaRow =
  r_container :: string
  r_video_codec :: string
  r_audio_codec :: string
  r_width :: int
  r_height :: int
  r_audio_channels :: int
  r_duration :: int
  r_bitrate :: int
  r_fps :: float64
  r_aspect :: float64
  ItemExtra :: extra
  PartExtra :: extra
  ColorTRC :: string
  AnalysisVersion :: int
  OptimizedForStreaming :: "int option"

datatype stream_kind = streamVideo | streamAudio | streamSubtitle

record StreamRow =
  w_type :: stream_kind
  w_index :: int
  w_channels :: int
  w_bitrate :: int
  w_codec :: string
  w_language :: string
  w_default :: bool
  w_forced :: bool
  w_extra :: extra

definition file_bits :: "Probe \<Rightarrow> int" where
  "file_bits p = VideoBitrateKbps p + sum_list (map a_kbps (p_audio p))"

definition media_row :: "Probe \<Rightarrow> string \<Rightarrow> MediaRow" where
  "media_row p probeHash = (let lead = leadAudio (p_audio p) in
     \<lparr>r_container = p_container p, r_video_codec = PlexCodec (VideoCodec p),
      r_audio_codec = (case lead of None \<Rightarrow> [] | Some a \<Rightarrow> PlexCodec (a_codec a)),
      r_width = p_width p, r_height = p_height p, r_audio_channels = (case lead of None \<Rightarrow> 0 | Some a \<Rightarrow> a_channels a),
      r_duration = RuntimeMillis p, r_bitrate = (if file_bits p * 1000 \<le> MaxInt32 then file_bits p * 1000 else 0),
      r_fps = f_div (Fin (of_int (FpsMilli p))) 1000,
      r_aspect = (if p_height p > 0 then f_div (Fin (of_int (p_width p))) (of_int (p_height p)) else Fin 0),
      ItemExtra = (SourceKey, SourceValue) # opt_pair ProbeHashKey probeHash @ opt_pair ''ma:videoProfile'' (ToLower (VideoProfile p))
        @ (case lead of None \<Rightarrow> [] | Some a \<Rightarrow> opt_pair ''ma:audioProfile'' (ToLower (a_profile a))),
      PartExtra = [(SourceKey, SourceValue), (''ma:container'', p_container p)],
      ColorTRC = colorTRC (HDR p), AnalysisVersion = MediaAnalysisVersion, OptimizedForStreaming = None\<rparr>)"

definition video_extra :: "Probe \<Rightarrow> extra" where
  "video_extra p = (SourceKey, SourceValue) # (if VideoBitDepth p > 0 then [(''ma:bitDepth'', itoa (VideoBitDepth p))] else [])
     @ opt_pair ''ma:profile'' (ToLower (VideoProfile p))
     @ (if p_width p > 0 \<and> p_height p > 0 then [(''ma:width'', itoa (p_width p)), (''ma:codedWidth'', itoa (p_width p)),
          (''ma:height'', itoa (p_height p)), (''ma:codedHeight'', itoa (p_height p))] else [])
     @ (if FpsMilli p > 0 then [(''ma:frameRate'', fixed3 (f_div (Fin (of_int (FpsMilli p))) 1000))] else [])
     @ (''ma:scanType'', ''progressive'') # opt_pair ''ma:chromaSubsampling'' (chromaSubsampling (PixelFormat p))"

definition video_row :: "Probe \<Rightarrow> StreamRow" where
  "video_row p = \<lparr>w_type = streamVideo, w_index = 0, w_channels = 0, w_bitrate = streamBps (VideoBitrateKbps p),
     w_codec = PlexCodec (VideoCodec p), w_language = [], w_default = True, w_forced = False, w_extra = video_extra p\<rparr>"

definition audio_row :: "(string \<Rightarrow> string option) \<Rightarrow> string \<Rightarrow> Audio \<Rightarrow> StreamRow" where
  "audio_row base lang a = \<lparr>w_type = streamAudio, w_index = a_index a, w_channels = a_channels a, w_bitrate = streamBps (a_kbps a),
     w_codec = PlexCodec (a_codec a), w_language = AudioLanguage base a lang, w_default = a_default a, w_forced = False,
     w_extra = (SourceKey, SourceValue) # opt_pair ''ma:audioChannelLayout'' (a_layout a) @ opt_pair ''ma:profile'' (ToLower (a_profile a))
       @ opt_pair ''ma:title'' (a_title a) @ (if a_commentary a then [(''ma:commentary'', ''1'')] else [])\<rparr>"

definition subtitle_row :: "(string \<Rightarrow> string option) \<Rightarrow> Subtitle \<Rightarrow> StreamRow" where
  "subtitle_row base s = \<lparr>w_type = streamSubtitle, w_index = u_index s, w_channels = 0, w_bitrate = 0,
     w_codec = PlexCodec (u_codec s), w_language = PlexLanguage base (u_language s), w_default = False, w_forced = u_forced s,
     w_extra = (SourceKey, SourceValue) # opt_pair ''ma:title'' (u_title s)
       @ (if u_impaired s then [(''ma:hearingImpaired'', ''1'')] else []) @ (if u_bitmap s then [(''ma:bitmap'', ''1'')] else [])\<rparr>"

definition MediaRows :: "(string \<Rightarrow> string option) \<Rightarrow> Probe \<Rightarrow> string \<Rightarrow> string \<Rightarrow> MediaRow \<times> StreamRow list" where
  "MediaRows base p probeHash originalLanguage = (media_row p probeHash,
     (if VideoCodec p \<noteq> [] then [video_row p] else []) @ map (audio_row base originalLanguage) (p_audio p)
       @ map (subtitle_row base) (p_subtitles p))"

section \<open>Markers\<close>

record MarkerRow =
  k_text :: string
  k_index :: int
  k_start :: int
  k_end :: int
  k_final :: bool
  k_source :: string

definition finalSlack :: int where "finalSlack = 2000"

definition answered :: "string \<Rightarrow> bool" where
  "answered r \<longleftrightarrow> r = ''Found'' \<or> r = ''NotFound''"

text \<open>The marker kind of a segment, \<open>None\<close> for one that shows nothing, and whether it is the final one.\<close>

definition segment_text :: "Segment \<Rightarrow> string option" where
  "segment_text s = (if sg_kind s = ''intro'' \<or> sg_kind s = ''recap'' then Some ''intro''
     else if sg_kind s = ''credits'' \<or> sg_kind s = ''preview'' then Some ''credits'' else None)"

definition segment_final :: "int \<Rightarrow> Segment \<Rightarrow> bool" where
  "segment_final durationMs s \<longleftrightarrow> sg_kind s = ''credits'' \<and> durationMs > 0 \<and> EndMs s \<ge> durationMs - finalSlack"

type_synonym marker_map = "MarkerRow list \<times> MarkerRow list"

fun marker_loop :: "int \<Rightarrow> Segment list \<Rightarrow> marker_map \<Rightarrow> marker_map" where
  "marker_loop dur [] m = m"
| "marker_loop dur (s # ss) (intro, credits) =
     (let row = (\<lambda>t out. \<lparr>k_text = t, k_index = wrap32 (int (length out)), k_start = StartMs s, k_end = EndMs s,
          k_final = segment_final dur s, k_source = (if sg_source s = [] then MarkerSource else sg_source s)\<rparr>)
      in case segment_text s of
           None \<Rightarrow> marker_loop dur ss (intro, credits)
         | Some t \<Rightarrow> if t = ''intro'' then marker_loop dur ss (intro @ [row t intro], credits)
                     else marker_loop dur ss (intro, credits @ [row t credits]))"

text \<open>\<open>None\<close> is no answer: change nothing. The rows are those of \<open>intro\<close> and of \<open>credits\<close>.\<close>

definition MarkerRows :: "Markers option \<Rightarrow> int \<Rightarrow> marker_map option" where
  "MarkerRows mk durationMs = (case mk of None \<Rightarrow> None | Some m \<Rightarrow>
     if mk_segments m = [] \<and> \<not> answered (mk_result m) \<and> (case mk_analysis m of None \<Rightarrow> True | Some r \<Rightarrow> \<not> answered r) then None
     else Some (marker_loop durationMs (sort_stable (\<lambda>a b. StartMs a < StartMs b) (mk_segments m)) ([], [])))"

definition markerExtra :: "MarkerRow \<Rightarrow> extra" where
  "markerExtra r = [(MarkerKey, if k_source r = [] then MarkerSource else k_source r), (''pv:version'', markerVersion)]
     @ (if k_final r then [(''pv:final'', ''1'')] else [])"

section \<open>Sidecars\<close>

record SidecarRow =
  d_url :: string
  d_codec :: string
  d_language :: string
  d_forced :: bool
  d_extra :: extra

definition subtitleFormats :: "string list" where
  "subtitleFormats = [''srt'', ''ass'', ''ssa'', ''vtt'', ''smi'']"

text \<open>The replacer works in one pass.\<close>

definition SidecarURL :: "string \<Rightarrow> string" where
  "SidecarURL p = ''file://'' @ concat (map (\<lambda>c. if c = CHR ''%'' then ''%25'' else if c = CHR '' '' then ''%20'' else [c]) p)"

definition bare_name :: "string \<Rightarrow> bool" where
  "bare_name n \<longleftrightarrow> n \<noteq> [] \<and> slash \<notin> set n \<and> n \<noteq> ''.'' \<and> n \<noteq> ''..''"

definition sidecar_format :: "Sidecar \<Rightarrow> string" where
  "sidecar_format s = ToLower (trim_prefix (Ext (c_name s)) ''.'')"

definition sidecar_row :: "string \<Rightarrow> Sidecar \<Rightarrow> SidecarRow" where
  "sidecar_row dir s = \<lparr>d_url = SidecarURL (dir @ slash # c_name s), d_codec = sidecar_format s, d_language = c_language s,
     d_forced = c_forced s, d_extra = [(SourceKey, SourceValue), (''ma:format'', sidecar_format s)]
       @ (if c_hi s then [(''ma:hearingImpaired'', ''1'')] else [])\<rparr>"

definition SidecarRows :: "string \<Rightarrow> Sidecar list \<Rightarrow> SidecarRow list" where
  "SidecarRows plexPath sidecars = map (sidecar_row (Dir plexPath))
     (filter (\<lambda>s. bare_name (c_name s) \<and> sidecar_format s \<in> set subtitleFormats) sidecars)"

section \<open>The layout of an MP4\<close>

datatype mp4_error = ErrNotMP4 | ErrRead int | ErrUnexpected int | ErrSize int | ErrNoBox

definition fastStartMaxBoxes :: nat where "fastStartMaxBoxes = 16"

definition be_int :: "8 word list \<Rightarrow> int" where
  "be_int bs = foldl (\<lambda>a b. a * 256 + uint b) 0 bs"

definition ascii :: "string \<Rightarrow> 8 word list" where
  "ascii s = map (\<lambda>c. of_nat (of_char c)) s"

definition leading_boxes :: "8 word list list" where
  "leading_boxes = map ascii [''ftyp'', ''free'', ''skip'', ''wide'', ''uuid'', ''pdin'', ''styp'', ''sidx'', ''prft'']"

text \<open>\<open>read off\<close> answers the eight bytes at an offset, or none: an error, or the end of the file before them.\<close>

fun fast_start :: "(int \<Rightarrow> 8 word list option) \<Rightarrow> nat \<Rightarrow> nat \<Rightarrow> int \<Rightarrow> mp4_error + bool" where
  "fast_start read i 0 off = Inl ErrNoBox"
| "fast_start read i (Suc left) off = (case read off of
       None \<Rightarrow> Inl (if i = 0 then ErrNotMP4 else ErrRead off)
     | Some hdr \<Rightarrow> (let typ = take 4 (drop 4 hdr) in
         if i = 0 \<and> typ \<noteq> ascii ''ftyp'' then Inl ErrNotMP4
         else (let n = be_int (take 4 hdr);
                   size = (if n = 1 then map_option (\<lambda>l. wrap64 (be_int l)) (read (wrap64 (off + 8))) else Some (if n = 0 then -1 else n))
               in case size of
                 None \<Rightarrow> Inl (ErrRead off)
               | Some sz \<Rightarrow> if typ = ascii ''moov'' then Inr True
                   else if typ = ascii ''mdat'' then Inr False
                   else if typ \<notin> set leading_boxes then Inl (ErrUnexpected off)
                   else if sz < 8 then Inl (ErrSize off)
                   else fast_start read (Suc i) left (wrap64 (off + sz)))))"

definition FastStart :: "(int \<Rightarrow> 8 word list option) \<Rightarrow> mp4_error + bool" where
  "FastStart read = fast_start read 0 fastStartMaxBoxes 0"

text \<open>Reading a file that holds \<open>bs\<close>.\<close>

definition read_file :: "8 word list \<Rightarrow> int \<Rightarrow> 8 word list option" where
  "read_file bs off = (if 0 \<le> off \<and> off + 8 \<le> int (length bs) then Some (take 8 (drop (nat off) bs)) else None)"

end
