(* ===== verification/Seed_Facts.thy ===== *)
theory Seed_Facts
  imports Seed_Rows Fmp4_Splitter
begin

text \<open>
  What the rows of a file promise: the streaming flag of an MP4 is where its \<open>moov\<close> box stands, the \<open>url\<close> of extra data
  gives its pairs back, and the markers of a kind are numbered from 0 in the order of their start.
\<close>

section \<open>The streaming flag\<close>

lemma be_int_big_endian: "be_int bs = int (big_endian bs)"
proof -
  have *: "foldl (\<lambda>a b. a * 256 + uint b) (int n) bs = int (foldl (\<lambda>n b. 256 * n + unat b) n bs)" for n
  proof (induction bs arbitrary: n)
    case (Cons b bs)
    have "int n * 256 + uint b = int (256 * n + unat b)" by (simp add: mult.commute)
    then show ?case using Cons [of "256 * n + unat b"] by (simp add: mult.commute)
  qed simp
  show ?thesis using * [of 0] by (simp add: be_int_def big_endian_def)
qed

lemma ascii_box_type: "ascii t = box_type t"
  by (simp add: ascii_def box_type_def)

lemma read_file_at:
  assumes "length a + 8 \<le> length (a @ b)"
  shows "read_file (a @ b) (int (length a)) = Some (take 8 b)"
  using assms by (simp add: read_file_def)

definition leading_names :: "string list" where
  "leading_names = [''ftyp'', ''free'', ''skip'', ''wide'', ''uuid'', ''pdin'', ''styp'', ''sidx'', ''prft'']"

lemma leading_iff: "box_type t \<in> set leading_boxes \<longleftrightarrow> t \<in> set leading_names"
proof -
  have eq: "leading_boxes = map box_type leading_names" by (simp add: leading_boxes_def leading_names_def ascii_box_type)
  show ?thesis unfolding eq by (auto simp: box_type_inject)
qed

lemma mk_box_header:
  assumes "box_ok (t, p)"
  shows "take 4 (take 8 (mk_box t p @ q)) = be32 (8 + length p)" and "take 4 (drop 4 (take 8 (mk_box t p @ q))) = box_type t"
    and "be_int (be32 (8 + length p)) = 8 + int (length p)"
  using assms mk_box_parts [of t p] big_endian_be32 [of "8 + length p"]
  by (simp_all add: box_ok_def be_int_big_endian drop_take min_def box_type_def)

lemma fast_start_box:
  assumes "box_ok (t, p)" and f: "bs = a @ mk_box t p @ q" and "int (length bs) < 2 ^ 63" and "i = 0 \<Longrightarrow> t = ''ftyp''"
  shows "fast_start (read_file bs) i (Suc n) (int (length a)) = (if t = ''moov'' then Inr True else if t = ''mdat'' then Inr False
     else if t \<notin> set leading_names then Inl (ErrUnexpected (int (length a)))
     else fast_start (read_file bs) (Suc i) n (int (length (a @ mk_box t p))))"
proof -
  have l: "length (mk_box t p) = 8 + length p" using assms(1) mk_box_parts(1) by (simp add: box_ok_def)
  have "read_file bs (int (length a)) = Some (take 8 (mk_box t p @ q))" unfolding f using l by (intro read_file_at) simp
  moreover have "wrap64 (int (length a) + (8 + int (length p))) = int (length (a @ mk_box t p))"
    using assms(3) l f by (simp add: wrap64_id in_int64_def)
  moreover have "box_type t = box_type ''moov'' \<longleftrightarrow> t = ''moov''" "box_type t = box_type ''mdat'' \<longleftrightarrow> t = ''mdat''"
    "box_type t = box_type ''ftyp'' \<longleftrightarrow> t = ''ftyp''" by (simp_all only: box_type_inject)
  moreover have "8 + int (length p) \<noteq> 1" "8 + int (length p) \<noteq> 0" "\<not> 8 + int (length p) < 8" by linarith+
  moreover obtain hdr where hdr: "hdr = take 8 (mk_box t p @ q)" by blast
  moreover have "be_int (take 4 hdr) = 8 + int (length p)" "take 4 (drop 4 hdr) = box_type t"
    unfolding hdr mk_box_header [OF assms(1)] by (simp_all only: mk_box_header(3) [OF assms(1)])
  ultimately show ?thesis using assms(4) unfolding fast_start.simps hdr [symmetric] ascii_box_type
    by (simp add: leading_iff box_type_inject Let_def)
qed

lemma fast_start_walk:
  assumes "list_all box_ok pre" and "list_all (\<lambda>b. fst b \<in> set leading_names) pre" and "box_ok (t, p)" and "t = ''moov'' \<or> t = ''mdat''"
    and "bs = a @ mk_boxes pre @ mk_box t p @ q" and "int (length bs) < 2 ^ 63" and "length pre < n"
    and "i = 0 \<Longrightarrow> pre \<noteq> [] \<and> fst (hd pre) = ''ftyp''"
  shows "fast_start (read_file bs) i n (int (length a)) = Inr (t = ''moov'')"
  using assms
proof (induction pre arbitrary: a i n)
  case Nil
  then obtain m where n: "n = Suc m" by (cases n) auto
  have "i \<noteq> 0" using Nil.prems(8) by auto
  then show ?case using Nil.prems fast_start_box [of t p bs a q i m] by (auto simp: n mk_boxes_def)
next
  case (Cons b pre)
  obtain u r where b: "b = (u, r)" by (cases b)
  obtain m where n: "n = Suc m" using Cons.prems(7) by (cases n) auto
  have u: "u \<noteq> ''moov'' \<and> u \<noteq> ''mdat'' \<and> u \<in> set leading_names" using Cons.prems(2) b by (auto simp: leading_names_def)
  have eq: "bs = a @ mk_box u r @ (mk_boxes pre @ mk_box t p @ q)" using Cons.prems(5) b by (simp add: mk_boxes_Cons)
  have "fast_start (read_file bs) i n (int (length a)) = fast_start (read_file bs) (Suc i) m (int (length (a @ mk_box u r)))"
    using fast_start_box [OF _ eq Cons.prems(6), of i m] Cons.prems(1,8) u b n by simp
  also have "\<dots> = Inr (t = ''moov'')"
    using Cons.prems b n eq by (intro Cons.IH) auto
  finally show ?case .
qed



section \<open>The url of extra data\<close>

definition unescape_pair :: "string \<Rightarrow> string option \<times> string option" where
  "unescape_pair s = (case cut_at CHR ''='' s of (k, v, _) \<Rightarrow> (QueryUnescape k, QueryUnescape v))"

definition decode_url :: "string \<Rightarrow> (string option \<times> string option) list" where
  "decode_url u = map unescape_pair (split_on CHR ''&'' u)"

lemma plexEscape_Nil [simp]: "plexEscape [] = []"
  by (simp add: plexEscape_def)

lemma plexEscape_Cons: "plexEscape (c # s) = (if plex_char c then [c] else [CHR ''%'', hex_digit (of_char c div 16), hex_digit (of_char c mod 16)]) @ plexEscape s"
  by (simp add: plexEscape_def)

lemma unescape_plex: "QueryUnescape (plexEscape s) = Some s"
proof (induction s)
  case (Cons c s)
  have "(of_char c :: nat) < 256" using nat_of_char_less_256 by simp
  then have d: "(of_char c :: nat) div 16 < 16" by (simp add: less_mult_imp_div_less)
  have "plex_char c \<Longrightarrow> c \<noteq> CHR ''%'' \<and> c \<noteq> CHR ''+''" by (auto simp: plex_char_def)
  with d Cons show ?case by (auto simp: plexEscape_Cons mult.commute)
qed simp

lemma hex_digit_plain: "n < 16 \<Longrightarrow> hex_digit n \<noteq> CHR ''='' \<and> hex_digit n \<noteq> CHR ''&''"
proof -
  assume n: "n < 16"
  have "\<forall>n \<in> set [0..<16]. hex_digit n \<noteq> CHR ''='' \<and> hex_digit n \<noteq> CHR ''&''" by code_simp
  then show ?thesis using n by simp
qed

lemma plexEscape_plain: "CHR ''='' \<notin> set (plexEscape s)" "CHR ''&'' \<notin> set (plexEscape s)"
proof -
  have "CHR ''='' \<notin> set (plexEscape s) \<and> CHR ''&'' \<notin> set (plexEscape s)"
  proof (induction s)
    case (Cons c s)
    have "(of_char c :: nat) < 256" using nat_of_char_less_256 by simp
    then have d: "(of_char c :: nat) div 16 < 16" by (simp add: less_mult_imp_div_less)
    have "plex_char c \<Longrightarrow> c \<noteq> CHR ''='' \<and> c \<noteq> CHR ''&''" by (auto simp: plex_char_def)
    with Cons hex_digit_plain [OF d] hex_digit_plain [of "of_char c mod 16"] show ?case by (auto simp: plexEscape_Cons)
  qed simp
  then show "CHR ''='' \<notin> set (plexEscape s)" "CHR ''&'' \<notin> set (plexEscape s)" by auto
qed

lemma cut_at_first: "c \<notin> set a \<Longrightarrow> cut_at c (a @ c # b) = (a, b, True)"
  by (induction a) auto

text \<open>The \<open>url\<close> of extra data holds exactly its pairs, sorted by key: decoding it as a query gives them back.\<close>

theorem extra_url_roundtrip:
  assumes "kv \<noteq> []"
  shows "decode_url (ExtraData_url kv) = map (\<lambda>(k, v). (Some k, Some v)) (sort_key fst kv)"
proof -
  let ?enc = "\<lambda>(k, v). plexEscape k @ ''='' @ plexEscape v"
  have "list_all (\<lambda>e. CHR ''&'' \<notin> set e) (map ?enc (sort_key fst kv))" by (auto simp: list_all_iff plexEscape_plain)
  moreover have "sort_key fst kv \<noteq> []" using assms by (metis length_0_conv length_sort)
  ultimately have "split_on CHR ''&'' (ExtraData_url kv) = map ?enc (sort_key fst kv)"
    unfolding ExtraData_url_def by (intro split_on_join) simp_all
  moreover have "unescape_pair (?enc p) = (\<lambda>(k, v). (Some k, Some v)) p" for p
    using cut_at_first plexEscape_plain(1) by (cases p) (simp add: unescape_pair_def unescape_plex)
  ultimately show ?thesis unfolding decode_url_def by simp
qed

lemma extra_url_roundtrip_witness:
  "decode_url (ExtraData_url [(''ma:audioChannelLayout'', ''5.1(side)''), (SourceKey, SourceValue)])
     = [(Some SourceKey, Some SourceValue), (Some ''ma:audioChannelLayout'', Some ''5.1(side)'')]"
  by (subst extra_url_roundtrip) (simp, code_simp)

section \<open>Markers\<close>

definition times :: "MarkerRow list \<Rightarrow> (int \<times> int) list" where
  "times rows = map (\<lambda>r. (k_start r, k_end r)) rows"

definition segment_times :: "string \<Rightarrow> Segment list \<Rightarrow> (int \<times> int) list" where
  "segment_times t ss = map (\<lambda>s. (StartMs s, EndMs s)) (filter (\<lambda>s. segment_text s = Some t) ss)"

lemma marker_loop_times:
  "marker_loop dur ss (i, c) = (i', c') \<Longrightarrow> times i' = times i @ segment_times ''intro'' ss \<and> times c' = times c @ segment_times ''credits'' ss"
proof (induction ss arbitrary: i c)
  case (Cons s ss)
  consider (none) "segment_text s = None" | (intro) "segment_text s = Some ''intro''" | (credits) "segment_text s = Some ''credits''"
  proof -
    have "segment_text s \<in> {None, Some ''intro'', Some ''credits''}" by (simp add: segment_text_def)
    then show thesis using that by blast
  qed
  then show ?case
  proof cases
    case none
    then show ?thesis using Cons by (simp add: segment_times_def)
  next
    case intro
    obtain r where "marker_loop dur ss (i @ [r], c) = (i', c')" "k_start r = StartMs s" "k_end r = EndMs s"
      using Cons.prems intro by (fastforce simp: Let_def)
    with Cons.IH show ?thesis using intro by (fastforce simp: segment_times_def times_def)
  next
    case credits
    obtain r where "marker_loop dur ss (i, c @ [r]) = (i', c')" "k_start r = StartMs s" "k_end r = EndMs s"
      using Cons.prems credits by (fastforce simp: Let_def)
    with Cons.IH show ?thesis using credits by (fastforce simp: segment_times_def times_def)
  qed
qed (simp add: times_def segment_times_def)

lemma marker_loop_index:
  assumes "marker_loop dur ss (i, c) = (i', c')" and "map k_index i = map int [0..<length i]" and "map k_index c = map int [0..<length c]"
    and "length i + length c + length ss < 2 ^ 31"
  shows "map k_index i' = map int [0..<length i'] \<and> map k_index c' = map int [0..<length c']"
  using assms
proof (induction ss arbitrary: i c)
  case (Cons s ss)
  have "wrap32 (int (length i)) = int (length i)" "wrap32 (int (length c)) = int (length c)"
    using Cons.prems(4) by (simp_all add: wrap32_id in_int32_def)
  with Cons show ?case by (auto simp: Let_def split: option.splits if_splits)
qed simp

text \<open>
  The markers of a kind are the segments of that kind, in the order of their start and, for equal starts, of the answer,
  and are numbered from 0: none is lost, doubled or invented.
\<close>

theorem markers_numbered_in_order:
  assumes "MarkerRows (Some m) dur = Some (intro, credits)" and "length (mk_segments m) < 2 ^ 31"
  shows "times intro = segment_times ''intro'' (sort_key StartMs (mk_segments m)) \<and> times credits = segment_times ''credits'' (sort_key StartMs (mk_segments m))
    \<and> sorted (map k_start intro) \<and> sorted (map k_start credits)
    \<and> map k_index intro = map int [0..<length intro] \<and> map k_index credits = map int [0..<length credits]"
proof -
  let ?ss = "sort_key StartMs (mk_segments m)"
  have s: "sort_stable (\<lambda>a b. StartMs a < StartMs b) (mk_segments m) = ?ss" by (rule sort_stable_key) simp
  have l: "marker_loop dur ?ss ([], []) = (intro, credits)" using assms(1) by (simp add: MarkerRows_def s split: if_splits)
  have t: "times intro = segment_times ''intro'' ?ss" "times credits = segment_times ''credits'' ?ss"
    using marker_loop_times [OF l] by (simp_all add: times_def)
  have starts: "map k_start rows = map fst (times rows)" for rows by (simp add: times_def)
  have sorted_times: "sorted (map fst (segment_times k ?ss))" for k
    unfolding segment_times_def by (simp add: comp_def sorted_filter)
  show ?thesis using t starts sorted_times marker_loop_index [OF l] assms(2) by simp
qed

lemma markers_numbered_in_order_witness:
  "case MarkerRows (Some \<lparr>mk_result = ''Found'', mk_segments = [\<lparr>sg_kind = ''credits'', StartMs = 90, EndMs = 100, sg_source = []\<rparr>,
       \<lparr>sg_kind = ''intro'', StartMs = 9, EndMs = 12, sg_source = []\<rparr>, \<lparr>sg_kind = ''recap'', StartMs = 1, EndMs = 8, sg_source = []\<rparr>],
       mk_analysis = None\<rparr>) 100 of None \<Rightarrow> False
     | Some (intro, credits) \<Rightarrow> map k_start intro = [1, 9] \<and> map k_index intro = [0, 1] \<and> map k_index credits = [0]"
proof -
  let ?m = "\<lparr>mk_result = ''Found'', mk_segments = [\<lparr>sg_kind = ''credits'', StartMs = 90, EndMs = 100, sg_source = []\<rparr>,
       \<lparr>sg_kind = ''intro'', StartMs = 9, EndMs = 12, sg_source = []\<rparr>, \<lparr>sg_kind = ''recap'', StartMs = 1, EndMs = 8, sg_source = []\<rparr>],
       mk_analysis = None\<rparr>"
  have "MarkerRows (Some ?m) 100 \<noteq> None" by (simp add: MarkerRows_def)
  then obtain intro credits where r: "MarkerRows (Some ?m) 100 = Some (intro, credits)" by (metis not_None_eq surj_pair)
  have t: "segment_times ''intro'' (sort_key StartMs (mk_segments ?m)) = [(1, 8), (9, 12)]"
    "segment_times ''credits'' (sort_key StartMs (mk_segments ?m)) = [(90, 100)]" by code_simp+
  have "length intro = 2" "length credits = 1" "map k_start intro = [1, 9]"
    using markers_numbered_in_order [OF r] t by (auto simp: times_def dest: map_eq_imp_length_eq)
  then show ?thesis using markers_numbered_in_order [OF r] by (simp add: r upt_rec)
qed

end
