(* ===== verification/Library_Db.thy ===== *)
theory Library_Db
  imports Seed_Rows
begin

text \<open>
  The tables of Plex's PostgreSQL library that \<open>src/pkg/plexproject\<close> writes, and its statements on items: \<open>guid.go\<close>,
  \<open>items.go\<close>, \<open>covered.go\<close>. A table is the list of its rows in no particular order, a query a filter with its \<open>ORDER BY\<close> as a
  sort key, an \<open>UPDATE\<close> a map over the rows its condition names. Nullable text that the code reads through \<open>coalesce\<close> is a
  string, a nullable number or time an option; \<open>extra_data\<close> is the map its JSON object holds, which is what the code
  reads of it and what its \<open>LIKE\<close> patterns look for. One counter gives the ids of all tables. The columns the seeder writes as one group are one
  field, \<open>None\<close> when they are NULL. Columns the projection neither reads nor decides on are left out.
\<close>

section \<open>The tables\<close>

record item =
  i_id :: int
  i_section :: int
  i_parent :: "int option"
  i_type :: int
  i_guid :: string
  i_edition :: string
  i_hash :: string
  i_deleted :: "int option"
  i_count :: int
  i_title :: string
  i_title_sort :: string
  i_index :: "int option"
  i_year :: "int option"
  i_added :: int
  i_updated :: int

record media =
  m_id :: int
  m_section :: int
  m_location :: int
  m_item :: "int option"
  m_size :: int
  m_deleted :: "int option"
  m_updated :: int
  m_extra :: extra
  m_version :: int
  m_optimized :: "int option"
  m_columns :: "MediaRow option"

record part =
  p_id :: int
  p_media :: int
  p_dir :: "int option"
  p_file :: string
  p_size :: int
  p_deleted :: "int option"
  p_updated :: int
  p_duration :: "int option"
  p_extra :: extra

record directory =
  d_id :: int
  d_section :: int
  d_parent :: "int option"
  d_path :: string
  d_deleted :: "int option"

text \<open>Watched state is keyed by guid and account, never by row.\<close>

record setting =
  s_guid :: string
  s_account :: "int option"
  s_state :: string

record stream =
  st_id :: int
  st_media :: int
  st_part :: int
  st_type :: int
  st_index :: "int option"
  st_url :: string
  st_codec :: string
  st_language :: "string option"
  st_channels :: "int option"
  st_bitrate :: "int option"
  st_default :: bool
  st_forced :: bool
  st_extra :: extra

record tag =
  t_id :: int
  t_type :: int
  t_name :: string

record tagging =
  g_id :: int
  g_item :: int
  g_tag :: int
  g_index :: int
  g_text :: string
  g_start :: int
  g_end :: int
  g_extra :: extra

record location =
  l_id :: int
  l_section :: int
  l_root :: string

record db =
  items :: "item list"
  medias :: "media list"
  parts :: "part list"
  dirs :: "directory list"
  settings :: "setting list"
  streams :: "stream list"
  part_settings :: "int list"
  tags :: "tag list"
  taggings :: "tagging list"
  locations :: "location list"
  next_id :: int

text \<open>\<open>ORDER BY key LIMIT 1\<close>.\<close>

definition first_by :: "('a \<Rightarrow> 'k::linorder) \<Rightarrow> 'a list \<Rightarrow> 'a option" where
  "first_by k rows = (case sort_key k rows of [] \<Rightarrow> None | r # _ \<Rightarrow> Some r)"

lemma first_by_None [simp]: "first_by k rows = None \<longleftrightarrow> rows = []"
  by (cases rows) (auto simp: first_by_def split: list.splits dest: arg_cong [where f = length])

lemma first_by_Nil [simp]: "first_by k [] = None"
  by simp

lemma first_by_min: "first_by k rows = Some r \<Longrightarrow> r \<in> set rows \<and> (\<forall>x \<in> set rows. k r \<le> k x)"
proof -
  assume f: "first_by k rows = Some r"
  then obtain rs where s: "sort_key k rows = r # rs" by (auto simp: first_by_def split: list.splits)
  have "r \<in> set rows" using s by (metis list.set_intros(1) set_sort)
  moreover have "sorted (map k (r # rs))" using s by (metis sorted_sort_key)
  moreover have "set rows = set (r # rs)" using s by (metis set_sort)
  ultimately show ?thesis by auto
qed

lemma first_by_least:
  assumes "r \<in> set rows" and "\<And>x. x \<in> set rows \<Longrightarrow> x \<noteq> r \<Longrightarrow> k r < k x"
  shows "first_by k rows = Some r"
proof -
  obtain r' where r': "first_by k rows = Some r'" using assms(1) by (cases "first_by k rows") auto
  with first_by_min [OF r'] assms show ?thesis by (metis linorder_not_le)
qed

definition update_items :: "(item \<Rightarrow> bool) \<Rightarrow> (item \<Rightarrow> item) \<Rightarrow> db \<Rightarrow> db" where
  "update_items c f d = d\<lparr>items := map (\<lambda>i. if c i then f i else i) (items d)\<rparr>"

definition item_at :: "db \<Rightarrow> int \<Rightarrow> item option" where
  "item_at d i = find (\<lambda>r. i_id r = i) (items d)"

section \<open>Guids\<close>

definition MoviesProvider :: string where "MoviesProvider = ''tv.plex.agents.custom.clustarr.movies''"
definition TVProvider :: string where "TVProvider = ''tv.plex.agents.custom.clustarr.tv''"

abbreviation (input) TypeMovie :: int where "TypeMovie \<equiv> 1"
abbreviation (input) TypeShow :: int where "TypeShow \<equiv> 2"
abbreviation (input) TypeSeason :: int where "TypeSeason \<equiv> 3"
abbreviation (input) TypeEpisode :: int where "TypeEpisode \<equiv> 4"

definition type_name :: "int \<Rightarrow> string" where
  "type_name t = (if t = TypeMovie then ''movie'' else if t = TypeShow then ''show'' else if t = TypeSeason then ''season''
     else if t = TypeEpisode then ''episode'' else [])"

definition GUID :: "string \<Rightarrow> int \<Rightarrow> string \<Rightarrow> string \<Rightarrow> string" where
  "GUID provider t ratingKey plexID =
     (if plexID \<noteq> [] then ''plex://'' @ type_name t @ ''/'' @ plexID else provider @ ''://'' @ type_name t @ ''/'' @ ratingKey)"

definition editionMarker :: string where "editionMarker = ''/edition/''"

text \<open>\<open>url.PathEscape\<close> keeps what a path segment may hold: letters, digits, \<open>-_.~\<close> and \<open>$&+:=@\<close>.\<close>

definition PathEscape :: "string \<Rightarrow> string" where
  "PathEscape s = concat (map (\<lambda>c. if url_unreserved c \<or> c \<in> set ''$&+:=@'' then [c]
     else [CHR ''%'', hex_digit (of_char c div 16), hex_digit (of_char c mod 16)]) s)"

definition EditionGUID :: "string \<Rightarrow> string \<Rightarrow> string" where
  "EditionGUID guid edition = (if guid = [] \<or> edition = [] then guid else guid @ editionMarker @ PathEscape edition)"

definition BaseGUID :: "string \<Rightarrow> string" where
  "BaseGUID guid = fst (cut_str editionMarker guid)"

definition has_edition :: "string \<Rightarrow> bool" where
  "has_edition guid \<longleftrightarrow> index_of editionMarker guid \<noteq> None"

definition CoveredUID :: "string \<Rightarrow> string \<Rightarrow> string" where
  "CoveredUID fileUID episode = fileUID @ ''#'' @ episode"

fun covered_loop :: "string \<Rightarrow> string list \<Rightarrow> string list \<Rightarrow> string list" where
  "covered_loop uid seen [] = []"
| "covered_loop uid seen (k # ks) =
     (if k = [] \<or> k \<in> set seen then covered_loop uid seen ks else CoveredUID uid k # covered_loop uid (k # seen) ks)"

definition CoveredUIDs :: "string \<Rightarrow> string \<Rightarrow> string list \<Rightarrow> string list" where
  "CoveredUIDs fileUID nm keys = fileUID # covered_loop fileUID [nm] keys"

section \<open>Finding and keying an item\<close>

record Node =
  NType :: int
  NUID :: string
  NGUID :: string
  PriorGUID :: string
  Edition :: string
  NTitle :: string
  TitleSort :: string
  NIndex :: int
  NYear :: int
  AddedAt :: "int option"
  Labels :: "string list"

record Item =
  Provider :: string
  Chain :: "Node list"
  ItemLanguage :: string
  hint :: int

definition node_keys :: "Node \<Rightarrow> string list" where
  "node_keys n = BaseGUID (NGUID n) # (if PriorGUID n \<noteq> [] then [BaseGUID (PriorGUID n)] else [])"

text \<open>\<open>array_position\<close>, the end of the list for NULL, which sorts last.\<close>

fun array_position :: "string list \<Rightarrow> string \<Rightarrow> nat" where
  "array_position [] x = 0"
| "array_position (y # ys) x = (if x = y then 0 else Suc (array_position ys x))"

definition trashed :: "item \<Rightarrow> bool" where
  "trashed r \<longleftrightarrow> i_deleted r \<noteq> None"

definition deleted_desc :: "item \<Rightarrow> int" where
  "deleted_desc r = (case i_deleted r of None \<Rightarrow> 0 | Some t \<Rightarrow> - t)"

definition placed :: "Node \<Rightarrow> int option \<Rightarrow> bool" where
  "placed n parent \<longleftrightarrow> parent \<noteq> None \<and> (NType n = TypeSeason \<or> NType n = TypeEpisode)"

definition matches_node :: "int \<Rightarrow> int option \<Rightarrow> Node \<Rightarrow> item \<Rightarrow> bool" where
  "matches_node sec parent n r \<longleftrightarrow> i_section r = sec \<and> i_type r = NType n
     \<and> (if NType n = TypeMovie then BaseGUID (i_guid r) \<in> set (node_keys n)
        else i_guid r \<in> set (node_keys n) \<or> (placed n parent \<and> i_parent r = parent \<and> i_index r = Some (NIndex n)))"

definition locate_key :: "Node \<Rightarrow> item \<Rightarrow> bool \<times> bool \<times> nat \<times> int \<times> int" where
  "locate_key n r = (trashed r, NType n = TypeMovie \<and> i_guid r \<noteq> NGUID n,
     array_position (node_keys n) (if NType n = TypeMovie then BaseGUID (i_guid r) else i_guid r), deleted_desc r, i_id r)"

definition locate :: "int \<Rightarrow> int option \<Rightarrow> Node \<Rightarrow> db \<Rightarrow> item option" where
  "locate sec parent n d = first_by (locate_key n) (filter (matches_node sec parent n) (items d))"

definition liveItem :: "int \<Rightarrow> int \<Rightarrow> int \<Rightarrow> db \<Rightarrow> item option" where
  "liveItem sec i t d = find (\<lambda>r. i_id r = i \<and> i_section r = sec \<and> i_type r = t \<and> \<not> trashed r) (items d)"

text \<open>The uniqueness test sees the table as it was before the statement.\<close>

definition moveWatchState :: "string \<Rightarrow> string \<Rightarrow> db \<Rightarrow> db" where
  "moveWatchState from to d = d\<lparr>settings := map (\<lambda>s.
     if s_guid s = from \<and> \<not> list_ex (\<lambda>t. s_guid t = to \<and> s_account t = s_account s) (settings d)
     then s\<lparr>s_guid := to\<rparr> else s) (settings d)\<rparr>"

text \<open>\<open>sha1\<close> in hex is the parameter \<open>bundle\<close>.\<close>

definition key_guid :: "item \<Rightarrow> Node \<Rightarrow> string" where
  "key_guid r n = (if i_edition r = Edition n \<and> BaseGUID (i_guid r) = BaseGUID (NGUID n) \<and> has_edition (i_guid r) = (Edition n \<noteq> [])
     then i_guid r else NGUID n)"

definition keyItem :: "(string \<Rightarrow> string) \<Rightarrow> int \<Rightarrow> item \<Rightarrow> Node \<Rightarrow> db \<Rightarrow> bool \<times> db" where
  "keyItem bundle now r n d = (let guid = key_guid r n in
     if guid = i_guid r \<and> i_edition r = Edition n \<and> \<not> trashed r then (False, d)
     else let hash = (if guid \<noteq> i_guid r \<and> i_hash r \<noteq> [] then bundle guid else i_hash r);
              d' = update_items (\<lambda>i. i_id i = i_id r)
                (\<lambda>i. i\<lparr>i_guid := guid, i_edition := Edition n, i_hash := hash, i_deleted := None, i_updated := now\<rparr>) d
          in if guid = i_guid r then (False, d') else (hash \<noteq> i_hash r, moveWatchState (i_guid r) guid d'))"

definition node_index :: "Node \<Rightarrow> int option" where
  "node_index n = (if NType n = TypeSeason \<or> NType n = TypeEpisode then Some (NIndex n) else None)"

definition insertItem :: "int \<Rightarrow> int \<Rightarrow> int option \<Rightarrow> Node \<Rightarrow> db \<Rightarrow> int \<times> db" where
  "insertItem now sec parent n d = (next_id d, d\<lparr>items := items d @ [\<lparr>i_id = next_id d, i_section = sec, i_parent = parent,
       i_type = NType n, i_guid = NGUID n, i_edition = Edition n, i_hash = [], i_deleted = None, i_count = 0,
       i_title = NTitle n, i_title_sort = TitleSort n, i_index = node_index n,
       i_year = (if NYear n \<noteq> 0 then Some (NYear n) else None),
       i_added = (case AddedAt n of None \<Rightarrow> now | Some t \<Rightarrow> t), i_updated = now\<rparr>], next_id := next_id d + 1\<rparr>)"

definition placeItem :: "int \<Rightarrow> int \<Rightarrow> int option \<Rightarrow> Node \<Rightarrow> db \<Rightarrow> db" where
  "placeItem now i parent n d = update_items (\<lambda>r. i_id r = i \<and> (i_parent r \<noteq> parent \<or> i_index r \<noteq> node_index n))
     (\<lambda>r. r\<lparr>i_parent := parent, i_index := node_index n, i_updated := now\<rparr>) d"

section \<open>The chain of an item\<close>

text \<open>One node: its row, whether Plex must fill it, and the tables.\<close>

definition choose_row :: "int \<Rightarrow> int option \<Rightarrow> Node \<Rightarrow> bool \<Rightarrow> int \<Rightarrow> db \<Rightarrow> item option" where
  "choose_row sec parent n at_leaf hnt d = (let found = locate sec parent n d in
     if at_leaf \<and> hnt \<noteq> 0 \<and> (case found of None \<Rightarrow> True | Some r \<Rightarrow> trashed r \<and> i_id r \<noteq> hnt)
     then (case liveItem sec hnt (NType n) d of Some r \<Rightarrow> Some r | None \<Rightarrow> found) else found)"

definition ensure_node :: "(string \<Rightarrow> string) \<Rightarrow> int \<Rightarrow> int \<Rightarrow> int option \<Rightarrow> Node \<Rightarrow> bool \<Rightarrow> int \<Rightarrow> db \<Rightarrow> int \<times> bool \<times> db" where
  "ensure_node bundle now sec parent n at_leaf hnt d = (case choose_row sec parent n at_leaf hnt d of
       None \<Rightarrow> (case insertItem now sec parent n d of (i, d') \<Rightarrow> (i, True, d'))
     | Some r \<Rightarrow> (case keyItem bundle now r n d of (fill, d') \<Rightarrow> (i_id r, fill, placeItem now (i_id r) parent n d')))"

text \<open>The walk down: the last target asked for, which is not asked for twice in a row, and the refreshes wanted.\<close>

fun ensure_nodes :: "(string \<Rightarrow> string) \<Rightarrow> int \<Rightarrow> int \<Rightarrow> int \<Rightarrow> int option \<Rightarrow> int \<Rightarrow> Node list \<Rightarrow> db \<Rightarrow> int list \<times> int list \<times> db" where
  "ensure_nodes bundle now sec hnt parent asked [] d = ([], [], d)"
| "ensure_nodes bundle now sec hnt parent asked (n # ns) d =
     (case ensure_node bundle now sec parent n (ns = []) hnt d of (i, fill, d') \<Rightarrow>
        let target = (if NType n = TypeEpisode then (case parent of Some p \<Rightarrow> p | None \<Rightarrow> i) else i);
            ask = fill \<and> target \<noteq> asked
        in (case ensure_nodes bundle now sec hnt (Some i) (if ask then target else asked) ns d' of (ids, refreshes, d'') \<Rightarrow>
              (i # ids, (if ask then [target] else []) @ refreshes, d'')))"

text \<open>The leaf's row, the root's, the rows Plex is asked to refresh and the tables; \<open>None\<close> for an item with no chain.\<close>

definition EnsureChain :: "(string \<Rightarrow> string) \<Rightarrow> int \<Rightarrow> int \<Rightarrow> Item \<Rightarrow> db \<Rightarrow> (int \<times> int \<times> int list \<times> db) option" where
  "EnsureChain bundle now sec it d = (case ensure_nodes bundle now sec (hint it) None 0 (Chain it) d of (ids, refreshes, d') \<Rightarrow>
     if ids = [] then None else Some (last ids, hd ids, refreshes, d'))"

definition refreshTarget :: "int \<Rightarrow> db \<Rightarrow> int option" where
  "refreshTarget i d = (case item_at d i of None \<Rightarrow> None
     | Some r \<Rightarrow> Some (if i_type r = TypeEpisode then (case i_parent r of Some p \<Rightarrow> p | None \<Rightarrow> i) else i))"

section \<open>Counting and trashing\<close>

definition live_media :: "int \<Rightarrow> db \<Rightarrow> nat" where
  "live_media i d = length (filter (\<lambda>m. m_item m = Some i \<and> m_deleted m = None) (medias d))"

definition live_children :: "int \<Rightarrow> db \<Rightarrow> nat" where
  "live_children i d = length (filter (\<lambda>r. i_parent r = Some i \<and> i_deleted r = None) (items d))"

definition countMedia :: "int \<Rightarrow> db \<Rightarrow> db" where
  "countMedia i d = update_items (\<lambda>r. i_id r = i) (\<lambda>r. r\<lparr>i_count := int (live_media i d)\<rparr>) d"

text \<open>The loop goes up the parents and would not end in a cycle of them.\<close>

partial_function (option) trashIfEmpty :: "int \<Rightarrow> int \<Rightarrow> db \<Rightarrow> db option" where
  "trashIfEmpty now i d = (if i = 0 then Some d else (case item_at d i of
       None \<Rightarrow> Some d
     | Some r \<Rightarrow>
         (let live = live_media i d + live_children i d; d1 = countMedia i d in
          if live > 0 then Some d1
          else let d2 = update_items (\<lambda>r. i_id r = i) (\<lambda>r. r\<lparr>i_deleted := Some now, i_updated := now\<rparr>) d1 in
            (case i_parent r of None \<Rightarrow> Some d2 | Some p \<Rightarrow> trashIfEmpty now p d2))))"

end
