(* ===== verification/Library_Chain.thy ===== *)
theory Library_Chain
  imports Library_Db
begin

text \<open>
  What the statements on items promise: applying an item's chain a second time finds the rows of the first, changes nothing
  and asks Plex for nothing; and a delete leaves no live item without a live file or a live child.
\<close>

section \<open>Queries and updates\<close>

definition wf_items :: "db \<Rightarrow> bool" where
  "wf_items d \<longleftrightarrow> 0 < next_id d \<and> distinct (map i_id (items d)) \<and> (\<forall>r \<in> set (items d). 0 < i_id r \<and> i_id r < next_id d)"

lemma wf_id: "wf_items d \<Longrightarrow> r \<in> set (items d) \<Longrightarrow> x \<in> set (items d) \<Longrightarrow> i_id x = i_id r \<Longrightarrow> x = r"
  by (auto simp: wf_items_def distinct_map inj_on_def)

lemma wf_update: "wf_items d \<Longrightarrow> (\<And>r. i_id (f r) = i_id r) \<Longrightarrow> wf_items (update_items c f d)"
  by (auto simp: wf_items_def update_items_def comp_def if_distrib cong: map_cong if_cong)

lemma items_moveWatchState [simp]: "items (moveWatchState a b d) = items d" "next_id (moveWatchState a b d) = next_id d"
  by (simp_all add: moveWatchState_def)

section \<open>A settled node\<close>

text \<open>The guids are those \<open>Resolve\<close> builds: only a movie has an edition, and its guid carries one exactly when it has.\<close>

definition node_ok :: "Node \<Rightarrow> bool" where
  "node_ok n \<longleftrightarrow> has_edition (NGUID n) = (Edition n \<noteq> []) \<and> (NType n \<noteq> TypeMovie \<longrightarrow> Edition n = [])"

definition settled :: "int \<Rightarrow> int option \<Rightarrow> Node \<Rightarrow> int \<Rightarrow> db \<Rightarrow> bool" where
  "settled sec parent n i d \<longleftrightarrow> (\<exists>r. locate sec parent n d = Some r \<and> i_id r = i \<and> \<not> trashed r \<and> key_guid r n = i_guid r
     \<and> i_edition r = Edition n \<and> i_parent r = parent \<and> i_index r = node_index n)"

lemma base_no_edition: "\<not> has_edition g \<Longrightarrow> BaseGUID g = g"
  by (auto simp: has_edition_def BaseGUID_def cut_str_def split: option.split)

lemma locate_in: "locate sec parent n d = Some r \<Longrightarrow> r \<in> set (items d) \<and> matches_node sec parent n r"
  unfolding locate_def using first_by_min by fastforce

lemma settled_again:
  assumes "settled sec parent n i d" and "wf_items d"
  shows "ensure_node bundle now sec parent n leaf hnt d = (i, False, d)"
proof -
  from assms(1) obtain r where r: "locate sec parent n d = Some r" "i_id r = i" "\<not> trashed r" "key_guid r n = i_guid r"
    "i_edition r = Edition n" "i_parent r = parent" "i_index r = node_index n" by (auto simp: settled_def)
  have "choose_row sec parent n leaf hnt d = Some r" using r(1,3) by (simp add: choose_row_def)
  moreover have "keyItem bundle now r n d = (False, d)" using r by (simp add: keyItem_def)
  moreover have "placeItem now (i_id r) parent n d = d"
  proof -
    have "x = r" if "x \<in> set (items d)" "i_id x = i_id r" for x
      using wf_id [OF assms(2)] locate_in [OF r(1)] that by blast
    then have "map (\<lambda>x. if i_id x = i_id r \<and> (i_parent x \<noteq> parent \<or> i_index x \<noteq> node_index n)
        then x\<lparr>i_parent := parent, i_index := node_index n, i_updated := now\<rparr> else x) (items d) = items d"
      using r(6,7) by (intro map_idI) auto
    then show ?thesis by (simp add: placeItem_def update_items_def)
  qed
  ultimately show ?thesis using r(2) by (simp add: ensure_node_def)
qed

text \<open>The row a node ends on, after the found row was keyed and placed.\<close>

definition keyed :: "(string \<Rightarrow> string) \<Rightarrow> int \<Rightarrow> int option \<Rightarrow> Node \<Rightarrow> item \<Rightarrow> item" where
  "keyed bundle now parent n r = (let guid = key_guid r n;
       r1 = (if guid = i_guid r \<and> i_edition r = Edition n \<and> \<not> trashed r then r
             else r\<lparr>i_guid := guid, i_edition := Edition n,
                    i_hash := (if guid \<noteq> i_guid r \<and> i_hash r \<noteq> [] then bundle guid else i_hash r), i_deleted := None, i_updated := now\<rparr>)
     in if i_parent r1 \<noteq> parent \<or> i_index r1 \<noteq> node_index n
        then r1\<lparr>i_parent := parent, i_index := node_index n, i_updated := now\<rparr> else r1)"

lemma keyed_fields [simp]:
  "i_id (keyed bundle now parent n r) = i_id r" "i_type (keyed bundle now parent n r) = i_type r"
  "i_section (keyed bundle now parent n r) = i_section r" "i_guid (keyed bundle now parent n r) = key_guid r n"
  "i_edition (keyed bundle now parent n r) = Edition n" "\<not> trashed (keyed bundle now parent n r)" "i_deleted (keyed bundle now parent n r) = None"
  "i_parent (keyed bundle now parent n r) = parent" "i_index (keyed bundle now parent n r) = node_index n"
  by (auto simp: keyed_def Let_def trashed_def)

lemma ensure_found:
  assumes "choose_row sec parent n leaf hnt d = Some r" and "r \<in> set (items d)" and "wf_items d"
    and "ensure_node bundle now sec parent n leaf hnt d = (i, fill, d')"
  shows "i = i_id r \<and> items d' = map (\<lambda>x. if i_id x = i_id r then keyed bundle now parent n r else x) (items d) \<and> next_id d' = next_id d"
proof -
  obtain f1 d1 where k1: "keyItem bundle now r n d = (f1, d1)" by (cases "keyItem bundle now r n d")
  have e: "i_id r = i" "f1 = fill" "placeItem now i parent n d1 = d'" using assms(4) by (simp_all add: ensure_node_def assms(1) k1 cong: conj_cong)
  note k = k1 [unfolded e(2)] and d' = e(3) [symmetric] e(1) [symmetric]
  have only: "x \<in> set (items d) \<Longrightarrow> i_id x = i_id r \<Longrightarrow> x = r" for x using wf_id assms(2,3) by blast
  define r1 where "r1 = (if key_guid r n = i_guid r \<and> i_edition r = Edition n \<and> \<not> trashed r then r
             else r\<lparr>i_guid := key_guid r n, i_edition := Edition n,
                    i_hash := (if key_guid r n \<noteq> i_guid r \<and> i_hash r \<noteq> [] then bundle (key_guid r n) else i_hash r), i_deleted := None, i_updated := now\<rparr>)"
  have id1: "i_id r1 = i_id r" by (simp add: r1_def)
  have a: "items (snd (keyItem bundle now r n d)) = (if key_guid r n = i_guid r \<and> i_edition r = Edition n \<and> \<not> trashed r then items d
      else map (\<lambda>i. if i_id i = i_id r then i\<lparr>i_guid := key_guid r n, i_edition := Edition n,
          i_hash := (if key_guid r n \<noteq> i_guid r \<and> i_hash r \<noteq> [] then bundle (key_guid r n) else i_hash r), i_deleted := None, i_updated := now\<rparr> else i) (items d))"
    "next_id (snd (keyItem bundle now r n d)) = next_id d"
    by (simp_all add: keyItem_def Let_def update_items_def)
  have b: "map (\<lambda>x. if i_id x = i_id r then r else x) (items d) = items d" using only by (intro map_idI) auto
  have c: "map (\<lambda>x. if i_id x = i_id r then r1 else x) (items d) = map (\<lambda>i. if i_id i = i_id r then i\<lparr>i_guid := key_guid r n, i_edition := Edition n,
          i_hash := (if key_guid r n \<noteq> i_guid r \<and> i_hash r \<noteq> [] then bundle (key_guid r n) else i_hash r), i_deleted := None, i_updated := now\<rparr> else i) (items d)"
    if "\<not> (key_guid r n = i_guid r \<and> i_edition r = Edition n \<and> \<not> trashed r)"
  proof (rule map_cong [OF refl])
    fix x assume x: "x \<in> set (items d)"
    show "(if i_id x = i_id r then r1 else x) = (if i_id x = i_id r then x\<lparr>i_guid := key_guid r n, i_edition := Edition n,
          i_hash := (if key_guid r n \<noteq> i_guid r \<and> i_hash r \<noteq> [] then bundle (key_guid r n) else i_hash r), i_deleted := None, i_updated := now\<rparr> else x)"
    proof (cases "i_id x = i_id r")
      case True
      show ?thesis unfolding only [OF x True] r1_def if_not_P [OF that] by simp
    qed simp
  qed
  have 1: "items d1 = map (\<lambda>x. if i_id x = i_id r then r1 else x) (items d)" "next_id d1 = next_id d"
  proof -
    show "next_id d1 = next_id d" using a(2) by (simp add: k)
    show "items d1 = map (\<lambda>x. if i_id x = i_id r then r1 else x) (items d)"
    proof (cases "key_guid r n = i_guid r \<and> i_edition r = Edition n \<and> \<not> trashed r")
      case True
      then have "r1 = r" by (simp add: r1_def)
      with True b show ?thesis using a(1) unfolding k snd_conv by (simp only: if_True simp_thms)
    next
      case False
      show ?thesis using a(1) unfolding k snd_conv if_not_P [OF False] c [OF False] .
    qed
  qed
  have "items d' = map (\<lambda>x. if i_id x = i_id r \<and> (i_parent x \<noteq> parent \<or> i_index x \<noteq> node_index n)
      then x\<lparr>i_parent := parent, i_index := node_index n, i_updated := now\<rparr> else x) (items d1)"
    "next_id d' = next_id d1" unfolding d'(1) by (simp_all add: e(1) placeItem_def update_items_def)
  moreover have "keyed bundle now parent n r = (if i_parent r1 \<noteq> parent \<or> i_index r1 \<noteq> node_index n
        then r1\<lparr>i_parent := parent, i_index := node_index n, i_updated := now\<rparr> else r1)"
    by (simp add: keyed_def Let_def r1_def)
  ultimately show ?thesis using 1 e(1) id1 by (simp add: comp_def cong: map_cong if_cong)
qed

text \<open>What makes a row the one a later search finds.\<close>

lemma array_position_first [simp]: "array_position (node_keys n) (BaseGUID (NGUID n)) = 0"
  by (simp add: node_keys_def)

lemma key_guid_base: "node_ok n \<Longrightarrow> BaseGUID (key_guid r n) = BaseGUID (NGUID n)"
  by (simp add: key_guid_def)

lemma key_guid_other: "node_ok n \<Longrightarrow> NType n \<noteq> TypeMovie \<Longrightarrow> key_guid r n = BaseGUID (NGUID n)"
  unfolding node_ok_def key_guid_def by (auto dest: base_no_edition)

lemma settled_by_least:
  assumes "r \<in> set (items d)" and "i_section r = sec" "i_type r = NType n" and "node_ok n"
    and g: "i_guid r = key_guid row n" "i_edition r = Edition n" "\<not> trashed r" "i_parent r = parent" "i_index r = node_index n"
    and least: "\<And>x. x \<in> set (items d) \<Longrightarrow> matches_node sec parent n x \<Longrightarrow> x \<noteq> r \<Longrightarrow> locate_key n r < locate_key n x"
  shows "settled sec parent n (i_id r) d"
proof -
  have base: "BaseGUID (i_guid r) = BaseGUID (NGUID n)" using assms(4) g(1) by (simp add: key_guid_base)
  have "matches_node sec parent n r"
    using assms(2-4) base key_guid_other [OF assms(4), of row] g(1) by (auto simp: matches_node_def node_keys_def)
  then have "locate sec parent n d = Some r" unfolding locate_def
    using assms(1) least by (intro first_by_least) auto
  moreover have "has_edition (i_guid r) = (Edition n \<noteq> [])"
    using g(1) assms(4) by (auto simp: key_guid_def node_ok_def split: if_splits)
  ultimately show ?thesis using g base unfolding settled_def by (auto simp: key_guid_def)
qed

lemma choose_row_in: "choose_row sec parent n leaf hnt d = Some r \<Longrightarrow> r \<in> set (items d) \<and> i_section r = sec \<and> i_type r = NType n"
  using locate_in [of sec parent n d r]
  by (auto simp: choose_row_def Let_def liveItem_def matches_node_def find_Some_iff split: if_splits option.splits dest: nth_mem)

text \<open>The row chosen, once keyed, comes before every other row the node matches.\<close>

lemma keyed_least:
  assumes c: "choose_row sec parent n leaf hnt d = Some r" and "node_ok n" and wf: "wf_items d"
    and x: "x \<in> set (items d)" "matches_node sec parent n x" "x \<noteq> r"
  shows "locate_key n (keyed bundle now parent n r) < locate_key n x"
proof -
  let ?k = "keyed bundle now parent n r"
  have rin: "r \<in> set (items d)" using choose_row_in [OF c] by blast
  have ids: "i_id x \<noteq> i_id r" using wf_id [OF wf rin x(1)] x(3) by blast
  have kk: "locate_key n ?k = (False, NType n = TypeMovie \<and> key_guid r n \<noteq> NGUID n, 0, 0, i_id r)"
    using key_guid_base [OF assms(2), of r] key_guid_other [OF assms(2), of r]
    by (auto simp: locate_key_def deleted_desc_def)
  show ?thesis
  proof (cases "trashed x")
    case True
    then show ?thesis using kk by (simp add: locate_key_def)
  next
    case live: False
    obtain r' where r': "locate sec parent n d = Some r'"
      using x by (cases "locate sec parent n d") (auto simp: locate_def filter_empty_conv)
    have le: "locate_key n r' \<le> locate_key n x" 
      using first_by_min [of "locate_key n" "filter (matches_node sec parent n) (items d)" r'] r' x by (simp add: locate_def)
    have "\<not> trashed r'" using le live by (auto simp: locate_key_def)
    with c r' have "r' = r" by (auto simp: choose_row_def Let_def split: if_splits)
    with le have le: "locate_key n r \<le> locate_key n x" by simp
    have m: "NType n = TypeMovie \<and> key_guid r n \<noteq> NGUID n \<Longrightarrow> NType n = TypeMovie \<and> i_guid r \<noteq> NGUID n"
      by (auto simp: key_guid_def split: if_splits)
    have "\<not> trashed r" "deleted_desc r = 0" using \<open>\<not> trashed r'\<close> \<open>r' = r\<close> by (simp_all add: trashed_def deleted_desc_def)
    with le live ids m show ?thesis unfolding kk
      by (auto simp: locate_key_def trashed_def deleted_desc_def split: if_splits)
  qed
qed

lemma ensure_node_insert:
  assumes "choose_row sec parent n leaf hnt d = None" and "ensure_node bundle now sec parent n leaf hnt d = (i, fill, d')"
  shows "i = next_id d \<and> (\<exists>r. items d' = items d @ [r] \<and> i_id r = i \<and> i_section r = sec \<and> i_type r = NType n \<and> i_guid r = NGUID n
     \<and> i_edition r = Edition n \<and> \<not> trashed r \<and> i_parent r = parent \<and> i_index r = node_index n) \<and> next_id d' = next_id d + 1"
  using assms by (auto simp: ensure_node_def insertItem_def trashed_def)

lemma choose_row_None: "choose_row sec parent n leaf hnt d = None \<Longrightarrow> x \<in> set (items d) \<Longrightarrow> \<not> matches_node sec parent n x"
  by (auto simp: choose_row_def Let_def locate_def filter_empty_conv split: if_splits option.splits)

lemma ensure_node_settles:
  assumes "ensure_node bundle now sec parent n leaf hnt d = (i, fill, d')" and ok: "node_ok n" and wf: "wf_items d"
  shows "settled sec parent n i d' \<and> wf_items d' \<and> next_id d \<le> next_id d'
    \<and> filter (\<lambda>r. i_type r \<noteq> NType n) (items d') = filter (\<lambda>r. i_type r \<noteq> NType n) (items d)"
proof (cases "choose_row sec parent n leaf hnt d")
  case None
  with ensure_node_insert [OF None assms(1)] obtain r where r: "items d' = items d @ [r]" "i_id r = i" "i_section r = sec"
    "i_type r = NType n" "i_guid r = NGUID n" "i_edition r = Edition n" "\<not> trashed r" "i_parent r = parent" "i_index r = node_index n"
    "i = next_id d" "next_id d' = next_id d + 1" by blast
  have "key_guid r n = NGUID n" using r by (simp add: key_guid_def)
  then have "settled sec parent n (i_id r) d'"
    using r choose_row_None [OF None] by (intro settled_by_least [where row = r]) (auto simp: ok)
  moreover have "wf_items d'" using wf r by (auto simp: wf_items_def)
  ultimately show ?thesis using r by simp
next
  case (Some r)
  let ?k = "keyed bundle now parent n r"
  have rin: "r \<in> set (items d)" "i_section r = sec" "i_type r = NType n" using choose_row_in [OF Some] by auto
  have f: "i = i_id r" "items d' = map (\<lambda>x. if i_id x = i_id r then ?k else x) (items d)" "next_id d' = next_id d"
    using ensure_found [OF Some rin(1) wf assms(1)] by auto
  have only: "x \<in> set (items d) \<Longrightarrow> i_id x = i_id r \<Longrightarrow> x = r" for x using wf_id [OF wf rin(1)] by blast
  have "settled sec parent n (i_id ?k) d'"
  proof (rule settled_by_least [where row = r])
    show "?k \<in> set (items d')" using rin(1) by (force simp: f(2))
    fix x assume x: "x \<in> set (items d')" "matches_node sec parent n x" "x \<noteq> ?k"
    then have "x \<in> set (items d)" "x \<noteq> r" by (auto simp: f(2) split: if_splits)
    then show "locate_key n ?k < locate_key n x" using keyed_least [OF Some ok wf] x(2) by blast
  qed (use rin ok in simp_all)
  moreover have "wf_items d'" using wf by (simp add: wf_items_def f comp_def if_distrib cong: map_cong if_cong) (auto simp: f)
  moreover have "filter (\<lambda>r. i_type r \<noteq> NType n) (items d') = filter (\<lambda>r. i_type r \<noteq> NType n) (items d)"
  proof -
    have "filter (\<lambda>r. i_type r \<noteq> NType n) (map (\<lambda>x. if i_id x = i_id r then ?k else x) xs) = filter (\<lambda>r. i_type r \<noteq> NType n) xs"
      if "set xs \<subseteq> set (items d)" for xs
      using that by (induction xs) (auto dest: only simp: rin(3))
    then show ?thesis by (simp add: f(2))
  qed
  ultimately show ?thesis using f by simp
qed

lemma locate_other_types:
  "filter (\<lambda>r. i_type r \<noteq> t) (items d') = filter (\<lambda>r. i_type r \<noteq> t) (items d) \<Longrightarrow> NType n \<noteq> t \<Longrightarrow> locate sec parent n d' = locate sec parent n d"
proof -
  assume a: "filter (\<lambda>r. i_type r \<noteq> t) (items d') = filter (\<lambda>r. i_type r \<noteq> t) (items d)" and "NType n \<noteq> t"
  then have "filter (matches_node sec parent n) (items e) = filter (matches_node sec parent n) (filter (\<lambda>r. i_type r \<noteq> t) (items e))" for e
    by (auto simp: matches_node_def intro!: filter_cong)
  with a show ?thesis by (metis locate_def)
qed

section \<open>The chain\<close>

fun settled_chain :: "int \<Rightarrow> int option \<Rightarrow> Node list \<Rightarrow> int list \<Rightarrow> db \<Rightarrow> bool" where
  "settled_chain sec parent [] ids d \<longleftrightarrow> ids = []"
| "settled_chain sec parent (n # ns) ids d \<longleftrightarrow> (\<exists>i is. ids = i # is \<and> settled sec parent n i d \<and> settled_chain sec (Some i) ns is d)"

lemma settled_other_types:
  "settled sec parent n i d \<Longrightarrow> filter (\<lambda>r. i_type r \<noteq> t) (items d') = filter (\<lambda>r. i_type r \<noteq> t) (items d) \<Longrightarrow> NType n \<noteq> t
   \<Longrightarrow> settled sec parent n i d'"
  unfolding settled_def using locate_other_types [of t d' d n sec parent] by metis

lemma ensure_nodes_keep:
  "ensure_nodes bundle now sec hnt parent asked ns d = (ids, refreshes, d') \<Longrightarrow> list_all node_ok ns \<Longrightarrow> wf_items d
   \<Longrightarrow> distinct (map NType ns) \<Longrightarrow> wf_items d' \<and> settled_chain sec parent ns ids d'
     \<and> (\<forall>n p i. NType n \<notin> set (map NType ns) \<longrightarrow> settled sec p n i d \<longrightarrow> settled sec p n i d')"
proof (induction ns arbitrary: parent asked d ids refreshes)
  case (Cons n ns)
  obtain i fill d1 where e: "ensure_node bundle now sec parent n (ns = []) hnt d = (i, fill, d1)"
    by (cases "ensure_node bundle now sec parent n (ns = []) hnt d") auto
  obtain asked' ids' refreshes' where es: "ensure_nodes bundle now sec hnt (Some i) asked' ns d1 = (ids', refreshes', d')" "ids = i # ids'"
    using Cons.prems(1) e by (auto simp: Let_def split: prod.splits)
  have s: "settled sec parent n i d1" "wf_items d1"
    "filter (\<lambda>r. i_type r \<noteq> NType n) (items d1) = filter (\<lambda>r. i_type r \<noteq> NType n) (items d)"
    using ensure_node_settles [OF e] Cons.prems by auto
  have ih: "wf_items d'" "settled_chain sec (Some i) ns ids' d'"
    "\<And>m p j. NType m \<notin> set (map NType ns) \<Longrightarrow> settled sec p m j d1 \<Longrightarrow> settled sec p m j d'"
    using Cons.IH [OF es(1)] Cons.prems s(2) by auto
  have "settled sec parent n i d'" using ih(3) s(1) Cons.prems(4) by auto
  moreover have "settled sec p m j d'" if "NType m \<notin> set (map NType (n # ns))" "settled sec p m j d" for m p j
    using that ih(3) settled_other_types [OF that(2) s(3)] by auto
  ultimately show ?case using ih(1,2) es(2) by auto
qed auto

lemma settled_chain_again:
  "settled_chain sec parent ns ids d \<Longrightarrow> wf_items d \<Longrightarrow> ensure_nodes bundle now sec hnt parent asked ns d = (ids, [], d)"
  by (induction ns arbitrary: parent ids asked) (auto simp: settled_again)

text \<open>
  C11. Applying an item twice is applying it once: the second \<open>EnsureChain\<close> of the same chain, at any later time and with any
  hint, finds the rows the first one left, writes nothing and asks Plex to refresh nothing. The chain has one node of each
  type and its guids are those \<open>Resolve\<close> builds.
\<close>

theorem ensure_chain_idempotent:
  assumes "EnsureChain bundle now sec it d = Some (leaf, labelled, refreshes, d')"
    and "wf_items d" and "distinct (map NType (Chain it))" and "list_all node_ok (Chain it)"
  shows "EnsureChain bundle later sec (it\<lparr>hint := h\<rparr>) d' = Some (leaf, labelled, [], d')"
proof -
  obtain ids rs where e: "ensure_nodes bundle now sec (hint it) None 0 (Chain it) d = (ids, rs, d')" "ids \<noteq> []" "leaf = last ids" "labelled = hd ids"
    using assms(1) by (auto simp: EnsureChain_def split: prod.splits if_splits)
  have "wf_items d' \<and> settled_chain sec None (Chain it) ids d'" using ensure_nodes_keep [OF e(1) assms(4,2,3)] by blast
  then show ?thesis using settled_chain_again [of sec None "Chain it" ids d' _ later h 0] e by (simp add: EnsureChain_def)
qed

text \<open>A show whose row an earlier delete trashed, under its guid before it had a Plex id, and whose season is new.\<close>

definition sample_show :: item where
  "sample_show = \<lparr>i_id = 7, i_section = 2, i_parent = None, i_type = TypeShow, i_guid = GUID TVProvider TypeShow ''1'' [], i_edition = [],
     i_hash = ''ab'', i_deleted = Some 5, i_count = 0, i_title = ''Show'', i_title_sort = ''Show'', i_index = None, i_year = None,
     i_added = 1, i_updated = 5\<rparr>"

definition sample_db :: db where
  "sample_db = \<lparr>items = [sample_show], medias = [], parts = [], dirs = [], settings = [], streams = [], part_settings = [], tags = [], taggings = [],
     locations = [], next_id = 8\<rparr>"

definition sample_node :: "int \<Rightarrow> string \<Rightarrow> string \<Rightarrow> int \<Rightarrow> Node" where
  "sample_node t k p i = \<lparr>NType = t, NUID = k, NGUID = GUID TVProvider t k p, PriorGUID = (if p = [] then [] else GUID TVProvider t k []),
     Edition = [], NTitle = ''T'', TitleSort = ''T'', NIndex = i, NYear = 0, AddedAt = None, Labels = []\<rparr>"

definition sample_item :: Item where
  "sample_item = \<lparr>Provider = TVProvider, Chain = [sample_node TypeShow ''1'' ''abc'' 0, sample_node TypeSeason ''1-1'' [] 1, sample_node TypeEpisode ''1-1-2'' [] 2], ItemLanguage = [], hint = 0\<rparr>"

lemma ensure_chain_idempotent_witness:
  "\<exists>leaf labelled refreshes d'. EnsureChain id 9 2 sample_item sample_db = Some (leaf, labelled, refreshes, d') \<and> refreshes \<noteq> []
     \<and> EnsureChain id 100 2 (sample_item\<lparr>hint := 7\<rparr>) d' = Some (leaf, labelled, [], d')"
proof -
  have "case EnsureChain id 9 2 sample_item sample_db of None \<Rightarrow> False | Some (leaf, labelled, refreshes, d') \<Rightarrow> refreshes \<noteq> []"
    by code_simp
  then obtain leaf labelled refreshes d' where e: "EnsureChain id 9 2 sample_item sample_db = Some (leaf, labelled, refreshes, d')" "refreshes \<noteq> []"
    by (auto split: option.splits)
  moreover have "wf_items sample_db" "distinct (map NType (Chain sample_item))" "list_all node_ok (Chain sample_item)" by code_simp+
  ultimately show ?thesis using ensure_chain_idempotent [OF e(1), of 100 7] by blast
qed

end
