(* ===== verification/Library_Trash.thy ===== *)
theory Library_Trash
  imports Library_Chain
begin

text \<open>
  A delete walks up from the item whose file went and trashes what is left empty. Where a parent row is of a smaller type than
  its child, which \<open>EnsureChain\<close> keeps, the walk ends; it leaves no live item it could have emptied without a live file or
  child, and trashes no item that has one.
\<close>

definition typed_parents :: "db \<Rightarrow> bool" where
  "typed_parents d \<longleftrightarrow> (\<forall>r \<in> set (items d). \<forall>i. i_parent r = Some i \<longrightarrow> i < next_id d) \<and> (\<forall>r \<in> set (items d). \<forall>p \<in> set (items d). i_parent r = Some (i_id p) \<longrightarrow> 0 \<le> i_type p \<and> i_type p < i_type r)"

definition live_id :: "db \<Rightarrow> int \<Rightarrow> bool" where
  "live_id d j \<longleftrightarrow> (\<exists>r \<in> set (items d). i_id r = j \<and> \<not> trashed r)"

definition hollow :: "db \<Rightarrow> int \<Rightarrow> bool" where
  "hollow d j \<longleftrightarrow> live_id d j \<and> live_media j d = 0 \<and> live_children j d = 0"

section \<open>Updates of a row\<close>

lemma update_items_frame [simp]:
  "medias (update_items c f d) = medias d" "next_id (update_items c f d) = next_id d" "live_media j (update_items c f d) = live_media j d"
  by (simp_all add: update_items_def live_media_def)

lemma update_items_ids: "(\<And>r. i_id (f r) = i_id r) \<Longrightarrow> map i_id (items (update_items c f d)) = map i_id (items d)"
  by (simp add: update_items_def comp_def if_distrib cong: map_cong if_cong)

lemma update_items_typed:
  "typed_parents d \<Longrightarrow> (\<And>r. i_id (f r) = i_id r \<and> i_parent (f r) = i_parent r \<and> i_type (f r) = i_type r) \<Longrightarrow> typed_parents (update_items c f d)"
  by (auto simp: typed_parents_def update_items_def)

lemma bex_update: "(\<exists>y \<in> set (items (update_items c f d)). P y) \<longleftrightarrow> (\<exists>x \<in> set (items d). P (if c x then f x else x))"
  by (auto simp: update_items_def)

lemma ball_update: "(\<forall>y \<in> set (items (update_items c f d)). P y) \<longleftrightarrow> (\<forall>x \<in> set (items d). P (if c x then f x else x))"
  by (auto simp: update_items_def)

lemma live_children_zero: "live_children j d = 0 \<longleftrightarrow> (\<forall>r \<in> set (items d). i_parent r = Some j \<longrightarrow> trashed r)"
  by (auto simp: live_children_def filter_empty_conv trashed_def)

lemma count_same:
  "live_id (countMedia i d) j = live_id d j" "live_children j (countMedia i d) = live_children j d"
  "live_media j (countMedia i d) = live_media j d" "hollow (countMedia i d) j = hollow d j"
  "map i_id (items (countMedia i d)) = map i_id (items d)"
proof -
  show 1: "live_id (countMedia i d) j = live_id d j"
    unfolding live_id_def countMedia_def bex_update by (rule bex_cong) (simp_all add: trashed_def)
  have "length (filter (\<lambda>r. i_parent r = Some j \<and> i_deleted r = None) (map (\<lambda>r. if i_id r = i then r\<lparr>i_count := c\<rparr> else r) rs))
      = length (filter (\<lambda>r. i_parent r = Some j \<and> i_deleted r = None) rs)" for c rs by (induction rs) auto
  then show 2: "live_children j (countMedia i d) = live_children j d" by (simp add: live_children_def countMedia_def update_items_def)
  show 3: "live_media j (countMedia i d) = live_media j d" by (simp add: countMedia_def)
  show "hollow (countMedia i d) j = hollow d j" by (simp add: hollow_def 1 2 3)
  show "map i_id (items (countMedia i d)) = map i_id (items d)" by (simp add: countMedia_def update_items_ids)
qed

text \<open>Trashing one row.\<close>

definition trash :: "int \<Rightarrow> int \<Rightarrow> db \<Rightarrow> db" where
  "trash now i d = update_items (\<lambda>r. i_id r = i) (\<lambda>r. r\<lparr>i_deleted := Some now, i_updated := now\<rparr>) d"

lemma trash_live [simp]: "live_id (trash now i d) j \<longleftrightarrow> live_id d j \<and> j \<noteq> i"
  unfolding live_id_def trash_def bex_update by (auto simp: trashed_def)

lemma trash_children:
  assumes "wf_items d" and "r \<in> set (items d)" and "i_id r = i" and "i_parent r \<noteq> Some j"
  shows "live_children j (trash now i d) = 0 \<longleftrightarrow> live_children j d = 0"
proof -
  have "i_id x = i \<Longrightarrow> x \<in> set (items d) \<Longrightarrow> i_parent x \<noteq> Some j" for x using wf_id [OF assms(1,2)] assms(3,4) by metis
  then show ?thesis unfolding live_children_zero trash_def ball_update by (intro ball_cong refl) auto
qed

lemma trash_children_mono: "live_children j d = 0 \<Longrightarrow> live_children j (trash now i d) = 0"
  unfolding live_children_zero trash_def ball_update by (auto simp: trashed_def)

lemma trash_media [simp]: "live_media j (trash now i d) = live_media j d" "medias (trash now i d) = medias d"
  by (simp_all add: trash_def)

lemma trash_keeps: "wf_items d \<Longrightarrow> wf_items (trash now i d)" "typed_parents d \<Longrightarrow> typed_parents (trash now i d)"
  "map i_id (items (trash now i d)) = map i_id (items d)"
  by (simp_all add: trash_def wf_update update_items_typed update_items_ids)

lemma count_keeps: "wf_items d \<Longrightarrow> wf_items (countMedia i d)" "typed_parents d \<Longrightarrow> typed_parents (countMedia i d)"
  "medias (countMedia i d) = medias d"
  by (simp_all add: countMedia_def wf_update update_items_typed)

lemma item_at_set: "item_at d i = Some r \<Longrightarrow> r \<in> set (items d) \<and> i_id r = i"
  by (auto simp: item_at_def find_Some_iff dest: nth_mem)

lemma item_at_gone: "item_at d i = None \<Longrightarrow> \<not> live_id d i"
  by (auto simp: item_at_def find_None_iff live_id_def)

text \<open>What a walk from \<open>i\<close> promises.\<close>

definition walk_ok :: "int \<Rightarrow> db \<Rightarrow> db \<Rightarrow> bool" where
  "walk_ok i d d' \<longleftrightarrow> (\<forall>j. hollow d' j \<longrightarrow> hollow d j \<and> j \<noteq> i) \<and> (\<forall>j. live_id d' j \<longrightarrow> live_id d j)
     \<and> (\<forall>j. live_children j d = 0 \<longrightarrow> live_children j d' = 0)
     \<and> (\<forall>j. live_id d j \<longrightarrow> live_id d' j \<or> live_media j d' = 0 \<and> live_children j d' = 0)
     \<and> medias d' = medias d \<and> map i_id (items d') = map i_id (items d)"

lemma walk_stop: "\<not> hollow d i \<Longrightarrow> walk_ok i d d"
  by (auto simp: walk_ok_def)

lemma walk_count: "\<not> hollow d i \<Longrightarrow> walk_ok i d (countMedia i d)"
  by (auto simp: walk_ok_def count_same count_keeps)

lemma medias_live: "medias d' = medias d \<Longrightarrow> live_media j d' = live_media j d"
  by (simp add: live_media_def)

lemma walk_trash:
  assumes "wf_items d" and "item_at d i = Some r" and "live_media i d = 0" and "live_children i d = 0"
    and w: "walk_ok p (trash now i (countMedia i d)) d'" and p: "i_parent r = None \<or> i_parent r = Some p"
  shows "walk_ok i d d'"
proof -
  let ?d1 = "countMedia i d"
  let ?d2 = "trash now i ?d1"
  obtain r1 where r1: "r1 \<in> set (items ?d1)" "i_id r1 = i" "i_parent r1 = i_parent r"
    using item_at_set [OF assms(2)] by (force simp: countMedia_def update_items_def)
  have ch: "live_children j ?d2 = 0 \<longleftrightarrow> live_children j d = 0" if "i_parent r \<noteq> Some j" for j
    using trash_children [OF count_keeps(1) [OF assms(1)] r1(1,2)] that r1(3) by (simp add: count_same)
  have mono: "live_children j d = 0 \<Longrightarrow> live_children j ?d2 = 0" for j by (rule trash_children_mono) (simp add: count_same)
  have "medias d' = medias d" using w by (simp add: walk_ok_def count_keeps)
  then have med: "live_media j d' = live_media j d" for j by (rule medias_live)
  have h: "hollow ?d2 j \<Longrightarrow> j \<noteq> p \<Longrightarrow> hollow d j \<and> j \<noteq> i" for j
    using ch [of j] p by (auto simp: hollow_def count_same)
  have "hollow d' j \<Longrightarrow> hollow d j \<and> j \<noteq> i" for j using w h [of j] by (simp add: walk_ok_def)
  moreover have "live_id d' j \<Longrightarrow> live_id d j" for j using w by (simp add: walk_ok_def count_same)
  moreover have "live_children j d = 0 \<Longrightarrow> live_children j d' = 0" for j using w mono by (simp add: walk_ok_def)
  moreover have "live_id d j \<Longrightarrow> live_id d' j \<or> live_media j d' = 0 \<and> live_children j d' = 0" for j
    using w mono [of i] assms(3,4) med by (cases "j = i") (simp_all add: walk_ok_def count_same)
  moreover have "medias d' = medias d" "map i_id (items d') = map i_id (items d)"
    using w by (simp_all add: walk_ok_def trash_keeps count_keeps count_same)
  ultimately show ?thesis by (simp add: walk_ok_def)
qed

text \<open>One turn of the loop.\<close>

lemma trash_turn:
  "trashIfEmpty now i d = (if i = 0 then Some d else (case item_at d i of None \<Rightarrow> Some d | Some r \<Rightarrow>
     if live_media i d + live_children i d > 0 then Some (countMedia i d)
     else (case i_parent r of None \<Rightarrow> Some (trash now i (countMedia i d)) | Some p \<Rightarrow> trashIfEmpty now p (trash now i (countMedia i d)))))"
  by (subst trashIfEmpty.simps) (simp add: Let_def trash_def split: option.split)

lemma item_at_after:
  assumes "item_at (trash now i (countMedia i d)) p = Some q"
  shows "\<exists>q' \<in> set (items d). i_id q' = p \<and> i_type q' = i_type q"
proof -
  have "\<exists>y \<in> set (items (trash now i (countMedia i d))). i_id y = p \<and> i_type y = i_type q" using item_at_set [OF assms] by blast
  then show ?thesis unfolding trash_def countMedia_def bex_update by (auto split: if_splits)
qed

lemma walk_none: "wf_items d \<Longrightarrow> i = 0 \<or> item_at d i = None \<Longrightarrow> \<exists>d'. trashIfEmpty now i d = Some d' \<and> walk_ok i d d'"
proof -
  assume wf: "wf_items d" and i: "i = 0 \<or> item_at d i = None"
  have "\<not> live_id d 0" using wf by (auto simp: live_id_def wf_items_def)
  then have "walk_ok i d d" using i item_at_gone [of d i] by (intro walk_stop) (auto simp: hollow_def)
  moreover have "trashIfEmpty now i d = Some d" using i by (subst trash_turn) auto
  ultimately show ?thesis by blast
qed

lemma walk_up:
  assumes "wf_items d" and "item_at d i = Some r"
    and up: "\<And>p. i_parent r = Some p \<Longrightarrow> \<exists>d'. trashIfEmpty now p (trash now i (countMedia i d)) = Some d' \<and> walk_ok p (trash now i (countMedia i d)) d'"
  shows "\<exists>d'. trashIfEmpty now i d = Some d' \<and> walk_ok i d d'"
proof (cases "i = 0")
  case True
  then show ?thesis using walk_none assms(1) by blast
next
  case i: False
  show ?thesis
  proof (cases "live_media i d + live_children i d > 0")
    case True
    then have "walk_ok i d (countMedia i d)" by (intro walk_count) (auto simp: hollow_def)
    moreover have "trashIfEmpty now i d = Some (countMedia i d)" using True i assms(2) by (subst trash_turn) simp
    ultimately show ?thesis by blast
  next
    case empty: False
    then have z: "live_media i d = 0" "live_children i d = 0" by auto
    show ?thesis
    proof (cases "i_parent r")
      case None
      have "\<not> hollow (trash now i (countMedia i d)) i" by (simp add: hollow_def)
      then have "walk_ok i d (trash now i (countMedia i d))" using walk_trash [OF assms(1,2) z walk_stop] None by blast
      moreover have "trashIfEmpty now i d = Some (trash now i (countMedia i d))" using None i assms(2) z by (subst trash_turn) simp
      ultimately show ?thesis by blast
    next
      case (Some p)
      obtain d' where d': "trashIfEmpty now p (trash now i (countMedia i d)) = Some d'" "walk_ok p (trash now i (countMedia i d)) d'"
        using up [OF Some] by blast
      have "walk_ok i d d'" using walk_trash [OF assms(1,2) z d'(2)] Some by blast
      moreover have "trashIfEmpty now i d = Some d'" using Some i assms(2) z d'(1) by (subst trash_turn) simp
      ultimately show ?thesis by blast
    qed
  qed
qed

lemma trash_walk:
  "wf_items d \<Longrightarrow> typed_parents d \<Longrightarrow> (\<forall>r. item_at d i = Some r \<longrightarrow> i_type r < int k) \<Longrightarrow> \<exists>d'. trashIfEmpty now i d = Some d' \<and> walk_ok i d d'"
proof (induction k arbitrary: i d)
  case 0
  show ?case
  proof (cases "item_at d i")
    case (Some r)
    show ?thesis
    proof (rule walk_up [OF 0(1) Some])
      fix p assume p: "i_parent r = Some p"
      have "item_at (trash now i (countMedia i d)) p = None"
        using item_at_after [of now i d p] item_at_set [OF Some] 0(2,3) Some p
        by (cases "item_at (trash now i (countMedia i d)) p") (fastforce simp: typed_parents_def)+
      then show "\<exists>d'. trashIfEmpty now p (trash now i (countMedia i d)) = Some d' \<and> walk_ok p (trash now i (countMedia i d)) d'"
        using walk_none trash_keeps(1) count_keeps(1) 0(1) by blast
    qed
  qed (use walk_none 0 in blast)
next
  case (Suc k)
  show ?case
  proof (cases "item_at d i")
    case (Some r)
    show ?thesis
    proof (rule walk_up [OF Suc(2) Some], rule Suc.IH)
      fix p assume p: "i_parent r = Some p"
      show "wf_items (trash now i (countMedia i d))" "typed_parents (trash now i (countMedia i d))"
        using Suc.prems by (simp_all add: trash_keeps count_keeps)
      show "\<forall>q. item_at (trash now i (countMedia i d)) p = Some q \<longrightarrow> i_type q < int k"
        using item_at_after [of now i d p] item_at_set [OF Some] Suc.prems(2,3) Some p by (fastforce simp: typed_parents_def)
    qed
  qed (use walk_none Suc in blast)
qed

text \<open>
  C13. After a file went, the walk up from its item always ends. What it leaves live without a live file or child was that before
  and is not the item; it trashes only items without a live file or child, revives nothing, and touches no file.
\<close>

theorem trash_if_empty_exact:
  assumes "wf_items d" and "typed_parents d"
  shows "\<exists>d'. trashIfEmpty now i d = Some d' \<and> (\<forall>j. hollow d' j \<longrightarrow> hollow d j \<and> j \<noteq> i)
    \<and> (\<forall>j. live_id d j \<and> \<not> live_id d' j \<longrightarrow> live_media j d' = 0 \<and> live_children j d' = 0)
    \<and> (\<forall>j. live_id d' j \<longrightarrow> live_id d j) \<and> medias d' = medias d \<and> map i_id (items d') = map i_id (items d)"
proof -
  have "\<exists>k. \<forall>r. item_at d i = Some r \<longrightarrow> i_type r < int k"
  proof (cases "item_at d i")
    case (Some r)
    then show ?thesis by (intro exI [where x = "Suc (nat (i_type r))"]) simp
  qed simp
  then obtain d' where "trashIfEmpty now i d = Some d'" "walk_ok i d d'" using trash_walk [OF assms] by blast
  then show ?thesis unfolding walk_ok_def by blast
qed

section \<open>The chain keeps the order of types\<close>

definition row_type :: "db \<Rightarrow> int option \<Rightarrow> int \<Rightarrow> bool" where
  "row_type d parent t \<longleftrightarrow> (\<forall>i. parent = Some i \<longrightarrow> i < next_id d \<and> (\<forall>q \<in> set (items d). i_id q = i \<longrightarrow> 0 \<le> i_type q \<and> i_type q < t))"

lemma ensure_node_typed:
  assumes e: "ensure_node bundle now sec parent n leaf hnt d = (i, fill, d')" and wf: "wf_items d" and ty: "typed_parents d"
    and p: "row_type d parent (NType n)" and "0 \<le> NType n" and "NType n < t"
  shows "typed_parents d' \<and> row_type d' (Some i) t"
proof (cases "choose_row sec parent n leaf hnt d")
  case None
  with ensure_node_insert [OF None e] obtain r where r: "items d' = items d @ [r]" "i_id r = next_id d" "i_type r = NType n"
    "i_parent r = parent" "next_id d' = next_id d + 1" "i = next_id d" by blast
  show ?thesis using r p ty wf assms(5,6) by (fastforce simp: typed_parents_def row_type_def wf_items_def)
next
  case (Some r)
  let ?k = "keyed bundle now parent n r"
  have rin: "r \<in> set (items d)" "i_type r = NType n" using choose_row_in [OF Some] by auto
  have f: "i = i_id r" "items d' = map (\<lambda>x. if i_id x = i_id r then ?k else x) (items d)" "next_id d' = next_id d"
    using ensure_found [OF Some rin(1) wf e] by auto
  have only: "x \<in> set (items d) \<Longrightarrow> i_id x = i_id r \<Longrightarrow> x = r" for x using wf_id [OF wf rin(1)] by blast
  have old: "\<exists>x \<in> set (items d). i_id x = i_id y \<and> i_type x = i_type y \<and> (i_parent y = i_parent x \<or> i_parent y = parent \<and> i_type y = NType n)"
    if "y \<in> set (items d')" for y using that rin by (auto simp: f(2) split: if_splits)
  have "typed_parents d'" unfolding typed_parents_def f(3)
  proof (intro conjI ballI allI impI)
    fix y j assume y: "y \<in> set (items d')" "i_parent y = Some j"
    show "j < next_id d" using old [OF y(1)] y(2) ty p by (fastforce simp: typed_parents_def row_type_def)
  next
    fix y q assume y: "y \<in> set (items d')" and q: "q \<in> set (items d')" and yq: "i_parent y = Some (i_id q)"
    obtain q' where q': "q' \<in> set (items d)" "i_id q' = i_id q" "i_type q' = i_type q" using old [OF q] by blast
    obtain x where x: "x \<in> set (items d)" "i_id x = i_id y" "i_type x = i_type y" "i_parent y = i_parent x \<or> i_parent y = parent \<and> i_type y = NType n"
      using old [OF y] by blast
    have a: "i_parent x = Some (i_id q') \<Longrightarrow> 0 \<le> i_type q' \<and> i_type q' < i_type x" using ty x(1) q'(1) by (simp add: typed_parents_def)
    have b: "parent = Some (i_id q') \<Longrightarrow> 0 \<le> i_type q' \<and> i_type q' < NType n" using p q'(1) by (simp add: row_type_def)
    from x(4) have "0 \<le> i_type q \<and> i_type q < i_type y"
    proof
      assume "i_parent y = i_parent x"
      then show ?thesis using a yq q' x(3) by simp
    next
      assume "i_parent y = parent \<and> i_type y = NType n"
      then show ?thesis using b yq q' by simp
    qed
    then show "0 \<le> i_type q" "i_type q < i_type y" by auto
  qed
  moreover have "row_type d' (Some i) t"
    using wf rin assms(5,6) by (auto simp: row_type_def f wf_items_def split: if_splits dest: only)
  ultimately show ?thesis by blast
qed

text \<open>The chain goes from the show down: the nodes' types increase.\<close>

lemma ensure_nodes_typed:
  "ensure_nodes bundle now sec hnt parent asked ns d = (ids, refreshes, d') \<Longrightarrow> list_all node_ok ns \<Longrightarrow> wf_items d \<Longrightarrow> typed_parents d
   \<Longrightarrow> sorted_wrt (<) (map NType ns) \<Longrightarrow> list_all (\<lambda>n. 0 \<le> NType n) ns \<Longrightarrow> (ns \<noteq> [] \<Longrightarrow> row_type d parent (NType (hd ns))) \<Longrightarrow> typed_parents d'"
proof (induction ns arbitrary: parent asked d ids refreshes)
  case (Cons n ns)
  obtain i fill d1 where e: "ensure_node bundle now sec parent n (ns = []) hnt d = (i, fill, d1)"
    by (cases "ensure_node bundle now sec parent n (ns = []) hnt d") auto
  obtain asked' ids' refreshes' where es: "ensure_nodes bundle now sec hnt (Some i) asked' ns d1 = (ids', refreshes', d')"
    using Cons.prems(1) e by (auto simp: Let_def split: prod.splits)
  have wf: "wf_items d1" using ensure_node_settles [OF e] Cons.prems by auto
  have t: "typed_parents d1 \<and> row_type d1 (Some i) t" if "NType n < t" for t
    using ensure_node_typed [OF e Cons.prems(3,4) _ _ that] Cons.prems(6,7) by simp
  show ?case
  proof (rule Cons.IH [OF es])
    show "typed_parents d1" using t [of "NType n + 1"] by simp
    show "row_type d1 (Some i) (NType (hd ns))" if "ns \<noteq> []" using t [of "NType (hd ns)"] Cons.prems(5) that by (cases ns) auto
  qed (use wf Cons.prems in auto)
qed simp

lemma ensure_chain_typed:
  assumes "EnsureChain bundle now sec it d = Some (leaf, labelled, refreshes, d')" and "wf_items d" and "typed_parents d"
    and "sorted_wrt (<) (map NType (Chain it))" and "list_all node_ok (Chain it)" and "list_all (\<lambda>n. 0 \<le> NType n) (Chain it)"
  shows "typed_parents d'"
  using assms ensure_nodes_typed [of _ now sec "hint it" None 0 "Chain it" d _ _ d']
  by (auto simp: EnsureChain_def row_type_def split: prod.splits if_splits)

text \<open>A season with one episode whose file is gone, in a show with another season.\<close>

definition emptied :: db where
  "emptied = sample_db\<lparr>items :=
     [sample_show\<lparr>i_deleted := None\<rparr>,
      sample_show\<lparr>i_id := 1, i_type := TypeSeason, i_parent := Some 7, i_deleted := None\<rparr>,
      sample_show\<lparr>i_id := 2, i_type := TypeSeason, i_parent := Some 7, i_deleted := None\<rparr>,
      sample_show\<lparr>i_id := 3, i_type := TypeEpisode, i_parent := Some 1, i_deleted := None\<rparr>]\<rparr>"

lemma trash_if_empty_exact_witness:
  "\<exists>d'. trashIfEmpty 9 3 emptied = Some d' \<and> map trashed (items emptied) = [False, False, False, False] \<and> \<not> hollow d' 3 \<and> medias d' = medias emptied"
proof -
  have "wf_items emptied" by code_simp
  moreover have "typed_parents emptied" by (simp add: typed_parents_def emptied_def sample_db_def sample_show_def)
  moreover have "map trashed (items emptied) = [False, False, False, False]" by code_simp
  ultimately show ?thesis using trash_if_empty_exact [of emptied 9 3] by auto
qed

end
