(* ===== verification/Library_Seed.thy ===== *)
theory Library_Seed
  imports Library_Db
begin

text \<open>
  What \<open>src/pkg/plexseed\<close> does to the tables: \<open>seeder.go\<close>, \<open>labels.go\<close> and the synchronisation of \<open>sidecars.go\<close>. The two
  kinds of marker, which the code takes in a map's order, are taken in the order of the list \<open>kinds\<close>.
\<close>

record Target =
  tg_part :: int
  tg_media :: int
  tg_item :: int

definition ourMark :: "extra \<Rightarrow> bool" where
  "ourMark e \<longleftrightarrow> (SourceKey, SourceValue) \<in> set e"

section \<open>Streams\<close>

definition stream_type :: "stream_kind \<Rightarrow> int" where
  "stream_type k = (case k of streamVideo \<Rightarrow> 1 | streamAudio \<Rightarrow> 2 | streamSubtitle \<Rightarrow> 3)"

definition null_int :: "int \<Rightarrow> int option" where
  "null_int v = (if v = 0 then None else Some v)"

definition delete_streams :: "(stream \<Rightarrow> bool) \<Rightarrow> db \<Rightarrow> db" where
  "delete_streams c d = d\<lparr>streams := filter (\<lambda>s. \<not> c s) (streams d)\<rparr>"

definition update_streams :: "(stream \<Rightarrow> bool) \<Rightarrow> (stream \<Rightarrow> stream) \<Rightarrow> db \<Rightarrow> db" where
  "update_streams c f d = d\<lparr>streams := map (\<lambda>s. if c s then f s else s) (streams d)\<rparr>"

definition insert_stream :: "(int \<Rightarrow> stream) \<Rightarrow> db \<Rightarrow> db" where
  "insert_stream mk d = d\<lparr>streams := streams d @ [mk (next_id d)], next_id := next_id d + 1\<rparr>"

definition probe_stream :: "Target \<Rightarrow> StreamRow \<Rightarrow> int \<Rightarrow> stream" where
  "probe_stream t r i = \<lparr>st_id = i, st_media = tg_media t, st_part = tg_part t, st_type = stream_type (w_type r),
     st_index = Some (w_index r), st_url = [], st_codec = w_codec r, st_language = Some (w_language r),
     st_channels = null_int (w_channels r), st_bitrate = null_int (w_bitrate r), st_default = w_default r, st_forced = w_forced r,
     st_extra = w_extra r\<rparr>"

definition setAudioLanguages :: "(string \<Rightarrow> string option) \<Rightarrow> Target \<Rightarrow> Input \<Rightarrow> Probe \<Rightarrow> db \<Rightarrow> db" where
  "setAudioLanguages base t inp p d = fold (\<lambda>a d. if PlexLanguage base (a_language a) \<noteq> [] then d
     else let l = Some (AudioLanguage base a (OriginalLanguage inp)) in
       update_streams (\<lambda>s. st_media s = tg_media t \<and> st_type s = 2 \<and> st_index s = Some (a_index a) \<and> ourMark (st_extra s) \<and> st_language s \<noteq> l)
         (\<lambda>s. s\<lparr>st_language := l\<rparr>) d) (p_audio p) d"

definition fill_media :: "(string \<Rightarrow> string option) \<Rightarrow> int \<Rightarrow> Target \<Rightarrow> Input \<Rightarrow> Probe \<Rightarrow> db \<Rightarrow> db" where
  "fill_media base now t inp p d = (case MediaRows base p (ProbeHash inp) (OriginalLanguage inp) of (row, rows) \<Rightarrow>
     let row = (if r_bitrate row = 0 then row\<lparr>r_bitrate := fileBitrate (SizeBytes inp) (r_duration row)\<rparr> else row);
         row = row\<lparr>OptimizedForStreaming := map_option (\<lambda>b. if b then 1 else 0) (in_fast_start inp)\<rparr>;
         d1 = d\<lparr>medias := map (\<lambda>m. if m_id m = tg_media t then m\<lparr>m_columns := Some row, m_extra := ItemExtra row, m_updated := now,
                m_version := AnalysisVersion row,
                m_optimized := (case OptimizedForStreaming row of None \<Rightarrow> m_optimized m | Some v \<Rightarrow> Some v)\<rparr> else m) (medias d),
              parts := map (\<lambda>q. if p_id q = tg_part t then q\<lparr>p_duration := Some (r_duration row),
                p_size := (if SizeBytes inp > 0 then SizeBytes inp else p_size q), p_extra := PartExtra row, p_updated := now\<rparr> else q) (parts d)\<rparr>
     in fold (\<lambda>r. insert_stream (probe_stream t r)) rows d1)"

definition media_extra :: "int \<Rightarrow> db \<Rightarrow> extra" where
  "media_extra i d = (case find (\<lambda>m. m_id m = i) (medias d) of None \<Rightarrow> [] | Some m \<Rightarrow> m_extra m)"

definition seedMedia :: "(string \<Rightarrow> string option) \<Rightarrow> int \<Rightarrow> Target \<Rightarrow> Input \<Rightarrow> Probe \<Rightarrow> db \<Rightarrow> bool \<times> db" where
  "seedMedia base now t inp p d = (let all = filter (\<lambda>s. st_media s = tg_media t) (streams d); our = filter (ourMark \<circ> st_extra) all in
     if all = [] then (True, fill_media base now t inp p d)
     else if length our = length all \<and> ProbeHash inp \<noteq> [] \<and> (ProbeHashKey, ProbeHash inp) \<notin> set (media_extra (tg_media t) d)
     then (True, fill_media base now t inp p (delete_streams (\<lambda>s. st_media s = tg_media t \<and> ourMark (st_extra s)) d))
     else if length our = length all then (False, setAudioLanguages base t inp p d)
     else (False, d))"

section \<open>Taggings\<close>

definition insert_tagging :: "(int \<Rightarrow> tagging) \<Rightarrow> db \<Rightarrow> db" where
  "insert_tagging mk d = d\<lparr>taggings := taggings d @ [mk (next_id d)], next_id := next_id d + 1\<rparr>"

definition delete_tagging :: "int \<Rightarrow> db \<Rightarrow> db" where
  "delete_tagging i d = d\<lparr>taggings := filter (\<lambda>g. g_id g \<noteq> i) (taggings d)\<rparr>"

text \<open>The taggings of an item joined with their tags of a type.\<close>

definition tagged :: "int \<Rightarrow> int \<Rightarrow> db \<Rightarrow> (tagging \<times> tag) list" where
  "tagged typ item d = concat (map (\<lambda>g. map (Pair g) (filter (\<lambda>t. t_id t = g_tag g \<and> t_type t = typ) (tags d)))
     (filter (\<lambda>g. g_item g = item) (taggings d)))"

text \<open>The first tag that satisfies a condition, else a new one.\<close>

definition find_tag :: "(tag \<Rightarrow> bool) \<Rightarrow> int \<Rightarrow> string \<Rightarrow> db \<Rightarrow> int \<times> db" where
  "find_tag c typ name d = (case first_by t_id (filter (\<lambda>t. t_type t = typ \<and> c t) (tags d)) of
       Some t \<Rightarrow> (t_id t, d)
     | None \<Rightarrow> (next_id d, d\<lparr>tags := tags d @ [\<lparr>t_id = next_id d, t_type = typ, t_name = name\<rparr>], next_id := next_id d + 1\<rparr>))"

subsection \<open>Markers\<close>

definition markerTag :: "db \<Rightarrow> int \<times> db" where
  "markerTag d = find_tag (\<lambda>_. True) 12 [] d"

definition ours :: "extra \<Rightarrow> bool" where
  "ours e \<longleftrightarrow> list_ex (\<lambda>src. (MarkerKey, src) \<in> set e) [MarkerSource, ''chapters'', ''analysis'']"

definition marker_is :: "MarkerRow \<Rightarrow> tagging \<Rightarrow> bool" where
  "marker_is r h \<longleftrightarrow> ours (g_extra h) \<and> g_index h = k_index r \<and> g_start h = k_start r \<and> g_end h = k_end r
     \<and> ((''pv:final'', ''1'') \<in> set (g_extra h)) = k_final r"

definition same :: "tagging list \<Rightarrow> MarkerRow list \<Rightarrow> bool" where
  "same found desired \<longleftrightarrow> length found = length desired \<and> list_all (\<lambda>r. list_ex (marker_is r) found) desired"

definition marker_tagging :: "int \<Rightarrow> int \<Rightarrow> MarkerRow \<Rightarrow> int \<Rightarrow> tagging" where
  "marker_tagging item tag r i = \<lparr>g_id = i, g_item = item, g_tag = tag, g_index = k_index r, g_text = k_text r,
     g_start = k_start r, g_end = k_end r, g_extra = markerExtra r\<rparr>"

text \<open>One kind: what is dropped, what is written; the tag is looked up once, before the first insert.\<close>

fun marker_kinds :: "int \<Rightarrow> tagging list \<Rightarrow> int option \<Rightarrow> (string \<times> MarkerRow list) list \<Rightarrow> db \<Rightarrow> int \<times> int \<times> db" where
  "marker_kinds item found tag [] d = (0, 0, d)"
| "marker_kinds item found tag ((kind, desired) # ks) d = (let ofKind = filter (\<lambda>h. g_text h = kind) found in
     if desired \<noteq> [] \<and> same ofKind desired then marker_kinds item found tag ks d
     else (let drop = (if desired = [] then filter (\<lambda>h. ours (g_extra h)) ofKind else ofKind);
               d1 = fold (\<lambda>h. delete_tagging (g_id h)) drop d
           in if desired = [] then (case marker_kinds item found tag ks d1 of (w, r, d') \<Rightarrow> (w, r + int (length drop), d'))
              else (case (case tag of Some t \<Rightarrow> (t, d1) | None \<Rightarrow> markerTag d1) of (t, d2) \<Rightarrow>
                let d3 = fold (\<lambda>r. insert_tagging (marker_tagging item t r)) desired d2 in
                  (case marker_kinds item found (Some t) ks d3 of (w, r, d') \<Rightarrow> (w + int (length desired), r + int (length drop), d')))))"

definition reconcileMarkers :: "int \<Rightarrow> (string \<times> MarkerRow list) list \<Rightarrow> db \<Rightarrow> int \<times> int \<times> db" where
  "reconcileMarkers item want d = marker_kinds item (map fst (tagged 12 item d)) None want d"

subsection \<open>Labels\<close>

definition LabelTagType :: int where "LabelTagType = 11"

definition labelExtra :: extra where "labelExtra = [(SourceKey, SourceValue)]"

definition labelTag :: "string \<Rightarrow> db \<Rightarrow> int \<times> db" where
  "labelTag name d = find_tag (\<lambda>t. t_name t = name) LabelTagType name d"

text \<open>The names wanted, trimmed, each once whatever its case.\<close>

fun desired_labels :: "string list \<Rightarrow> string list \<Rightarrow> string list" where
  "desired_labels seen [] = []"
| "desired_labels seen (w # ws) = (let w = trim_space w in
     if w = [] \<or> ToLower w \<in> set seen then desired_labels seen ws else w # desired_labels (ToLower w # seen) ws)"

fun insert_labels :: "int \<Rightarrow> int \<Rightarrow> string list \<Rightarrow> db \<Rightarrow> db" where
  "insert_labels item index [] d = d"
| "insert_labels item index (n # ns) d = (case labelTag n d of (t, d1) \<Rightarrow>
     insert_labels item (index + 1) ns (insert_tagging (\<lambda>i. \<lparr>g_id = i, g_item = item, g_tag = t, g_index = index, g_text = [],
       g_start = 0, g_end = 0, g_extra = labelExtra\<rparr>) d1))"

definition drop_label :: "string list \<Rightarrow> tagging \<times> tag \<Rightarrow> bool" where
  "drop_label desired = (\<lambda>(g, t). ourMark (g_extra g) \<and> ToLower (t_name t) \<notin> ToLower ` set desired)"

definition label_key :: "tagging \<times> tag \<Rightarrow> string" where
  "label_key = (\<lambda>(g, t). ToLower (t_name t))"

definition ReconcileLabelsTx :: "int \<Rightarrow> string list \<Rightarrow> db \<Rightarrow> int \<times> int \<times> db" where
  "ReconcileLabelsTx item want d = (let found = tagged LabelTagType item d; desired = desired_labels [] want;
       gone = filter (drop_label desired) found; present = map label_key (filter (Not \<circ> drop_label desired) found);
       new = filter (\<lambda>n. ToLower n \<notin> set present) desired
     in (int (length new), int (length gone),
         insert_labels item (int (length found - length gone)) new (fold (\<lambda>(g, t). delete_tagging (g_id g)) gone d)))"

section \<open>Sidecars\<close>

definition want_row :: "SidecarRow list \<Rightarrow> string \<Rightarrow> SidecarRow option" where
  "want_row rows url = find (\<lambda>r. d_url r = url) (rev rows)"

definition external :: "int \<Rightarrow> stream \<Rightarrow> bool" where
  "external media s \<longleftrightarrow> st_media s = media \<and> st_type s = 3 \<and> prefix ''file://'' (st_url s)"

definition sidecar_current :: "SidecarRow \<Rightarrow> stream \<Rightarrow> bool" where
  "sidecar_current w s \<longleftrightarrow> d_codec w = st_codec s \<and> d_language w = (case st_language s of None \<Rightarrow> [] | Some l \<Rightarrow> l)
     \<and> d_forced w = st_forced s \<and> set (d_extra w) = set (st_extra s)"

definition sidecar_stream :: "Target \<Rightarrow> SidecarRow \<Rightarrow> int \<Rightarrow> stream" where
  "sidecar_stream t w i = \<lparr>st_id = i, st_media = tg_media t, st_part = tg_part t, st_type = 3, st_index = None, st_url = d_url w,
     st_codec = d_codec w, st_language = Some (d_language w), st_channels = None, st_bitrate = None, st_default = False,
     st_forced = d_forced w, st_extra = d_extra w\<rparr>"

text \<open>Rows of one URL beside the first, in the order of their ids, are dropped.\<close>

definition sidecar_kept :: "Target \<Rightarrow> SidecarRow list \<Rightarrow> stream list \<Rightarrow> stream \<Rightarrow> bool" where
  "sidecar_kept t rows haves s \<longleftrightarrow> want_row rows (st_url s) \<noteq> None \<and> \<not> list_ex (\<lambda>h. st_url h = st_url s \<and> st_id h < st_id s) haves"

definition sidecar_fix :: "Target \<Rightarrow> SidecarRow list \<Rightarrow> stream \<Rightarrow> stream" where
  "sidecar_fix t rows s = (case want_row rows (st_url s) of None \<Rightarrow> s
     | Some w \<Rightarrow> if sidecar_current w s then s else s\<lparr>st_codec := d_codec w, st_language := Some (d_language w), st_forced := d_forced w,
         st_extra := d_extra w, st_part := tg_part t\<rparr>)"

definition SyncSidecarsTx :: "Target \<Rightarrow> string \<Rightarrow> Sidecar list \<Rightarrow> db \<Rightarrow> db" where
  "SyncSidecarsTx t plexPath sidecars d = (let rows = SidecarRows plexPath sidecars; haves = filter (external (tg_media t)) (streams d);
       order = remdups (map d_url rows) in
     fold (\<lambda>url d. case want_row rows url of None \<Rightarrow> d | Some w \<Rightarrow> insert_stream (sidecar_stream t w) d)
       (filter (\<lambda>url. url \<notin> st_url ` set haves) order)
       (d\<lparr>streams := map (\<lambda>s. if external (tg_media t) s then sidecar_fix t rows s else s)
          (filter (\<lambda>s. external (tg_media t) s \<longrightarrow> sidecar_kept t rows haves s) (streams d))\<rparr>))"

section \<open>A target\<close>

record Result =
  re_parts :: int
  re_media :: int
  re_written :: int
  re_removed :: int

text \<open>A map's order over the kinds.\<close>

definition marker_want :: "bool \<Rightarrow> marker_map \<Rightarrow> (string \<times> MarkerRow list) list" where
  "marker_want first_intro m = (case m of (intro, credits) \<Rightarrow>
     if first_intro then [(''intro'', intro), (''credits'', credits)] else [(''credits'', credits), (''intro'', intro)])"

definition seedTarget :: "(string \<Rightarrow> string option) \<Rightarrow> bool \<Rightarrow> int \<Rightarrow> Target \<Rightarrow> Input \<Rightarrow> bool \<Rightarrow> db \<Rightarrow> Result \<times> db" where
  "seedTarget base ord now t inp markers d =
     (case (case in_probe inp of Some p \<Rightarrow> if RuntimeMillis p > 0 then seedMedia base now t inp p d else (False, d) | None \<Rightarrow> (False, d)) of
       (seeded, d1) \<Rightarrow> let n = (if seeded then 1 else 0) in
         if \<not> markers then (\<lparr>re_parts = 1, re_media = n, re_written = 0, re_removed = 0\<rparr>, d1)
         else (case MarkerRows (in_markers inp) (case in_probe inp of None \<Rightarrow> 0 | Some p \<Rightarrow> RuntimeMillis p) of
             None \<Rightarrow> (\<lparr>re_parts = 1, re_media = n, re_written = 0, re_removed = 0\<rparr>, d1)
           | Some m \<Rightarrow> (case reconcileMarkers (tg_item t) (marker_want ord m) d1 of
               (w, r, d2) \<Rightarrow> (\<lparr>re_parts = 1, re_media = n, re_written = w, re_removed = r\<rparr>, d2))))"

definition SeedTx :: "(string \<Rightarrow> string option) \<Rightarrow> bool \<Rightarrow> int \<Rightarrow> Target \<Rightarrow> Input \<Rightarrow> db \<Rightarrow> Result \<times> db" where
  "SeedTx base ord now t inp d = seedTarget base ord now t inp True d"

definition ReplaceTx :: "(string \<Rightarrow> string option) \<Rightarrow> bool \<Rightarrow> int \<Rightarrow> Target \<Rightarrow> Input \<Rightarrow> db \<Rightarrow> Result \<times> db" where
  "ReplaceTx base ord now t inp d = seedTarget base ord now t inp True (delete_streams (\<lambda>s. st_media s = tg_media t) d)"

text \<open>
  \<open>Seed\<close> for a path: every live part of it in the named libraries, an item's markers once; \<open>None\<close> when there is none, or one
  of its media rows has no item.
\<close>

fun seed_targets :: "(string \<Rightarrow> string option) \<Rightarrow> bool \<Rightarrow> int \<Rightarrow> Input \<Rightarrow> int list \<Rightarrow> Target list \<Rightarrow> Result \<Rightarrow> db \<Rightarrow> Result \<times> db" where
  "seed_targets base ord now inp seen [] acc d = (acc, d)"
| "seed_targets base ord now inp seen (t # ts) acc d = (case seedTarget base ord now t inp (tg_item t \<notin> set seen) d of (r, d1) \<Rightarrow>
     seed_targets base ord now inp (tg_item t # seen) ts \<lparr>re_parts = re_parts acc + re_parts r, re_media = re_media acc + re_media r,
       re_written = re_written acc + re_written r, re_removed = re_removed acc + re_removed r\<rparr> d1)"

definition path_rows :: "(int \<Rightarrow> bool) \<Rightarrow> string \<Rightarrow> db \<Rightarrow> (part \<times> media) list" where
  "path_rows named plexPath d = concat (map (\<lambda>q. map (Pair q)
     (filter (\<lambda>m. m_id m = p_media q \<and> m_deleted m = None \<and> named (m_section m)) (medias d)))
     (filter (\<lambda>q. p_file q = plexPath \<and> p_deleted q = None) (parts d)))"

definition Seed :: "(string \<Rightarrow> string option) \<Rightarrow> bool \<Rightarrow> int \<Rightarrow> (int \<Rightarrow> bool) \<Rightarrow> string \<Rightarrow> Input \<Rightarrow> db \<Rightarrow> (Result \<times> db) option" where
  "Seed base ord now named plexPath inp d = (let rows = path_rows named plexPath d in
     if rows = [] \<or> list_ex (\<lambda>(q, m). m_item m = None) rows then None
     else Some (seed_targets base ord now inp [] (map (\<lambda>(q, m). \<lparr>tg_part = p_id q, tg_media = m_id m, tg_item = the (m_item m)\<rparr>) rows)
       \<lparr>re_parts = 0, re_media = 0, re_written = 0, re_removed = 0\<rparr> d))"

end
