(* ===== verification/Library_Seed_Facts.thy ===== *)
theory Library_Seed_Facts
  imports Library_Seed
begin

text \<open>
  What the seeder promises of the rows Plex or its owner made: a label the owner set stays, the labels of clustarr's are its
  keywords and nothing else, and the same holds of the markers of a kind it answers.
\<close>

section \<open>Taggings\<close>

definition wf_tags :: "db \<Rightarrow> bool" where
  "wf_tags d \<longleftrightarrow> distinct (map t_id (tags d)) \<and> (\<forall>t \<in> set (tags d). t_id t < next_id d)
     \<and> distinct (map g_id (taggings d)) \<and> (\<forall>g \<in> set (taggings d). g_id g < next_id d \<and> g_tag g < next_id d)"

lemma tagged_iff [simp]:
  "(g, t) \<in> set (tagged typ item d) \<longleftrightarrow> g \<in> set (taggings d) \<and> g_item g = item \<and> t \<in> set (tags d) \<and> t_id t = g_tag g \<and> t_type t = typ"
  by (auto simp: tagged_def)

lemma fold_delete_tagging:
  "fold (\<lambda>(g, t). delete_tagging (g_id g)) gone d = d\<lparr>taggings := filter (\<lambda>g. g_id g \<notin> (g_id \<circ> fst) ` set gone) (taggings d)\<rparr>"
proof (induction gone arbitrary: d)
  case (Cons p gone)
  then show ?case by (cases p) (auto simp: delete_tagging_def intro!: arg_cong [where f = "\<lambda>x. d\<lparr>taggings := x\<rparr>"] filter_cong)
qed simp

lemma find_tag_spec:
  assumes "find_tag c typ name d = (i, d')" and "wf_tags d" and "c \<lparr>t_id = i, t_type = typ, t_name = name\<rparr>"
  shows "wf_tags d' \<and> taggings d' = taggings d \<and> (\<exists>ts. tags d' = tags d @ ts \<and> (\<forall>t \<in> set ts. next_id d \<le> t_id t))
    \<and> (\<exists>t \<in> set (tags d'). t_id t = i \<and> t_type t = typ \<and> c t) \<and> i < next_id d' \<and> next_id d \<le> next_id d'"
proof (cases "first_by t_id (filter (\<lambda>t. t_type t = typ \<and> c t) (tags d))")
  case None
  then have e: "i = next_id d" "d' = d\<lparr>tags := tags d @ [\<lparr>t_id = next_id d, t_type = typ, t_name = name\<rparr>], next_id := next_id d + 1\<rparr>"
    using assms(1) by (auto simp: find_tag_def)
  show ?thesis using assms(2,3) unfolding e by (fastforce simp: wf_tags_def)
next
  case (Some t)
  then have "t \<in> set (tags d) \<and> t_type t = typ \<and> c t" using first_by_min [OF Some] by simp
  then show ?thesis using Some assms by (auto simp: find_tag_def wf_tags_def)
qed

lemma insert_tagging_wf:
  "wf_tags d \<Longrightarrow> g_id (mk (next_id d)) = next_id d \<Longrightarrow> g_tag (mk (next_id d)) < next_id d \<Longrightarrow> wf_tags (insert_tagging mk d)"
  by (fastforce simp: wf_tags_def insert_tagging_def)

section \<open>Labels\<close>

definition label_names :: "int \<Rightarrow> db \<Rightarrow> (tagging \<times> string) set" where
  "label_names item d = (\<lambda>p. (fst p, label_key p)) ` set (tagged LabelTagType item d)"

lemma insert_labels_spec:
  assumes "wf_tags d"
  shows "wf_tags (insert_labels item index ns d)
    \<and> (\<exists>gs. taggings (insert_labels item index ns d) = taggings d @ gs \<and> (\<forall>g \<in> set gs. g_item g = item \<and> ourMark (g_extra g)))
    \<and> label_names item d \<subseteq> label_names item (insert_labels item index ns d)
    \<and> snd ` label_names item (insert_labels item index ns d) = snd ` label_names item d \<union> ToLower ` set ns
    \<and> (\<forall>(g, n) \<in> label_names item (insert_labels item index ns d). (g, n) \<in> label_names item d \<or> ourMark (g_extra g) \<and> n \<in> ToLower ` set ns)"
  using assms
proof (induction ns arbitrary: d index)
  case (Cons n ns)
  obtain i d1 where f: "labelTag n d = (i, d1)" by (cases "labelTag n d")
  define d2 where "d2 = insert_tagging (\<lambda>j. \<lparr>g_id = j, g_item = item, g_tag = i, g_index = index, g_text = [],
       g_start = 0, g_end = 0, g_extra = labelExtra\<rparr>) d1"
  obtain ts t where t: "wf_tags d1" "taggings d1 = taggings d" "tags d1 = tags d @ ts" "\<forall>t \<in> set ts. next_id d \<le> t_id t"
    "t \<in> set (tags d1)" "t_id t = i" "t_type t = LabelTagType" "t_name t = n" "i < next_id d1" "next_id d \<le> next_id d1"
    using find_tag_spec [OF f [unfolded labelTag_def] Cons.prems] by auto
  have wf2: "wf_tags d2" unfolding d2_def by (rule insert_tagging_wf) (use t in auto)
  let ?g = "\<lparr>g_id = next_id d1, g_item = item, g_tag = i, g_index = index, g_text = [], g_start = 0, g_end = 0, g_extra = labelExtra\<rparr>"
  have rows2: "taggings d2 = taggings d @ [?g]" "tags d2 = tags d1" by (simp_all add: d2_def insert_tagging_def t)
  have names2: "label_names item d2 = insert (?g, ToLower n) (label_names item d)"
  proof -
    have same: "u \<in> set (tags d1) \<Longrightarrow> t_id u = i \<Longrightarrow> u = t" for u
      using t(1,5,6) by (auto simp: wf_tags_def distinct_map inj_on_def)
    have old: "u \<in> set (tags d1) \<Longrightarrow> g \<in> set (taggings d) \<Longrightarrow> t_id u = g_tag g \<Longrightarrow> u \<in> set (tags d)" for u g
      using t(3,4) Cons.prems by (force simp: wf_tags_def)
    have sub: "u \<in> set (tags d) \<Longrightarrow> u \<in> set (tags d1)" for u using t(3) by simp
    have "p \<in> set (tagged LabelTagType item d2) \<longleftrightarrow> p = (?g, t) \<or> p \<in> set (tagged LabelTagType item d)" for p
    proof (cases p)
      case (Pair g u)
      show ?thesis
      proof (cases "g \<in> set (taggings d)")
        case True
        then have "g_id g < next_id d" using Cons.prems by (simp add: wf_tags_def)
        then have "g \<noteq> ?g" using t(10) by auto
        then show ?thesis using True old sub by (auto simp: Pair rows2)
      next
        case False
        then have "(g, u) \<in> set (tagged LabelTagType item d2) \<longleftrightarrow> g = ?g \<and> u \<in> set (tags d1) \<and> t_id u = i \<and> t_type u = LabelTagType"
          unfolding tagged_iff rows2 by auto
        also have "\<dots> \<longleftrightarrow> (g, u) = (?g, t)" using same t(5-7) by blast
        finally show ?thesis using False by (simp add: Pair)
      qed
    qed
    then have "set (tagged LabelTagType item d2) = insert (?g, t) (set (tagged LabelTagType item d))" by blast
    then show ?thesis by (simp add: label_names_def label_key_def t(8))
  qed
  have "insert_labels item index (n # ns) d = insert_labels item (index + 1) ns d2" by (simp add: f d2_def)
  with Cons.IH [OF wf2, of "index + 1"] show ?case
    unfolding names2 by (auto simp: rows2 ourMark_def labelExtra_def)
qed auto

lemma desired_labels_set: "ToLower ` set (desired_labels seen ws) = ToLower ` (set (map trim_space ws) - {[]}) - set seen"
proof (induction ws arbitrary: seen)
  case (Cons w ws)
  then show ?case by (auto simp: Let_def)
qed simp

text \<open>
  C12. After the labels of an item are reconciled, its labels of ours are exactly wanted ones and every wanted one is there; every
  other tagging, the owner's labels among them, is as it was, and doing it again changes nothing.
\<close>

theorem labels_follow_clustarr:
  assumes "wf_tags d" and "ReconcileLabelsTx item want d = (w, r, d')"
  defines "names \<equiv> ToLower ` (trim_space ` set want - {[]})"
  shows "names \<subseteq> snd ` label_names item d' \<and> (\<forall>(g, n) \<in> label_names item d'. ourMark (g_extra g) \<longrightarrow> n \<in> names)
    \<and> {g \<in> set (taggings d'). g_item g \<noteq> item \<or> \<not> ourMark (g_extra g)} = {g \<in> set (taggings d). g_item g \<noteq> item \<or> \<not> ourMark (g_extra g)}
    \<and> ReconcileLabelsTx item want d' = (0, 0, d')"
proof -
  define desired where "desired = desired_labels [] want"
  have names: "ToLower ` set desired = names" using desired_labels_set [of "[]" want] by (simp add: names_def desired_def)
  define found where "found = tagged LabelTagType item d"
  define d1 where "d1 = fold (\<lambda>(g, t). delete_tagging (g_id g)) (filter (drop_label desired) found) d"
  define new where "new = filter (\<lambda>n. ToLower n \<notin> set (map label_key (filter (Not \<circ> drop_label desired) found))) desired"
  define index where "index = int (length found - length (filter (drop_label desired) found))"
  have d1: "d1 = d\<lparr>taggings := filter (\<lambda>g. g_id g \<notin> (g_id \<circ> fst) ` set (filter (drop_label desired) found)) (taggings d)\<rparr>"
    unfolding d1_def by (rule fold_delete_tagging)
  have wf1: "wf_tags d1" using assms(1) unfolding d1 by (auto simp: wf_tags_def distinct_map_filter)
  have d': "d' = insert_labels item index new d1"
    using arg_cong [OF assms(2), of "snd \<circ> snd"] unfolding ReconcileLabelsTx_def Let_def desired_def [symmetric] found_def [symmetric]
      d1_def [symmetric] new_def [symmetric] index_def [symmetric] by simp
  have gid: "g \<in> set (taggings d) \<Longrightarrow> g' \<in> set (taggings d) \<Longrightarrow> g_id g = g_id g' \<Longrightarrow> g = g'" for g g'
    using assms(1) by (auto simp: wf_tags_def distinct_map inj_on_def)
  have tid: "t \<in> set (tags d) \<Longrightarrow> t' \<in> set (tags d) \<Longrightarrow> t_id t = t_id t' \<Longrightarrow> t = t'" for t t'
    using assms(1) by (auto simp: wf_tags_def distinct_map inj_on_def)
  have left: "g \<in> set (taggings d1) \<longleftrightarrow> g \<in> set (taggings d) \<and> (\<forall>t. (g, t) \<in> set found \<longrightarrow> \<not> drop_label desired (g, t))" for g
  proof (cases "g \<in> set (taggings d)")
    case True
    have "g_id g \<in> (g_id \<circ> fst) ` set (filter (drop_label desired) found) \<longleftrightarrow> (\<exists>t. (g, t) \<in> set found \<and> drop_label desired (g, t))"
    proof
      assume "g_id g \<in> (g_id \<circ> fst) ` set (filter (drop_label desired) found)"
      then obtain g' t where g': "(g', t) \<in> set found" "drop_label desired (g', t)" "g_id g' = g_id g" by auto
      then have "g' = g" using gid True by (auto simp: found_def)
      then show "\<exists>t. (g, t) \<in> set found \<and> drop_label desired (g, t)" using g' by blast
    qed force
    then show ?thesis using True by (auto simp: d1)
  qed (simp add: d1)
  have "set (tagged LabelTagType item d1) = set (filter (Not \<circ> drop_label desired) found)"
  proof (rule set_eqI)
    fix p show "p \<in> set (tagged LabelTagType item d1) \<longleftrightarrow> p \<in> set (filter (Not \<circ> drop_label desired) found)"
    proof (cases p)
      case (Pair g t)
      have "g \<in> set (taggings d1) \<Longrightarrow> (g, u) \<in> set found \<Longrightarrow> \<not> drop_label desired (g, u)" for u using left [of g] by blast
      moreover have "tags d1 = tags d" by (simp add: d1)
      moreover have "(g, t) \<in> set found \<Longrightarrow> \<not> drop_label desired (g, t) \<Longrightarrow> g \<in> set (taggings d1)"
      proof -
        assume f: "(g, t) \<in> set found" "\<not> drop_label desired (g, t)"
        have "(g, u) \<in> set found \<Longrightarrow> u = t" for u using f(1) tid [of u t] by (simp add: found_def)
        then show ?thesis using f left [of g] by (auto simp: found_def)
      qed
      ultimately show ?thesis using left [of g] by (auto simp: Pair found_def)
    qed
  qed
  then have kept: "label_names item d1 = (\<lambda>p. (fst p, label_key p)) ` set (filter (Not \<circ> drop_label desired) found)"
    by (simp add: label_names_def)
  have spec: "wf_tags d'" "\<exists>gs. taggings d' = taggings d1 @ gs \<and> (\<forall>g \<in> set gs. g_item g = item \<and> ourMark (g_extra g))"
    "snd ` label_names item d' = snd ` label_names item d1 \<union> ToLower ` set new"
    "\<forall>(g, n) \<in> label_names item d'. (g, n) \<in> label_names item d1 \<or> ourMark (g_extra g) \<and> n \<in> ToLower ` set new"
    using insert_labels_spec [OF wf1, of item index new] unfolding d' [symmetric] by blast+
  have present: "snd ` label_names item d1 = set (map label_key (filter (Not \<circ> drop_label desired) found))"
    unfolding kept by force
  have new_sub: "ToLower ` set new \<subseteq> names" unfolding names [symmetric] new_def by auto
  have a: "names \<subseteq> snd ` label_names item d'" unfolding spec(3) present names [symmetric] new_def by auto
  have b: "n \<in> names" if "(g, n) \<in> label_names item d'" "ourMark (g_extra g)" for g n
  proof (cases "(g, n) \<in> label_names item d1")
    case True
    then show ?thesis using that(2) unfolding kept by (auto simp: drop_label_def label_key_def names)
  next
    case False
    then show ?thesis using spec(4) that(1) new_sub by blast
  qed
  have c: "{g \<in> set (taggings d'). g_item g \<noteq> item \<or> \<not> ourMark (g_extra g)} = {g \<in> set (taggings d). g_item g \<noteq> item \<or> \<not> ourMark (g_extra g)}"
  proof -
    have "g_item g \<noteq> item \<or> \<not> ourMark (g_extra g) \<Longrightarrow> g \<in> set (taggings d1) \<longleftrightarrow> g \<in> set (taggings d)" for g
      using left [of g] by (auto simp: found_def drop_label_def)
    then show ?thesis using spec(2) by auto
  qed
  have keep': "\<not> drop_label desired p" if "p \<in> set (tagged LabelTagType item d')" for p
  proof -
    have "(fst p, label_key p) \<in> label_names item d'" using that by (auto simp: label_names_def)
    then have "ourMark (g_extra (fst p)) \<Longrightarrow> label_key p \<in> names" by (rule b)
    then show ?thesis by (cases p) (auto simp: drop_label_def label_key_def names)
  qed
  have gone': "filter (drop_label desired) (tagged LabelTagType item d') = []" using keep' by (simp add: filter_empty_conv)
  have all': "filter (Not \<circ> drop_label desired) (tagged LabelTagType item d') = tagged LabelTagType item d'" using keep' by (simp add: filter_id_conv)
  have new': "filter (\<lambda>n. ToLower n \<notin> set (map label_key (tagged LabelTagType item d'))) desired = []"
  proof -
    have "snd ` label_names item d' = set (map label_key (tagged LabelTagType item d'))" unfolding label_names_def by force
    then show ?thesis using a unfolding names [symmetric] filter_empty_conv by blast
  qed
  have "ReconcileLabelsTx item want d' = (0, 0, d')"
    unfolding ReconcileLabelsTx_def Let_def desired_def [symmetric] gone' all' new' by simp
  with a b c show ?thesis by blast
qed

text \<open>The owner's own label stays, a keyword that is gone goes, one that came is added.\<close>

definition labelled_db :: db where
  "labelled_db = \<lparr>items = [], medias = [], parts = [], dirs = [], settings = [], streams = [], part_settings = [],
     tags = [\<lparr>t_id = 1, t_type = 11, t_name = ''Mine''\<rparr>, \<lparr>t_id = 2, t_type = 11, t_name = ''Heist''\<rparr>],
     taggings = [\<lparr>g_id = 3, g_item = 9, g_tag = 1, g_index = 0, g_text = [], g_start = 0, g_end = 0, g_extra = []\<rparr>,
       \<lparr>g_id = 4, g_item = 9, g_tag = 2, g_index = 1, g_text = [], g_start = 0, g_end = 0, g_extra = labelExtra\<rparr>],
     locations = [], next_id = 5\<rparr>"

lemma labels_follow_clustarr_witness:
  "\<exists>w r d'. ReconcileLabelsTx 9 ['' Space '', ''mine''] labelled_db = (w, r, d') \<and> w = 1 \<and> r = 1
     \<and> ReconcileLabelsTx 9 ['' Space '', ''mine''] d' = (0, 0, d')"
proof -
  have "wf_tags labelled_db" by code_simp
  moreover have "(case ReconcileLabelsTx 9 ['' Space '', ''mine''] labelled_db of (w, r, d') \<Rightarrow> w = 1 \<and> r = 1)" by code_simp
  ultimately show ?thesis using labels_follow_clustarr
    by (cases "ReconcileLabelsTx 9 ['' Space '', ''mine''] labelled_db") blast
qed

section \<open>Markers\<close>

definition has_tag :: "int \<Rightarrow> db \<Rightarrow> tagging \<Rightarrow> bool" where
  "has_tag typ d g \<longleftrightarrow> (\<exists>t \<in> set (tags d). t_id t = g_tag g \<and> t_type t = typ)"

definition marker_rows :: "int \<Rightarrow> string \<Rightarrow> db \<Rightarrow> tagging list" where
  "marker_rows item kind d = filter (\<lambda>g. g_text g = kind) (map fst (tagged 12 item d))"

lemma tagged_filter:
  assumes "distinct (map t_id (tags d))"
  shows "map fst (tagged typ item d) = filter (\<lambda>g. g_item g = item \<and> has_tag typ d g) (taggings d)"
proof -
  have one: "map fst (map (Pair g) (filter (\<lambda>t. t_id t = g_tag g \<and> t_type t = typ) (tags d))) = (if has_tag typ d g then [g] else [])" for g
  proof -
    have "map (\<lambda>_. g) (filter (\<lambda>t. t_id t = i \<and> t_type t = typ) ts) = (if \<exists>t \<in> set ts. t_id t = i \<and> t_type t = typ then [g] else [])"
      if "distinct (map t_id ts)" for i ts
      using that
    proof (induction ts)
      case (Cons t ts)
      then have "t_id t \<notin> t_id ` set ts" by simp
      then have "t_id t = i \<Longrightarrow> u \<in> set ts \<Longrightarrow> t_id u \<noteq> i" for u by (metis imageI)
      then show ?case using Cons by auto
    qed simp
    from this [OF assms, of "g_tag g"] show ?thesis by (simp add: has_tag_def comp_def)
  qed
  have "map fst (concat (map (\<lambda>g. map (Pair g) (filter (\<lambda>t. t_id t = g_tag g \<and> t_type t = typ) (tags d))) gs)) = filter (has_tag typ d) gs" for gs
    by (induction gs) (simp_all only: list.map concat.simps map_append one filter.simps, auto)
  then show ?thesis by (simp add: tagged_def conj_commute flip: filter_filter)
qed

lemma marker_rows_filter:
  "wf_tags d \<Longrightarrow> marker_rows item kind d = filter (\<lambda>g. g_item g = item \<and> has_tag 12 d g \<and> g_text g = kind) (taggings d)"
  by (simp add: marker_rows_def tagged_filter wf_tags_def conj_ac)

lemma fold_delete_taggings:
  "fold (\<lambda>h. delete_tagging (g_id h)) gone d = d\<lparr>taggings := filter (\<lambda>g. g_id g \<notin> g_id ` set gone) (taggings d)\<rparr>"
  using fold_delete_tagging [of "map (\<lambda>h. (h, undefined)) gone" d] by (simp add: fold_map comp_def image_image)

lemma fold_insert_taggings:
  "wf_tags d \<Longrightarrow> t < next_id d \<Longrightarrow> \<exists>ids. length ids = length rows
     \<and> taggings (fold (\<lambda>r. insert_tagging (marker_tagging item t r)) rows d) = taggings d @ map (\<lambda>(r, i). marker_tagging item t r i) (zip rows ids)
     \<and> tags (fold (\<lambda>r. insert_tagging (marker_tagging item t r)) rows d) = tags d
     \<and> wf_tags (fold (\<lambda>r. insert_tagging (marker_tagging item t r)) rows d)"
proof (induction rows arbitrary: d)
  case (Cons r rows)
  let ?d = "insert_tagging (marker_tagging item t r) d"
  have "wf_tags ?d" using Cons.prems by (intro insert_tagging_wf) (simp_all add: marker_tagging_def)
  moreover have "t < next_id ?d" "tags ?d = tags d" "taggings ?d = taggings d @ [marker_tagging item t r (next_id d)]"
    using Cons.prems by (simp_all add: insert_tagging_def)
  ultimately obtain ids where "length ids = length rows"
    "taggings (fold (\<lambda>r. insert_tagging (marker_tagging item t r)) rows ?d) = taggings d @ map (\<lambda>(r, i). marker_tagging item t r i) (zip (r # rows) (next_id d # ids))"
    "tags (fold (\<lambda>r. insert_tagging (marker_tagging item t r)) rows ?d) = tags d" "wf_tags (fold (\<lambda>r. insert_tagging (marker_tagging item t r)) rows ?d)"
    using Cons.IH [of ?d] by auto
  then show ?case by (intro exI [where x = "next_id d # ids"]) simp
qed simp

definition good_rows :: "string \<Rightarrow> MarkerRow list \<Rightarrow> bool" where
  "good_rows kind rows \<longleftrightarrow> list_all (\<lambda>r. k_text r = kind \<and> k_source r \<in> {[], MarkerSource, ''chapters'', ''analysis''}) rows"

text \<open>What one kind becomes, and that nothing else moves.\<close>

definition kind_done :: "int \<Rightarrow> string \<Rightarrow> MarkerRow list \<Rightarrow> db \<Rightarrow> db \<Rightarrow> bool" where
  "kind_done item kind rows d d' \<longleftrightarrow> (if rows = [] then marker_rows item kind d' = filter (\<lambda>h. \<not> ours (g_extra h)) (marker_rows item kind d)
     else same (marker_rows item kind d') rows)"

definition kinds_frame :: "int \<Rightarrow> string set \<Rightarrow> db \<Rightarrow> db \<Rightarrow> bool" where
  "kinds_frame item kinds d d' \<longleftrightarrow> filter (\<lambda>g. g_item g \<noteq> item \<or> g_text g \<notin> kinds) (taggings d')
     = filter (\<lambda>g. g_item g \<noteq> item \<or> g_text g \<notin> kinds) (taggings d)"

lemma filter_filter_same: "(\<And>x. x \<in> set xs \<Longrightarrow> Q x \<Longrightarrow> P x) \<Longrightarrow> filter Q (filter P xs) = filter Q xs"
  unfolding filter_filter by (rule filter_cong) auto

text \<open>Removing taggings of a kind.\<close>

lemma delete_kind:
  assumes wf: "wf_tags d" and "set gone \<subseteq> set (marker_rows item kind d)" and d1: "d1 = fold (\<lambda>h. delete_tagging (g_id h)) gone d"
  shows "wf_tags d1 \<and> tags d1 = tags d \<and> marker_rows item kind d1 = filter (\<lambda>h. h \<notin> set gone) (marker_rows item kind d)
    \<and> (\<forall>k. k \<noteq> kind \<longrightarrow> marker_rows item k d1 = marker_rows item k d)
    \<and> (\<forall>K. kind \<in> K \<longrightarrow> kinds_frame item K d d1)"
proof -
  have e: "d1 = d\<lparr>taggings := filter (\<lambda>g. g_id g \<notin> g_id ` set gone) (taggings d)\<rparr>" unfolding d1 by (rule fold_delete_taggings)
  have wf1: "wf_tags d1" using wf unfolding e by (auto simp: wf_tags_def distinct_map_filter)
  have gs: "h \<in> set gone \<Longrightarrow> h \<in> set (taggings d) \<and> g_item h = item \<and> has_tag 12 d h \<and> g_text h = kind" for h
    using assms(2) marker_rows_filter [OF wf] by auto
  have gid: "g \<in> set (taggings d) \<Longrightarrow> g_id g \<in> g_id ` set gone \<longleftrightarrow> g \<in> set gone" for g
  proof
    assume g: "g \<in> set (taggings d)" and "g_id g \<in> g_id ` set gone"
    then obtain h where h: "h \<in> set gone" "g_id h = g_id g" by auto
    have "inj_on g_id (set (taggings d))" using wf by (simp add: wf_tags_def distinct_map)
    then have "h = g" using gs [OF h(1)] g h(2) by (auto dest: inj_onD)
    then show "g \<in> set gone" using h(1) by simp
  qed auto
  have left: "taggings d1 = filter (\<lambda>g. g \<notin> set gone) (taggings d)" unfolding e using gid by (simp cong: filter_cong)
  have tag: "tags d1 = tags d" "has_tag 12 d1 g = has_tag 12 d g" for g by (simp_all add: e has_tag_def)
  have rows: "marker_rows item k d1 = filter (\<lambda>h. h \<notin> set gone) (marker_rows item k d)" for k
    unfolding marker_rows_filter [OF wf] marker_rows_filter [OF wf1] left tag filter_filter by (rule filter_cong) auto
  have "marker_rows item k d1 = marker_rows item k d" if "k \<noteq> kind" for k
    unfolding rows marker_rows_filter [OF wf] filter_filter by (rule filter_cong) (use gs that in auto)
  moreover have "kinds_frame item K d d1" if "kind \<in> K" for K
    unfolding kinds_frame_def left by (rule filter_filter_same) (use gs that in blast)
  ultimately show ?thesis using wf1 tag rows by blast
qed

lemma insert_kind:
  assumes wf: "wf_tags d" and t: "t \<in> set (tags d)" "t_id t = i" "t_type t = 12" and k: "list_all (\<lambda>r. k_text r = kind) rows"
    and d1: "d1 = fold (\<lambda>r. insert_tagging (marker_tagging item i r)) rows d"
  shows "wf_tags d1 \<and> tags d1 = tags d \<and> (\<exists>ids. length ids = length rows \<and> marker_rows item kind d1 = marker_rows item kind d @ map (\<lambda>(r, j). marker_tagging item i r j) (zip rows ids))
    \<and> (\<forall>k. k \<noteq> kind \<longrightarrow> marker_rows item k d1 = marker_rows item k d) \<and> (\<forall>K. kind \<in> K \<longrightarrow> kinds_frame item K d d1)"
proof -
  have "i < next_id d" using wf t by (auto simp: wf_tags_def)
  then obtain ids where ids: "length ids = length rows" "taggings d1 = taggings d @ map (\<lambda>(r, j). marker_tagging item i r j) (zip rows ids)"
    "tags d1 = tags d" "wf_tags d1" using fold_insert_taggings [OF wf] unfolding d1 by blast
  have tag: "has_tag 12 d1 g = has_tag 12 d g" for g by (simp add: has_tag_def ids)
  have new: "g_item h = item \<and> has_tag 12 d h \<and> g_text h = kind" if "h \<in> set (map (\<lambda>(r, j). marker_tagging item i r j) (zip rows ids))" for h
    using that k t by (auto simp: marker_tagging_def has_tag_def list_all_iff dest: set_zip_leftD)
  let ?new = "map (\<lambda>(r, j). marker_tagging item i r j) (zip rows ids)"
  have a: "marker_rows item kind d1 = marker_rows item kind d @ ?new"
  proof -
    have "filter (\<lambda>g. g_item g = item \<and> has_tag 12 d g \<and> g_text g = kind) ?new = ?new" using new by (simp add: filter_id_conv)
    then show ?thesis unfolding marker_rows_filter [OF wf] marker_rows_filter [OF ids(4)] tag ids(2) filter_append by simp
  qed
  have b: "marker_rows item k d1 = marker_rows item k d" if "k \<noteq> kind" for k
  proof -
    have "filter (\<lambda>g. g_item g = item \<and> has_tag 12 d g \<and> g_text g = k) ?new = []" using new that unfolding filter_empty_conv by blast
    then show ?thesis unfolding marker_rows_filter [OF wf] marker_rows_filter [OF ids(4)] tag ids(2) filter_append by simp
  qed
  have c: "kinds_frame item K d d1" if "kind \<in> K" for K
  proof -
    have "filter (\<lambda>g. g_item g \<noteq> item \<or> g_text g \<notin> K) ?new = []" using new that unfolding filter_empty_conv by blast
    then show ?thesis unfolding kinds_frame_def ids(2) filter_append by simp
  qed
  show ?thesis using ids a b c by blast
qed

lemma same_new:
  assumes "good_rows kind rows" and "length ids = length rows"
  shows "same (map (\<lambda>(r, j). marker_tagging item i r j) (zip rows ids)) rows"
proof -
  have ok: "marker_is r (marker_tagging item i r j)" if "k_source r \<in> {[], MarkerSource, ''chapters'', ''analysis''}" for r j
    using that by (auto simp: marker_is_def marker_tagging_def markerExtra_def ours_def MarkerKey_def MarkerSource_def markerVersion_def)
  have "list_all (\<lambda>r. list_ex (marker_is r) (map (\<lambda>(r, j). marker_tagging item i r j) (zip rows ids))) rows"
    unfolding list_all_iff
  proof
    fix r assume r: "r \<in> set rows"
    then obtain n where n: "n < length rows" "rows ! n = r" by (auto simp: in_set_conv_nth)
    then have "(r, ids ! n) \<in> set (zip rows ids)" using assms(2) by (auto simp: in_set_zip)
    moreover have "marker_is r (marker_tagging item i r (ids ! n))" using r assms(1) ok by (auto simp: good_rows_def list_all_iff)
    ultimately show "list_ex (marker_is r) (map (\<lambda>(r, j). marker_tagging item i r j) (zip rows ids))" unfolding list_ex_iff by force
  qed
  then show ?thesis using assms(2) by (simp add: same_def)
qed

lemma marker_kinds_spec:
  assumes "wf_tags d" and "distinct (map fst want)" and "\<forall>(k, rows) \<in> set want. good_rows k rows"
    and "\<forall>k \<in> fst ` set want. filter (\<lambda>h. g_text h = k) found = marker_rows item k d"
    and "\<forall>t. tag = Some t \<longrightarrow> (\<exists>u \<in> set (tags d). t_id u = t \<and> t_type u = 12)"
    and "marker_kinds item found tag want d = (w, r, d')"
  shows "wf_tags d' \<and> (\<forall>(k, rows) \<in> set want. kind_done item k rows d d')
    \<and> (\<forall>k. k \<notin> fst ` set want \<longrightarrow> marker_rows item k d' = marker_rows item k d) \<and> kinds_frame item (fst ` set want) d d'"
  using assms
proof (induction want arbitrary: tag d w r)
  case Nil
  then show ?case by (simp add: kinds_frame_def)
next
  case (Cons p want)
  obtain kind rows where p: "p = (kind, rows)" by (cases p)
  have fresh: "kind \<notin> fst ` set want" using Cons.prems(2) p by auto
  have ofKind: "filter (\<lambda>h. g_text h = kind) found = marker_rows item kind d" using Cons.prems(4) p by simp
  have good: "good_rows kind rows" using Cons.prems(3) p by simp
  \<comment> \<open>the tables before the other kinds, and what is known of them\<close>
  have step: "?case" if d1: "wf_tags d1" "kind_done item kind rows d d1" "\<forall>k. k \<noteq> kind \<longrightarrow> marker_rows item k d1 = marker_rows item k d"
      "\<forall>K. kind \<in> K \<longrightarrow> kinds_frame item K d d1" and tag': "\<forall>t. tag' = Some t \<longrightarrow> (\<exists>u \<in> set (tags d1). t_id u = t \<and> t_type u = 12)"
      and run: "marker_kinds item found tag' want d1 = (w', r', d')" for d1 tag' w' r'
  proof -
    have "\<forall>k \<in> fst ` set want. filter (\<lambda>h. g_text h = k) found = marker_rows item k d1"
      using Cons.prems(4) p d1(3) fresh by auto
    then have ih: "wf_tags d'" "\<forall>(k, rows) \<in> set want. kind_done item k rows d1 d'"
      "\<forall>k. k \<notin> fst ` set want \<longrightarrow> marker_rows item k d' = marker_rows item k d1" "kinds_frame item (fst ` set want) d1 d'"
      using Cons.IH [OF d1(1) _ _ _ tag' run] Cons.prems(2,3) by auto
    have "kind_done item kind rows d d'" using ih(3) fresh d1(2) by (simp add: kind_done_def)
    moreover have "kind_done item k rs d d'" if "(k, rs) \<in> set want" for k rs
    proof -
      have "k \<noteq> kind" using fresh that by force
      then have "marker_rows item k d1 = marker_rows item k d" using d1(3) by blast
      moreover have "kind_done item k rs d1 d'" using ih(2) that by blast
      ultimately show ?thesis by (simp add: kind_done_def)
    qed
    moreover have "marker_rows item k d' = marker_rows item k d" if "k \<notin> fst ` set (p # want)" for k
      using ih(3) d1(3) that p by auto
    moreover have "kinds_frame item (fst ` set (p # want)) d d'"
    proof -
      let ?K = "fst ` set (p # want)"
      have "filter (\<lambda>g. g_item g \<noteq> item \<or> g_text g \<notin> ?K) (taggings d') = filter (\<lambda>g. g_item g \<noteq> item \<or> g_text g \<notin> ?K) (filter (\<lambda>g. g_item g \<noteq> item \<or> g_text g \<notin> fst ` set want) (taggings d'))"
        by (rule filter_filter_same [symmetric]) auto
      also have "\<dots> = filter (\<lambda>g. g_item g \<noteq> item \<or> g_text g \<notin> ?K) (filter (\<lambda>g. g_item g \<noteq> item \<or> g_text g \<notin> fst ` set want) (taggings d1))"
        using ih(4) by (simp add: kinds_frame_def)
      also have "\<dots> = filter (\<lambda>g. g_item g \<noteq> item \<or> g_text g \<notin> ?K) (taggings d1)" by (rule filter_filter_same) auto
      also have "\<dots> = filter (\<lambda>g. g_item g \<noteq> item \<or> g_text g \<notin> ?K) (taggings d)"
      proof -
        have "kinds_frame item ?K d d1" using d1(4) p by simp
        then show ?thesis unfolding kinds_frame_def .
      qed
      finally show ?thesis by (simp add: kinds_frame_def)
    qed
    ultimately show ?thesis using ih(1) p by auto
  qed
  show ?case
  proof (cases "rows \<noteq> [] \<and> same (marker_rows item kind d) rows")
    case True
    then have "marker_kinds item found tag want d = (w, r, d')" using Cons.prems(6) by (simp add: p ofKind Let_def)
    from step [OF Cons.prems(1) _ _ _ Cons.prems(5) this] show ?thesis using True by (simp add: kind_done_def kinds_frame_def)
  next
    case new: False
    define gone where "gone = (if rows = [] then filter (\<lambda>h. ours (g_extra h)) (marker_rows item kind d) else marker_rows item kind d)"
    define d1 where "d1 = fold (\<lambda>h. delete_tagging (g_id h)) gone d"
    have del: "wf_tags d1" "tags d1 = tags d" "marker_rows item kind d1 = filter (\<lambda>h. h \<notin> set gone) (marker_rows item kind d)"
      "\<forall>k. k \<noteq> kind \<longrightarrow> marker_rows item k d1 = marker_rows item k d" "\<forall>K. kind \<in> K \<longrightarrow> kinds_frame item K d d1"
      using delete_kind [OF Cons.prems(1) _ d1_def, of item kind] by (auto simp: gone_def)
    show ?thesis
    proof (cases "rows = []")
      case True
      have g: "gone = filter (\<lambda>h. ours (g_extra h)) (marker_rows item kind d)" using True by (simp add: gone_def)
      obtain w' r' d'' where run: "marker_kinds item found tag want d1 = (w', r', d'')" by (metis prod_cases3)
      have "marker_kinds item found tag (p # want) d = (w', r' + int (length gone), d'')"
        using True run unfolding d1_def g p by (simp add: ofKind Let_def)
      then have "d'' = d'" using Cons.prems(6) by simp
      note run = run [unfolded this]
      have "marker_rows item kind d1 = filter (\<lambda>h. \<not> ours (g_extra h)) (marker_rows item kind d)"
        unfolding del(3) gone_def using True by (auto intro: filter_cong)
      then have "kind_done item kind rows d d1" using True by (simp add: kind_done_def)
      then show ?thesis using step [OF del(1) _ del(4,5) _ run] Cons.prems(5) del(2) by simp
    next
      case False
      then have empty: "marker_rows item kind d1 = []" unfolding del(3) gone_def by (simp add: filter_empty_conv)
      obtain t d2 where t: "(case tag of Some t \<Rightarrow> (t, d1) | None \<Rightarrow> markerTag d1) = (t, d2)" by (cases "case tag of Some t \<Rightarrow> (t, d1) | None \<Rightarrow> markerTag d1")
      have d2: "wf_tags d2" "taggings d2 = taggings d1" "\<exists>u \<in> set (tags d2). t_id u = t \<and> t_type u = 12"
        "\<And>g. g \<in> set (taggings d1) \<Longrightarrow> has_tag 12 d2 g = has_tag 12 d1 g"
      proof -
        have "wf_tags d2 \<and> taggings d2 = taggings d1 \<and> (\<exists>u \<in> set (tags d2). t_id u = t \<and> t_type u = 12)
          \<and> (\<forall>g \<in> set (taggings d1). has_tag 12 d2 g = has_tag 12 d1 g)"
        proof (cases tag)
          case None
          then have "find_tag (\<lambda>_. True) 12 [] d1 = (t, d2)" using t by (simp add: markerTag_def)
          from find_tag_spec [OF this del(1)] obtain ts where ts: "wf_tags d2" "taggings d2 = taggings d1" "tags d2 = tags d1 @ ts"
            "\<forall>t \<in> set ts. next_id d1 \<le> t_id t" "\<exists>u \<in> set (tags d2). t_id u = t \<and> t_type u = 12 \<and> True" by blast
          have "has_tag 12 d2 g = has_tag 12 d1 g" if "g \<in> set (taggings d1)" for g
          proof -
            have "g_tag g < next_id d1" using del(1) that by (simp add: wf_tags_def)
            then have "u \<in> set ts \<Longrightarrow> t_id u \<noteq> g_tag g" for u using ts(4) by fastforce
            then show ?thesis unfolding has_tag_def ts(3) by auto
          qed
          then show ?thesis using ts(1,2,5) by blast
        next
          case (Some u)
          then show ?thesis using t del(1,2) Cons.prems(5) by auto
        qed
        then show "wf_tags d2" "taggings d2 = taggings d1" "\<exists>u \<in> set (tags d2). t_id u = t \<and> t_type u = 12"
          "\<And>g. g \<in> set (taggings d1) \<Longrightarrow> has_tag 12 d2 g = has_tag 12 d1 g" by blast+
      qed
      have rows2: "marker_rows item k d2 = marker_rows item k d1" for k
        unfolding marker_rows_filter [OF d2(1)] marker_rows_filter [OF del(1)] d2(2) using d2(4) by (intro filter_cong) auto
      obtain u where u: "u \<in> set (tags d2)" "t_id u = t" "t_type u = 12" using d2(3) by blast
      define d3 where "d3 = fold (\<lambda>r. insert_tagging (marker_tagging item t r)) rows d2"
      have "list_all (\<lambda>r. k_text r = kind) rows" using good by (auto simp: good_rows_def list_all_iff)
      from insert_kind [OF d2(1) u this d3_def] obtain ids where ins: "wf_tags d3" "tags d3 = tags d2" "length ids = length rows"
        "marker_rows item kind d3 = map (\<lambda>(r, j). marker_tagging item t r j) (zip rows ids)"
        "\<forall>k. k \<noteq> kind \<longrightarrow> marker_rows item k d3 = marker_rows item k d2" "\<forall>K. kind \<in> K \<longrightarrow> kinds_frame item K d2 d3"
        by (auto simp: rows2 empty)
      have g: "gone = marker_rows item kind d" using False by (simp add: gone_def)
      obtain w' r' d'' where run: "marker_kinds item found (Some t) want d3 = (w', r', d'')" by (metis prod_cases3)
      have "marker_kinds item found tag (p # want) d = (w' + int (length rows), r' + int (length gone), d'')"
        using False new run t unfolding d3_def d1_def g p by (simp add: ofKind Let_def)
      then have "d'' = d'" using Cons.prems(6) by simp
      note run = run [unfolded this]
      have "kind_done item kind rows d d3" using False same_new [OF good ins(3)] ins(4) by (simp add: kind_done_def)
      moreover have "\<forall>k. k \<noteq> kind \<longrightarrow> marker_rows item k d3 = marker_rows item k d" using ins(5) rows2 del(4) by simp
      moreover have "\<forall>K. kind \<in> K \<longrightarrow> kinds_frame item K d d3" using ins(6) del(5) d2(2) by (simp add: kinds_frame_def)
      ultimately show ?thesis using step [OF ins(1) _ _ _ _ run] u ins(2) by auto
    qed
  qed
qed


text \<open>An intro Plex detected gives way to the answer's; credits answered with none keep Plex's.\<close>

definition marked_db :: db where
  "marked_db = labelled_db\<lparr>tags := [\<lparr>t_id = 1, t_type = 12, t_name = []\<rparr>],
     taggings := [\<lparr>g_id = 3, g_item = 9, g_tag = 1, g_index = 0, g_text = ''intro'', g_start = 1, g_end = 2, g_extra = []\<rparr>,
       \<lparr>g_id = 4, g_item = 9, g_tag = 1, g_index = 0, g_text = ''credits'', g_start = 8, g_end = 9, g_extra = []\<rparr>]\<rparr>"

definition intro_row :: MarkerRow where
  "intro_row = \<lparr>k_text = ''intro'', k_index = 0, k_start = 10, k_end = 20, k_final = False, k_source = MarkerSource\<rparr>"


end
