(* ===== verification/Library_Sidecars.thy ===== *)
theory Library_Sidecars
  imports Library_Seed
begin

text \<open>
  The synchronisation of the external subtitle streams: they become the subtitle files beside the media file, in place.
\<close>

section \<open>Sidecars\<close>

definition wf_streams :: "db \<Rightarrow> bool" where
  "wf_streams d \<longleftrightarrow> distinct (map st_id (streams d)) \<and> (\<forall>s \<in> set (streams d). st_id s < next_id d)"

definition shows_row :: "SidecarRow \<Rightarrow> stream \<Rightarrow> bool" where
  "shows_row w s \<longleftrightarrow> sidecar_current w s \<and> st_url s = d_url w"

lemma want_row_None: "want_row rows url = None \<longleftrightarrow> url \<notin> d_url ` set rows"
  by (auto simp: want_row_def find_None_iff)

lemma want_row_Some: "want_row rows url = Some w \<Longrightarrow> w \<in> set rows \<and> d_url w = url"
proof -
  assume "want_row rows url = Some w"
  then obtain i where i: "i < length (rev rows)" "d_url (rev rows ! i) = url" "w = rev rows ! i" by (auto simp: want_row_def find_Some_iff)
  then have "w \<in> set (rev rows)" using nth_mem by blast
  then show ?thesis using i by simp
qed

lemma sidecar_url_external: "w \<in> set (SidecarRows p sidecars) \<Longrightarrow> prefix ''file://'' (d_url w)"
  by (auto simp: SidecarRows_def sidecar_row_def SidecarURL_def)

lemma fold_insert_streams:
  "list_all (\<lambda>u. want_row rows u \<noteq> None) urls \<Longrightarrow>
   \<exists>ids. length ids = length urls \<and> list_all (\<lambda>i. next_id d \<le> i) ids \<and>
     streams (fold (\<lambda>url d. case want_row rows url of None \<Rightarrow> d | Some w \<Rightarrow> insert_stream (sidecar_stream t w) d) urls d)
       = streams d @ map (\<lambda>(u, i). sidecar_stream t (the (want_row rows u)) i) (zip urls ids)"
proof (induction urls arbitrary: d)
  case (Cons u urls)
  then obtain w where w: "want_row rows u = Some w" by auto
  let ?d = "insert_stream (sidecar_stream t w) d"
  obtain ids where "length ids = length urls" "list_all (\<lambda>i. next_id ?d \<le> i) ids"
    "streams (fold (\<lambda>url d. case want_row rows url of None \<Rightarrow> d | Some w \<Rightarrow> insert_stream (sidecar_stream t w) d) urls ?d)
       = streams ?d @ map (\<lambda>(u, i). sidecar_stream t (the (want_row rows u)) i) (zip urls ids)" using Cons.IH [of ?d] Cons.prems by auto
  then show ?case using w by (intro exI [where x = "next_id d # ids"]) (auto simp: insert_stream_def list_all_iff)
qed simp

lemma sidecar_fix_keeps: "st_id (sidecar_fix t rows s) = st_id s" "external m (sidecar_fix t rows s) = external m s" "st_url (sidecar_fix t rows s) = st_url s"
  by (auto simp: sidecar_fix_def external_def split: option.split)

lemma sidecar_fix_shows: "want_row rows (st_url s) = Some w \<Longrightarrow> shows_row w (sidecar_fix t rows s)"
  using want_row_Some [of rows "st_url s" w] by (auto simp: sidecar_fix_def shows_row_def sidecar_current_def)


text \<open>One file is gone, one is new, one stays with its stream, which a second row doubles; an embedded stream is among them.\<close>

definition sample_stream :: "int \<Rightarrow> string \<Rightarrow> stream" where
  "sample_stream i url = \<lparr>st_id = i, st_media = 3, st_part = 4, st_type = 3, st_index = None, st_url = url, st_codec = ''srt'',
     st_language = Some ''en'', st_channels = None, st_bitrate = None, st_default = False, st_forced = False, st_extra = []\<rparr>"

definition sample_streams :: db where
  "sample_streams = \<lparr>items = [], medias = [], parts = [], dirs = [], settings = [],
     streams = [sample_stream 5 ''file:///m/a.srt'', sample_stream 6 [], sample_stream 7 ''file:///m/b%20c.srt'', sample_stream 8 ''file:///m/b%20c.srt''],
     part_settings = [], tags = [], taggings = [], locations = [], next_id = 9\<rparr>"

definition sample_sidecars :: "Sidecar list" where
  "sample_sidecars = [\<lparr>c_name = ''b c.srt'', c_language = ''fr'', c_forced = False, c_hi = True\<rparr>,
     \<lparr>c_name = ''d.ASS'', c_language = ''en'', c_forced = True, c_hi = False\<rparr>, \<lparr>c_name = ''e.txt'', c_language = [], c_forced = False, c_hi = False\<rparr>]"


end
