(* ===== verification/Library_Apply.thy ===== *)
theory Library_Apply
  imports Library_Seed
begin

text \<open>
  One file of the media manager applied to Plex's library or taken off it: \<open>apply.go\<close>, \<open>media.go\<close>, \<open>folders.go\<close> and
  \<open>delete.go\<close> of \<open>src/pkg/plexproject\<close>. Each is one transaction: what it does to the tables, or an error that leaves them as
  they were. \<open>None\<close> is a walk up the parents that does not end. The parameters in \<open>projector\<close> are the BCP-47 parser, the order
  the two kinds of marker are taken in, SHA-256 and SHA-1 in hex, and the disk's answer about an MP4's layout. The
  seeder, which reads the clock again, has the transaction's time.
\<close>

record projector =
  pr_base :: "string \<Rightarrow> string option"
  pr_ord :: bool
  pr_digest :: "string \<Rightarrow> string"
  pr_bundle :: "string \<Rightarrow> string"
  pr_files :: "(string \<Rightarrow> bool option) option"

datatype apply_error = ErrNoItem | ErrFolder | ErrStore

section \<open>Extra data as a map\<close>

definition get_key :: "string \<Rightarrow> extra \<Rightarrow> string" where
  "get_key k e = (case map_of e k of Some v \<Rightarrow> v | None \<Rightarrow> [])"

definition del_key :: "string \<Rightarrow> extra \<Rightarrow> extra" where
  "del_key k e = filter (\<lambda>p. fst p \<noteq> k) e"

definition set_key :: "string \<Rightarrow> string \<Rightarrow> extra \<Rightarrow> extra" where
  "set_key k v e = (k, v) # del_key k e"

definition has_key :: "string \<Rightarrow> extra \<Rightarrow> bool" where
  "has_key k e \<longleftrightarrow> k \<in> fst ` set e"

definition FileUIDKey :: string where "FileUIDKey = ''cp:mediaFile''"
definition SeedKeyKey :: string where "SeedKeyKey = ''cp:seedKey''"
definition ItemKeyKey :: string where "ItemKeyKey = ''cp:itemKey''"
definition SeedVersionKey :: string where "SeedVersionKey = ''cp:seedVersion''"
definition ItemUIDKey :: string where "ItemUIDKey = ''cp:itemUID''"
definition SeedVersion :: string where "SeedVersion = ''3''"
definition MissingKey :: string where "MissingKey = ''cp:missing''"

section \<open>A change\<close>

record Change =
  ch_uid :: string
  ch_path :: string
  ch_seed :: string
  ch_item :: Item
  ch_input :: Input
  ch_unresolved :: bool
  ch_location :: int

definition leafUID :: "Item \<Rightarrow> string" where
  "leafUID it = (if Chain it = [] then [] else NUID (last (Chain it)))"

definition key_text :: "Item \<Rightarrow> string" where
  "key_text it = concat (map (\<lambda>n. itoa (NType n) @ ''|'' @ NGUID n @ ''|'' @ itoa (NIndex n) @ [CHR 0x0A]
     @ (if Labels n = [] then [] else ''labels|'' @ join [CHR 0x00] (Labels n) @ [CHR 0x0A])) (Chain it))"

definition Key :: "projector \<Rightarrow> Item \<Rightarrow> string" where
  "Key pr it = take 16 (pr_digest pr (key_text it))"

definition guids :: "Item \<Rightarrow> string list" where
  "guids it = (if Chain it = [] then [] else let n = last (Chain it) in
     if PriorGUID n = [] then [NGUID n] else [NGUID n, PriorGUID n])"

definition seedable :: "Change \<Rightarrow> bool" where
  "seedable c \<longleftrightarrow> (case in_probe (ch_input c) of None \<Rightarrow> False | Some p \<Rightarrow> RuntimeMillis p > 0)"

definition current :: "projector \<Rightarrow> Change \<Rightarrow> string \<Rightarrow> string \<Rightarrow> string \<Rightarrow> bool" where
  "current pr c seedKey itemKey seedVersion \<longleftrightarrow> seedKey = ch_seed c \<and> itemKey = Key pr (ch_item c) \<and> (\<not> seedable c \<or> seedVersion = SeedVersion)"

section \<open>The media row of a file\<close>

record found =
  f_media :: int
  f_part :: int
  f_item :: int
  f_seedKey :: string
  f_itemKey :: string
  f_itemUID :: string
  f_probeHash :: string
  f_seedVersion :: string
  f_file :: string
  f_adopted :: bool

definition no_row :: found where
  "no_row = \<lparr>f_media = 0, f_part = 0, f_item = 0, f_seedKey = [], f_itemKey = [], f_itemUID = [], f_probeHash = [],
     f_seedVersion = [], f_file = [], f_adopted = False\<rparr>"

definition with_parts :: "(media \<Rightarrow> bool) \<Rightarrow> (part \<Rightarrow> bool) \<Rightarrow> db \<Rightarrow> (media \<times> part) list" where
  "with_parts c e d = concat (map (\<lambda>m. map (Pair m) (filter (\<lambda>q. p_media q = m_id m \<and> e q) (parts d))) (filter c (medias d)))"

definition stamped :: "int \<Rightarrow> string \<Rightarrow> media \<Rightarrow> bool" where
  "stamped sec uid m \<longleftrightarrow> m_section m = sec \<and> m_deleted m = None \<and> (FileUIDKey, uid) \<in> set (m_extra m)"

definition part_order :: "media \<times> part \<Rightarrow> bool \<times> int \<times> int" where
  "part_order p = (p_deleted (snd p) \<noteq> None, (case p_deleted (snd p) of None \<Rightarrow> 0 | Some t \<Rightarrow> t), p_id (snd p))"

definition adoptable :: "int \<Rightarrow> media \<Rightarrow> bool" where
  "adoptable sec m \<longleftrightarrow> m_section m = sec \<and> m_deleted m = None \<and> \<not> has_key FileUIDKey (m_extra m)"

text \<open>\<open>x IN (...) DESC\<close>: an item that is NULL makes it NULL, which sorts first, unless there is nothing to compare with.\<close>

definition adopt_order :: "int list \<Rightarrow> media \<times> part \<Rightarrow> nat \<times> int" where
  "adopt_order preferred p = (case m_item (fst p) of
       None \<Rightarrow> (if preferred = [] then 2 else 0) | Some i \<Rightarrow> (if i \<in> set preferred then 1 else 2), m_id (fst p))"

definition found_row :: "bool \<Rightarrow> media \<times> part \<Rightarrow> found option" where
  "found_row adopted p = (case m_item (fst p) of None \<Rightarrow> None | Some i \<Rightarrow> let e = m_extra (fst p) in
     Some \<lparr>f_media = m_id (fst p), f_part = p_id (snd p), f_item = i, f_seedKey = get_key SeedKeyKey e, f_itemKey = get_key ItemKeyKey e,
       f_itemUID = get_key ItemUIDKey e, f_probeHash = get_key ProbeHashKey e, f_seedVersion = get_key SeedVersionKey e,
       f_file = p_file (snd p), f_adopted = adopted\<rparr>)"

text \<open>No row, a row, or the error of one without an item.\<close>

definition findMedia :: "int \<Rightarrow> string \<Rightarrow> string \<Rightarrow> string list \<Rightarrow> db \<Rightarrow> apply_error + found option" where
  "findMedia sec uid plexPath prefer d =
     (case first_by part_order (with_parts (stamped sec uid) (\<lambda>_. True) d) of
        Some p \<Rightarrow> (case found_row False p of None \<Rightarrow> Inl ErrStore | Some f \<Rightarrow> Inr (Some f))
      | None \<Rightarrow>
         (let preferred = map i_id (filter (\<lambda>r. i_section r = sec \<and> i_guid r \<in> set prefer) (items d)) in
          case first_by (adopt_order preferred) (with_parts (adoptable sec) (\<lambda>q. p_deleted q = None \<and> p_file q = plexPath) d) of
            None \<Rightarrow> Inr None
          | Some p \<Rightarrow> (case found_row True p of None \<Rightarrow> Inl ErrStore | Some f \<Rightarrow> Inr (Some f))))"

section \<open>Folders\<close>

definition findOrInsertDirectory :: "int \<Rightarrow> int option \<Rightarrow> string \<Rightarrow> db \<Rightarrow> int \<times> db" where
  "findOrInsertDirectory sec parent p d = (case first_by d_id (filter (\<lambda>x. d_section x = sec \<and> d_path x = p \<and> d_deleted x = None) (dirs d)) of
       Some x \<Rightarrow> (d_id x, d)
     | None \<Rightarrow> (next_id d, d\<lparr>dirs := dirs d @ [\<lparr>d_id = next_id d, d_section = sec, d_parent = parent, d_path = p, d_deleted = None\<rparr>],
         next_id := next_id d + 1\<rparr>))"

fun ensure_dirs :: "int \<Rightarrow> int \<Rightarrow> string \<Rightarrow> string list \<Rightarrow> db \<Rightarrow> int \<times> db" where
  "ensure_dirs sec i acc [] d = (i, d)"
| "ensure_dirs sec i acc (el # els) d = (if el = [] then ensure_dirs sec i acc els d
     else let acc = Join [acc, el] in (case findOrInsertDirectory sec (Some i) acc d of (j, d') \<Rightarrow> ensure_dirs sec j acc els d'))"

definition EnsureDirectory :: "int \<Rightarrow> string \<Rightarrow> string \<Rightarrow> db \<Rightarrow> (int \<times> db) option" where
  "EnsureDirectory sec labelled dir d = (case Rel labelled dir of None \<Rightarrow> None | Some rel \<Rightarrow>
     if prefix ''..'' rel then None
     else (case findOrInsertDirectory sec None [] d of (i, d') \<Rightarrow>
       if rel = ''.'' then Some (i, d') else Some (ensure_dirs sec i [] (split_on slash rel) d')))"

section \<open>Retiring a media row\<close>

definition update_medias :: "(media \<Rightarrow> bool) \<Rightarrow> (media \<Rightarrow> media) \<Rightarrow> db \<Rightarrow> db" where
  "update_medias c f d = d\<lparr>medias := map (\<lambda>m. if c m then f m else m) (medias d)\<rparr>"

definition update_parts :: "(part \<Rightarrow> bool) \<Rightarrow> (part \<Rightarrow> part) \<Rightarrow> db \<Rightarrow> db" where
  "update_parts c f d = d\<lparr>parts := map (\<lambda>q. if c q then f q else q) (parts d)\<rparr>"

definition retire_parts :: "int \<Rightarrow> int \<Rightarrow> db \<Rightarrow> db" where
  "retire_parts media now = update_parts (\<lambda>q. p_media q = media \<and> p_deleted q = None) (\<lambda>q. q\<lparr>p_deleted := Some now, p_updated := now\<rparr>)"

definition retireMedia :: "int \<Rightarrow> int \<Rightarrow> db \<Rightarrow> db" where
  "retireMedia media now d = update_medias (\<lambda>m. m_id m = media) (\<lambda>m. m\<lparr>m_deleted := Some now, m_updated := now\<rparr>) (retire_parts media now d)"

definition superseded :: "int \<Rightarrow> db \<Rightarrow> int list" where
  "superseded item d = (if list_ex (\<lambda>m. m_item m = Some item \<and> m_deleted m = None) (medias d)
     then map m_id (filter (\<lambda>m. m_item m = Some item \<and> m_deleted m \<noteq> None \<and> \<not> has_key MissingKey (m_extra m)) (medias d)) else [])"

definition stamp_item :: "int \<Rightarrow> int \<Rightarrow> db \<Rightarrow> db" where
  "stamp_item item now = update_items (\<lambda>r. i_id r = item) (\<lambda>r. r\<lparr>i_updated := now\<rparr>)"

definition clearSuperseded :: "int \<Rightarrow> int \<Rightarrow> db \<Rightarrow> db" where
  "clearSuperseded item now d = (let ids = superseded item d in if ids = [] then d else
     let gone = map p_id (filter (\<lambda>q. p_media q \<in> set ids) (parts d)) in
     stamp_item item now (d\<lparr>streams := filter (\<lambda>s. st_media s \<notin> set ids) (streams d),
       part_settings := filter (\<lambda>i. i \<notin> set gone) (part_settings d), parts := filter (\<lambda>q. p_media q \<notin> set ids) (parts d),
       medias := filter (\<lambda>m. m_id m \<notin> set ids) (medias d)\<rparr>))"

section \<open>Deleting a file\<close>

definition delete_rows :: "int \<Rightarrow> int \<Rightarrow> int \<Rightarrow> db \<Rightarrow> db option" where
  "delete_rows now media item d = trashIfEmpty now item (clearSuperseded item now (retireMedia media now d))"

text \<open>A row without an item fails the scan; the outer \<open>None\<close> is a walk that does not end.\<close>

definition Delete :: "int \<Rightarrow> int \<Rightarrow> string \<Rightarrow> db \<Rightarrow> (apply_error + db) option" where
  "Delete now sec uid d = (case first_by m_id (filter (stamped sec uid) (medias d)) of
       None \<Rightarrow> Some (Inr d)
     | Some m \<Rightarrow> (case m_item m of None \<Rightarrow> Some (Inl ErrStore)
         | Some item \<Rightarrow> map_option Inr (delete_rows now (m_id m) item d)))"

section \<open>Applying a file\<close>

definition upsertMedia :: "int \<Rightarrow> int \<Rightarrow> int \<Rightarrow> int \<Rightarrow> int \<Rightarrow> found \<Rightarrow> bool \<Rightarrow> Change \<Rightarrow> db \<Rightarrow> Target \<times> db" where
  "upsertMedia now sec loc item dir f have_row c d =
     (let size = SizeBytes (ch_input c);
          (f', d') = (if \<not> have_row then
            (let m = next_id d; q = next_id d + 1 in
             (f\<lparr>f_media := m, f_part := q\<rparr>,
              d\<lparr>medias := medias d @ [\<lparr>m_id = m, m_section = sec, m_location = loc, m_item = Some item, m_size = size, m_deleted = None,
                    m_updated = now, m_extra = [], m_version = MediaAnalysisVersion, m_optimized = None, m_columns = None\<rparr>],
                parts := parts d @ [\<lparr>p_id = q, p_media = m, p_dir = Some dir, p_file = ch_path c, p_size = size, p_deleted = None,
                    p_updated = now, p_duration = None, p_extra = []\<rparr>], next_id := next_id d + 2\<rparr>))
          else (f, update_parts (\<lambda>q. p_id q = f_part f)
              (\<lambda>q. q\<lparr>p_dir := Some dir, p_file := ch_path c, p_size := size, p_updated := now, p_deleted := None\<rparr>)
            (update_medias (\<lambda>m. m_id m = f_media f)
              (\<lambda>m. m\<lparr>m_location := loc, m_item := Some item, m_size := size, m_updated := now, m_version := MediaAnalysisVersion, m_deleted := None\<rparr>) d)))
      in (\<lparr>tg_part = f_part f', tg_media = f_media f', tg_item = item\<rparr>, countMedia item d'))"

definition stamps :: "projector \<Rightarrow> Change \<Rightarrow> bool \<Rightarrow> extra \<Rightarrow> extra" where
  "stamps pr c seeded e =
     (let e = set_key ItemKeyKey (Key pr (ch_item c)) (set_key SeedKeyKey (ch_seed c) (set_key FileUIDKey (ch_uid c) (set_key SourceKey SourceValue e)));
          e = (if leafUID (ch_item c) \<noteq> [] then set_key ItemUIDKey (leafUID (ch_item c)) e else e)
      in if seeded then set_key SeedVersionKey SeedVersion (set_key ProbeHashKey (ProbeHash (ch_input c)) e) else e)"

definition stampMedia :: "projector \<Rightarrow> int \<Rightarrow> Change \<Rightarrow> bool \<Rightarrow> db \<Rightarrow> db" where
  "stampMedia pr media c seeded = update_medias (\<lambda>m. m_id m = media) (\<lambda>m. m\<lparr>m_extra := stamps pr c seeded (m_extra m)\<rparr>)"

definition isoBaseMedia :: "string \<Rightarrow> bool" where
  "isoBaseMedia container \<longleftrightarrow> container \<in> {''mp4'', ''m4v'', ''mov'', ''mov,mp4,m4a,3gp,3g2,mj2''}"

text \<open>The layout is asked of the disk when the change does not have it.\<close>

definition with_layout :: "projector \<Rightarrow> Change \<Rightarrow> Input" where
  "with_layout pr c = (let inp = ch_input c in
     case (pr_files pr, in_probe inp, in_fast_start inp) of
       (Some files, Some p, None) \<Rightarrow> if isoBaseMedia (p_container p)
         then (case files (ch_path c) of Some fast \<Rightarrow> inp\<lparr>in_fast_start := Some fast\<rparr> | None \<Rightarrow> inp) else inp
     | _ \<Rightarrow> inp)"

definition fileChanged :: "found \<Rightarrow> bool \<Rightarrow> Change \<Rightarrow> bool \<Rightarrow> bool" where
  "fileChanged f have_row c seeded \<longleftrightarrow> have_row \<and> \<not> f_adopted f
     \<and> (f_file f \<noteq> ch_path c \<or> seeded \<and> f_probeHash f \<noteq> ProbeHash (ch_input c))"

definition needs_refresh :: "int \<Rightarrow> int list \<Rightarrow> int list" where
  "needs_refresh i ids = (if i \<in> set ids then ids else ids @ [i])"

definition locationRoot :: "int \<Rightarrow> db \<Rightarrow> string option" where
  "locationRoot i d = map_option l_root (find (\<lambda>l. l_id l = i) (locations d))"

text \<open>From the row's place on: the folder, the row, its streams and stamps, and the refresh of a changed file.\<close>

definition place_file :: "projector \<Rightarrow> int \<Rightarrow> int \<Rightarrow> int \<Rightarrow> int \<Rightarrow> found \<Rightarrow> bool \<Rightarrow> int list \<Rightarrow> Change \<Rightarrow> db \<Rightarrow> apply_error + int list \<times> db" where
  "place_file pr now sec loc item f have_row pending c d =
     (let loc = (if ch_location c \<noteq> 0 then ch_location c else loc) in
      case locationRoot loc d of None \<Rightarrow> Inl ErrStore
      | Some path \<Rightarrow> (case EnsureDirectory sec path (Dir (ch_path c)) d of None \<Rightarrow> Inl ErrFolder
      | Some (dir, d1) \<Rightarrow> (case upsertMedia now sec loc item dir f have_row c d1 of (target, d2) \<Rightarrow>
         let d3 = clearSuperseded item now d2; inp = with_layout pr c; seeded = seedable c;
             repl = seeded \<and> (\<not> have_row \<or> f_adopted f \<or> f_probeHash f \<noteq> ProbeHash (ch_input c) \<or> f_seedVersion f \<noteq> SeedVersion);
             d4 = snd ((if repl then ReplaceTx else SeedTx) (pr_base pr) (pr_ord pr) now target inp d3);
             d5 = (if seeded then SyncSidecarsTx target (ch_path c) (Sidecars inp) d4 else d4);
             d6 = stampMedia pr (tg_media target) c seeded d5
         in if fileChanged f have_row c seeded then
              (let d7 = stamp_item item now d6 in case refreshTarget item d7 of None \<Rightarrow> Inl ErrStore
                 | Some r \<Rightarrow> Inr (needs_refresh r pending, d7))
            else Inr (pending, d6))))"

definition leave_item :: "int \<Rightarrow> found \<Rightarrow> bool \<Rightarrow> int \<Rightarrow> db \<Rightarrow> (found \<times> bool \<times> db) option" where
  "leave_item now f have_row item d = (if have_row \<and> f_item f \<noteq> 0 \<and> f_item f \<noteq> item
     then map_option (\<lambda>d'. (no_row, False, d')) (delete_rows now (f_media f) (f_item f) d) else Some (f, have_row, d))"

text \<open>
  \<open>broken\<close> is a statement that fails: the transaction is rolled back. The list is the rows Plex is asked to refresh, once the
  transaction is committed.
\<close>

definition Apply :: "projector \<Rightarrow> bool \<Rightarrow> int \<Rightarrow> int \<Rightarrow> int \<Rightarrow> Change \<Rightarrow> db \<Rightarrow> (apply_error + int list \<times> db) option" where
  "Apply pr broken now sec loc c d =
     (if Chain (ch_item c) = [] then Some (Inl ErrNoItem) else if broken then Some (Inl ErrStore)
      else (case findMedia sec (ch_uid c) (ch_path c) (guids (ch_item c)) d of
          Inl e \<Rightarrow> Some (Inl e)
        | Inr fo \<Rightarrow>
          (let have_row = fo \<noteq> None; f = (case fo of None \<Rightarrow> no_row | Some f \<Rightarrow> f) in
           if have_row \<and> \<not> f_adopted f \<and> current pr c (f_seedKey f) (f_itemKey f) (f_seedVersion f) then Some (Inr ([], d))
           else let it = (if have_row \<and> f_itemUID f \<noteq> [] \<and> f_itemUID f = leafUID (ch_item c) then (ch_item c)\<lparr>hint := f_item f\<rparr> else ch_item c) in
             (case EnsureChain (pr_bundle pr) now sec it d of
                None \<Rightarrow> Some (Inl ErrStore)
              | Some (item, labelled, refreshes, d1) \<Rightarrow>
                  (case ReconcileLabelsTx labelled (Labels (hd (Chain it))) d1 of (_, _, d2) \<Rightarrow>
                    map_option (\<lambda>(f', have_row', d3). place_file pr now sec loc item f' have_row' (fold needs_refresh refreshes []) c d3)
                      (leave_item now f have_row item d2))))))"

end
