(* ===== verification/Library_Reconcile.thy ===== *)
theory Library_Reconcile
  imports Library_Apply
begin

text \<open>
  \<open>reconcile.go\<close>: the live media rows of a section or a folder compared with the files clustarr has there. The two loops take
  what \<open>Apply\<close> and \<open>Delete\<close> do as arguments, so that their contract can be stated on its own; \<open>Reconcile\<close> gives them the
  projection's. The order in which a map is read is the argument \<open>shuffle\<close>; \<open>broken n\<close> says that a statement of the \<open>n\<close>-th
  transaction fails.
\<close>

record rowState =
  rs_uid :: string
  rs_seedKey :: string
  rs_itemKey :: string
  rs_seedVersion :: string
  rs_file :: string

record Outcome =
  Applied :: nat
  Deleted :: nat
  Adopted :: nat
  Unknown :: nat
  Failed :: nat

definition underFolder :: "string \<Rightarrow> string \<Rightarrow> bool" where
  "underFolder p folder \<longleftrightarrow> folder = [] \<or> prefix (folder @ ''/'') p"

definition row_state :: "media \<times> part \<Rightarrow> rowState" where
  "row_state = (\<lambda>(m, q). \<lparr>rs_uid = get_key FileUIDKey (m_extra m), rs_seedKey = get_key SeedKeyKey (m_extra m),
     rs_itemKey = get_key ItemKeyKey (m_extra m), rs_seedVersion = get_key SeedVersionKey (m_extra m), rs_file = p_file q\<rparr>)"

definition liveRows :: "int \<Rightarrow> string \<Rightarrow> db \<Rightarrow> rowState list" where
  "liveRows sec folder d = map row_state (with_parts (\<lambda>m. m_section m = sec \<and> m_deleted m = None)
     (\<lambda>q. p_deleted q = None \<and> underFolder (p_file q) folder) d)"

text \<open>The two maps, the last row of a key winning.\<close>

definition stamped_rows :: "rowState list \<Rightarrow> string \<rightharpoonup> rowState" where
  "stamped_rows rows u = find (\<lambda>s. rs_uid s = u) (rev (filter (\<lambda>s. rs_uid s \<noteq> []) rows))"

definition stamped_uids :: "rowState list \<Rightarrow> string list" where
  "stamped_uids rows = remdups (filter (\<lambda>u. u \<noteq> []) (map rs_uid rows))"

definition paths_by :: "rowState list \<Rightarrow> string list" where
  "paths_by rows = remdups (map rs_file (filter (\<lambda>s. rs_uid s = []) rows))"

section \<open>The loops\<close>

type_synonym 'd run = "Outcome \<times> string list \<times> nat \<times> 'd"

text \<open>
  The state of the loops: the counts, the paths of the rows without a stamp, the number of transactions so far and the tables.
  \<open>None\<close> is a transaction that does not end.
\<close>

fun apply_wanted :: "(nat \<Rightarrow> Change \<Rightarrow> 'd \<Rightarrow> ('e + 'd) option) \<Rightarrow> (Change \<Rightarrow> rowState \<Rightarrow> bool) \<Rightarrow> string \<Rightarrow> (string \<rightharpoonup> rowState)
    \<Rightarrow> Change list \<Rightarrow> 'd run \<Rightarrow> 'd run option" where
  "apply_wanted ap cur folder rows [] s = Some s"
| "apply_wanted ap cur folder rows (c # cs) (out, byPath, n, d) =
     (if \<not> underFolder (ch_path c) folder \<or> ch_unresolved c then apply_wanted ap cur folder rows cs (out, byPath, n, d)
      else if (case rows (ch_uid c) of Some st \<Rightarrow> cur c st | None \<Rightarrow> False) then apply_wanted ap cur folder rows cs (out, byPath, n, d)
      else let adopt = rows (ch_uid c) = None \<and> ch_path c \<in> set byPath;
               out' = (if adopt then out\<lparr>Adopted := Adopted out + 1\<rparr> else out);
               byPath' = (if adopt then removeAll (ch_path c) byPath else byPath)
           in (case ap n c d of
               None \<Rightarrow> None
             | Some (Inl e) \<Rightarrow> apply_wanted ap cur folder rows cs (out'\<lparr>Failed := Failed out' + 1\<rparr>, byPath', Suc n, d)
             | Some (Inr d') \<Rightarrow> apply_wanted ap cur folder rows cs (out'\<lparr>Applied := Applied out' + 1\<rparr>, byPath', Suc n, d')))"

fun delete_unwanted :: "(nat \<Rightarrow> string \<Rightarrow> 'd \<Rightarrow> ('e + 'd) option) \<Rightarrow> string set \<Rightarrow> string list \<Rightarrow> 'd run \<Rightarrow> 'd run option" where
  "delete_unwanted del wanted [] s = Some s"
| "delete_unwanted del wanted (u # us) (out, byPath, n, d) =
     (if u \<in> wanted then delete_unwanted del wanted us (out, byPath, n, d)
      else (case del n u d of
          None \<Rightarrow> None
        | Some (Inl e) \<Rightarrow> delete_unwanted del wanted us (out\<lparr>Failed := Failed out + 1\<rparr>, byPath, Suc n, d)
        | Some (Inr d') \<Rightarrow> delete_unwanted del wanted us (out\<lparr>Deleted := Deleted out + 1\<rparr>, byPath, Suc n, d')))"

definition no_outcome :: Outcome where
  "no_outcome = \<lparr>Applied = 0, Deleted = 0, Adopted = 0, Unknown = 0, Failed = 0\<rparr>"

text \<open>A whole pass; the left value is \<open>ErrEmptyWant\<close>.\<close>

definition reconcile_pass :: "(nat \<Rightarrow> Change \<Rightarrow> 'd \<Rightarrow> ('e + 'd) option) \<Rightarrow> (nat \<Rightarrow> string \<Rightarrow> 'd \<Rightarrow> ('e + 'd) option)
    \<Rightarrow> (Change \<Rightarrow> rowState \<Rightarrow> bool) \<Rightarrow> (string list \<Rightarrow> string list) \<Rightarrow> string \<Rightarrow> rowState list \<Rightarrow> Change list \<Rightarrow> 'd \<Rightarrow> (unit + Outcome \<times> 'd) option" where
  "reconcile_pass ap del cur shuffle folder rows want d =
     (if want = [] \<and> stamped_uids rows \<noteq> [] then Some (Inl ())
      else (case apply_wanted ap cur folder (stamped_rows rows) want (no_outcome, paths_by rows, 0, d) of
          None \<Rightarrow> None
        | Some s \<Rightarrow> (case delete_unwanted del (ch_uid ` set want) (shuffle (stamped_uids rows)) s of
            None \<Rightarrow> None
          | Some (out, byPath, n, d') \<Rightarrow> Some (Inr (out\<lparr>Unknown := length byPath\<rparr>, d')))))"

definition apply_one :: "projector \<Rightarrow> (nat \<Rightarrow> bool) \<Rightarrow> int \<Rightarrow> int \<Rightarrow> int \<Rightarrow> nat \<Rightarrow> Change \<Rightarrow> db \<Rightarrow> (apply_error + db) option" where
  "apply_one pr broken now sec loc n c d = map_option (map_sum id snd) (Apply pr (broken n) now sec loc c d)"

definition delete_one :: "(nat \<Rightarrow> bool) \<Rightarrow> int \<Rightarrow> int \<Rightarrow> nat \<Rightarrow> string \<Rightarrow> db \<Rightarrow> (apply_error + db) option" where
  "delete_one broken now sec n u d = (if broken n then Some (Inl ErrStore) else Delete now sec u d)"

definition row_current :: "projector \<Rightarrow> Change \<Rightarrow> rowState \<Rightarrow> bool" where
  "row_current pr c st \<longleftrightarrow> current pr c (rs_seedKey st) (rs_itemKey st) (rs_seedVersion st)"

definition Reconcile :: "projector \<Rightarrow> (nat \<Rightarrow> bool) \<Rightarrow> (string list \<Rightarrow> string list) \<Rightarrow> int \<Rightarrow> int \<Rightarrow> int \<Rightarrow> string \<Rightarrow> Change list \<Rightarrow> db
    \<Rightarrow> (unit + Outcome \<times> db) option" where
  "Reconcile pr broken shuffle now sec loc folder want d =
     reconcile_pass (apply_one pr broken now sec loc) (delete_one broken now sec) (row_current pr) shuffle folder (liveRows sec folder d) want d"

end
