(* ===== verification/Library_Frames.thy ===== *)
theory Library_Frames
  imports Library_Reconcile Library_Trash
begin

text \<open>
  What the parts of \<open>Apply\<close> and \<open>Delete\<close> leave alone: the taggings, folders and the walks over the item tree do not touch a
  media row or a part, and keep the tree well formed.
\<close>

section \<open>Frames\<close>

text \<open>The taggings, streams and folders aside, the tables are as they were.\<close>

definition keeps_rows :: "db \<Rightarrow> db \<Rightarrow> bool" where
  "keeps_rows d d' \<longleftrightarrow> items d' = items d \<and> medias d' = medias d \<and> parts d' = parts d \<and> next_id d \<le> next_id d'"

lemma keeps_refl [simp]: "keeps_rows d d"
  by (simp add: keeps_rows_def)

lemma keeps_trans: "keeps_rows d e \<Longrightarrow> keeps_rows e f \<Longrightarrow> keeps_rows d f"
  by (simp add: keeps_rows_def)

lemma keeps_fold: "(\<And>x d. keeps_rows d (f x d)) \<Longrightarrow> keeps_rows d (fold f xs d)"
proof (induction xs arbitrary: d)
  case (Cons x xs)
  show ?case using keeps_trans [OF Cons.prems [of d x] Cons.IH [of "f x d"]] Cons.prems by simp
qed simp

lemma keeps_tagging [simp]: "keeps_rows d (insert_tagging mk d)" "keeps_rows d (delete_tagging i d)"
  by (simp_all add: keeps_rows_def insert_tagging_def delete_tagging_def)

lemma keeps_find_tag: "find_tag c typ n d = (i, d') \<Longrightarrow> keeps_rows d d'"
  by (auto simp: find_tag_def keeps_rows_def split: option.splits)

lemma keeps_insert_labels: "keeps_rows d (insert_labels item index ns d)"
proof (induction ns arbitrary: index d)
  case (Cons n ns)
  obtain i d1 where f: "labelTag n d = (i, d1)" by (cases "labelTag n d")
  have "keeps_rows d d1" using keeps_find_tag f unfolding labelTag_def by blast
  then have "keeps_rows d (insert_tagging mk d1)" for mk by (rule keeps_trans) simp
  then show ?case using Cons keeps_trans by (simp add: f) blast
qed simp

lemma keeps_labels: "keeps_rows d (snd (snd (ReconcileLabelsTx item want d)))"
proof -
  have "keeps_rows d (fold (\<lambda>(g, t). delete_tagging (g_id g)) gone d)" for gone by (rule keeps_fold) (simp split: prod.split)
  then show ?thesis using keeps_insert_labels keeps_trans unfolding ReconcileLabelsTx_def Let_def snd_conv by blast
qed

lemma keeps_markers: "keeps_rows d (snd (snd (marker_kinds item fnd tag want d)))"
proof (induction want arbitrary: tag d)
  case (Cons p want)
  obtain kind desired where p: "p = (kind, desired)" by (cases p)
  have del: "keeps_rows d (fold (\<lambda>h. delete_tagging (g_id h)) hs d)" for hs d by (rule keeps_fold) simp
  have ins: "keeps_rows d (fold (\<lambda>r. insert_tagging (marker_tagging item t r)) rs d)" for t rs d by (rule keeps_fold) simp
  have tg: "keeps_rows e (snd (case tag of Some t \<Rightarrow> (t, e) | None \<Rightarrow> markerTag e))" for e
    by (cases tag) (auto simp: markerTag_def intro: keeps_find_tag prod.collapse [symmetric])
  let ?of = "filter (\<lambda>h. g_text h = kind) fnd"
  let ?drop = "if desired = [] then filter (\<lambda>h. ours (g_extra h)) ?of else ?of"
  let ?d1 = "fold (\<lambda>h. delete_tagging (g_id h)) ?drop d"
  obtain t d2 where t: "(case tag of Some t \<Rightarrow> (t, ?d1) | None \<Rightarrow> markerTag ?d1) = (t, d2)" by (cases "case tag of Some t \<Rightarrow> (t, ?d1) | None \<Rightarrow> markerTag ?d1")
  let ?d3 = "fold (\<lambda>r. insert_tagging (marker_tagging item t r)) desired d2"
  have 1: "keeps_rows d ?d1" by (rule del)
  have 2: "keeps_rows d ?d3" using keeps_trans [OF keeps_trans [OF 1] ins, of d2] tg [of ?d1] t by simp
  show ?case
  proof (cases "desired = []")
    case True
    then have "snd (snd (marker_kinds item fnd tag (p # want) d)) = snd (snd (marker_kinds item fnd tag want ?d1))"
      unfolding p marker_kinds.simps Let_def by (simp split: prod.split)
    then show ?thesis using keeps_trans [OF 1 Cons.IH] by simp
  next
    case False
    then have "snd (snd (marker_kinds item fnd tag (p # want) d)) =
      (if same ?of desired then snd (snd (marker_kinds item fnd tag want d)) else snd (snd (marker_kinds item fnd (Some t) want ?d3)))"
      using t unfolding p marker_kinds.simps Let_def by (simp split: prod.split)
    then show ?thesis using Cons.IH keeps_trans [OF 2 Cons.IH] by simp
  qed
qed simp

lemma keeps_dirs: "keeps_rows d (snd (findOrInsertDirectory sec parent p d))"
  by (auto simp: findOrInsertDirectory_def keeps_rows_def split: option.split)

lemma keeps_ensure_dirs: "keeps_rows d (snd (ensure_dirs sec i acc els d))"
proof (induction els arbitrary: i acc d)
  case (Cons el els)
  obtain j d1 where f: "findOrInsertDirectory sec (Some i) (Join [acc, el]) d = (j, d1)" by (cases "findOrInsertDirectory sec (Some i) (Join [acc, el]) d")
  have "keeps_rows d d1" using keeps_dirs [of d sec "Some i" "Join [acc, el]"] f by simp
  then show ?case using Cons keeps_trans by (simp add: f Let_def)
qed simp

lemma keeps_directory: "EnsureDirectory sec path dir d = Some (i, d') \<Longrightarrow> keeps_rows d d'"
proof -
  assume e: "EnsureDirectory sec path dir d = Some (i, d')"
  obtain j d1 where f: "findOrInsertDirectory sec None [] d = (j, d1)" by (cases "findOrInsertDirectory sec None [] d")
  have 1: "keeps_rows d d1" using keeps_dirs [of d sec None "[]"] f by simp
  have 2: "keeps_rows d1 (snd (ensure_dirs sec j [] els d1))" for els by (rule keeps_ensure_dirs)
  from e f have "d' = d1 \<or> (\<exists>els. ensure_dirs sec j [] els d1 = (i, d'))" by (auto simp: EnsureDirectory_def split: option.splits if_splits)
  then show ?thesis using 1 keeps_trans [OF 1] 2 by (metis snd_conv)
qed


text \<open>The item tree, up to what an item is called, and the medias as they were.\<close>

definition shape :: "db \<Rightarrow> (int \<times> int option \<times> int) list" where
  "shape d = map (\<lambda>r. (i_id r, i_parent r, i_type r)) (items d)"

definition tree_ok :: "db \<Rightarrow> bool" where
  "tree_ok d \<longleftrightarrow> wf_items d \<and> typed_parents d"

lemma tree_ok_shape:
  assumes s: "shape d' = shape d" and n: "next_id d \<le> next_id d'" and ok: "tree_ok d"
  shows "tree_ok d'"
proof -
  have rows: "(\<exists>r \<in> set (items d'). P (i_id r) (i_parent r) (i_type r)) \<longleftrightarrow> (\<exists>r \<in> set (items d). P (i_id r) (i_parent r) (i_type r))" for P
  proof -
    have "(\<exists>r \<in> set (items e). P (i_id r) (i_parent r) (i_type r)) \<longleftrightarrow> (\<exists>x \<in> set (shape e). P (fst x) (fst (snd x)) (snd (snd x)))" for e
      by (simp add: shape_def)
    then show ?thesis using s by simp
  qed
  have same_row: "\<exists>r' \<in> set (items d). i_id r' = i_id r \<and> i_parent r' = i_parent r \<and> i_type r' = i_type r" if "r \<in> set (items d')" for r
    using rows [of "\<lambda>a b c. a = i_id r \<and> b = i_parent r \<and> c = i_type r"] that by blast
  have "map fst (shape e) = map i_id (items e)" for e by (simp add: shape_def)
  then have ids: "map i_id (items d') = map i_id (items d)" using s by metis
  have wf: "wf_items d'" unfolding wf_items_def
  proof (intro conjI ballI)
    show "0 < next_id d'" using ok n by (simp add: tree_ok_def wf_items_def)
    show "distinct (map i_id (items d'))" using ok ids by (simp add: tree_ok_def wf_items_def)
    fix r assume "r \<in> set (items d')"
    from same_row [OF this] obtain r' where "r' \<in> set (items d)" "i_id r' = i_id r" by blast
    then show "0 < i_id r" "i_id r < next_id d'" using ok n unfolding tree_ok_def wf_items_def by fastforce+
  qed
  have "typed_parents d'" unfolding typed_parents_def
  proof (intro conjI ballI allI impI)
    fix r i assume r: "r \<in> set (items d')" "i_parent r = Some i"
    from same_row [OF r(1)] obtain r' where "r' \<in> set (items d)" "i_parent r' = i_parent r" by blast
    then have "i < next_id d" using ok r(2) unfolding tree_ok_def typed_parents_def by fastforce
    then show "i < next_id d'" using n by simp
  next
    fix r p assume r: "r \<in> set (items d')" and p: "p \<in> set (items d')" and up: "i_parent r = Some (i_id p)"
    obtain r' where r': "r' \<in> set (items d)" "i_parent r' = i_parent r" "i_type r' = i_type r" using same_row [OF r] by blast
    obtain p' where p': "p' \<in> set (items d)" "i_id p' = i_id p" "i_type p' = i_type p" using same_row [OF p] by blast
    have "0 \<le> i_type p' \<and> i_type p' < i_type r'" using ok r' p' up unfolding tree_ok_def typed_parents_def by metis
    then show "0 \<le> i_type p" "i_type p < i_type r" using r' p' by simp_all
  qed
  then show ?thesis using wf by (simp add: tree_ok_def)
qed

definition keeps_media :: "db \<Rightarrow> db \<Rightarrow> bool" where
  "keeps_media d d' \<longleftrightarrow> medias d' = medias d \<and> parts d' = parts d \<and> next_id d \<le> next_id d'"

lemma keeps_rows_media: "keeps_rows d d' \<Longrightarrow> keeps_media d d' \<and> shape d' = shape d"
  by (simp add: keeps_rows_def keeps_media_def shape_def)

lemma keeps_media_refl [simp]: "keeps_media d d"
  by (simp add: keeps_media_def)

lemma keeps_media_trans: "keeps_media d e \<Longrightarrow> keeps_media e f \<Longrightarrow> keeps_media d f"
  by (simp add: keeps_media_def)

lemma update_items_keeps [simp]: "keeps_media d (update_items c f d)"
  by (simp add: keeps_media_def update_items_def)

lemma shape_update: "(\<And>r. i_id (f r) = i_id r \<and> i_parent (f r) = i_parent r \<and> i_type (f r) = i_type r) \<Longrightarrow> shape (update_items c f d) = shape d"
  by (simp add: shape_def update_items_def)

lemma ensure_node_media: "keeps_media d (snd (snd (ensure_node bun now sec parent n leaf hnt d)))"
  by (auto simp: ensure_node_def insertItem_def keyItem_def placeItem_def moveWatchState_def update_items_def Let_def keeps_media_def
    split: option.split)

lemma ensure_nodes_media: "ensure_nodes bun now sec hnt parent asked ns d = (ids, refreshes, d') \<Longrightarrow> keeps_media d d'"
proof (induction ns arbitrary: parent asked d ids refreshes)
  case (Cons n ns)
  obtain i fill d1 where e: "ensure_node bun now sec parent n (ns = []) hnt d = (i, fill, d1)"
    by (cases "ensure_node bun now sec parent n (ns = []) hnt d") auto
  obtain asked' ids' refreshes' where es: "ensure_nodes bun now sec hnt (Some i) asked' ns d1 = (ids', refreshes', d')"
    using Cons.prems e by (auto simp: Let_def split: prod.splits)
  have "keeps_media d d1" using ensure_node_media [of d bun now sec parent n "ns = []" hnt] e by simp
  then show ?case using Cons.IH [OF es] keeps_media_trans by blast
qed simp

lemma ensure_chain_media: "EnsureChain bun now sec it d = Some (i, l, rs, d') \<Longrightarrow> keeps_media d d'"
  using ensure_nodes_media [of bun now sec "hint it" None 0 "Chain it" d] by (auto simp: EnsureChain_def split: prod.splits if_splits)

lemma some_branch:
  "(if c then Some a else (case q of None \<Rightarrow> Some b | Some p \<Rightarrow> f p)) = Some x \<Longrightarrow> x = a \<or> x = b \<or> (\<exists>p. f p = Some x)"
  by (auto split: if_splits option.splits)

lemma trash_media_kept:
  assumes "trashIfEmpty now i d = Some d'"
  shows "keeps_media d d' \<and> shape d' = shape d"
proof (rule trashIfEmpty.raw_induct [OF _ assms, where P = "\<lambda>now i d d'. keeps_media d d' \<and> shape d' = shape d"])
  fix walk :: "int \<Rightarrow> int \<Rightarrow> db \<Rightarrow> db option" and now i d d'
  assume ih: "\<And>now i d d'. walk now i d = Some d' \<Longrightarrow> keeps_media d d' \<and> shape d' = shape d"
  let ?d1 = "countMedia i d"
  let ?d2 = "update_items (\<lambda>r. i_id r = i) (\<lambda>r. r\<lparr>i_deleted := Some now, i_updated := now\<rparr>) ?d1"
  assume e: "(if i = 0 then Some d else (case item_at d i of None \<Rightarrow> Some d | Some r \<Rightarrow>
    (let live = live_media i d + live_children i d; d1 = countMedia i d in
      if live > 0 then Some d1 else let d2 = update_items (\<lambda>r. i_id r = i) (\<lambda>r. r\<lparr>i_deleted := Some now, i_updated := now\<rparr>) d1 in
        (case i_parent r of None \<Rightarrow> Some d2 | Some p \<Rightarrow> walk now p d2)))) = Some d'"
  have k1: "keeps_media d ?d1" "shape ?d1 = shape d" by (simp_all add: countMedia_def shape_update)
  have k2: "keeps_media d ?d2" "shape ?d2 = shape d" using keeps_media_trans [OF k1(1)] k1(2) by (simp_all add: shape_update)
  show "keeps_media d d' \<and> shape d' = shape d"
  proof (cases "i = 0 \<or> item_at d i = None")
    case True
    then have "d' = d" using e by (cases "i = 0") auto
    then show ?thesis by simp
  next
    case False
    then obtain r where r: "item_at d i = Some r" "i \<noteq> 0" by blast
    from e have "(if live_media i d + live_children i d > 0 then Some ?d1 else (case i_parent r of None \<Rightarrow> Some ?d2 | Some p \<Rightarrow> walk now p ?d2)) = Some d'"
      unfolding Let_def r(1) option.case by (simp only: r(2) if_False)
    from some_branch [OF this] consider "d' = ?d1" | "d' = ?d2" | p where "walk now p ?d2 = Some d'" by blast
    then show ?thesis
    proof cases
      case 3
      from ih [OF this] have k3: "keeps_media ?d2 d'" "shape d' = shape ?d2" by auto
      show ?thesis using keeps_media_trans [OF k2(1) k3(1)] k3(2) k2(2) by (simp only: simp_thms)
    qed (use k1 k2 in \<open>simp_all only: simp_thms\<close>)
  qed
qed

lemma trash_ok:
  assumes "tree_ok d"
  shows "\<exists>d'. trashIfEmpty now i d = Some d' \<and> keeps_media d d' \<and> tree_ok d'"
proof -
  from assms have "wf_items d" "typed_parents d" by (simp_all add: tree_ok_def)
  then obtain d' where d': "trashIfEmpty now i d = Some d'" using trash_if_empty_exact by blast
  with trash_media_kept [OF d'] tree_ok_shape [of d' d] assms show ?thesis by (auto simp: keeps_media_def)
qed

end
