(* ===== verification/Library_Apply_Facts.thy ===== *)
theory Library_Apply_Facts
  imports Library_Frames
begin

text \<open>
  What one \<open>Apply\<close> and one \<open>Delete\<close> do to the media rows: an applied file ends on one live row that carries its stamps, a
  deleted file on none, and the rows of every other file are left exactly as they were.
\<close>

section \<open>Rows that are spared\<close>

definition ids_ok :: "db \<Rightarrow> bool" where
  "ids_ok d \<longleftrightarrow> distinct (map m_id (medias d)) \<and> distinct (map p_id (parts d)) \<and> (\<forall>m \<in> set (medias d). m_id m < next_id d)
     \<and> (\<forall>q \<in> set (parts d). p_id q < next_id d)"

text \<open>The live media rows with an id outside a set, and their parts.\<close>

definition spares :: "int set \<Rightarrow> db \<Rightarrow> db \<Rightarrow> bool" where
  "spares T d d' \<longleftrightarrow> (\<forall>m. m_id m \<notin> T \<longrightarrow> m_deleted m = None \<longrightarrow> (m \<in> set (medias d') \<longleftrightarrow> m \<in> set (medias d)))
     \<and> (\<forall>m \<in> set (medias d). m_id m \<notin> T \<longrightarrow> m_deleted m = None \<longrightarrow> (\<forall>q. p_media q = m_id m \<longrightarrow> (q \<in> set (parts d') \<longleftrightarrow> q \<in> set (parts d))))"

lemma spares_media: "spares T d d' \<Longrightarrow> m_id m \<notin> T \<Longrightarrow> m_deleted m = None \<Longrightarrow> m \<in> set (medias d') \<longleftrightarrow> m \<in> set (medias d)"
  by (simp add: spares_def)

lemma spares_part:
  "spares T d d' \<Longrightarrow> m \<in> set (medias d) \<Longrightarrow> m_id m \<notin> T \<Longrightarrow> m_deleted m = None \<Longrightarrow> p_media q = m_id m \<Longrightarrow> q \<in> set (parts d') \<longleftrightarrow> q \<in> set (parts d)"
  by (simp add: spares_def)

lemma spares_trans: "spares T d e \<Longrightarrow> spares T e f \<Longrightarrow> spares T d f"
  unfolding spares_def by (intro conjI allI ballI impI; elim conjE; meson)

lemma keeps_media_spares: "keeps_media d d' \<Longrightarrow> spares T d d'"
  by (simp add: spares_def keeps_media_def)

lemma keeps_media_ids: "keeps_media d d' \<Longrightarrow> ids_ok d \<Longrightarrow> ids_ok d'"
  by (fastforce simp: ids_ok_def keeps_media_def)

lemma ids_ok_keys: "ids_ok d \<longleftrightarrow> distinct (map m_id (medias d)) \<and> distinct (map p_id (parts d))
    \<and> (\<forall>k \<in> set (map m_id (medias d)). k < next_id d) \<and> (\<forall>k \<in> set (map p_id (parts d)). k < next_id d)"
  by (simp add: ids_ok_def)

lemma map_if_set: "y \<in> set (map (\<lambda>x. if c x then f x else x) xs) \<longleftrightarrow> (\<exists>x \<in> set xs. c x \<and> y = f x) \<or> (y \<in> set xs \<and> \<not> c y)"
  by auto

lemma map_if_key: "(\<And>x. k (f x) = k x) \<Longrightarrow> map k (map (\<lambda>x. if c x then f x else x) xs) = map k xs"
  by simp

lemma distinct_key: "distinct (map k xs) \<Longrightarrow> x \<in> set xs \<Longrightarrow> y \<in> set xs \<Longrightarrow> k x = k y \<Longrightarrow> x = y"
  by (auto simp: distinct_map inj_on_def)

text \<open>Every write of a row names its media row and one of its parts.\<close>

lemma touch_row:
  assumes ids: "ids_ok d" and m: "medias d' = map (\<lambda>m. if m_id m = a then F m else m) (medias d)"
    and p: "parts d' = map (\<lambda>q. if p_id q = b then G q else q) (parts d)" and F: "\<And>m. m_id (F m) = m_id m"
    and G: "\<And>q. p_id (G q) = p_id q \<and> p_media (G q) = p_media q" and n: "next_id d \<le> next_id d'"
    and row: "r \<in> set (parts d)" "p_id r = b" "p_media r = a"
  shows "spares {a} d d' \<and> ids_ok d'"
proof
  have only: "p_media q = a" if "q \<in> set (parts d)" "p_id q = b" for q
    using distinct_key [of p_id "parts d" q r] that row ids by (auto simp: ids_ok_def)
  show "spares {a} d d'" unfolding spares_def m p map_if_set
  proof (intro conjI allI impI ballI)
    fix x :: media assume "m_id x \<notin> {a}"
    then show "((\<exists>y \<in> set (medias d). m_id y = a \<and> x = F y) \<or> x \<in> set (medias d) \<and> m_id x \<noteq> a) \<longleftrightarrow> x \<in> set (medias d)" using F by auto
  next
    fix x :: media and q :: part assume x: "m_id x \<notin> {a}" "p_media q = m_id x"
    show "((\<exists>y \<in> set (parts d). p_id y = b \<and> q = G y) \<or> q \<in> set (parts d) \<and> p_id q \<noteq> b) \<longleftrightarrow> q \<in> set (parts d)"
      using x only G by auto
  qed
  have "map m_id (medias d') = map m_id (medias d)" "map p_id (parts d') = map p_id (parts d)"
    unfolding m p by (rule map_if_key, simp add: F G)+
  then show "ids_ok d'" using ids n ids_ok_keys [of d] ids_ok_keys [of d'] by (simp only:) (meson order_less_le_trans)
qed

text \<open>A target that is there, live, and what the seeding may do to it.\<close>

definition row_at :: "int \<Rightarrow> Target \<Rightarrow> db \<Rightarrow> bool" where
  "row_at sec t d \<longleftrightarrow> (\<exists>m \<in> set (medias d). m_id m = tg_media t \<and> m_section m = sec \<and> m_deleted m = None \<and> m_item m \<noteq> None)
     \<and> (\<exists>q \<in> set (parts d). p_id q = tg_part t \<and> p_media q = tg_media t \<and> p_deleted q = None)"

definition same_media :: "media \<Rightarrow> media \<Rightarrow> bool" where
  "same_media m m' \<longleftrightarrow> m_id m' = m_id m \<and> m_section m' = m_section m \<and> m_deleted m' = m_deleted m \<and> m_item m' = m_item m"

definition same_part :: "part \<Rightarrow> part \<Rightarrow> bool" where
  "same_part q q' \<longleftrightarrow> p_id q' = p_id q \<and> p_media q' = p_media q \<and> p_deleted q' = p_deleted q \<and> p_file q' = p_file q"

definition refills :: "Target \<Rightarrow> db \<Rightarrow> db \<Rightarrow> bool" where
  "refills t d d' \<longleftrightarrow> shape d' = shape d \<and> next_id d \<le> next_id d' \<and> (\<exists>F G. (\<forall>m. same_media m (F m)) \<and> (\<forall>q. same_part q (G q))
     \<and> medias d' = map (\<lambda>m. if m_id m = tg_media t then F m else m) (medias d)
     \<and> parts d' = map (\<lambda>q. if p_id q = tg_part t then G q else q) (parts d))"

lemma refills_ok:
  assumes re: "refills t d d'" and ids: "ids_ok d" and row: "row_at sec t d"
  shows "spares {tg_media t} d d'" "ids_ok d'" "row_at sec t d'"
proof -
  obtain F G where f: "\<And>m. same_media m (F m)" "\<And>q. same_part q (G q)"
    "medias d' = map (\<lambda>m. if m_id m = tg_media t then F m else m) (medias d)"
    "parts d' = map (\<lambda>q. if p_id q = tg_part t then G q else q) (parts d)" and n: "next_id d \<le> next_id d'" using re by (auto simp: refills_def)
  obtain m q where r: "m \<in> set (medias d)" "m_id m = tg_media t" "m_section m = sec" "m_deleted m = None" "m_item m \<noteq> None"
    "q \<in> set (parts d)" "p_id q = tg_part t" "p_media q = tg_media t" "p_deleted q = None" using row by (auto simp: row_at_def)
  have "spares {tg_media t} d d' \<and> ids_ok d'"
    using touch_row [OF ids f(3,4) _ _ n r(6,7,8)] f(1,2) by (simp add: same_media_def same_part_def)
  then show "spares {tg_media t} d d'" "ids_ok d'" by simp_all
  have "F m \<in> set (medias d')" "G q \<in> set (parts d')" using r unfolding f(3,4) map_if_set by blast+
  then show "row_at sec t d'" using r f(1) [of m] f(2) [of q] unfolding row_at_def same_media_def same_part_def by (metis)
qed

lemma refills_trans: "refills t d e \<Longrightarrow> refills t e f \<Longrightarrow> refills t d f"
proof -
  assume 1: "refills t d e" and 2: "refills t e f"
  obtain F G where a: "\<And>m. same_media m (F m)" "\<And>q. same_part q (G q)"
    "medias e = map (\<lambda>m. if m_id m = tg_media t then F m else m) (medias d)"
    "parts e = map (\<lambda>q. if p_id q = tg_part t then G q else q) (parts d)" using 1 by (auto simp: refills_def)
  obtain F' G' where b: "\<And>m. same_media m (F' m)" "\<And>q. same_part q (G' q)"
    "medias f = map (\<lambda>m. if m_id m = tg_media t then F' m else m) (medias e)"
    "parts f = map (\<lambda>q. if p_id q = tg_part t then G' q else q) (parts e)" using 2 by (auto simp: refills_def)
  have i: "m_id (F m) = m_id m" "p_id (G q) = p_id q" for m q using a(1) [of m] a(2) [of q] by (simp_all add: same_media_def same_part_def)
  have "medias f = map (\<lambda>m. if m_id m = tg_media t then F' (F m) else m) (medias d)" unfolding b(3) a(3) by (simp add: i)
  moreover have "parts f = map (\<lambda>q. if p_id q = tg_part t then G' (G q) else q) (parts d)" unfolding b(4) a(4) by (simp add: i)
  moreover have "\<forall>m. same_media m (F' (F m))" "\<forall>q. same_part q (G' (G q))"
    using a(1,2) b(1,2) by (simp_all add: same_media_def same_part_def)
  moreover have "shape f = shape d" "next_id d \<le> next_id f" using 1 2 by (simp_all add: refills_def)
  ultimately show ?thesis unfolding refills_def by (intro conjI exI [of _ "\<lambda>m. F' (F m)"] exI [of _ "\<lambda>q. G' (G q)"])
qed

section \<open>The stamped rows of a section\<close>

definition one_uid :: "extra \<Rightarrow> bool" where
  "one_uid e \<longleftrightarrow> length (filter (\<lambda>p. fst p = FileUIDKey) e) \<le> 1"

definition live_in :: "int \<Rightarrow> media \<Rightarrow> bool" where
  "live_in sec m \<longleftrightarrow> m_section m = sec \<and> m_deleted m = None"

definition stamps_ok :: "int \<Rightarrow> db \<Rightarrow> bool" where
  "stamps_ok sec d \<longleftrightarrow> (\<forall>m \<in> set (medias d). live_in sec m \<longrightarrow> one_uid (m_extra m)
     \<and> (has_key FileUIDKey (m_extra m) \<longrightarrow> (\<exists>q \<in> set (parts d). p_media q = m_id m)
         \<and> (\<forall>x \<in> set (medias d). stamped sec (get_key FileUIDKey (m_extra m)) x \<longrightarrow> x = m)))"

text \<open>Tables the projection keeps: a well-formed tree, unique ids, and one live row of each file, with a part.\<close>

definition good_library :: "int \<Rightarrow> db \<Rightarrow> bool" where
  "good_library sec d \<longleftrightarrow> tree_ok d \<and> ids_ok d \<and> stamps_ok sec d"

text \<open>A file's rows and their parts.\<close>

definition file_rows :: "int \<Rightarrow> string \<Rightarrow> db \<Rightarrow> media set \<times> part set" where
  "file_rows sec u d = (let ms = set (filter (stamped sec u) (medias d)) in (ms, {q \<in> set (parts d). \<exists>m \<in> ms. p_media q = m_id m}))"

lemma one_uid_same:
  assumes "one_uid e" and "(FileUIDKey, v) \<in> set e" and "(FileUIDKey, w) \<in> set e"
  shows "v = w"
proof -
  have "(FileUIDKey, v) \<in> set (filter (\<lambda>p. fst p = FileUIDKey) e)" "(FileUIDKey, w) \<in> set (filter (\<lambda>p. fst p = FileUIDKey) e)" using assms by simp_all
  moreover have "filter (\<lambda>p. fst p = FileUIDKey) e = [] \<or> (\<exists>x. filter (\<lambda>p. fst p = FileUIDKey) e = [x])"
    using assms(1) unfolding one_uid_def by (cases "filter (\<lambda>p. fst p = FileUIDKey) e") auto
  ultimately show ?thesis by (metis empty_iff empty_set prod.inject set_ConsD)
qed

lemma get_key_in: "has_key k e \<longleftrightarrow> (k, get_key k e) \<in> set e"
proof
  assume "has_key k e"
  then obtain v where "map_of e k = Some v" unfolding has_key_def by (metis map_of_eq_None_iff not_Some_eq)
  then show "(k, get_key k e) \<in> set e" by (simp add: get_key_def map_of_SomeD)
qed (force simp: has_key_def)

lemma stamped_live: "stamped sec u m \<Longrightarrow> live_in sec m \<and> has_key FileUIDKey (m_extra m)"
  by (force simp: stamped_def live_in_def has_key_def)

lemma stamped_uid: "one_uid (m_extra m) \<Longrightarrow> stamped sec u m \<Longrightarrow> get_key FileUIDKey (m_extra m) = u"
  using one_uid_same [of "m_extra m" u] get_key_in [of FileUIDKey "m_extra m"] stamped_live [of sec u m] by (simp add: stamped_def)

lemma stamps_okD:
  assumes "stamps_ok sec d" and "m \<in> set (medias d)" and "stamped sec u m"
  shows "one_uid (m_extra m)" "get_key FileUIDKey (m_extra m) = u" "\<exists>q \<in> set (parts d). p_media q = m_id m"
    "x \<in> set (medias d) \<Longrightarrow> stamped sec u x \<Longrightarrow> x = m"
proof -
  show 1: "one_uid (m_extra m)" using assms stamped_live [OF assms(3)] by (simp add: stamps_ok_def)
  show 2: "get_key FileUIDKey (m_extra m) = u" by (rule stamped_uid [OF 1 assms(3)])
  show "\<exists>q \<in> set (parts d). p_media q = m_id m" "x \<in> set (medias d) \<Longrightarrow> stamped sec u x \<Longrightarrow> x = m"
    using assms stamped_live [OF assms(3)] 2 by (simp_all add: stamps_ok_def)
qed

text \<open>The row with the id \<open>a\<close> becomes the row of the file \<open>u\<close>, or no file's: the rows of the others are untouched.\<close>

lemma settle_row:
  assumes st: "stamps_ok sec d" and sp: "spares {a} d d'" and ids: "ids_ok d'"
    and after: "\<forall>x \<in> set (medias d'). m_id x = a \<longrightarrow> live_in sec x \<longrightarrow>
      one_uid (m_extra x) \<and> (\<forall>v. stamped sec v x \<longrightarrow> v = u) \<and> (\<exists>q \<in> set (parts d'). p_media q = a)"
    and before: "\<forall>x \<in> set (medias d). \<forall>v. stamped sec v x \<longrightarrow> (m_id x = a \<longleftrightarrow> v = u)"
  shows "stamps_ok sec d' \<and> (\<forall>v. v \<noteq> u \<longrightarrow> file_rows sec v d' = file_rows sec v d)"
proof -
  have now: "one_uid (m_extra x) \<and> (\<forall>v. stamped sec v x \<longrightarrow> v = u) \<and> (\<exists>q \<in> set (parts d'). p_media q = a)"
    if "x \<in> set (medias d')" "m_id x = a" "live_in sec x" for x using after that by blast
  have was: "m_id x = a" if "x \<in> set (medias d)" "stamped sec u x" for x using before that by blast
  have old: "v = u" if "x \<in> set (medias d)" "m_id x = a" "stamped sec v x" for x v using before that by blast
  have same: "x \<in> set (medias d') \<longleftrightarrow> x \<in> set (medias d)" if "m_id x \<noteq> a" "live_in sec x" for x
    using spares_media [OF sp] that by (simp add: live_in_def)
  have part: "q \<in> set (parts d') \<longleftrightarrow> q \<in> set (parts d)" if "x \<in> set (medias d)" "m_id x \<noteq> a" "live_in sec x" "p_media q = m_id x" for x q
    using spares_part [OF sp] that by (simp add: live_in_def)
  have rows: "x \<in> set (medias d') \<longleftrightarrow> x \<in> set (medias d)" if v: "v \<noteq> u" "stamped sec v x" for x v
    using same [of x] now [of x] old [of x v] stamped_live [OF v(2)] v by blast
  have far: "m_id x \<noteq> a" if "x \<in> set (medias d)" "v \<noteq> u" "stamped sec v x" for x v using old that by blast
  have ok: "stamps_ok sec d'" unfolding stamps_ok_def
  proof (intro ballI impI conjI)
    fix m assume m: "m \<in> set (medias d')" "live_in sec m"
    show one: "one_uid (m_extra m)"
      using now [OF m(1)] m same [of m] st by (cases "m_id m = a") (auto simp: stamps_ok_def)
    let ?u = "get_key FileUIDKey (m_extra m)"
    assume k: "has_key FileUIDKey (m_extra m)"
    then have s: "stamped sec ?u m" using m(2) by (simp add: stamped_def live_in_def get_key_in)
    show "\<exists>q \<in> set (parts d'). p_media q = m_id m"
    proof (cases "m_id m = a")
      case False
      then have "m \<in> set (medias d)" using same m by blast
      moreover obtain q where "q \<in> set (parts d)" "p_media q = m_id m" using stamps_okD(3) [OF st calculation s] by blast
      ultimately show ?thesis using part False m(2) by blast
    qed (use now m in blast)
    fix x assume x: "x \<in> set (medias d')" "stamped sec ?u x"
    show "x = m"
    proof (cases "?u = u")
      case True
      have "m_id y = a" if y: "y \<in> set (medias d')" "stamped sec u y" for y
        using same [of y] was [of y] stamped_live [OF y(2)] y by blast
      then have "m_id x = a" "m_id m = a" using x s m(1) True by simp_all
      then show ?thesis using distinct_key [OF _ x(1) m(1), of m_id] ids by (simp add: ids_ok_def)
    next
      case False
      then show ?thesis using rows [OF False] stamps_okD(4) [OF st] s x m(1) by blast
    qed
  qed
  have "file_rows sec v d' = file_rows sec v d" if v: "v \<noteq> u" for v
  proof -
  have ms: "set (filter (stamped sec v) (medias d')) = set (filter (stamped sec v) (medias d))" using rows [OF v] by auto
  moreover have "q \<in> set (parts d') \<longleftrightarrow> q \<in> set (parts d)" if "x \<in> set (filter (stamped sec v) (medias d))" "p_media q = m_id x" for x q
    using part [of x q] far [of x v] stamped_live [of sec v x] that v by simp
  ultimately show ?thesis unfolding file_rows_def Let_def ms by blast
  qed
  with ok show ?thesis by blast
qed

section \<open>Filling a row\<close>

definition quiet_db :: "db \<Rightarrow> db \<Rightarrow> bool" where
  "quiet_db d d' \<longleftrightarrow> keeps_media d d' \<and> shape d' = shape d"

lemma quiet_refl: "quiet_db d d"
  by (simp add: quiet_db_def)

lemma quiet_trans: "quiet_db d e \<Longrightarrow> quiet_db e f \<Longrightarrow> quiet_db d f"
  by (auto simp: quiet_db_def intro: keeps_media_trans)

lemma quiet_fold: "(\<And>x d. quiet_db d (f x d)) \<Longrightarrow> quiet_db d (fold f xs d)"
proof (induction xs arbitrary: d)
  case (Cons x xs)
  show ?case using quiet_trans [OF Cons.prems [of d x] Cons.IH [of "f x d"]] Cons.prems by simp
qed (simp add: quiet_refl)

lemma quiet_streams:
  "quiet_db d (delete_streams c d)" "quiet_db d (update_streams c g d)" "quiet_db d (insert_stream mk d)" "quiet_db d (d\<lparr>streams := ss\<rparr>)"
  by (simp_all add: quiet_db_def keeps_media_def shape_def delete_streams_def update_streams_def insert_stream_def)

lemma quiet_update: "(\<And>r. i_id (f r) = i_id r \<and> i_parent (f r) = i_parent r \<and> i_type (f r) = i_type r) \<Longrightarrow> quiet_db d (update_items c f d)"
  by (simp add: quiet_db_def shape_update)

lemma quiet_items: "quiet_db d (countMedia i d)" "quiet_db d (stamp_item i now d)"
  unfolding countMedia_def stamp_item_def by (rule quiet_update, simp)+

lemma quiet_rows: "keeps_rows d d' \<Longrightarrow> quiet_db d d'"
  by (simp add: quiet_db_def keeps_rows_media)

lemma quiet_tree: "quiet_db d d' \<Longrightarrow> tree_ok d \<Longrightarrow> tree_ok d'"
  using tree_ok_shape [of d' d] by (simp add: quiet_db_def keeps_media_def)

lemma quiet_refills: "quiet_db d d' \<Longrightarrow> refills t d d'"
  unfolding quiet_db_def refills_def keeps_media_def same_media_def same_part_def
  by (intro conjI exI [of _ "\<lambda>m. m"] exI [of _ "\<lambda>q. q"]) auto

lemma quiet_sidecars: "quiet_db d (SyncSidecarsTx t p sc d)"
proof -
  have "quiet_db e (case want_row rows url of None \<Rightarrow> e | Some w \<Rightarrow> insert_stream (sidecar_stream t w) e)" for rows url e
    using quiet_streams(3) quiet_refl by (cases "want_row rows url") auto
  then have "quiet_db e (fold (\<lambda>url d. case want_row rows url of None \<Rightarrow> d | Some w \<Rightarrow> insert_stream (sidecar_stream t w) d) urls e)" for rows urls e
    by (intro quiet_fold) simp
  then show ?thesis unfolding SyncSidecarsTx_def Let_def by (rule quiet_trans [OF quiet_streams(4)])
qed

lemma refills_fill: "refills t d (fill_media base now t inp p d)"
proof -
  obtain row rows where r: "MediaRows base p (ProbeHash inp) (OriginalLanguage inp) = (row, rows)"
    by (cases "MediaRows base p (ProbeHash inp) (OriginalLanguage inp)")
  have ins: "quiet_db e (fold (\<lambda>r. insert_stream (probe_stream t r)) rows e)" for e by (intro quiet_fold quiet_streams(3))
  have row: "refills t d (d\<lparr>medias := map (\<lambda>m. if m_id m = tg_media t then F m else m) (medias d),
      parts := map (\<lambda>q. if p_id q = tg_part t then G q else q) (parts d)\<rparr>)" if "\<And>m. same_media m (F m)" "\<And>q. same_part q (G q)" for F G
    unfolding refills_def using that by (auto simp: shape_def)
  show ?thesis unfolding fill_media_def r prod.case Let_def
    by (rule refills_trans [OF row quiet_refills [OF ins]]) (simp_all add: same_media_def same_part_def)
qed

lemma refills_audio: "quiet_db d (setAudioLanguages base t inp p d)"
  unfolding setAudioLanguages_def by (rule quiet_fold) (simp add: quiet_refl quiet_streams Let_def)

lemma refills_seed: "refills t d (snd (seedTarget base ord now t inp mk d))"
proof -
  have m: "refills t e (snd (seedMedia base now t inp p e))" for p e
    using refills_fill refills_trans [OF quiet_refills [OF quiet_streams(1)] refills_fill] quiet_refills [OF refills_audio] quiet_refills [OF quiet_refl]
    by (simp add: seedMedia_def Let_def)
  obtain seeded d1 where s: "(case in_probe inp of Some p \<Rightarrow> if RuntimeMillis p > 0 then seedMedia base now t inp p d else (False, d) | None \<Rightarrow> (False, d)) = (seeded, d1)"
    by (cases "case in_probe inp of Some p \<Rightarrow> if RuntimeMillis p > 0 then seedMedia base now t inp p d else (False, d) | None \<Rightarrow> (False, d)")
  have 1: "refills t d d1"
  proof (cases "\<exists>p. in_probe inp = Some p \<and> RuntimeMillis p > 0")
    case True
    then obtain p where "seedMedia base now t inp p d = (seeded, d1)" using s by auto
    then show ?thesis using m [of d p] by simp
  next
    case False
    then have "d1 = d" using s by (auto split: option.splits if_splits)
    then show ?thesis using quiet_refills [OF quiet_refl, of t d] by simp
  qed
  have 2: "refills t d1 (snd (snd (reconcileMarkers i w d1)))" for i w
    unfolding reconcileMarkers_def by (rule quiet_refills [OF quiet_rows [OF keeps_markers]])
  have "snd (seedTarget base ord now t inp mk d) = d1 \<or> (\<exists>i w. snd (seedTarget base ord now t inp mk d) = snd (snd (reconcileMarkers i w d1)))"
    unfolding seedTarget_def s by (auto simp: Let_def split: option.split prod.split) (metis snd_conv)+
  then show ?thesis using 1 refills_trans [OF 1 2] by auto
qed

lemma refills_tx: "refills t d (snd ((if b then ReplaceTx else SeedTx) base ord now t inp d))"
  using refills_seed refills_trans [OF quiet_refills [OF quiet_streams(1)] refills_seed] by (simp add: ReplaceTx_def SeedTx_def)

lemma refills_stamp: "refills t d (stampMedia pr (tg_media t) c seeded d)"
  unfolding refills_def stampMedia_def update_medias_def
  by (intro conjI exI [of _ "\<lambda>m. m\<lparr>m_extra := stamps pr c seeded (m_extra m)\<rparr>"] exI [of _ "\<lambda>q. q"])
    (simp_all add: same_media_def same_part_def shape_def)

section \<open>The stamps\<close>

lemma get_set_key: "get_key k (set_key k' v e) = (if k = k' then v else get_key k e)"
proof -
  have "map_of (del_key k' e) k = map_of e k" if "k \<noteq> k'"
    unfolding del_key_def using that by (induction e) auto
  then show ?thesis by (simp add: get_key_def set_key_def)
qed

lemma in_set_key: "(k, v) \<in> set (set_key k' w e) \<longleftrightarrow> (if k = k' then v = w else (k, v) \<in> set e)"
  by (auto simp: set_key_def del_key_def)

lemma filter_set_key: "filter (\<lambda>p. fst p = k) (set_key k' v e) = (if k = k' then [(k, v)] else filter (\<lambda>p. fst p = k) e)"
proof -
  have "filter (\<lambda>p. fst p = k) (del_key k' e) = (if k = k' then [] else filter (\<lambda>p. fst p = k) e)"
    unfolding del_key_def by (induction e) auto
  then show ?thesis by (cases "k = k'") (simp_all add: set_key_def)
qed

lemmas stamp_keys = FileUIDKey_def SeedKeyKey_def ItemKeyKey_def SeedVersionKey_def ItemUIDKey_def SourceKey_def ProbeHashKey_def

lemma stamps_uid: "one_uid (stamps pr c seeded e)" "(FileUIDKey, v) \<in> set (stamps pr c seeded e) \<longleftrightarrow> v = ch_uid c"
proof -
  have ne: "FileUIDKey \<noteq> SeedKeyKey" "FileUIDKey \<noteq> ItemKeyKey" "FileUIDKey \<noteq> SeedVersionKey" "FileUIDKey \<noteq> ItemUIDKey"
    "FileUIDKey \<noteq> ProbeHashKey" by (simp_all add: stamp_keys)
  show "one_uid (stamps pr c seeded e)" "(FileUIDKey, v) \<in> set (stamps pr c seeded e) \<longleftrightarrow> v = ch_uid c"
    unfolding stamps_def one_uid_def Let_def by (simp_all add: in_set_key filter_set_key ne)
qed

lemma stamps_current: "current pr c (get_key SeedKeyKey (stamps pr c (seedable c) e)) (get_key ItemKeyKey (stamps pr c (seedable c) e))
  (get_key SeedVersionKey (stamps pr c (seedable c) e))"
proof -
  have ne: "SeedKeyKey \<noteq> ItemKeyKey" "SeedKeyKey \<noteq> ItemUIDKey" "SeedKeyKey \<noteq> ProbeHashKey" "SeedKeyKey \<noteq> SeedVersionKey"
    "ItemKeyKey \<noteq> ItemUIDKey" "ItemKeyKey \<noteq> ProbeHashKey" "ItemKeyKey \<noteq> SeedVersionKey" by (simp_all add: stamp_keys)
  show ?thesis unfolding stamps_def current_def Let_def by (simp add: get_set_key ne)
qed

section \<open>Placing a file\<close>

lemma upsert_row:
  assumes e: "upsertMedia now sec loc item dir f have_row c d = (t, d')" and ids: "ids_ok d"
    and m: "have_row \<longrightarrow> m \<in> set (medias d) \<and> m_id m = f_media f \<and> m_section m = sec"
    and q: "have_row \<longrightarrow> q \<in> set (parts d) \<and> p_id q = f_part f \<and> p_media q = f_media f"
  shows "tg_media t = (if have_row then f_media f else next_id d)" "row_at sec t d'" "ids_ok d'" "spares {tg_media t} d d'"
    "shape d' = shape d" "next_id d \<le> next_id d'"
proof -
  have "tg_media t = (if have_row then f_media f else next_id d) \<and> row_at sec t d' \<and> ids_ok d' \<and> spares {tg_media t} d d'
    \<and> shape d' = shape d \<and> next_id d \<le> next_id d'"
  proof (cases have_row)
    case False
    obtain r x where d': "t = \<lparr>tg_part = next_id d + 1, tg_media = next_id d, tg_item = item\<rparr>"
      "d' = countMedia item (d\<lparr>medias := medias d @ [r], parts := parts d @ [x], next_id := next_id d + 2\<rparr>)"
      "m_id r = next_id d" "m_section r = sec" "m_deleted r = None" "m_item r = Some item"
      "p_id x = next_id d + 1" "p_media x = next_id d" "p_deleted x = None"
      using e False by (auto simp: upsertMedia_def Let_def)
    have "row_at sec t d'" unfolding row_at_def using d' by (auto simp: countMedia_def update_items_def)
    moreover have "ids_ok d'" using ids d' by (fastforce simp: ids_ok_def countMedia_def update_items_def)
    moreover have "spares {next_id d} d d'" unfolding spares_def using d' by (auto simp: countMedia_def update_items_def)
    moreover have "shape d' = shape d" using d' quiet_items(1) by (simp add: quiet_db_def shape_def)
    ultimately show ?thesis using d' False by (simp add: countMedia_def)
  next
    case True
    let ?F = "\<lambda>m. m\<lparr>m_location := loc, m_item := Some item, m_size := SizeBytes (ch_input c), m_updated := now, m_version := MediaAnalysisVersion, m_deleted := None\<rparr>"
    let ?G = "\<lambda>q. q\<lparr>p_dir := Some dir, p_file := ch_path c, p_size := SizeBytes (ch_input c), p_updated := now, p_deleted := None\<rparr>"
    have d': "t = \<lparr>tg_part = f_part f, tg_media = f_media f, tg_item = item\<rparr>"
      "medias d' = map (\<lambda>m. if m_id m = f_media f then ?F m else m) (medias d)"
      "parts d' = map (\<lambda>q. if p_id q = f_part f then ?G q else q) (parts d)" "next_id d' = next_id d" "shape d' = shape d"
      using e True by (auto simp: upsertMedia_def Let_def update_medias_def update_parts_def countMedia_def update_items_def shape_def)
    have "spares {f_media f} d d' \<and> ids_ok d'" using touch_row [OF ids d'(2,3), of q] q True d'(4) by simp
    moreover have "?F m \<in> set (medias d')" "?G q \<in> set (parts d')" using m q True unfolding d'(2,3) map_if_set by blast+
    then have "row_at sec t d'" unfolding row_at_def d'(1)
      using m q True by (intro conjI bexI [of _ "?F m"] bexI [of _ "?G q"]) simp_all
    ultimately show ?thesis using d' True by simp
  qed
  then show "tg_media t = (if have_row then f_media f else next_id d)" "row_at sec t d'" "ids_ok d'" "spares {tg_media t} d d'"
    "shape d' = shape d" "next_id d \<le> next_id d'" by blast+
qed

lemma clear_row:
  assumes ids: "ids_ok d"
  shows "spares T d (clearSuperseded item now d)" "ids_ok (clearSuperseded item now d)" "shape (clearSuperseded item now d) = shape d"
    "next_id (clearSuperseded item now d) = next_id d" "row_at sec t d \<Longrightarrow> row_at sec t (clearSuperseded item now d)"
    "x \<in> set (medias (clearSuperseded item now d)) \<Longrightarrow> x \<in> set (medias d)"
proof -
  let ?d = "clearSuperseded item now d"
  let ?ids = "superseded item d"
  have m: "medias ?d = filter (\<lambda>m. m_id m \<notin> set ?ids) (medias d)" and p: "parts ?d = filter (\<lambda>q. p_media q \<notin> set ?ids) (parts d)"
    and n: "next_id ?d = next_id d" and sh: "shape ?d = shape d"
    unfolding clearSuperseded_def Let_def stamp_item_def by (cases "?ids = []"; simp add: update_items_def shape_def)+
  have live: "m_id y \<notin> set ?ids" if y: "y \<in> set (medias d)" "m_deleted y = None" for y
  proof
    assume "m_id y \<in> set ?ids"
    then obtain z where "z \<in> set (medias d)" "m_id z = m_id y" "m_deleted z \<noteq> None" by (auto simp: superseded_def split: if_splits)
    then show False using distinct_key [of m_id "medias d" z y] ids y by (auto simp: ids_ok_def)
  qed
  show "spares T d ?d" unfolding spares_def m p using live by auto
  show "ids_ok ?d" using ids unfolding ids_ok_def m p n by (auto simp: distinct_map_filter)
  show "shape ?d = shape d" "next_id ?d = next_id d" by (fact sh n)+
  show "row_at sec t ?d" if "row_at sec t d" using that live unfolding row_at_def m p by fastforce
  show "x \<in> set (medias ?d) \<Longrightarrow> x \<in> set (medias d)" by (simp add: m)
qed

text \<open>A file's row carries the stamps of the change.\<close>

definition row_held :: "projector \<Rightarrow> Change \<Rightarrow> media \<Rightarrow> bool" where
  "row_held pr c m \<longleftrightarrow> current pr c (get_key SeedKeyKey (m_extra m)) (get_key ItemKeyKey (m_extra m)) (get_key SeedVersionKey (m_extra m))"

definition file_held :: "projector \<Rightarrow> int \<Rightarrow> Change \<Rightarrow> db \<Rightarrow> bool" where
  "file_held pr sec c d \<longleftrightarrow> (\<exists>m \<in> set (medias d). stamped sec (ch_uid c) m \<and> row_held pr c m)"

definition file_gone :: "int \<Rightarrow> string \<Rightarrow> db \<Rightarrow> bool" where
  "file_gone sec u d \<longleftrightarrow> (\<forall>m \<in> set (medias d). \<not> stamped sec u m)"

text \<open>The row the search found, before it is written: the file's own, or one of no file when it has none.\<close>

definition place_ready :: "int \<Rightarrow> string \<Rightarrow> found \<Rightarrow> bool \<Rightarrow> db \<Rightarrow> bool" where
  "place_ready sec u f have_row d \<longleftrightarrow> (if have_row
     then (\<exists>m \<in> set (medias d). m_id m = f_media f \<and> m_section m = sec \<and> (\<exists>q \<in> set (parts d). p_id q = f_part f \<and> p_media q = f_media f))
        \<and> (\<forall>x \<in> set (medias d). \<forall>v. stamped sec v x \<longrightarrow> (m_id x = f_media f \<longleftrightarrow> v = u))
     else file_gone sec u d)"

text \<open>What one transaction on a file promises.\<close>

definition only_file :: "int \<Rightarrow> string \<Rightarrow> db \<Rightarrow> db \<Rightarrow> bool" where
  "only_file sec u d d' \<longleftrightarrow> good_library sec d' \<and> (\<forall>v. v \<noteq> u \<longrightarrow> file_rows sec v d' = file_rows sec v d)"

lemma place_file_steps:
  assumes "place_file pr now sec loc item f have_row pending c d = Inr (ns, d')"
  obtains loc' dir d1 t d2 b where "keeps_rows d d1" "upsertMedia now sec loc' item dir f have_row c d1 = (t, d2)"
    "\<exists>d5. refills t (clearSuperseded item now d2) d5 \<and> quiet_db (stampMedia pr (tg_media t) c (seedable c) d5) d'"
proof -
  from assms obtain loc' path dir d1 where e: "EnsureDirectory sec path (Dir (ch_path c)) d = Some (dir, d1)"
    and r: "locationRoot loc' d = Some path" and l: "loc' = (if ch_location c \<noteq> 0 then ch_location c else loc)"
    by (auto simp: place_file_def Let_def split: option.splits prod.splits)
  obtain t d2 where u: "upsertMedia now sec loc' item dir f have_row c d1 = (t, d2)"
    by (cases "upsertMedia now sec loc' item dir f have_row c d1")
  let ?d3 = "clearSuperseded item now d2"
  let ?d4 = "\<lambda>b inp. snd ((if b then ReplaceTx else SeedTx) (pr_base pr) (pr_ord pr) now t inp ?d3)"
  let ?d5 = "\<lambda>b inp. if seedable c then SyncSidecarsTx t (ch_path c) (Sidecars inp) (?d4 b inp) else ?d4 b inp"
  let ?d6 = "\<lambda>b inp. stampMedia pr (tg_media t) c (seedable c) (?d5 b inp)"
  have 5: "refills t ?d3 (?d5 b inp)" for b inp
    using refills_tx refills_trans [OF refills_tx quiet_refills [OF quiet_sidecars]] by simp
  from assms have "\<exists>b inp. d' = ?d6 b inp \<or> d' = stamp_item item now (?d6 b inp)"
    unfolding place_file_def Let_def l [symmetric] r option.case e u prod.case
    by (auto split: if_splits option.splits)
  then obtain b inp where "quiet_db (?d6 b inp) d'" using quiet_refl quiet_items(2) by metis
  then show ?thesis using that [OF keeps_directory [OF e] u] 5 by blast
qed

lemma place_file_row:
  assumes e: "place_file pr now sec loc item f have_row pending c d = Inr (ns, d')" and good: "good_library sec d"
    and ready: "place_ready sec (ch_uid c) f have_row d"
  shows "only_file sec (ch_uid c) d d'" "file_held pr sec c d'"
proof -
  obtain loc' dir d1 t d2 d5 where k: "keeps_rows d d1" and u: "upsertMedia now sec loc' item dir f have_row c d1 = (t, d2)"
    and r: "refills t (clearSuperseded item now d2) d5" and qt: "quiet_db (stampMedia pr (tg_media t) c (seedable c) d5) d'"
    using place_file_steps [OF e] by metis
  let ?a = "tg_media t"
  let ?d3 = "clearSuperseded item now d2"
  let ?d6 = "stampMedia pr ?a c (seedable c) d5"
  have k1: "medias d1 = medias d" "parts d1 = parts d" "keeps_media d d1" "shape d1 = shape d" using k keeps_rows_media [OF k] by (simp_all add: keeps_rows_def)
  have i1: "ids_ok d1" using keeps_media_ids [OF k1(3)] good by (simp add: good_library_def)
  obtain m q where mq: "have_row \<longrightarrow> m \<in> set (medias d1) \<and> m_id m = f_media f \<and> m_section m = sec"
    "have_row \<longrightarrow> q \<in> set (parts d1) \<and> p_id q = f_part f \<and> p_media q = f_media f" using ready k1(1,2) unfolding place_ready_def by (cases have_row) auto
  note up = upsert_row [OF u i1 mq]
  note cl = clear_row [OF up(3), where item = item and now = now]
  note r5 = refills_ok [OF r cl(2) cl(5) [OF up(2)]]
  note r6 = refills_ok [OF refills_stamp [of t d5 pr c "seedable c"] r5(2,3)]
  have sp: "spares {?a} d d'"
    using spares_trans [OF keeps_media_spares [OF k1(3)] spares_trans [OF up(4) spares_trans [OF cl(1) spares_trans [OF r5(1) spares_trans [OF r6(1) keeps_media_spares]]]]] qt
    by (simp add: quiet_db_def)
  have ids: "ids_ok d'" using qt keeps_media_ids [OF _ r6(2)] by (simp add: quiet_db_def)
  have md: "medias d' = medias ?d6" "parts d' = parts ?d6" using qt by (simp_all add: quiet_db_def keeps_media_def)
  have stamped: "\<exists>y. m_extra x = stamps pr c (seedable c) y" if "x \<in> set (medias d')" "m_id x = ?a" for x
    using that unfolding md stampMedia_def update_medias_def by auto
  obtain x y where x: "x \<in> set (medias d')" "m_id x = ?a" "m_section x = sec" "m_deleted x = None" "y \<in> set (parts d')" "p_media y = ?a"
    using r6(3) unfolding row_at_def md by blast
  have "shape d' = shape d" "next_id d \<le> next_id d'"
    using k1(3,4) up(5,6) cl(3,4) r refills_stamp [of t d5 pr c "seedable c"] qt by (simp_all add: refills_def quiet_db_def keeps_media_def)
  then have tree: "tree_ok d'" using tree_ok_shape good by (simp add: good_library_def)
  have old: "\<forall>z \<in> set (medias d). \<forall>v. stamped sec v z \<longrightarrow> (m_id z = ?a \<longleftrightarrow> v = ch_uid c)"
  proof (cases have_row)
    case True
    then have a: "?a = f_media f" using up(1) by simp
    show ?thesis using ready True unfolding a place_ready_def by (simp only: if_True) blast
  next
    case False
    then have "m_id z \<noteq> ?a" if "z \<in> set (medias d)" for z using up(1) i1 k1(1) that by (auto simp: ids_ok_def)
    then show ?thesis using ready False by (auto simp: place_ready_def file_gone_def)
  qed
  have st: "stamps_ok sec d" using good by (simp add: good_library_def)
  have new: "one_uid (m_extra z) \<and> (\<forall>v. stamped sec v z \<longrightarrow> v = ch_uid c) \<and> (\<exists>w \<in> set (parts d'). p_media w = ?a)"
    if "z \<in> set (medias d')" "m_id z = ?a" for z
    using stamped [OF that] x(5,6) stamps_uid by (metis stamped_def)
  have "stamps_ok sec d' \<and> (\<forall>v. v \<noteq> ch_uid c \<longrightarrow> file_rows sec v d' = file_rows sec v d)"
    by (rule settle_row [OF st sp ids _ old]) (use new in blast)
  then show "only_file sec (ch_uid c) d d'" using ids tree unfolding only_file_def good_library_def by blast
  obtain e where "m_extra x = stamps pr c (seedable c) e" using stamped x by blast
  then have "stamped sec (ch_uid c) x \<and> row_held pr c x" using x(3,4) stamps_uid(2) stamps_current [of pr c e] by (simp add: stamped_def row_held_def)
  then show "file_held pr sec c d'" using x(1) by (auto simp: file_held_def)
qed

section \<open>Taking a file off\<close>

lemma keeps_library:
  assumes k: "keeps_media d d'" and t: "tree_ok d'" and g: "good_library sec d"
  shows "good_library sec d'" "file_rows sec v d' = file_rows sec v d"
proof -
  have md: "medias d' = medias d" "parts d' = parts d" using k by (simp_all add: keeps_media_def)
  show "good_library sec d'" using t keeps_media_ids [OF k] g unfolding good_library_def stamps_ok_def md by simp
  show "file_rows sec v d' = file_rows sec v d" by (simp add: file_rows_def md)
qed

lemma retire_row:
  assumes ids: "ids_ok d"
  shows "spares {media} d (retireMedia media now d)" "ids_ok (retireMedia media now d)" "shape (retireMedia media now d) = shape d"
    "next_id (retireMedia media now d) = next_id d"
    "x \<in> set (medias (retireMedia media now d)) \<Longrightarrow> m_id x = media \<Longrightarrow> m_deleted x \<noteq> None"
proof -
  let ?d = "retireMedia media now d"
  let ?F = "\<lambda>m. m\<lparr>m_deleted := Some now, m_updated := now\<rparr>"
  let ?G = "\<lambda>q. q\<lparr>p_deleted := Some now, p_updated := now\<rparr>"
  have m: "medias ?d = map (\<lambda>m. if m_id m = media then ?F m else m) (medias d)"
    and p: "parts ?d = map (\<lambda>q. if p_media q = media \<and> p_deleted q = None then ?G q else q) (parts d)"
    and n: "next_id ?d = next_id d" and sh: "shape ?d = shape d"
    by (simp_all add: retireMedia_def retire_parts_def update_medias_def update_parts_def shape_def)
  show "spares {media} d ?d" unfolding spares_def m p map_if_set
  proof (intro conjI allI impI ballI)
    fix x :: media assume "m_id x \<notin> {media}"
    then show "((\<exists>y \<in> set (medias d). m_id y = media \<and> x = ?F y) \<or> x \<in> set (medias d) \<and> m_id x \<noteq> media) \<longleftrightarrow> x \<in> set (medias d)" by auto
  next
    fix x :: media and q :: part assume x: "m_id x \<notin> {media}" "p_media q = m_id x"
    show "((\<exists>y \<in> set (parts d). (p_media y = media \<and> p_deleted y = None) \<and> q = ?G y) \<or> q \<in> set (parts d) \<and> \<not> (p_media q = media \<and> p_deleted q = None)) \<longleftrightarrow> q \<in> set (parts d)"
      using x by auto
  qed
  have "map m_id (medias ?d) = map m_id (medias d)" "map p_id (parts ?d) = map p_id (parts d)"
    unfolding m p by (rule map_if_key, simp)+
  then show "ids_ok ?d" using ids n unfolding ids_ok_keys [of d] ids_ok_keys [of ?d] by simp
  show "shape ?d = shape d" "next_id ?d = next_id d" by (fact sh n)+
  show "m_deleted x \<noteq> None" if "x \<in> set (medias ?d)" "m_id x = media" 
  proof -
    from that consider y where "x = ?F y" | "m_id x \<noteq> media" unfolding m map_if_set by blast
    then show ?thesis using that(2) by cases simp_all
  qed
qed

lemma delete_rows_ok:
  assumes g: "good_library sec d" and old: "\<forall>x \<in> set (medias d). \<forall>v. stamped sec v x \<longrightarrow> (m_id x = media \<longleftrightarrow> v = u)"
  shows "\<exists>d'. delete_rows now media item d = Some d' \<and> only_file sec u d d' \<and> file_gone sec u d'"
proof -
  let ?d1 = "retireMedia media now d"
  let ?d2 = "clearSuperseded item now ?d1"
  have ids: "ids_ok d" and st: "stamps_ok sec d" and tree: "tree_ok d" using g by (simp_all add: good_library_def)
  note r = retire_row [OF ids, where media = media and now = now]
  note cl = clear_row [OF r(2), where item = item and now = now]
  have "shape ?d2 = shape d" "next_id ?d2 = next_id d" by (simp_all add: r(3,4) cl(3,4))
  then have "tree_ok ?d2" using tree_ok_shape [of ?d2 d] tree by simp
  then obtain d' where d': "trashIfEmpty now item ?d2 = Some d'" "keeps_media ?d2 d'" "tree_ok d'" using trash_ok by blast
  have sp: "spares {media} d d'" using spares_trans [OF r(1) spares_trans [OF cl(1) keeps_media_spares [OF d'(2)]]] .
  have ids': "ids_ok d'" using keeps_media_ids [OF d'(2) cl(2)] .
  have dead: "m_deleted x \<noteq> None" if "x \<in> set (medias d')" "m_id x = media" for x
    using that r(5) [of x] cl(6) [of x] d'(2) by (simp add: keeps_media_def)
  then have "\<forall>x \<in> set (medias d'). m_id x = media \<longrightarrow> live_in sec x \<longrightarrow>
      one_uid (m_extra x) \<and> (\<forall>v. stamped sec v x \<longrightarrow> v = u) \<and> (\<exists>q \<in> set (parts d'). p_media q = media)"
    unfolding live_in_def using dead by blast
  from settle_row [OF st sp ids' this old] have "only_file sec u d d'" using ids' d'(3) unfolding only_file_def good_library_def by blast
  moreover have "file_gone sec u d'" unfolding file_gone_def
  proof (intro ballI notI)
    fix x assume x: "x \<in> set (medias d')" "stamped sec u x"
    then have "m_deleted x = None" by (simp add: stamped_def)
    then have "m_id x \<noteq> media" using dead x(1) by blast
    then show False using spares_media [OF sp] old x \<open>m_deleted x = None\<close> by simp
  qed
  ultimately show ?thesis using d'(1) by (auto simp: delete_rows_def)
qed

lemma only_file_refl: "good_library sec d \<Longrightarrow> only_file sec u d d"
  by (simp add: only_file_def)

lemma Delete_ok:
  assumes g: "good_library sec d"
  shows "\<exists>r. Delete now sec u d = Some r \<and> (\<forall>d'. r = Inr d' \<longrightarrow> only_file sec u d d' \<and> file_gone sec u d')"
proof (cases "first_by m_id (filter (stamped sec u) (medias d))")
  case None
  then have "file_gone sec u d" by (simp add: file_gone_def filter_empty_conv)
  then show ?thesis using None only_file_refl [OF g] by (simp add: Delete_def)
next
  case (Some m)
  then have m: "m \<in> set (medias d)" "stamped sec u m" using first_by_min [OF Some] by simp_all
  have st: "stamps_ok sec d" and ids: "ids_ok d" using g by (simp_all add: good_library_def)
  have old: "m_id x = m_id m \<longleftrightarrow> v = u" if x: "x \<in> set (medias d)" "stamped sec v x" for x v
  proof
    assume "m_id x = m_id m"
    then have "x = m" using distinct_key [OF _ x(1) m(1), of m_id] ids by (simp add: ids_ok_def)
    then show "v = u" using stamps_okD(2) [OF st x] stamps_okD(2) [OF st m] by simp
  next
    assume "v = u"
    then show "m_id x = m_id m" using stamps_okD(4) [OF st m x(1)] x(2) by blast
  qed
  have "\<exists>d'. delete_rows now (m_id m) i d = Some d' \<and> only_file sec u d d' \<and> file_gone sec u d'" for i
    using delete_rows_ok [OF g] old by blast
  then show ?thesis using Some by (cases "m_item m") (fastforce simp: Delete_def)+
qed

section \<open>Applying a file\<close>

lemma with_parts_iff: "(m, q) \<in> set (with_parts c e d) \<longleftrightarrow> m \<in> set (medias d) \<and> c m \<and> q \<in> set (parts d) \<and> p_media q = m_id m \<and> e q"
  by (auto simp: with_parts_def)

lemma found_row_Some: "found_row adopted p = Some f \<Longrightarrow> m_item (fst p) = Some (f_item f) \<and> f_media f = m_id (fst p) \<and> f_part f = p_id (snd p)
    \<and> f_adopted f = adopted \<and> f_seedKey f = get_key SeedKeyKey (m_extra (fst p)) \<and> f_itemKey f = get_key ItemKeyKey (m_extra (fst p))
    \<and> f_seedVersion f = get_key SeedVersionKey (m_extra (fst p))"
  by (auto simp: found_row_def Let_def split: option.splits)

lemma unstamped_gone:
  assumes "stamps_ok sec d" and "with_parts (stamped sec u) (\<lambda>_. True) d = []"
  shows "file_gone sec u d"
  unfolding file_gone_def
proof (intro ballI notI)
  fix m assume m: "m \<in> set (medias d)" "stamped sec u m"
  obtain q where "q \<in> set (parts d)" "p_media q = m_id m" using stamps_okD(3) [OF assms(1) m] by blast
  then have "(m, q) \<in> set (with_parts (stamped sec u) (\<lambda>_. True) d)" using m by (simp add: with_parts_iff)
  then show False using assms(2) by simp
qed

text \<open>The row the search finds is the file's own, or one nobody has stamped.\<close>

lemma findMedia_Some:
  assumes f: "findMedia sec u path prefer d = Inr (Some f)" and st: "stamps_ok sec d"
  shows "\<exists>m q. m \<in> set (medias d) \<and> q \<in> set (parts d) \<and> p_media q = m_id m \<and> found_row (f_adopted f) (m, q) = Some f
    \<and> (if f_adopted f then adoptable sec m \<and> file_gone sec u d else stamped sec u m)"
proof (cases "first_by part_order (with_parts (stamped sec u) (\<lambda>_. True) d)")
  case (Some p)
  obtain m q where p: "p = (m, q)" by (cases p)
  then have mem: "(m, q) \<in> set (with_parts (stamped sec u) (\<lambda>_. True) d)" using first_by_min [OF Some] by simp
  have r: "found_row False (m, q) = Some f" using f Some p by (simp add: findMedia_def split: option.splits)
  then have "\<not> f_adopted f" using found_row_Some [OF r] by simp
  then show ?thesis using r mem by (auto simp: with_parts_iff)
next
  case None
  then have gone: "file_gone sec u d" using unstamped_gone [OF st] by simp
  obtain pre p where a: "first_by (adopt_order pre) (with_parts (adoptable sec) (\<lambda>q. p_deleted q = None \<and> p_file q = path) d) = Some p"
    "found_row True p = Some f" using f None by (auto simp: findMedia_def Let_def split: option.splits)
  obtain m q where p: "p = (m, q)" by (cases p)
  then have mem: "(m, q) \<in> set (with_parts (adoptable sec) (\<lambda>q. p_deleted q = None \<and> p_file q = path) d)" using first_by_min [OF a(1)] by simp
  have "f_adopted f" using found_row_Some [OF a(2)] by simp
  then show ?thesis using mem gone a(2) p by (auto simp: with_parts_iff)
qed

lemma findMedia_None: "findMedia sec u path prefer d = Inr None \<Longrightarrow> stamps_ok sec d \<Longrightarrow> file_gone sec u d"
proof (cases "first_by part_order (with_parts (stamped sec u) (\<lambda>_. True) d)")
  case None
  then show "stamps_ok sec d \<Longrightarrow> ?thesis" using unstamped_gone by simp
qed (auto simp: findMedia_def split: option.splits)

lemma found_ready:
  assumes f: "findMedia sec u path prefer d = Inr fo" and g: "good_library sec d"
  shows "place_ready sec u (case fo of None \<Rightarrow> no_row | Some f \<Rightarrow> f) (fo \<noteq> None) d"
proof (cases fo)
  case None
  then show ?thesis using findMedia_None f g by (auto simp: place_ready_def good_library_def)
next
  case (Some f')
  have st: "stamps_ok sec d" and ids: "ids_ok d" using g by (simp_all add: good_library_def)
  obtain m q where m: "m \<in> set (medias d)" "q \<in> set (parts d)" "p_media q = m_id m" "found_row (f_adopted f') (m, q) = Some f'"
    and own: "if f_adopted f' then adoptable sec m \<and> file_gone sec u d else stamped sec u m"
    using findMedia_Some [OF _ st] f Some by blast
  have r: "f_media f' = m_id m" "f_part f' = p_id q" using found_row_Some [OF m(4)] by simp_all
  have sec: "m_section m = sec" using own by (auto simp: adoptable_def stamped_def split: if_splits)
  have one: "x = m" if "x \<in> set (medias d)" "m_id x = m_id m" for x
    using distinct_key [OF _ that(1) m(1), of m_id] ids that(2) by (simp add: ids_ok_def)
  have "m_id x = m_id m \<longleftrightarrow> v = u" if x: "x \<in> set (medias d)" "stamped sec v x" for x v
  proof (cases "f_adopted f'")
    case True
    then have a: "\<not> has_key FileUIDKey (m_extra m)" "file_gone sec u d" using own by (simp_all add: adoptable_def)
    have "m_id x \<noteq> m_id m" using one [OF x(1)] stamped_live [OF x(2)] a(1) by blast
    moreover have "v \<noteq> u" using a(2) x by (auto simp: file_gone_def)
    ultimately show ?thesis by simp
  next
    case False
    then have s: "stamped sec u m" using own by simp
    show ?thesis using one [OF x(1)] stamps_okD(2) [OF st x] stamps_okD(2) [OF st m(1) s] stamps_okD(4) [OF st m(1) s x(1)] x(2) by blast
  qed
  then show ?thesis using Some m r sec unfolding place_ready_def by auto
qed

lemma ready_same: "place_ready sec u f h d \<Longrightarrow> medias d' = medias d \<Longrightarrow> parts d' = parts d \<Longrightarrow> place_ready sec u f h d'"
  by (cases h) (simp_all add: place_ready_def file_gone_def)

lemma leave_item_ok:
  assumes g: "good_library sec d" and r: "place_ready sec u f h d"
  shows "\<exists>f' h' d'. leave_item now f h item d = Some (f', h', d') \<and> only_file sec u d d' \<and> place_ready sec u f' h' d'"
proof (cases "h \<and> f_item f \<noteq> 0 \<and> f_item f \<noteq> item")
  case False
  then show ?thesis using only_file_refl [OF g] r by (auto simp: leave_item_def)
next
  case True
  then have "\<forall>x \<in> set (medias d). \<forall>v. stamped sec v x \<longrightarrow> (m_id x = f_media f \<longleftrightarrow> v = u)" using r by (simp add: place_ready_def)
  from delete_rows_ok [OF g this, of now "f_item f"] show ?thesis using True by (auto simp: leave_item_def place_ready_def)
qed

definition change_ok :: "Change \<Rightarrow> bool" where
  "change_ok c \<longleftrightarrow> ch_uid c \<noteq> [] \<and> list_all node_ok (Chain (ch_item c)) \<and> list_all (\<lambda>n. 0 \<le> NType n) (Chain (ch_item c))
     \<and> sorted_wrt (<) (map NType (Chain (ch_item c)))"

lemma only_file_trans: "only_file sec u d e \<Longrightarrow> only_file sec u e f \<Longrightarrow> only_file sec u d f"
  by (simp add: only_file_def)

lemma EnsureChain_ok:
  assumes e: "EnsureChain bun now sec it d = Some (i, l, rs, d')" and g: "good_library sec d"
    and it: "list_all node_ok (Chain it)" "list_all (\<lambda>n. 0 \<le> NType n) (Chain it)" "sorted_wrt (<) (map NType (Chain it))"
  shows "keeps_media d d'" "good_library sec d'"
proof -
  show k: "keeps_media d d'" by (rule ensure_chain_media [OF e])
  have t: "wf_items d" "typed_parents d" using g by (simp_all add: good_library_def tree_ok_def)
  obtain ids where "ensure_nodes bun now sec (hint it) None 0 (Chain it) d = (ids, rs, d')"
    using e by (auto simp: EnsureChain_def split: prod.splits if_splits)
  from ensure_nodes_keep [OF this it(1) t(1)] have "wf_items d'" using it(3) strict_sorted_iff by blast
  then have "tree_ok d'" using ensure_chain_typed [OF e t it(3,1,2)] by (simp add: tree_ok_def)
  then show "good_library sec d'" by (rule keeps_library(1) [OF k _ g])
qed

lemma same_rows: "medias e = medias d \<Longrightarrow> parts e = parts d \<Longrightarrow> file_rows sec v e = file_rows sec v d"
  by (simp add: file_rows_def)

lemma Apply_held:
  assumes f: "findMedia sec (ch_uid c) path prefer d = Inr (Some f)" and st: "stamps_ok sec d"
    and cur: "\<not> f_adopted f" "current pr c (f_seedKey f) (f_itemKey f) (f_seedVersion f)"
  shows "file_held pr sec c d"
proof -
  obtain m q where m: "m \<in> set (medias d)" "found_row (f_adopted f) (m, q) = Some f" "stamped sec (ch_uid c) m"
    using findMedia_Some [OF f st] cur(1) by auto
  then show ?thesis using cur(2) found_row_Some [OF m(2)] by (auto simp: file_held_def row_held_def)
qed

lemma Apply_ok:
  assumes g: "good_library sec d" and c: "change_ok c"
  shows "\<exists>r. Apply pr broken now sec loc c d = Some r \<and> (\<forall>ns d'. r = Inr (ns, d') \<longrightarrow> only_file sec (ch_uid c) d d' \<and> file_held pr sec c d')"
proof (cases "Chain (ch_item c) = [] \<or> broken")
  case True
  then show ?thesis by (auto simp: Apply_def)
next
  case False
  have st: "stamps_ok sec d" using g by (simp add: good_library_def)
  show ?thesis
  proof (cases "findMedia sec (ch_uid c) (ch_path c) (guids (ch_item c)) d")
    case (Inl e)
    then show ?thesis using False by (simp add: Apply_def)
  next
    case (Inr fo)
    let ?f = "case fo of None \<Rightarrow> no_row | Some f \<Rightarrow> f"
    show ?thesis
    proof (cases "fo \<noteq> None \<and> \<not> f_adopted ?f \<and> current pr c (f_seedKey ?f) (f_itemKey ?f) (f_seedVersion ?f)")
      case True
      then obtain f where "fo = Some f" by blast
      then have "file_held pr sec c d" using Apply_held [OF _ st, of c _ _ f pr] Inr True by simp
      moreover have "Apply pr broken now sec loc c d = Some (Inr ([], d))" using False Inr True by (simp add: Apply_def Let_def)
      ultimately show ?thesis using only_file_refl [OF g] by simp
    next
      case stale: False
      let ?it = "if fo \<noteq> None \<and> f_itemUID ?f \<noteq> [] \<and> f_itemUID ?f = leafUID (ch_item c) then (ch_item c)\<lparr>hint := f_item ?f\<rparr> else ch_item c"
      have it: "Chain ?it = Chain (ch_item c)" by simp
      have F: "(Chain (ch_item c) = []) = False" "broken = False" using False by simp_all
      have A: "Apply pr broken now sec loc c d = (case EnsureChain (pr_bundle pr) now sec ?it d of
          None \<Rightarrow> Some (Inl ErrStore)
        | Some (item, labelled, refreshes, d1) \<Rightarrow> (case ReconcileLabelsTx labelled (Labels (hd (Chain ?it))) d1 of (_, _, d2) \<Rightarrow>
            map_option (\<lambda>(f', h', d3). place_file pr now sec loc item f' h' (fold needs_refresh refreshes []) c d3)
              (leave_item now ?f (fo \<noteq> None) item d2)))"
        unfolding Apply_def Inr sum.case Let_def F if_False by (simp only: stale if_False)
      show ?thesis
      proof (cases "EnsureChain (pr_bundle pr) now sec ?it d")
        case None
        then show ?thesis using A by simp
      next
        case (Some p)
        obtain item labelled refreshes d1 where p: "p = (item, labelled, refreshes, d1)" by (cases p)
        note chain = EnsureChain_ok [OF Some [unfolded p] g]
        have 1: "keeps_media d d1" "good_library sec d1" using chain c unfolding it change_ok_def by blast+
        obtain w r d2 where l: "ReconcileLabelsTx labelled (Labels (hd (Chain ?it))) d1 = (w, r, d2)"
          by (cases "ReconcileLabelsTx labelled (Labels (hd (Chain ?it))) d1") auto
        have k2: "keeps_rows d1 d2" using keeps_labels [of d1 labelled "Labels (hd (Chain ?it))"] l by simp
        have 2: "keeps_media d1 d2" "good_library sec d2"
          using keeps_rows_media [OF k2] keeps_library(1) [OF _ _ 1(2)] quiet_tree [OF quiet_rows [OF k2]] 1(2) by (auto simp: good_library_def)
        have k: "keeps_media d d2" by (rule keeps_media_trans [OF 1(1) 2(1)])
        have md: "medias d2 = medias d" "parts d2 = parts d" using k by (simp_all add: keeps_media_def)
        obtain f' h' d3 where lv: "leave_item now ?f (fo \<noteq> None) item d2 = Some (f', h', d3)" "only_file sec (ch_uid c) d2 d3"
          "place_ready sec (ch_uid c) f' h' d3"
          using leave_item_ok [OF 2(2) ready_same [OF found_ready [OF Inr g] md]] by blast
        have o: "only_file sec (ch_uid c) d d3" using lv(2) same_rows [OF md] by (simp add: only_file_def)
        have g3: "good_library sec d3" using lv(2) by (simp add: only_file_def)
        have "Apply pr broken now sec loc c d = Some (place_file pr now sec loc item f' h' (fold needs_refresh refreshes []) c d3)"
          unfolding A Some p option.case prod.case l lv(1) option.map ..
        moreover have "only_file sec (ch_uid c) d d' \<and> file_held pr sec c d'"
          if "place_file pr now sec loc item f' h' (fold needs_refresh refreshes []) c d3 = Inr (ns, d')" for ns d'
          using place_file_row [OF that g3 lv(3)] only_file_trans [OF o] by blast
        ultimately show ?thesis by simp
      qed
    qed
  qed
qed

text \<open>A held file is left as it is.\<close>

lemma Apply_again:
  assumes g: "good_library sec d" and h: "file_held pr sec c d" and a: "Apply pr broken now sec loc c d = Some (Inr (ns, d'))"
  shows "d' = d"
proof -
  have st: "stamps_ok sec d" using g by (simp add: good_library_def)
  obtain m where m: "m \<in> set (medias d)" "stamped sec (ch_uid c) m" "row_held pr c m" using h by (auto simp: file_held_def)
  have ok: "Chain (ch_item c) \<noteq> []" "\<not> broken" using a by (auto simp: Apply_def split: if_splits)
  obtain fo where f: "findMedia sec (ch_uid c) (ch_path c) (guids (ch_item c)) d = Inr fo"
    using a ok by (cases "findMedia sec (ch_uid c) (ch_path c) (guids (ch_item c)) d") (simp_all add: Apply_def)
  have "fo \<noteq> None"
  proof
    assume "fo = None"
    then have "file_gone sec (ch_uid c) d" using findMedia_None [OF _ st] f by blast
    then show False using m(1,2) by (simp add: file_gone_def)
  qed
  then obtain f' where f': "fo = Some f'" by blast
  obtain x q where x: "x \<in> set (medias d)" "found_row (f_adopted f') (x, q) = Some f'" "\<not> f_adopted f'" "stamped sec (ch_uid c) x"
    using findMedia_Some [OF f [unfolded f'] st] m by (auto simp: file_gone_def split: if_splits)
  have "x = m" using stamps_okD(4) [OF st m(1,2) x(1,4)] .
  then have "current pr c (f_seedKey f') (f_itemKey f') (f_seedVersion f')" using found_row_Some [OF x(2)] m(3) by (simp add: row_held_def)
  then show ?thesis using a ok f f' x(3) by (simp add: Apply_def)
qed

end
