(* ===== verification/Library_Converge.thy ===== *)
theory Library_Converge
  imports Library_Apply_Facts
begin

text \<open>
  What a reconcile pass comes to, from the contract of the two transactions it runs: each ends, keeps the library good, and
  touches the rows of its own file only. The interpretation discharges the contract for \<open>Apply\<close> and \<open>Delete\<close>.
\<close>

section \<open>The contract\<close>

definition due :: "string \<Rightarrow> Change \<Rightarrow> bool" where
  "due folder c \<longleftrightarrow> underFolder (ch_path c) folder \<and> \<not> ch_unresolved c"

locale projection =
  fixes ap :: "nat \<Rightarrow> Change \<Rightarrow> 'd \<Rightarrow> ('e + 'd) option" and del :: "nat \<Rightarrow> string \<Rightarrow> 'd \<Rightarrow> ('e + 'd) option"
    and inv :: "'d \<Rightarrow> bool" and ok :: "Change \<Rightarrow> bool" and rows :: "string \<Rightarrow> 'd \<Rightarrow> 'v"
    and held :: "Change \<Rightarrow> 'd \<Rightarrow> bool" and gone :: "string \<Rightarrow> 'd \<Rightarrow> bool"
  assumes ap_ends: "inv d \<Longrightarrow> ok c \<Longrightarrow> \<exists>r. ap n c d = Some r
      \<and> (\<forall>d'. r = Inr d' \<longrightarrow> inv d' \<and> held c d' \<and> (\<forall>v. v \<noteq> ch_uid c \<longrightarrow> rows v d' = rows v d))"
    and ap_again: "inv d \<Longrightarrow> held c d \<Longrightarrow> ap n c d = Some (Inr d') \<Longrightarrow> d' = d"
    and del_ends: "inv d \<Longrightarrow> \<exists>r. del n u d = Some r
      \<and> (\<forall>d'. r = Inr d' \<longrightarrow> inv d' \<and> gone u d' \<and> (\<forall>v. v \<noteq> u \<longrightarrow> rows v d' = rows v d))"
    and held_rows: "rows (ch_uid c) d = rows (ch_uid c) e \<Longrightarrow> held c d \<Longrightarrow> held c e"
    and gone_rows: "rows u d = rows u e \<Longrightarrow> gone u d \<Longrightarrow> gone u e"
    and held_here: "held c d \<Longrightarrow> \<not> gone (ch_uid c) d"
begin

text \<open>The first loop.\<close>

lemma apply_wanted_ok:
  assumes "inv d" and "list_all ok cs" and "distinct (map ch_uid cs)"
    and "\<forall>c \<in> set cs. \<forall>st. R (ch_uid c) = Some st \<longrightarrow> cur c st \<longrightarrow> held c d"
  shows "\<exists>out' bp' n' d'. apply_wanted ap cur folder R cs (out, bp, n, d) = Some (out', bp', n', d') \<and> inv d' \<and> Failed out \<le> Failed out'
    \<and> (\<forall>v. v \<notin> ch_uid ` set cs \<longrightarrow> rows v d' = rows v d) \<and> (\<forall>c \<in> set cs. gone (ch_uid c) d' \<longrightarrow> gone (ch_uid c) d)
    \<and> (Failed out' = Failed out \<longrightarrow> (\<forall>c \<in> set cs. due folder c \<longrightarrow> held c d'))"
  using assms
proof (induction cs arbitrary: out bp n d)
  case (Cons c cs)
  let ?u = "ch_uid c"
  have others: "?u \<notin> ch_uid ` set cs" using Cons.prems(3) by auto
  have turn: "\<exists>out1 bp1 n1 d1. apply_wanted ap cur folder R (c # cs) (out, bp, n, d) = apply_wanted ap cur folder R cs (out1, bp1, n1, d1)
    \<and> inv d1 \<and> Failed out \<le> Failed out1 \<and> (\<forall>v. v \<noteq> ?u \<longrightarrow> rows v d1 = rows v d) \<and> (gone ?u d1 \<longrightarrow> gone ?u d)
    \<and> (Failed out1 = Failed out \<longrightarrow> due folder c \<longrightarrow> held c d1)"
  proof (cases "\<not> due folder c \<or> (case R ?u of Some st \<Rightarrow> cur c st | None \<Rightarrow> False)")
    case True
    then have "apply_wanted ap cur folder R (c # cs) (out, bp, n, d) = apply_wanted ap cur folder R cs (out, bp, n, d)"
      by (auto simp: due_def)
    moreover have "due folder c \<longrightarrow> held c d" using True Cons.prems(4) by (auto split: option.splits)
    ultimately show ?thesis using Cons.prems(1) by blast
  next
    case False
    obtain r where r: "ap n c d = Some r" "\<forall>d'. r = Inr d' \<longrightarrow> inv d' \<and> held c d' \<and> (\<forall>v. v \<noteq> ?u \<longrightarrow> rows v d' = rows v d)"
      using ap_ends [of d c n] Cons.prems(1,2) by auto
    let ?ad = "R ?u = None \<and> ch_path c \<in> set bp"
    let ?out = "if ?ad then out\<lparr>Adopted := Adopted out + 1\<rparr> else out"
    let ?bp = "if ?ad then removeAll (ch_path c) bp else bp"
    have e: "apply_wanted ap cur folder R (c # cs) (out, bp, n, d) = (case r of Inl e \<Rightarrow> apply_wanted ap cur folder R cs (?out\<lparr>Failed := Failed ?out + 1\<rparr>, ?bp, Suc n, d)
      | Inr d1 \<Rightarrow> apply_wanted ap cur folder R cs (?out\<lparr>Applied := Applied ?out + 1\<rparr>, ?bp, Suc n, d1))"
      using False r(1) unfolding due_def apply_wanted.simps Let_def by (simp only: if_False de_Morgan_disj not_not simp_thms option.case)
    show ?thesis
    proof (cases r)
      case (Inl e)
      have "Failed (?out\<lparr>Failed := Failed ?out + 1\<rparr>) = Failed out + 1" by simp
      then show ?thesis using e Inl Cons.prems(1)
        by (intro exI [of _ "?out\<lparr>Failed := Failed ?out + 1\<rparr>"] exI [of _ ?bp] exI [of _ "Suc n"] exI [of _ d]) (simp only: sum.case, simp)
    next
      case (Inr d1)
      have "Failed (?out\<lparr>Applied := Applied ?out + 1\<rparr>) = Failed out" by simp
      then show ?thesis using e Inr r(2) held_here
        by (intro exI [of _ "?out\<lparr>Applied := Applied ?out + 1\<rparr>"] exI [of _ ?bp] exI [of _ "Suc n"] exI [of _ d1]) (simp only: sum.case, simp)
    qed
  qed
  then obtain out1 bp1 n1 d1 where t: "apply_wanted ap cur folder R (c # cs) (out, bp, n, d) = apply_wanted ap cur folder R cs (out1, bp1, n1, d1)"
    "inv d1" "Failed out \<le> Failed out1" "\<forall>v. v \<noteq> ?u \<longrightarrow> rows v d1 = rows v d" "gone ?u d1 \<longrightarrow> gone ?u d"
    "Failed out1 = Failed out \<longrightarrow> due folder c \<longrightarrow> held c d1" by blast
  have far: "rows (ch_uid x) d1 = rows (ch_uid x) d" if "x \<in> set cs" for x using t(4) others that by (metis image_eqI)
  have "\<forall>x \<in> set cs. \<forall>st. R (ch_uid x) = Some st \<longrightarrow> cur x st \<longrightarrow> held x d1"
    using Cons.prems(4) held_rows [OF far [symmetric]] by simp
  from Cons.IH [OF t(2) _ _ this, of out1 bp1 n1] Cons.prems(2,3) obtain out2 bp2 n2 d2 where
    i: "apply_wanted ap cur folder R cs (out1, bp1, n1, d1) = Some (out2, bp2, n2, d2)" "inv d2" "Failed out1 \<le> Failed out2"
    "\<forall>v. v \<notin> ch_uid ` set cs \<longrightarrow> rows v d2 = rows v d1" "\<forall>x \<in> set cs. gone (ch_uid x) d2 \<longrightarrow> gone (ch_uid x) d1"
    "Failed out2 = Failed out1 \<longrightarrow> (\<forall>x \<in> set cs. due folder x \<longrightarrow> held x d2)" by auto
  have u: "rows ?u d2 = rows ?u d1" using i(4) others by blast
  have "gone (ch_uid x) d2 \<longrightarrow> gone (ch_uid x) d" if "x \<in> set (c # cs)" for x
    using that t(5) gone_rows [OF u] i(5) gone_rows [OF far] by auto
  moreover have "due folder x \<longrightarrow> held x d2" if "Failed out2 = Failed out" "x \<in> set (c # cs)" for x
    using that t(3,6) i(3,6) held_rows [OF u [symmetric]] by auto
  moreover have "\<forall>v. v \<notin> ch_uid ` set (c # cs) \<longrightarrow> rows v d2 = rows v d" using i(4) t(4) by simp
  ultimately show ?case using t(1,3) i(1,2,3) by (intro exI [of _ out2] exI [of _ bp2] exI [of _ n2] exI [of _ d2]) auto
qed simp

text \<open>The second.\<close>

lemma delete_unwanted_ok:
  assumes "inv d"
  shows "\<exists>out' n' d'. delete_unwanted del wanted us (out, bp, n, d) = Some (out', bp, n', d') \<and> inv d' \<and> Failed out \<le> Failed out'
    \<and> (\<forall>v. v \<in> wanted \<or> v \<notin> set us \<longrightarrow> rows v d' = rows v d) \<and> (Failed out' = Failed out \<longrightarrow> (\<forall>u \<in> set us - wanted. gone u d'))"
  using assms
proof (induction us arbitrary: out n d)
  case (Cons u us)
  show ?case
  proof (cases "u \<in> wanted")
    case True
    then show ?thesis using Cons.IH [OF Cons.prems, of out n] by auto
  next
    case False
    obtain r where r: "del n u d = Some r" "\<forall>d'. r = Inr d' \<longrightarrow> inv d' \<and> gone u d' \<and> (\<forall>v. v \<noteq> u \<longrightarrow> rows v d' = rows v d)"
      using del_ends [OF Cons.prems] by blast
    show ?thesis
    proof (cases r)
      case (Inl e)
      then show ?thesis using Cons.IH [OF Cons.prems, of "out\<lparr>Failed := Failed out + 1\<rparr>" "Suc n"] False r(1) by auto
    next
      case (Inr d1)
      have d1: "inv d1" "gone u d1" "\<forall>v. v \<noteq> u \<longrightarrow> rows v d1 = rows v d" using r(2) Inr by blast+
      obtain out2 n2 d2 where i: "delete_unwanted del wanted us (out\<lparr>Deleted := Deleted out + 1\<rparr>, bp, Suc n, d1) = Some (out2, bp, n2, d2)" "inv d2"
        "Failed out \<le> Failed out2" "\<forall>v. v \<in> wanted \<or> v \<notin> set us \<longrightarrow> rows v d2 = rows v d1" "Failed out2 = Failed out \<longrightarrow> (\<forall>u \<in> set us - wanted. gone u d2)"
        using Cons.IH [OF d1(1), of "out\<lparr>Deleted := Deleted out + 1\<rparr>" "Suc n"] by auto
      have "gone u d2" if "Failed out2 = Failed out" using i(4,5) that False d1(2) gone_rows [of u d1 d2] by (cases "u \<in> set us") auto
      moreover have "rows v d2 = rows v d" if "v \<in> wanted \<or> v \<notin> set (u # us)" for v using i(4) d1(3) that False by auto
      ultimately show ?thesis using i(1,2,3,5) False r(1) Inr by auto
    qed
  qed
qed simp

lemma pass_ok:
  assumes "inv d" and "list_all ok want" and "distinct (map ch_uid want)" and sh: "\<forall>us. set (shuffle us) = set us"
    and "\<forall>c \<in> set want. \<forall>st. stamped_rows L (ch_uid c) = Some st \<longrightarrow> cur c st \<longrightarrow> held c d" and ne: "\<not> (want = [] \<and> stamped_uids L \<noteq> [])"
  shows "\<exists>out d'. reconcile_pass ap del cur shuffle folder L want d = Some (Inr (out, d')) \<and> inv d'
    \<and> (\<forall>c \<in> set want. gone (ch_uid c) d' \<longrightarrow> gone (ch_uid c) d) \<and> (\<forall>v. v \<notin> ch_uid ` set want \<union> set (stamped_uids L) \<longrightarrow> rows v d' = rows v d)
    \<and> (Failed out = 0 \<longrightarrow> (\<forall>c \<in> set want. due folder c \<longrightarrow> held c d') \<and> (\<forall>u \<in> set (stamped_uids L) - ch_uid ` set want. gone u d'))"
proof -
  let ?w = "ch_uid ` set want"
  obtain out1 bp n1 d1 where a: "apply_wanted ap cur folder (stamped_rows L) want (no_outcome, paths_by L, 0, d) = Some (out1, bp, n1, d1)" "inv d1"
    "\<forall>v. v \<notin> ?w \<longrightarrow> rows v d1 = rows v d" "\<forall>c \<in> set want. gone (ch_uid c) d1 \<longrightarrow> gone (ch_uid c) d"
    "Failed out1 = 0 \<longrightarrow> (\<forall>c \<in> set want. due folder c \<longrightarrow> held c d1)"
    using apply_wanted_ok [OF assms(1-3,5), of folder no_outcome "paths_by L" 0] by (auto simp: no_outcome_def)
  obtain out2 n2 d2 where b: "delete_unwanted del ?w (shuffle (stamped_uids L)) (out1, bp, n1, d1) = Some (out2, bp, n2, d2)" "inv d2"
    "Failed out1 \<le> Failed out2" "\<forall>v. v \<in> ?w \<or> v \<notin> set (stamped_uids L) \<longrightarrow> rows v d2 = rows v d1"
    "Failed out2 = Failed out1 \<longrightarrow> (\<forall>u \<in> set (stamped_uids L) - ?w. gone u d2)"
    using delete_unwanted_ok [OF a(2), of ?w "shuffle (stamped_uids L)" out1 bp n1] sh by auto
  have e: "reconcile_pass ap del cur shuffle folder L want d = Some (Inr (out2\<lparr>Unknown := length bp\<rparr>, d2))"
    using ne unfolding reconcile_pass_def a(1) by (simp add: b(1))
  have w: "rows (ch_uid c) d2 = rows (ch_uid c) d1" if "c \<in> set want" for c using b(4) that by blast
  have "held c d2" if "Failed out2 = 0" "c \<in> set want" "due folder c" for c
    using held_rows [OF w [OF that(2), symmetric]] a(5) b(3) that by simp
  moreover have "gone (ch_uid c) d2 \<longrightarrow> gone (ch_uid c) d" if "c \<in> set want" for c using gone_rows [OF w [OF that]] a(4) that by blast
  moreover have "rows v d2 = rows v d" if "v \<notin> ?w \<union> set (stamped_uids L)" for v using a(3) b(4) that by simp
  moreover have "gone u d2" if "Failed out2 = 0" "u \<in> set (stamped_uids L) - ?w" for u using b(3,5) that by simp
  ultimately show ?thesis using e b(2) by (intro exI [of _ "out2\<lparr>Unknown := length bp\<rparr>"] exI [of _ d2]) auto
qed

text \<open>A library that has what is wanted is left as it is.\<close>

lemma apply_settled:
  assumes "inv d" and "list_all ok cs" and "\<forall>c \<in> set cs. due folder c \<longrightarrow> held c d"
  shows "\<exists>out' bp' n'. apply_wanted ap cur folder R cs (out, bp, n, d) = Some (out', bp', n', d)"
  using assms
proof (induction cs arbitrary: out bp n)
  case (Cons c cs)
  have ih: "\<exists>out' bp' n'. apply_wanted ap cur folder R cs (o1, b1, n1, d) = Some (out', bp', n', d)" for o1 b1 n1
    using Cons.IH Cons.prems by simp
  obtain r where r: "ap n c d = Some r" using ap_ends [of d c n] Cons.prems by auto
  have "r = Inr d' \<Longrightarrow> due folder c \<Longrightarrow> d' = d" for d' using ap_again [of d c n d'] r Cons.prems by auto
  then show ?case using ih r by (cases r) (auto simp: due_def Let_def)
qed simp

lemma delete_settled: "set us \<subseteq> wanted \<Longrightarrow> delete_unwanted del wanted us s = Some s"
  by (induction us arbitrary: s) auto

lemma pass_settled:
  assumes "inv d" and "list_all ok want" and "\<forall>c \<in> set want. due folder c \<longrightarrow> held c d"
    and sub: "set (stamped_uids L) \<subseteq> ch_uid ` set want" and sh: "\<forall>us. set (shuffle us) = set us"
  shows "\<exists>out. reconcile_pass ap del cur shuffle folder L want d = Some (Inr (out, d))"
proof -
  obtain out bp n where a: "apply_wanted ap cur folder (stamped_rows L) want (no_outcome, paths_by L, 0, d) = Some (out, bp, n, d)"
    using apply_settled [OF assms(1-3)] by blast
  have "delete_unwanted del (ch_uid ` set want) (shuffle (stamped_uids L)) s = Some s" for s using delete_settled sub sh by metis
  moreover have "\<not> (want = [] \<and> stamped_uids L \<noteq> [])" using sub by auto
  ultimately show ?thesis by (auto simp: reconcile_pass_def a)
qed

end

section \<open>The projection keeps it\<close>

lemma rows_stamped: "file_rows sec u d = file_rows sec u e \<Longrightarrow> m \<in> set (medias d) \<and> stamped sec u m \<longleftrightarrow> m \<in> set (medias e) \<and> stamped sec u m"
  by (auto simp: file_rows_def Let_def set_eq_iff)

interpretation pj: projection "apply_one pr broken now sec loc" "delete_one broken now sec" "good_library sec" change_ok "file_rows sec"
  "file_held pr sec" "file_gone sec" for pr broken now sec loc
proof (unfold_locales, goal_cases)
  case (1 d c n)
  then obtain r where r: "Apply pr (broken n) now sec loc c d = Some r"
    "\<forall>ns d'. r = Inr (ns, d') \<longrightarrow> only_file sec (ch_uid c) d d' \<and> file_held pr sec c d'" using Apply_ok by blast
  then show ?case by (cases r) (auto simp: apply_one_def only_file_def)
next
  case (2 d c n d')
  obtain r where r: "Apply pr (broken n) now sec loc c d = Some r" "map_sum id snd r = Inr d'" using 2(3) by (auto simp: apply_one_def)
  then have "\<exists>ns. r = Inr (ns, d')" by (cases r) auto
  then obtain ns where "Apply pr (broken n) now sec loc c d = Some (Inr (ns, d'))" using r(1) by blast
  then show ?case using Apply_again 2 by blast
next
  case (3 d n u)
  then show ?case using Delete_ok [of sec d now u] by (auto simp: delete_one_def only_file_def)
next
  case (4 c d e)
  note rows = rows_stamped [OF 4(1)]
  then show ?case using 4(2) rows unfolding file_held_def by blast
next
  case (5 u d e)
  note rows = rows_stamped [OF 5(1)]
  then show ?case using 5(2) rows unfolding file_gone_def by blast
qed (auto simp: file_held_def file_gone_def)

section \<open>The live rows\<close>

lemma liveRows_iff: "s \<in> set (liveRows sec folder d) \<longleftrightarrow> (\<exists>m q. s = row_state (m, q) \<and> m \<in> set (medias d) \<and> live_in sec m
    \<and> q \<in> set (parts d) \<and> p_media q = m_id m \<and> p_deleted q = None \<and> underFolder (p_file q) folder)"
proof -
  have "s \<in> set (liveRows sec folder d) \<longleftrightarrow> (\<exists>m q. (m, q) \<in> set (with_parts (\<lambda>m. m_section m = sec \<and> m_deleted m = None)
     (\<lambda>q. p_deleted q = None \<and> underFolder (p_file q) folder) d) \<and> s = row_state (m, q))" by (auto simp: liveRows_def)
  then show ?thesis unfolding with_parts_iff live_in_def by blast
qed

lemma live_stamped: "live_in sec m \<Longrightarrow> get_key FileUIDKey (m_extra m) = u \<Longrightarrow> u \<noteq> [] \<Longrightarrow> stamped sec u m"
  by (auto simp: live_in_def stamped_def get_key_def split: option.splits dest: map_of_SomeD)

lemma row_current_held: "row_current pr c (row_state (m, q)) \<longleftrightarrow> row_held pr c m"
  by (simp add: row_current_def row_held_def row_state_def)

lemma find_in: "find P xs = Some x \<Longrightarrow> x \<in> set xs \<and> P x"
  by (induction xs) (auto split: if_splits)

lemma live_row_held:
  assumes "stamped_rows (liveRows sec folder d) (ch_uid c) = Some st" and "row_current pr c st"
  shows "file_held pr sec c d"
proof -
  have st: "st \<in> set (liveRows sec folder d)" "rs_uid st = ch_uid c" "rs_uid st \<noteq> []"
    using find_in [OF assms(1) [unfolded stamped_rows_def]] by auto
  obtain m q where m: "st = row_state (m, q)" "m \<in> set (medias d)" "live_in sec m" using st(1) by (auto simp: liveRows_iff)
  have "stamped sec (ch_uid c) m" using live_stamped [OF m(3)] st(2,3) by (simp add: m(1) row_state_def)
  then show ?thesis using m(2) assms(2) unfolding m(1) row_current_held file_held_def by blast
qed

lemma live_uid_row:
  assumes "u \<in> set (stamped_uids (liveRows sec folder d))"
  obtains m q where "m \<in> set (medias d)" "stamped sec u m" "q \<in> set (parts d)" "p_media q = m_id m" "p_deleted q = None" "underFolder (p_file q) folder"
    "u \<noteq> []" "get_key FileUIDKey (m_extra m) = u"
proof -
  obtain st where st: "st \<in> set (liveRows sec folder d)" "rs_uid st = u" "u \<noteq> []" using assms by (auto simp: stamped_uids_def)
  obtain m q where m: "st = row_state (m, q)" "m \<in> set (medias d)" "live_in sec m" "q \<in> set (parts d)" "p_media q = m_id m" "p_deleted q = None"
    "underFolder (p_file q) folder" using st(1) unfolding liveRows_iff by blast
  have u: "get_key FileUIDKey (m_extra m) = u" using st(2) by (simp add: m(1) row_state_def)
  show ?thesis by (rule that [OF m(2) live_stamped [OF m(3) u st(3)] m(4-7) st(3) u])
qed

lemma live_uid_same:
  assumes u: "u \<in> set (stamped_uids (liveRows sec folder d'))" and r: "file_rows sec u d' = file_rows sec u d"
  shows "u \<in> set (stamped_uids (liveRows sec folder d))"
proof -
  obtain m q where m: "m \<in> set (medias d')" "stamped sec u m" "q \<in> set (parts d')" "p_media q = m_id m" "p_deleted q = None" "underFolder (p_file q) folder"
    "u \<noteq> []" "get_key FileUIDKey (m_extra m) = u" using live_uid_row [OF u] by metis
  have "m \<in> fst (file_rows sec u d')" "q \<in> snd (file_rows sec u d')" using m by (auto simp: file_rows_def Let_def)
  then have "m \<in> set (medias d)" "q \<in> set (parts d)" unfolding r by (auto simp: file_rows_def Let_def)
  then have "row_state (m, q) \<in> set (liveRows sec folder d)" using m stamped_live [OF m(2)] unfolding liveRows_iff by blast
  moreover have "rs_uid (row_state (m, q)) = u" using m(8) by (simp add: row_state_def)
  ultimately show ?thesis using m(7) unfolding stamped_uids_def by force
qed

lemma live_uid_here: "u \<in> set (stamped_uids (liveRows sec folder d)) \<Longrightarrow> \<not> file_gone sec u d"
  using live_uid_row unfolding file_gone_def by metis

text \<open>
  C2. A reconcile pass over a good library ends. It refuses an empty list of files against rows of ours, or it leaves a good
  library in which no wanted file that had a row has lost it, whatever failed; and when no transaction failed, every resolved
  wanted file of the folder has a live row with its current stamps, the folder has no live row of a file that is not
  wanted, and a further pass with the same files changes nothing, whatever fails in it.
\<close>

theorem reconcile_converges:
  assumes good: "good_library sec d" and ok: "list_all change_ok want" and uids: "distinct (map ch_uid want)" and sh: "\<forall>us. set (shuffle us) = set us"
  shows "(want = [] \<and> stamped_uids (liveRows sec folder d) \<noteq> [] \<and> Reconcile pr broken shuffle now sec loc folder want d = Some (Inl ()))
    \<or> (\<exists>out d'. Reconcile pr broken shuffle now sec loc folder want d = Some (Inr (out, d')) \<and> good_library sec d'
      \<and> (\<forall>c \<in> set want. file_gone sec (ch_uid c) d' \<longrightarrow> file_gone sec (ch_uid c) d)
      \<and> (Failed out = 0 \<longrightarrow> (\<forall>c \<in> set want. due folder c \<longrightarrow> file_held pr sec c d')
          \<and> set (stamped_uids (liveRows sec folder d')) \<subseteq> ch_uid ` set want
          \<and> (\<forall>broken' now'. \<exists>out'. Reconcile pr broken' shuffle now' sec loc folder want d' = Some (Inr (out', d')))))"
proof (cases "want = [] \<and> stamped_uids (liveRows sec folder d) \<noteq> []")
  case True
  then show ?thesis by (simp add: Reconcile_def reconcile_pass_def)
next
  case False
  let ?L = "liveRows sec folder d"
  have cur: "\<forall>c \<in> set want. \<forall>st. stamped_rows ?L (ch_uid c) = Some st \<longrightarrow> row_current pr c st \<longrightarrow> file_held pr sec c d"
    using live_row_held by blast
  obtain out d' where e: "Reconcile pr broken shuffle now sec loc folder want d = Some (Inr (out, d'))" and g: "good_library sec d'"
    and kept: "\<forall>c \<in> set want. file_gone sec (ch_uid c) d' \<longrightarrow> file_gone sec (ch_uid c) d"
    and rows: "\<forall>v. v \<notin> ch_uid ` set want \<union> set (stamped_uids ?L) \<longrightarrow> file_rows sec v d' = file_rows sec v d"
    and fine: "Failed out = 0 \<longrightarrow> (\<forall>c \<in> set want. due folder c \<longrightarrow> file_held pr sec c d') \<and> (\<forall>u \<in> set (stamped_uids ?L) - ch_uid ` set want. file_gone sec u d')"
    using pj.pass_ok [OF good ok uids sh cur False, where broken = broken and now = now and loc = loc and folder = folder] unfolding Reconcile_def [symmetric] by (elim exE conjE) (rule that)
  have "set (stamped_uids (liveRows sec folder d')) \<subseteq> ch_uid ` set want" if f: "Failed out = 0"
  proof
    fix u assume u: "u \<in> set (stamped_uids (liveRows sec folder d'))"
    show "u \<in> ch_uid ` set want"
    proof (rule ccontr)
      assume n: "u \<notin> ch_uid ` set want"
      then have "u \<notin> set (stamped_uids ?L)" using live_uid_here [OF u] fine f by blast
      then show False using live_uid_same [OF u] rows n by blast
    qed
  qed
  moreover have "\<exists>out'. Reconcile pr broken' shuffle now' sec loc folder want d' = Some (Inr (out', d'))"
    if "Failed out = 0" "set (stamped_uids (liveRows sec folder d')) \<subseteq> ch_uid ` set want" for broken' now'
    unfolding Reconcile_def using pj.pass_settled [OF g ok _ that(2) sh] fine that(1) by blast
  ultimately have settled: "Failed out = 0 \<longrightarrow> (\<forall>c \<in> set want. due folder c \<longrightarrow> file_held pr sec c d')
      \<and> set (stamped_uids (liveRows sec folder d')) \<subseteq> ch_uid ` set want
      \<and> (\<forall>broken' now'. \<exists>out'. Reconcile pr broken' shuffle now' sec loc folder want d' = Some (Inr (out', d')))"
    using fine by (intro impI conjI allI) simp_all
  show ?thesis by (intro disjI2 exI [of _ out] exI [of _ d'] conjI e g kept settled)
qed

definition sample_projector :: projector where
  "sample_projector = \<lparr>pr_base = (\<lambda>_. None), pr_ord = True, pr_digest = id, pr_bundle = id, pr_files = None\<rparr>"

definition sample_change :: Change where
  "sample_change = \<lparr>ch_uid = ''f1'', ch_path = ''/media/Show/e2.mkv'', ch_seed = ''s1'', ch_item = sample_item,
     ch_input = \<lparr>SizeBytes = 5, ProbeHash = [], in_probe = None, in_markers = None, OriginalLanguage = [], Sidecars = [], in_fast_start = None\<rparr>,
     ch_unresolved = False, ch_location = 0\<rparr>"

definition sample_library :: db where
  "sample_library = sample_db\<lparr>locations := [\<lparr>l_id = 1, l_section = 2, l_root = ''/media''\<rparr>]\<rparr>"

lemma reconcile_converges_witness:
  "\<exists>out d'. Reconcile sample_projector (\<lambda>_. False) id 9 2 1 [] [sample_change] sample_library = Some (Inr (out, d'))
     \<and> Failed out = 0 \<and> Applied out = 1 \<and> file_held sample_projector 2 sample_change d'
     \<and> (\<exists>out'. Reconcile sample_projector (\<lambda>_. True) id 10 2 1 [] [sample_change] d' = Some (Inr (out', d')))"
proof -
  have run: "case Reconcile sample_projector (\<lambda>_. False) id 9 2 1 [] [sample_change] sample_library of
      Some (Inr (out, d')) \<Rightarrow> Failed out = 0 \<and> Applied out = 1 | _ \<Rightarrow> False" by code_simp
  have "wf_items sample_library" "ids_ok sample_library" "stamps_ok 2 sample_library"
    "list_all change_ok [sample_change]" "distinct (map ch_uid [sample_change])" "due [] sample_change" by code_simp+
  moreover have "typed_parents sample_library"
    by (simp add: typed_parents_def sample_library_def sample_db_def sample_show_def)
  ultimately have h: "good_library 2 sample_library" "list_all change_ok [sample_change]" "distinct (map ch_uid [sample_change])" "due [] sample_change"
    by (simp_all add: good_library_def tree_ok_def)
  show ?thesis using reconcile_converges [OF h(1-3), of id "[]" sample_projector "\<lambda>_. False" 9 1] run h(4)
    by (auto split: option.splits sum.splits)
qed

end
