(* ===== verification/Guide_Names.thy ===== *)
theory Guide_Names
  imports Go_Text "HOL-Library.Sublist"
begin

text \<open>
  The names and marks of Live TV's guide databases (\<open>src/pkg/plex/bootstrap/guides.go\<close>): a guide's file, its schemas, and
  the comments that carry a schema's state, written with \<open>fmt.Sprintf\<close> and read with \<open>fmt.Sscanf\<close>. The two regular
  expressions are written out as the functions they compute.
\<close>

record Guide =
  Provider :: string
  DVR :: string

section \<open>Names\<close>

definition cut_suffix :: "string \<Rightarrow> string \<Rightarrow> string option" where
  "cut_suffix s p = (if suffix p s then Some (take (length s - length p) s) else None)"

definition is_hex :: "char \<Rightarrow> bool" where
  "is_hex c \<longleftrightarrow> hex_nibble c \<noteq> None"

text \<open>\<open>guideUUID\<close> and \<open>guideProvider\<close>.\<close>

definition guideUUID :: "string \<Rightarrow> bool" where
  "guideUUID s \<longleftrightarrow> map length (split_on (CHR ''-'') s) = [8, 4, 4, 4, 12] \<and> list_all (\<lambda>c. c = CHR ''-'' \<or> is_hex c) s"

definition epg_prefix :: string where "epg_prefix = ''tv.plex.providers.epg.''"

definition word_char :: "char \<Rightarrow> bool" where
  "word_char c \<longleftrightarrow> (let n = (of_char c :: nat) in (48 \<le> n \<and> n \<le> 57) \<or> (65 \<le> n \<and> n \<le> 90) \<or> (97 \<le> n \<and> n \<le> 122) \<or> n = 95)"

definition guideProvider :: "string \<Rightarrow> bool" where
  "guideProvider s \<longleftrightarrow> prefix epg_prefix s \<and> (let r = drop (length epg_prefix) s in r \<noteq> [] \<and> list_all word_char r)"

definition Valid :: "Guide \<Rightarrow> bool" where
  "Valid g \<longleftrightarrow> guideProvider (Provider g) \<and> guideUUID (DVR g)"

definition File :: "Guide \<Rightarrow> string" where
  "File g = Provider g @ ''-'' @ DVR g @ ''.db''"

definition Schema :: "Guide \<Rightarrow> string" where
  "Schema g = ''epg_'' @ ToLower (filter (\<lambda>c. c \<noteq> CHR ''-'') (DVR g))"

definition Staging :: "Guide \<Rightarrow> string" where "Staging g = Schema g @ ''_next''"
definition Replaced :: "Guide \<Rightarrow> string" where "Replaced g = Schema g @ ''_old''"

text \<open>\<open>guideFile\<close>: a provider has no dash and a uuid has 36 characters, so the match is the only one.\<close>

definition GuideForFile :: "string \<Rightarrow> Guide option" where
  "GuideForFile name = (case cut_suffix name ''.db'' of None \<Rightarrow> None | Some stem \<Rightarrow>
     (let k = length stem - 36; g = \<lparr>Provider = take (k - 1) stem, DVR = drop k stem\<rparr> in
      if 37 \<le> length stem \<and> stem ! (k - 1) = CHR ''-'' \<and> Valid g then Some g else None))"

definition LoadSuffix :: string where "LoadSuffix = ''-loading''"

definition LoadFile :: "Guide \<Rightarrow> string" where
  "LoadFile g = trim_suffix (File g) ''.db'' @ LoadSuffix @ ''.db''"

definition GuideForLoadFile :: "string \<Rightarrow> Guide option" where
  "GuideForLoadFile name = (case cut_suffix name (LoadSuffix @ ''.db'') of None \<Rightarrow> None | Some stem \<Rightarrow> GuideForFile (stem @ ''.db''))"

definition lower_hex :: "char \<Rightarrow> bool" where
  "lower_hex c \<longleftrightarrow> (let n = (of_char c :: nat) in (48 \<le> n \<and> n \<le> 57) \<or> (97 \<le> n \<and> n \<le> 102))"

definition dvrOfSchema :: "string \<Rightarrow> string" where
  "dvrOfSchema schema = (let hex = drop 4 schema in
     if \<not> prefix ''epg_'' schema \<or> length hex \<noteq> 32 \<or> \<not> list_all lower_hex hex then []
     else take 8 hex @ ''-'' @ take 4 (drop 8 hex) @ ''-'' @ take 4 (drop 12 hex) @ ''-'' @ take 4 (drop 16 hex) @ ''-'' @ drop 20 hex)"

subsection \<open>A file's name is read back\<close>

lemma cut_suffix_append [simp]: "cut_suffix (s @ p) p = Some s"
  by (simp add: cut_suffix_def suffix_def)

lemma cut_suffix_Some: "cut_suffix s p = Some t \<longleftrightarrow> s = t @ p"
  by (auto simp: cut_suffix_def suffix_def)

lemma split_on_length: "sum_list (map length (split_on c s)) + length (split_on c s) = length s + 1"
  by (induction s) (auto split: list.splits)

lemma guideUUID_length: "guideUUID s \<Longrightarrow> length s = 36"
proof -
  assume g: "guideUUID s"
  then have m: "map length (split_on (CHR ''-'') s) = [8, 4, 4, 4, 12]" by (simp add: guideUUID_def)
  have "length (split_on (CHR ''-'') s) = 5" using arg_cong [OF m, of length] by simp
  then show ?thesis using split_on_length [of "CHR ''-''" s] m by simp
qed

lemma File_stem: "guideUUID (DVR g) \<Longrightarrow> GuideForFile (File g) = (if Valid g then Some g else None)"
  using guideUUID_length [of "DVR g"] cut_suffix_append [of "Provider g @ ''-'' @ DVR g" "''.db''"]
  by (cases g) (simp add: GuideForFile_def File_def Let_def nth_append)

lemma GuideForFile_Some: "GuideForFile name = Some g \<Longrightarrow> name = File g \<and> Valid g"
proof -
  assume "GuideForFile name = Some g"
  then obtain stem where s: "name = stem @ ''.db''" "37 \<le> length stem" "stem ! (length stem - 36 - 1) = CHR ''-''"
    "g = \<lparr>Provider = take (length stem - 36 - 1) stem, DVR = drop (length stem - 36) stem\<rparr>" "Valid g"
    by (auto simp: GuideForFile_def cut_suffix_Some Let_def split: option.splits if_splits)
  have "stem = take (length stem - 36 - 1) stem @ stem ! (length stem - 36 - 1) # drop (Suc (length stem - 36 - 1)) stem"
    by (rule id_take_nth_drop) (use s(2) in simp)
  then show ?thesis using s by (simp add: File_def Suc_diff_Suc numeral_eq_Suc)
qed

lemma load_file: "LoadFile g = Provider g @ ''-'' @ DVR g @ ''-loading.db''"
proof -
  have "trim_suffix (s @ ''.db'') ''.db'' = s" for s by (simp add: trim_suffix_def suffix_def)
  from this [of "Provider g @ ''-'' @ DVR g"] show ?thesis by (simp add: LoadFile_def LoadSuffix_def File_def)
qed

lemma load_is_no_guide: "GuideForFile (LoadFile g) = None"
proof (rule ccontr)
  assume "GuideForFile (LoadFile g) \<noteq> None"
  then obtain h where h: "LoadFile g = File h" "Valid h" using GuideForFile_Some by blast
  have e: "Provider g @ ''-'' @ DVR g @ ''-loading'' = Provider h @ ''-'' @ DVR h" using h(1) by (simp add: load_file File_def)
  have u: "DVR h \<noteq> []" "list_all (\<lambda>c. c = CHR ''-'' \<or> is_hex c) (DVR h)"
    using guideUUID_length [of "DVR h"] h(2) by (auto simp: Valid_def guideUUID_def)
  have "last (Provider h @ ''-'' @ DVR h) = CHR ''g''" unfolding e [symmetric] by simp
  then have "last (DVR h) = CHR ''g''" using u(1) by simp
  then have "CHR ''g'' \<in> set (DVR h)" using u(1) last_in_set by metis
  moreover have "CHR ''g'' \<noteq> CHR ''-''" "\<not> is_hex (CHR ''g'')" by (simp_all add: is_hex_def hex_nibble_def)
  ultimately show False using u(2) unfolding list_all_iff by blast
qed

text \<open>
  C30. The names of a valid guide are read back as it, and only they: a file's name gives exactly the guide whose file it is, a
  load file is no guide's file and is read back as the load of its guide.
\<close>

theorem guide_names_roundtrip:
  "(GuideForFile name = Some g \<longleftrightarrow> name = File g \<and> Valid g) \<and> (GuideForLoadFile name = Some g \<longleftrightarrow> name = LoadFile g \<and> Valid g)
     \<and> GuideForFile (LoadFile g) = None"
proof -
  have "Valid g \<Longrightarrow> GuideForFile (File g) = Some g" using File_stem [of g] by (simp add: Valid_def)
  then have 1: "GuideForFile n = Some g \<longleftrightarrow> n = File g \<and> Valid g" for n using GuideForFile_Some [of n g] by blast
  have p: "LoadFile g = (Provider g @ ''-'' @ DVR g) @ LoadSuffix @ ''.db''" by (simp add: load_file LoadSuffix_def)
  have f: "File g = (Provider g @ ''-'' @ DVR g) @ ''.db''" by (simp add: File_def)
  have "GuideForLoadFile name = Some g \<longleftrightarrow> (\<exists>stem. name = stem @ LoadSuffix @ ''.db'' \<and> stem @ ''.db'' = File g) \<and> Valid g"
    using 1 unfolding GuideForLoadFile_def by (cases "cut_suffix name (LoadSuffix @ ''.db'')") (auto simp: cut_suffix_Some simp flip: cut_suffix_Some)
  also have "\<dots> \<longleftrightarrow> name = LoadFile g \<and> Valid g" unfolding p f append_same_eq by blast
  finally show ?thesis using 1 load_is_no_guide by blast
qed

section \<open>The comments\<close>

datatype verb = Lit char | Gap | Int64 | Uint64

text \<open>A format with its verbs' argument types.\<close>

fun verbs :: "verb list \<Rightarrow> string \<Rightarrow> verb list" where
  "verbs as [] = []"
| "verbs as [c] = [if c = CHR '' '' then Gap else Lit c]"
| "verbs as (c # x # r) = (if c = CHR ''%'' \<and> x = CHR ''d'' then hd as # verbs (tl as) r
     else (if c = CHR '' '' then Gap else Lit c) # verbs as (x # r))"

fun Sprintf :: "verb list \<Rightarrow> int list \<Rightarrow> string" where
  "Sprintf [] vs = []"
| "Sprintf (Lit c # f) vs = c # Sprintf f vs"
| "Sprintf (Gap # f) vs = CHR '' '' # Sprintf f vs"
| "Sprintf (_ # f) [] = Sprintf f []"
| "Sprintf (_ # f) (v # vs) = itoa v @ Sprintf f vs"

definition blank :: "char \<Rightarrow> bool" where
  "blank c \<longleftrightarrow> c \<in> {CHR '' '', CHR 0x09, CHR 0x0B, CHR 0x0C, CHR 0x0D}"

text \<open>
  \<open>Sscanf\<close>: a space of the format takes one blank or more, a verb skips blanks, and what is left over is ignored. \<open>None\<close> is
  an error; a number out of its type's range is one.
\<close>

definition scan_int :: "bool \<Rightarrow> string \<Rightarrow> (int \<times> string) option" where
  "scan_int neg s = (let t = dropWhile blank s;
       sign = (if neg then takeWhile (\<lambda>c. c = CHR ''-'' \<or> c = CHR ''+'') (take 1 t) else []);
       ds = takeWhile is_digit (drop (length sign) t); rest = dropWhile is_digit (drop (length sign) t)
     in if neg then map_option (\<lambda>v. (v, rest)) (parse_int (sign @ ds))
        else (case parse_nat ds of None \<Rightarrow> None | Some v \<Rightarrow> if int v < 2 ^ 64 then Some (int v, rest) else None))"

fun Sscanf :: "verb list \<Rightarrow> string \<Rightarrow> int list option" where
  "Sscanf [] s = Some []"
| "Sscanf (Lit c # f) s = (case s of [] \<Rightarrow> None | x # r \<Rightarrow> if x = c then Sscanf f r else None)"
| "Sscanf (Gap # f) s = (case s of [] \<Rightarrow> Sscanf f [] | x # r \<Rightarrow> if blank x then Sscanf f (dropWhile blank r) else None)"
| "Sscanf (Int64 # f) s = (case scan_int True s of None \<Rightarrow> None | Some (v, r) \<Rightarrow> map_option ((#) v) (Sscanf f r))"
| "Sscanf (Uint64 # f) s = (case scan_int False s of None \<Rightarrow> None | Some (v, r) \<Rightarrow> map_option ((#) v) (Sscanf f r))"

definition importedComment :: "verb list" where
  "importedComment = verbs [Int64] ''clusterplex: copied from a guide file modified at %d (Unix ns)''"
definition loadedComment :: "verb list" where
  "loadedComment = verbs [Int64] ''clusterplex: loaded by PMS, swapped at %d (Unix ns)''"
definition stagingCleanComment :: string where
  "stagingCleanComment = ''clusterplex: staging, clean''"
definition stagingLoadingComment :: "verb list" where
  "stagingLoadingComment = verbs [Int64, Uint64] ''clusterplex: staging, loading since %d (Unix ns), file inode %d''"
definition stagingLoadingOldComment :: "verb list" where
  "stagingLoadingOldComment = verbs [Int64] ''clusterplex: staging, loading since %d (Unix ns)''"

text \<open>When a load began and its file's inode, 0 where the mark has none.\<close>

definition parseLoading :: "string \<Rightarrow> (int \<times> int) option" where
  "parseLoading comment = (case Sscanf stagingLoadingComment comment of
       Some [since, inode] \<Rightarrow> Some (since, inode)
     | _ \<Rightarrow> (case Sscanf stagingLoadingOldComment comment of Some [since] \<Rightarrow> Some (since, 0) | _ \<Rightarrow> None))"

text \<open>When the guide of a schema was loaded: the first format that reads its comment.\<close>

definition loaded_at :: "string option \<Rightarrow> int" where
  "loaded_at comment = (case comment of None \<Rightarrow> 0 | Some c \<Rightarrow>
     (case Sscanf importedComment c of Some [t] \<Rightarrow> t | _ \<Rightarrow> (case Sscanf loadedComment c of Some [t] \<Rightarrow> t | _ \<Rightarrow> 0)))"

lemma scan_digits:
  assumes "r = [] \<or> \<not> is_digit (hd r)"
  shows "takeWhile is_digit (nat_digits n @ r) = nat_digits n" "dropWhile is_digit (nat_digits n @ r) = r"
proof -
  have d: "\<forall>x \<in> set (nat_digits n). is_digit x" using nat_digits_all_digits [of n] by (simp add: list_all_iff)
  show "takeWhile is_digit (nat_digits n @ r) = nat_digits n" "dropWhile is_digit (nat_digits n @ r) = r"
    using d assms by (cases r; simp add: takeWhile_append2 dropWhile_append2)+
qed

lemma scan_itoa:
  assumes v: "in_int64 v" and r: "r = [] \<or> \<not> is_digit (hd r)"
  shows "scan_int True (itoa v @ r) = Some (v, r)"
proof (cases "v < 0")
  case True
  then have e: "itoa v @ r = CHR ''-'' # nat_digits (nat (- v)) @ r" by (simp add: itoa_def)
  have "parse_int (CHR ''-'' # nat_digits (nat (- v))) = Some v" using parse_int_itoa [OF v] True by (simp add: itoa_def)
  then show ?thesis unfolding e scan_int_def Let_def by (simp add: blank_def scan_digits [OF r])
next
  case False
  obtain c s where c: "nat_digits (nat v) = c # s" by (cases "nat_digits (nat v)") simp_all
  have d: "is_digit c" using nat_digits_hd [of "nat v"] c by simp
  then have n: "c \<noteq> CHR ''-''" "c \<noteq> CHR ''+''" "\<not> blank c" using not_digit_sign by (auto simp: blank_def is_digit_def)
  have e: "itoa v @ r = c # s @ r" using False c by (simp add: itoa_def)
  have "parse_int (c # s) = Some v" using parse_int_itoa [OF v] False c by (simp add: itoa_def)
  then show ?thesis unfolding e scan_int_def Let_def using n d scan_digits [OF r, of "nat v"] c by simp
qed

lemma scan_nat:
  assumes v: "0 \<le> v" "v < 2 ^ 64" and r: "r = [] \<or> \<not> is_digit (hd r)"
  shows "scan_int False (itoa v @ r) = Some (v, r)"
proof -
  obtain c s where c: "nat_digits (nat v) = c # s" by (cases "nat_digits (nat v)") simp_all
  have d: "is_digit c" using nat_digits_hd [of "nat v"] c by simp
  then have n: "\<not> blank c" by (auto simp: blank_def is_digit_def)
  have e: "itoa v @ r = c # s @ r" using v c by (simp add: itoa_def)
  have "parse_nat (c # s) = Some (nat v)" using parse_nat_digits [of "nat v"] c by simp
  then show ?thesis unfolding e scan_int_def Let_def using n d scan_digits [OF r, of "nat v"] c v by simp
qed

lemma scan_blank: "blank c \<Longrightarrow> scan_int b (c # s) = scan_int b s"
  by (simp add: scan_int_def)

lemma itoa_not_blank: "dropWhile blank (itoa v @ r) = itoa v @ r"
proof -
  obtain c s where c: "itoa v @ r = c # s" by (cases "itoa v @ r") (auto simp: itoa_def split: if_splits)
  have "c = CHR ''-'' \<or> is_digit c"
    using c nat_digits_hd [of "nat v"] nat_digits_nonempty [of "nat v"] by (cases "nat_digits (nat v)") (auto simp: itoa_def split: if_splits)
  then have "\<not> blank c" by (auto simp: blank_def is_digit_def)
  then show ?thesis by (simp add: c)
qed

text \<open>A format whose verbs end where they are printed.\<close>

fun fits :: "verb list \<Rightarrow> int list \<Rightarrow> bool" where
  "fits [] vs = (vs = [])"
| "fits (Lit c # f) vs = fits f vs"
| "fits (Gap # f) vs = ((case f of Lit c # r \<Rightarrow> \<not> blank c | Gap # r \<Rightarrow> False | _ \<Rightarrow> True) \<and> fits f vs)"
| "fits (Int64 # f) vs = (case vs of [] \<Rightarrow> False | v # vs \<Rightarrow> in_int64 v \<and> (case f of Lit c # r \<Rightarrow> \<not> is_digit c | [] \<Rightarrow> True | Gap # r \<Rightarrow> True | _ \<Rightarrow> False) \<and> fits f vs)"
| "fits (Uint64 # f) vs = (case vs of [] \<Rightarrow> False | v # vs \<Rightarrow> 0 \<le> v \<and> v < 2 ^ 64 \<and> (case f of Lit c # r \<Rightarrow> \<not> is_digit c | [] \<Rightarrow> True | Gap # r \<Rightarrow> True | _ \<Rightarrow> False) \<and> fits f vs)"

lemma Sprintf_end: "(case f of Lit c # r \<Rightarrow> \<not> is_digit c | [] \<Rightarrow> True | Gap # r \<Rightarrow> True | _ \<Rightarrow> False) \<Longrightarrow> Sprintf f vs = [] \<or> \<not> is_digit (hd (Sprintf f vs))"
  by (auto simp: is_digit_def split: list.splits verb.splits)

lemma Sprintf_unblank: "(case f of Lit c # r \<Rightarrow> \<not> blank c | Gap # r \<Rightarrow> False | _ \<Rightarrow> True) \<Longrightarrow> fits f vs \<Longrightarrow> dropWhile blank (Sprintf f vs) = Sprintf f vs"
  by (cases f; cases vs; cases "hd f") (auto simp: itoa_not_blank)

lemma Sscanf_Sprintf: "fits f vs \<Longrightarrow> Sscanf f (Sprintf f vs) = Some vs"
proof (induction f vs rule: fits.induct)
  case (3 f vs)
  then show ?case using Sprintf_unblank [of f vs] by (simp add: blank_def)
next
  case (4 f vs)
  then obtain v ws where v: "vs = v # ws" by (cases vs) auto
  then show ?case using 4 Sprintf_end [of f ws] by (simp add: scan_itoa)
next
  case (5 f vs)
  then obtain v ws where v: "vs = v # ws" by (cases vs) auto
  then show ?case using 5 Sprintf_end [of f ws] by (simp add: scan_nat)
qed auto

lemmas comment_formats = importedComment_def loadedComment_def stagingLoadingComment_def stagingLoadingOldComment_def

lemma comments_read:
  assumes "in_int64 t" and "0 \<le> inode" and "inode < 2 ^ 64"
  shows "parseLoading (Sprintf stagingLoadingComment [t, inode]) = Some (t, inode)
    \<and> parseLoading stagingCleanComment = None \<and> loaded_at (Some (Sprintf importedComment [t])) = t \<and> loaded_at (Some (Sprintf loadedComment [t])) = t
    \<and> parseLoading (Sprintf importedComment [t]) = None \<and> parseLoading (Sprintf loadedComment [t]) = None"
proof -
  have "fits stagingLoadingComment [t, inode]" "fits importedComment [t]" "fits loadedComment [t]"
    using assms by (simp_all add: comment_formats blank_def is_digit_def)
  note r = this [THEN Sscanf_Sprintf]
  have "Sscanf importedComment (Sprintf loadedComment [t]) = None" by (simp add: comment_formats blank_def)
  moreover have "Sscanf f (Sprintf k [t]) = None" if "f \<in> {stagingLoadingComment, stagingLoadingOldComment}" "k \<in> {importedComment, loadedComment}" for f k
    using that by (auto simp: comment_formats blank_def)
  moreover have "Sscanf f stagingCleanComment = None" if "f \<in> {stagingLoadingComment, stagingLoadingOldComment}" for f
    using that by (auto simp: comment_formats stagingCleanComment_def blank_def)
  ultimately show ?thesis using r by (simp add: parseLoading_def loaded_at_def)
qed

text \<open>
  Every mark the program writes on a schema is read back as what was written: a running load's start and inode, the time
  of the guide's load. A clean staging schema, and a guide's own mark, are no running load.
\<close>

theorem comments_roundtrip:
  assumes "in_int64 t" and "0 \<le> inode" and "inode < 2 ^ 64"
  shows "parseLoading (Sprintf stagingLoadingComment [t, inode]) = Some (t, inode)
    \<and> parseLoading stagingCleanComment = None \<and> loaded_at (Some (Sprintf importedComment [t])) = t \<and> loaded_at (Some (Sprintf loadedComment [t])) = t
    \<and> parseLoading (Sprintf importedComment [t]) = None \<and> parseLoading (Sprintf loadedComment [t]) = None"
  by (rule comments_read [OF assms])

lemma comments_roundtrip_witness:
  "parseLoading (Sprintf stagingLoadingComment [7, 5]) = Some (7, 5) \<and> loaded_at (Some (Sprintf importedComment [7])) = 7"
  using comments_roundtrip [of 7 5] by (simp add: in_int64_def)

end
