(* ===== verification/Guide_Pg.thy ===== *)
theory Guide_Pg
  imports Guide_Names
begin

text \<open>
  The schemas of \<open>src/pkg/plex/bootstrap/guides.go\<close>: what \<open>CloneSchema\<close> makes of the library's schema and what \<open>copyGuide\<close>
  puts into it from a guide file PMS loaded. A schema is what the catalogue queries of the code list of it; a definition is
  the text PostgreSQL prints, a real number its literal. SQLite's \<open>CAST\<close> is the parameter \<open>cast\<close>. Each of the two is one transaction: its result,
  or the error that leaves everything as it was.
\<close>

datatype val = VNull | VInt int | VReal string | VText string | VBlob string | VBool bool

record column =
  c_type :: string
  c_default :: "string option"
  c_generated :: bool

text \<open>A row has the columns that were written; the others have their defaults.\<close>

type_synonym row = "(string \<times> val) list"

record tbl =
  t_columns :: "(string \<times> column) list"
  t_rows :: "row list"

record sequence =
  q_type :: string
  q_settings :: "int list"
  q_cycle :: bool
  q_next :: int
  q_owner :: "(string \<times> string) option"

record schema =
  tables :: "(string \<times> tbl) list"
  sequences :: "(string \<times> sequence) list"
  views :: "(string \<times> string) list"
  triggers :: "(string \<times> string) list"
  remark :: "string option"

section \<open>Retargeting a definition\<close>

text \<open>The expression \<open>\bfrom\.("?)(t1|t2|...)("?)\b\<close>: the first alternative that matches, a quote taken where it can be.\<close>

definition boundary :: "char option \<Rightarrow> string \<Rightarrow> bool" where
  "boundary prev s \<longleftrightarrow> (case prev of None \<Rightarrow> False | Some c \<Rightarrow> word_char c) \<noteq> (s \<noteq> [] \<and> word_char (hd s))"

definition quotes :: "string \<Rightarrow> string list" where
  "quotes s = (if s \<noteq> [] \<and> hd s = CHR 0x22 then [[CHR 0x22], []] else [[]])"

definition last_char :: "string \<Rightarrow> char option" where
  "last_char s = (if s = [] then None else Some (last s))"

definition ref_tails :: "string list \<Rightarrow> string \<Rightarrow> string list" where
  "ref_tails names r = concat (map (\<lambda>q. concat (map (\<lambda>t. if prefix t (drop (length q) r)
       then map (\<lambda>q'. q @ t @ q') (quotes (drop (length q + length t) r)) else []) names)) (quotes r))"

definition ref_at :: "string \<Rightarrow> string list \<Rightarrow> char option \<Rightarrow> string \<Rightarrow> string option" where
  "ref_at from names prev s = (let head = from @ ''.'' in
     if boundary prev s \<and> prefix head s
     then (let r = drop (length head) s in find (\<lambda>m. boundary (last_char (head @ m)) (drop (length m) r)) (ref_tails names r)) else None)"

function retarget_from :: "string \<Rightarrow> string \<Rightarrow> string list \<Rightarrow> char option \<Rightarrow> string \<Rightarrow> string" where
  "retarget_from from to names prev [] = []"
| "retarget_from from to names prev (c # s) = (case ref_at from names prev (c # s) of
       Some m \<Rightarrow> to @ ''.'' @ m @ retarget_from from to names (last_char (from @ ''.'' @ m)) (drop (length from + length m) s)
     | None \<Rightarrow> c # retarget_from from to names (Some c) s)"
  by pat_completeness auto
termination by (relation "measure (\<lambda>(_, _, _, _, s). length s)") simp_all

definition retarget :: "string \<Rightarrow> string \<Rightarrow> string list \<Rightarrow> string \<Rightarrow> string" where
  "retarget from to names sql = retarget_from from to names None sql"

section \<open>CloneSchema\<close>

definition skippedTriggerFunctions :: "string list" where
  "skippedTriggerFunctions = [''spellfix_vocab_add'']"

definition copiedTables :: "string list" where
  "copiedTables = [''schema_migrations'', ''sqlite_column_types'']"

definition guideSeed :: "(string \<times> row) list" where
  "guideSeed = [(''accounts'', [(''id'', VInt 1), (''name'', VText ''Administrator''), (''created_at'', VInt 1289520473), (''updated_at'', VInt 1289520473)]),
     (''preferences'', [(''id'', VInt 2), (''name'', VText ''SyncedNeedsChangedAtUpdate''), (''value'', VText ''1'')])]"

definition draws_on :: "string \<Rightarrow> bool" where
  "draws_on expr \<longleftrightarrow> index_of ''nextval('' expr \<noteq> None"

definition own_default :: "string \<Rightarrow> string \<Rightarrow> string \<Rightarrow> string" where
  "own_default from to expr = replace_all (CHR 0x27 # from @ ''.'') (CHR 0x27 # to @ ''.'') expr"

text \<open>A sequence default that is not of \<open>from\<close>.\<close>

definition foreign_default :: "string \<Rightarrow> string \<Rightarrow> schema \<Rightarrow> bool" where
  "foreign_default from to s \<longleftrightarrow> list_ex (\<lambda>(t, b). list_ex (\<lambda>(c, k). case c_default k of None \<Rightarrow> False
     | Some e \<Rightarrow> draws_on e \<and> own_default from to e = e) (t_columns b)) (tables s)"

definition clone_column :: "string \<Rightarrow> string \<Rightarrow> column \<Rightarrow> column" where
  "clone_column from to k = k\<lparr>c_default := map_option (\<lambda>e. if draws_on e then own_default from to e else e) (c_default k)\<rparr>"

definition seeded_rows :: "string \<Rightarrow> row list" where
  "seeded_rows t = map snd (filter (\<lambda>(n, r). n = t) guideSeed)"

definition clone_table :: "string \<Rightarrow> string \<Rightarrow> string \<Rightarrow> tbl \<Rightarrow> tbl" where
  "clone_table from to t b = \<lparr>t_columns = map (\<lambda>(c, k). (c, clone_column from to k)) (t_columns b),
     t_rows = (if t \<in> set copiedTables then t_rows b else []) @ seeded_rows t\<rparr>"

text \<open>\<open>COALESCE((SELECT max(column) FROM table), 0) + 1\<close>, the next value of an owned sequence.\<close>

definition column_max :: "string \<Rightarrow> row list \<Rightarrow> int option" where
  "column_max c rows = (let vs = concat (map (\<lambda>r. case map_of r c of Some (VInt v) \<Rightarrow> [v] | _ \<Rightarrow> []) rows) in
     if vs = [] then None else Some (foldl max (hd vs) (tl vs)))"

definition next_value :: "string \<Rightarrow> row list \<Rightarrow> int" where
  "next_value c rows = (case column_max c rows of None \<Rightarrow> 0 | Some v \<Rightarrow> v) + 1"

definition reset_sequence :: "(string \<times> tbl) list \<Rightarrow> sequence \<Rightarrow> sequence" where
  "reset_sequence ts q = (case q_owner q of None \<Rightarrow> q
     | Some (t, c) \<Rightarrow> (case map_of ts t of None \<Rightarrow> q | Some b \<Rightarrow> q\<lparr>q_next := next_value c (t_rows b)\<rparr>))"

definition resetSequences :: "schema \<Rightarrow> schema" where
  "resetSequences s = s\<lparr>sequences := map (\<lambda>(n, q). (n, reset_sequence (tables s) q)) (sequences s)\<rparr>"

text \<open>A fresh sequence starts at its start, the first of its settings.\<close>

definition fresh_sequence :: "sequence \<Rightarrow> sequence" where
  "fresh_sequence q = q\<lparr>q_next := (case q_settings q of [] \<Rightarrow> 1 | n # _ \<Rightarrow> n)\<rparr>"

definition clone_of :: "string \<Rightarrow> string \<Rightarrow> schema \<Rightarrow> (string + schema)" where
  "clone_of from to s = (let names = map fst (tables s) in
     if tables s = [] then Inl (''schema '' @ from @ '' has no tables to copy'')
     else if foreign_default from to s then Inl ''default draws on a sequence outside''
     else if list_ex (\<lambda>(t, r). t \<notin> set names) guideSeed then Inl ''INSERT''
     else Inr (resetSequences \<lparr>tables = map (\<lambda>(t, b). (t, clone_table from to t b)) (tables s),
       sequences = map (\<lambda>(n, q). (n, fresh_sequence q)) (sequences s),
       views = map (\<lambda>(n, v). (n, retarget from to names (trim_suffix (trim_space v) '';''))) (views s),
       triggers = map (\<lambda>(v, f). (retarget from to names v, f)) (filter (\<lambda>(v, f). f \<notin> set skippedTriggerFunctions) (triggers s)),
       remark = None\<rparr>))"

section \<open>copyGuide\<close>

datatype columnKind = unsupportedColumn | integerColumn | realColumn | textColumn | blobColumn | boolColumn

definition kindOf :: "string \<Rightarrow> columnKind \<times> string" where
  "kindOf typ = (if typ \<in> {''integer'', ''bigint'', ''smallint''} then (integerColumn, ''INTEGER'')
     else if typ \<in> {''double precision'', ''real''} \<or> prefix ''numeric'' typ then (realColumn, ''REAL'')
     else if typ = ''text'' \<or> prefix ''character'' typ then (textColumn, ''TEXT'')
     else if typ = ''bytea'' then (blobColumn, ''BLOB'')
     else if typ = ''boolean'' then (boolColumn, ''INTEGER'') else (unsupportedColumn, []))"

definition convert :: "columnKind \<Rightarrow> val \<Rightarrow> val" where
  "convert k v = (if k = boolColumn then (case v of VInt i \<Rightarrow> VBool (i \<noteq> 0) | _ \<Rightarrow> v) else v)"

text \<open>A SQLite file's tables in the order of their names: the name, the statement that made it, its columns and rows.\<close>

record sqtable =
  sq_name :: string
  sq_sql :: string
  sq_columns :: "string list"
  sq_rows :: "val list list"

text \<open>SQLite's \<open>LIKE\<close> disregards the case of letters.\<close>

definition like_prefix :: "string \<Rightarrow> string \<Rightarrow> bool" where
  "like_prefix p s \<longleftrightarrow> prefix (ToLower p) (ToLower s)"

definition sqliteTables :: "sqtable list \<Rightarrow> sqtable list" where
  "sqliteTables ts = filter (\<lambda>t. \<not> like_prefix ''sqlite_'' (sq_name t) \<and> \<not> like_prefix ''CREATE VIRTUAL TABLE'' (sq_sql t)) ts"

definition stagingColumns :: "tbl \<Rightarrow> string \<rightharpoonup> string" where
  "stagingColumns b c = (case map_of (t_columns b) c of None \<Rightarrow> None | Some k \<Rightarrow> if c_generated k then None else Some (c_type k))"

definition shared_columns :: "tbl \<Rightarrow> sqtable \<Rightarrow> (nat \<times> string \<times> columnKind \<times> string) list" where
  "shared_columns b t = concat (map (\<lambda>(i, c). case stagingColumns b c of None \<Rightarrow> [] | Some typ \<Rightarrow> [(i, c, kindOf typ)])
     (enumerate 0 (sq_columns t)))"

definition copied_rows :: "(string \<Rightarrow> val \<Rightarrow> val) \<Rightarrow> (nat \<times> string \<times> columnKind \<times> string) list \<Rightarrow> sqtable \<Rightarrow> row list" where
  "copied_rows cast cols t = (if cols = [] then [] else map (\<lambda>r. map (\<lambda>(i, c, k, typ). (c, convert k (cast typ (r ! i)))) cols) (sq_rows t))"

fun copy_tables :: "(string \<Rightarrow> val \<Rightarrow> val) \<Rightarrow> sqtable list \<Rightarrow> (string \<times> tbl) list \<Rightarrow> (string + (string \<times> tbl) list)" where
  "copy_tables cast [] ts = Inr ts"
| "copy_tables cast (t # sq) ts = (case map_of ts (sq_name t) of None \<Rightarrow> copy_tables cast sq ts
     | Some b \<Rightarrow> let cols = shared_columns b t in
         if list_ex (\<lambda>(i, c, k, typ). k = unsupportedColumn) cols then Inl (sq_name t @ '': not one a guide copies'')
         else copy_tables cast sq (map (\<lambda>(n, x). (n, if n = sq_name t then x\<lparr>t_rows := copied_rows cast cols t\<rparr> else x)) ts))"

definition copyGuide :: "(string \<Rightarrow> val \<Rightarrow> val) \<Rightarrow> sqtable list \<Rightarrow> schema \<Rightarrow> (string + schema)" where
  "copyGuide cast file s = (case copy_tables cast (sqliteTables file) (tables s) of Inl e \<Rightarrow> Inl e
     | Inr ts \<Rightarrow> Inr (resetSequences (s\<lparr>tables := ts\<rparr>)))"

end
