(* ===== verification/Guide_Loads.thy ===== *)
theory Guide_Loads
  imports Guide_Pg Go_Effect Go_Path "HOL-Library.Word" "HOL-Library.List_Lexorder" "HOL-Library.Char_ord"
begin

text \<open>
  Live TV guide loads (\<open>src/pkg/plex/bootstrap/guides.go\<close>, and \<open>IsShadow\<close> and \<open>WriteShadowFrom\<close> of \<open>shadow.go\<close>): how a
  guide PMS loads reaches the schema it is served from, copied from the file or loaded in a staging schema, and swapped in.
  The state is PostgreSQL's schemas, the files of the pod's database directory and the number of calls made so far. A call is
  a statement, a transaction or a file operation that fails as a whole: \<open>broken n\<close> is the error of the \<open>n\<close>-th. A guide's
  operations hold its advisory lock, so one runs at a time.
\<close>

record gfile =
  f_inode :: int
  f_mtime :: int
  f_size :: int
  f_head :: "8 word list"
  f_tables :: "sqtable list"

record gfile_state =
  fs_size :: int
  fs_modified :: int
  fs_wal :: int

record gworld =
  gw_db :: "(string \<times> schema) list"
  gw_files :: "(string \<times> gfile) list"
  gw_calls :: nat
  gw_seen :: "string \<rightharpoonup> gfile_state"
  gw_failed :: "string \<rightharpoonup> int"
  gw_hooked :: "string \<rightharpoonup> gfile_state"

text \<open>
  \<open>clock\<close> and \<open>inodes\<close> are the time and a new file's inode at a call, \<open>listed\<close> the rows of \<open>guidesQuery\<close>, \<open>provider_of\<close>
  the answer of \<open>guideProviderOf\<close>, \<open>shadow_of\<close> the file \<open>BuildShadow\<close> writes for a schema.
\<close>

record genv =
  broken :: "nat \<Rightarrow> string option"
  clock :: "nat \<Rightarrow> int"
  inodes :: "nat \<Rightarrow> int"
  library :: string
  directory :: string
  listed :: "Guide list"
  provider_of :: "string \<Rightarrow> string option"
  cast :: "string \<Rightarrow> val \<Rightarrow> val"
  shadow_of :: "string \<Rightarrow> gfile"

type_synonym 'a guide_op = "(gworld, string, 'a) eff"

section \<open>Calls\<close>

definition counted :: "gworld \<Rightarrow> gworld" where
  "counted s = s\<lparr>gw_calls := gw_calls s + 1\<rparr>"

definition call :: "genv \<Rightarrow> (gworld \<Rightarrow> string + 'a \<times> gworld) \<Rightarrow> 'a guide_op" where
  "call e f s = (case broken e (gw_calls s) of Some m \<Rightarrow> (Inl m, counted s)
     | None \<Rightarrow> (case f (counted s) of Inl m \<Rightarrow> (Inl m, counted s) | Inr (x, t) \<Rightarrow> (Inr x, t)))"

definition ignore :: "'a guide_op \<Rightarrow> unit guide_op" where
  "ignore m = or_else (and_then m (\<lambda>_. ret ())) (\<lambda>_. ret ())"

definition schema_at :: "string \<Rightarrow> gworld \<Rightarrow> schema option" where
  "schema_at n s = map_of (gw_db s) n"

definition drop_schema :: "string \<Rightarrow> gworld \<Rightarrow> gworld" where
  "drop_schema n s = s\<lparr>gw_db := filter (\<lambda>p. fst p \<noteq> n) (gw_db s)\<rparr>"

definition put_schema :: "string \<Rightarrow> schema \<Rightarrow> gworld \<Rightarrow> gworld" where
  "put_schema n x s = s\<lparr>gw_db := (n, x) # filter (\<lambda>p. fst p \<noteq> n) (gw_db s)\<rparr>"

definition file_at :: "string \<Rightarrow> gworld \<Rightarrow> gfile option" where
  "file_at p s = map_of (gw_files s) p"

definition put_file :: "string \<Rightarrow> gfile \<Rightarrow> gworld \<Rightarrow> gworld" where
  "put_file p x s = s\<lparr>gw_files := (p, x) # filter (\<lambda>y. fst y \<noteq> p) (gw_files s)\<rparr>"

definition remove_file :: "string \<Rightarrow> gworld \<Rightarrow> gworld" where
  "remove_file p s = s\<lparr>gw_files := filter (\<lambda>y. fst y \<noteq> p) (gw_files s)\<rparr>"

definition in_dir :: "genv \<Rightarrow> string \<Rightarrow> string" where
  "in_dir e n = directory e @ ''/'' @ n"

definition lock :: "genv \<Rightarrow> unit guide_op" where
  "lock e = call e (\<lambda>s. Inr ((), s))"

section \<open>Schemas\<close>

definition CloneSchema :: "genv \<Rightarrow> string \<Rightarrow> unit guide_op" where
  "CloneSchema e to = call e (\<lambda>s. if schema_at to s \<noteq> None then Inl ''CREATE SCHEMA'' else
     (case schema_at (library e) s of None \<Rightarrow> Inl (''schema '' @ library e @ '' has no tables to copy'')
      | Some lib \<Rightarrow> (case clone_of (library e) to lib of Inl m \<Rightarrow> Inl m | Inr x \<Rightarrow> Inr ((), put_schema to x s))))"

definition schemaExists :: "genv \<Rightarrow> string \<Rightarrow> bool guide_op" where
  "schemaExists e n = call e (\<lambda>s. Inr (schema_at n s \<noteq> None, s))"

definition dropSchema :: "genv \<Rightarrow> string \<Rightarrow> unit guide_op" where
  "dropSchema e n = call e (\<lambda>s. Inr ((), drop_schema n s))"

definition commentSchema :: "genv \<Rightarrow> string \<Rightarrow> string \<Rightarrow> unit guide_op" where
  "commentSchema e n c = call e (\<lambda>s. case schema_at n s of None \<Rightarrow> Inl ''COMMENT ON SCHEMA'' | Some x \<Rightarrow> Inr ((), put_schema n (x\<lparr>remark := Some c\<rparr>) s))"

definition analyzeSchema :: "genv \<Rightarrow> string \<Rightarrow> unit guide_op" where
  "analyzeSchema e n = call e (\<lambda>s. Inr ((), s))"

text \<open>One transaction: the live schema becomes the old one, the staging schema the live one, with its comment.\<close>

definition swapGuide :: "genv \<Rightarrow> string \<Rightarrow> string \<Rightarrow> string \<Rightarrow> string \<Rightarrow> unit guide_op" where
  "swapGuide e live staging old c = call e (\<lambda>s. case schema_at live s of
       Some x \<Rightarrow> (if schema_at old s \<noteq> None then Inl ''ALTER SCHEMA'' else (case schema_at staging s of None \<Rightarrow> Inl ''ALTER SCHEMA''
         | Some y \<Rightarrow> Inr ((), put_schema live (y\<lparr>remark := Some c\<rparr>) (drop_schema staging (put_schema old x s)))))
     | None \<Rightarrow> (case schema_at staging s of None \<Rightarrow> Inl ''ALTER SCHEMA'' | Some y \<Rightarrow> Inr ((), put_schema live (y\<lparr>remark := Some c\<rparr>) (drop_schema staging s))))"

datatype StagingState = StagingAbsent | StagingClean | StagingLoading

definition state_of :: "schema option \<Rightarrow> StagingState" where
  "state_of x = (case x of None \<Rightarrow> StagingAbsent | Some y \<Rightarrow>
     (case remark y of None \<Rightarrow> StagingClean | Some c \<Rightarrow> if parseLoading c \<noteq> None then StagingLoading else StagingClean))"

definition stagingState :: "genv \<Rightarrow> Guide \<Rightarrow> StagingState guide_op" where
  "stagingState e g = call e (\<lambda>s. Inr (state_of (schema_at (Staging g) s), s))"

definition remark_at :: "string \<Rightarrow> gworld \<Rightarrow> string option" where
  "remark_at n s = (case schema_at n s of None \<Rightarrow> None | Some x \<Rightarrow> remark x)"

definition guideLoadedAt :: "genv \<Rightarrow> string \<Rightarrow> int guide_op" where
  "guideLoadedAt e n = call e (\<lambda>s. Inr (loaded_at (remark_at n s), s))"

definition cloneStaging :: "genv \<Rightarrow> Guide \<Rightarrow> unit guide_op" where
  "cloneStaging e g = and_then (CloneSchema e (Staging g)) (\<lambda>_. commentSchema e (Staging g) stagingCleanComment)"

definition not_a_guide :: string where "not_a_guide = ''not a guide the shim reads''"

definition EnsureGuideSchema :: "genv \<Rightarrow> Guide \<Rightarrow> bool guide_op" where
  "EnsureGuideSchema e g = (if \<not> Valid g then throw not_a_guide else
     and_then (lock e) (\<lambda>_. and_then (schemaExists e (Schema g)) (\<lambda>exists. if exists then ret False else
       and_then (CloneSchema e (Schema g)) (\<lambda>_. ret True))))"

definition PrepareStaging :: "genv \<Rightarrow> Guide \<Rightarrow> bool guide_op" where
  "PrepareStaging e g = (if \<not> Valid g then throw not_a_guide else
     and_then (lock e) (\<lambda>_. and_then (schemaExists e (Staging g)) (\<lambda>exists. if exists then ret False else
       and_then (cloneStaging e g) (\<lambda>_. ret True))))"

section \<open>Files\<close>

definition ShadowMark :: nat where "ShadowMark = 0x434C5058"
definition sqliteHeader :: "8 word list" where
  "sqliteHeader = map (of_nat \<circ> of_char) (''SQLite format 3'' @ [CHR 0x00])"

definition be32 :: "8 word list \<Rightarrow> nat" where
  "be32 bs = foldl (\<lambda>n b. 256 * n + unat b) 0 bs"

text \<open>The header's mark; a file too short to have one is no shadow.\<close>

definition is_shadow :: "8 word list \<Rightarrow> bool" where
  "is_shadow h \<longleftrightarrow> 100 \<le> length h \<and> take (length sqliteHeader) h = sqliteHeader \<and> be32 (take 4 (drop 68 h)) = ShadowMark"

definition IsShadow :: "genv \<Rightarrow> string \<Rightarrow> bool guide_op" where
  "IsShadow e p = call e (\<lambda>s. case file_at p s of None \<Rightarrow> Inl ''no such file'' | Some x \<Rightarrow> Inr (is_shadow (f_head x), s))"

definition fileInode :: "genv \<Rightarrow> string \<Rightarrow> int guide_op" where
  "fileInode e p = call e (\<lambda>s. case file_at p s of None \<Rightarrow> Inl ''no such file'' | Some x \<Rightarrow> Inr (f_inode x, s))"

definition remove_if_there :: "genv \<Rightarrow> string \<Rightarrow> unit guide_op" where
  "remove_if_there e p = call e (\<lambda>s. Inr ((), remove_file p s))"

text \<open>The template copied to a temporary file and renamed onto \<open>dst\<close>, a new file.\<close>

definition copy_over :: "genv \<Rightarrow> string \<Rightarrow> string \<Rightarrow> unit guide_op" where
  "copy_over e template dst = call e (\<lambda>s. case file_at template s of None \<Rightarrow> Inl ''no such file''
     | Some x \<Rightarrow> Inr ((), put_file dst (x\<lparr>f_inode := inodes e (gw_calls s), f_mtime := clock e (gw_calls s)\<rparr>) s))"

definition WriteShadowFrom :: "genv \<Rightarrow> string \<Rightarrow> string \<Rightarrow> unit guide_op" where
  "WriteShadowFrom e template dst = and_then (for_each (\<lambda>x. remove_if_there e (dst @ x)) [''-wal'', ''-shm'', ''-journal''])
     (\<lambda>_. copy_over e template dst)"

definition removeLoadFile :: "genv \<Rightarrow> string \<Rightarrow> unit guide_op" where
  "removeLoadFile e p = for_each (\<lambda>x. remove_if_there e (p @ x)) ['''', ''-wal'', ''-shm'', ''-journal'']"

text \<open>When the file or its write-ahead log last changed; no file is \<open>None\<close>.\<close>

definition modified_at :: "string \<Rightarrow> gworld \<Rightarrow> int option" where
  "modified_at p s = (case file_at p s of None \<Rightarrow> None | Some x \<Rightarrow>
     Some (case file_at (p @ ''-wal'') s of None \<Rightarrow> f_mtime x | Some w \<Rightarrow> max (f_mtime x) (f_mtime w)))"

definition guideModified :: "genv \<Rightarrow> string \<Rightarrow> int option guide_op" where
  "guideModified e p = call e (\<lambda>s. Inr (modified_at p s, s))"

section \<open>A load made in a file\<close>

definition airings :: "gfile \<Rightarrow> bool option" where
  "airings x = map_option (\<lambda>t. sq_rows t \<noteq> []) (find (\<lambda>t. sq_name t = ''media_items'') (f_tables x))"

definition has_airings :: "genv \<Rightarrow> string \<Rightarrow> bool guide_op" where
  "has_airings e p = call e (\<lambda>s. case file_at p s of None \<Rightarrow> Inl ''unable to open database file'' | Some x \<Rightarrow>
     (case airings x of None \<Rightarrow> Inl ''no such table: media_items'' | Some b \<Rightarrow> Inr (b, s)))"

definition copy_into :: "genv \<Rightarrow> string \<Rightarrow> string \<Rightarrow> unit guide_op" where
  "copy_into e p staging = call e (\<lambda>s. case (file_at p s, schema_at staging s) of
       (Some x, Some y) \<Rightarrow> (case copyGuide (cast e) (f_tables x) y of Inl m \<Rightarrow> Inl m | Inr z \<Rightarrow> Inr ((), put_schema staging z s))
     | _ \<Rightarrow> Inl ''copy'')"

definition copy_and_swap :: "genv \<Rightarrow> Guide \<Rightarrow> string \<Rightarrow> int \<Rightarrow> unit guide_op" where
  "copy_and_swap e g p modified = or_else
     (and_then (copy_into e p (Staging g)) (\<lambda>_. and_then (ignore (analyzeSchema e (Staging g))) (\<lambda>_.
        swapGuide e (Schema g) (Staging g) (Replaced g) (Sprintf importedComment [modified]))))
     (\<lambda>m. and_then (ignore (dropSchema e (Staging g))) (\<lambda>_. throw m))"

definition ImportGuide :: "genv \<Rightarrow> Guide \<Rightarrow> string \<Rightarrow> bool guide_op" where
  "ImportGuide e g p = (if \<not> Valid g then throw not_a_guide else
     and_then (guideModified e p) (\<lambda>m. case m of None \<Rightarrow> ret False | Some modified \<Rightarrow>
     and_then (has_airings e p) (\<lambda>aired. if \<not> aired then ret False else
     and_then (lock e) (\<lambda>_. and_then (ignore (dropSchema e (Replaced g))) (\<lambda>_.
     and_then (guideLoadedAt e (Schema g)) (\<lambda>copied_from. if modified \<le> copied_from then ret False else
     and_then (schemaExists e (Staging g)) (\<lambda>staged.
     and_then (if staged then ret () else CloneSchema e (Staging g)) (\<lambda>_.
     and_then (copy_and_swap e g p modified)
     (\<lambda>_. and_then (ignore (dropSchema e (Replaced g))) (\<lambda>_. ret True))))))))))"

section \<open>A load made in PostgreSQL\<close>

record Staged =
  Fresh :: bool
  Recloned :: bool
  Cloned :: bool

definition now_ns :: "genv \<Rightarrow> int guide_op" where
  "now_ns e = reads (\<lambda>s. ret (clock e (gw_calls s)))"

definition StageLoad :: "genv \<Rightarrow> Guide \<Rightarrow> string \<Rightarrow> string \<Rightarrow> Staged guide_op" where
  "StageLoad e g p template = (if \<not> Valid g then throw not_a_guide else
     and_then (IsShadow e p) (\<lambda>shadow. and_then (lock e) (\<lambda>_. and_then (stagingState e g) (\<lambda>state.
     if shadow \<and> state = StagingLoading then ret \<lparr>Fresh = False, Recloned = False, Cloned = False\<rparr> else
     let again = (state = StagingLoading) in
     and_then (if again then dropSchema e (Staging g) else ret ()) (\<lambda>_.
     let absent = (again \<or> state = StagingAbsent) in
     and_then (if absent then cloneStaging e g else ret ()) (\<lambda>_. and_then (now_ns e) (\<lambda>since.
     and_then (commentSchema e (Staging g) (Sprintf stagingLoadingComment [since, 0])) (\<lambda>_.
     and_then (or_else (WriteShadowFrom e template p)
         (\<lambda>m. and_then (ignore (commentSchema e (Staging g) stagingCleanComment)) (\<lambda>_. throw m))) (\<lambda>_.
     and_then (fileInode e p) (\<lambda>inode.
     and_then (commentSchema e (Staging g) (Sprintf stagingLoadingComment [since, inode])) (\<lambda>_.
     ret \<lparr>Fresh = True, Recloned = again, Cloned = absent\<rparr>)))))))))))"

definition SwapLoaded :: "genv \<Rightarrow> Guide \<Rightarrow> bool guide_op" where
  "SwapLoaded e g = (if \<not> Valid g then throw not_a_guide else
     and_then (lock e) (\<lambda>_. and_then (stagingState e g) (\<lambda>state. if state \<noteq> StagingLoading then ret False else
     and_then (ignore (dropSchema e (Replaced g))) (\<lambda>_. and_then (ignore (analyzeSchema e (Staging g))) (\<lambda>_.
     and_then (now_ns e) (\<lambda>t. and_then (swapGuide e (Schema g) (Staging g) (Replaced g) (Sprintf loadedComment [t])) (\<lambda>_.
     and_then (ignore (dropSchema e (Replaced g))) (\<lambda>_. ret True))))))))"

text \<open>Each body's errors and results, in order.\<close>

fun gather :: "('x \<Rightarrow> 'a list guide_op) \<Rightarrow> 'x list \<Rightarrow> 'a list guide_op" where
  "gather f [] = ret []"
| "gather f (x # xs) = and_then (f x) (\<lambda>a. and_then (gather f xs) (\<lambda>b. ret (a @ b)))"

text \<open>The names of the glob for the load files of a DVR.\<close>

definition load_name :: "genv \<Rightarrow> string \<Rightarrow> string \<Rightarrow> bool" where
  "load_name e dvr p \<longleftrightarrow> (let a = in_dir e epg_prefix; b = ''-'' @ dvr @ LoadSuffix @ ''.db'' in prefix a p \<and> suffix b p
     \<and> length a + length b \<le> length p \<and> CHR ''/'' \<notin> set (take (length p - length a - length b) (drop (length a) p)))"

definition load_running :: "genv \<Rightarrow> string \<Rightarrow> gworld \<Rightarrow> bool" where
  "load_running e dvr s \<longleftrightarrow> list_ex (\<lambda>(p, x). load_name e dvr p) (gw_files s)"

definition staging_names :: "gworld \<Rightarrow> string list" where
  "staging_names s = sort (filter (\<lambda>n. prefix ''epg_'' n \<and> suffix ''_next'' n \<and> 9 \<le> length n) (map fst (gw_db s)))"

text \<open>One staging schema with the comment it was listed with; the left values are the errors, the right ones the guides swapped in.\<close>

definition recover_one :: "genv \<Rightarrow> string \<times> string option \<Rightarrow> (string + Guide) list guide_op" where
  "recover_one e = (\<lambda>(n, comment). let dvr = dvrOfSchema (trim_suffix n ''_next'') in
     if dvr = [] then ret [] else (case comment of None \<Rightarrow> ret [] | Some c \<Rightarrow> (case parseLoading c of None \<Rightarrow> ret [] | Some (since, inode) \<Rightarrow>
       if inode = 0 then ret [] else reads (\<lambda>s. if load_running e dvr s then ret [] else
       let g = \<lparr>Provider = (case provider_of e dvr of Some x \<Rightarrow> if x = [] then ''tv.plex.providers.epg.xmltv'' else x | None \<Rightarrow> ''tv.plex.providers.epg.xmltv''),
                DVR = dvr\<rparr> in
       and_then (or_else (and_then (fileInode e (in_dir e (File g))) (\<lambda>i. ret (Some i))) (\<lambda>_. ret None)) (\<lambda>found. case found of None \<Rightarrow> ret []
       | Some i \<Rightarrow> if i \<noteq> inode
           then or_else (and_then (dropSchema e (Staging g)) (\<lambda>_. and_then (cloneStaging e g) (\<lambda>_. ret []))) (\<lambda>m. ret [Inl m])
           else or_else (and_then (SwapLoaded e g) (\<lambda>did. ret (if did then [Inr g] else []))) (\<lambda>m. ret [Inl m]))))))"

definition RecoverLoads :: "genv \<Rightarrow> (string + Guide) list guide_op" where
  "RecoverLoads e = and_then (call e (\<lambda>s. Inr (map (\<lambda>n. (n, remark_at n s)) (staging_names s), s))) (gather (recover_one e))"

section \<open>Before PMS starts\<close>

definition keeps_schema :: "string list \<Rightarrow> string \<Rightarrow> bool" where
  "keeps_schema live n \<longleftrightarrow> \<not> suffix ''_old'' n \<and> \<not> suffix ''_next'' n \<and> (n \<in> set live \<or> dvrOfSchema n = [])"

definition sweep_one :: "genv \<Rightarrow> string list \<Rightarrow> string \<Rightarrow> string list guide_op" where
  "sweep_one e live n = (if keeps_schema live n then ret []
     else or_else (and_then (dropSchema e n) (\<lambda>_. ret [])) (\<lambda>m. ret [''drop '' @ n @ '', '' @ m]))"

definition SweepGuides :: "genv \<Rightarrow> Guide list \<Rightarrow> string list guide_op" where
  "SweepGuides e gs = and_then (call e (\<lambda>s. Inr (sort (filter (prefix ''epg_'') (map fst (gw_db s))), s)))
     (gather (sweep_one e (map Schema gs)))"

definition errs :: "'a guide_op \<Rightarrow> string list guide_op" where
  "errs m = or_else (and_then m (\<lambda>_. ret [])) (\<lambda>x. ret [x])"

definition ListGuides :: "genv \<Rightarrow> Guide list guide_op" where
  "ListGuides e = call e (\<lambda>s. Inr (filter Valid (listed e), s))"

definition BuildShadow :: "genv \<Rightarrow> string \<Rightarrow> string \<Rightarrow> unit guide_op" where
  "BuildShadow e p n = call e (\<lambda>s. Inr ((), put_file p (shadow_of e n) s))"

definition ShadowTemplate :: "genv \<Rightarrow> string" where
  "ShadowTemplate e = in_dir e ''.clusterplex/guide-shadow.db''"

definition prepare_one :: "genv \<Rightarrow> Guide \<Rightarrow> string list guide_op" where
  "prepare_one e g = (let p = in_dir e (File g) in
     and_then (errs (ImportGuide e g p)) (\<lambda>a. and_then (errs (removeLoadFile e (in_dir e (LoadFile g)))) (\<lambda>b.
     and_then (or_else (and_then (EnsureGuideSchema e g) (\<lambda>_. ret None)) (\<lambda>m. ret (Some m))) (\<lambda>c. case c of
         Some m \<Rightarrow> ret (a @ b @ [m])
       | None \<Rightarrow> and_then (errs (BuildShadow e p (Schema g))) (\<lambda>d. ret (a @ b @ d))))))"

text \<open>The errors, which do not stop it; the left value is one that does.\<close>

definition PrepareGuides :: "genv \<Rightarrow> string list guide_op" where
  "PrepareGuides e = and_then (lock e) (\<lambda>_. and_then (ListGuides e) (\<lambda>gs. and_then (lock e) (\<lambda>_.
     and_then (errs (BuildShadow e (ShadowTemplate e) (library e))) (\<lambda>t. and_then (gather (prepare_one e) gs) (\<lambda>a.
     and_then (SweepGuides e gs) (\<lambda>b. ret (t @ a @ b)))))))"

section \<open>The manager\<close>

text \<open>\<open>src/cmd/manager/guides.go\<close>: the poll over the directory's guide files, and the requests of the shim.\<close>

definition guideCopyRetry :: int where "guideCopyRetry = 600 * 10 ^ 9"

definition state_at :: "string \<Rightarrow> gworld \<Rightarrow> gfile_state option" where
  "state_at p s = map_option (\<lambda>x. \<lparr>fs_size = f_size x, fs_modified = f_mtime x,
     fs_wal = (case file_at (p @ ''-wal'') s of None \<Rightarrow> 0 | Some w \<Rightarrow> f_mtime w)\<rparr>) (file_at p s)"

definition statGuideFile :: "genv \<Rightarrow> string \<Rightarrow> gfile_state guide_op" where
  "statGuideFile e p = call e (\<lambda>s. case state_at p s of None \<Rightarrow> Inl ''no such file'' | Some x \<Rightarrow> Inr (x, s))"

definition connectGuides :: "genv \<Rightarrow> unit guide_op" where
  "connectGuides e = lock e"

definition stageGuide :: "genv \<Rightarrow> Guide \<Rightarrow> unit guide_op" where
  "stageGuide e g = ignore (PrepareStaging e g)"

definition connect_once :: "genv \<Rightarrow> bool \<Rightarrow> bool guide_op" where
  "connect_once e conn = (if conn then ret True else or_else (and_then (connectGuides e) (\<lambda>_. ret True)) (\<lambda>_. ret False))"

text \<open>A file that was copied at its rename, or was looked at in this state and did not fail long enough ago.\<close>

definition looked_at :: "int \<Rightarrow> string \<Rightarrow> gfile_state \<Rightarrow> gworld \<Rightarrow> bool" where
  "looked_at t p x s \<longleftrightarrow> (case gw_hooked s p of Some h \<Rightarrow> fs_size h = fs_size x \<and> fs_modified h = fs_modified x | None \<Rightarrow> False)
     \<or> (gw_seen s p = Some x \<and> (case gw_failed s p of None \<Rightarrow> True | Some at \<Rightarrow> t - at < guideCopyRetry))"

definition see_file :: "string \<Rightarrow> gfile_state \<Rightarrow> gworld \<Rightarrow> gworld" where
  "see_file p x s = s\<lparr>gw_seen := (gw_seen s)(p \<mapsto> x)\<rparr>"

definition fail_file :: "string \<Rightarrow> int \<Rightarrow> gworld \<Rightarrow> gworld" where
  "fail_file p t s = s\<lparr>gw_failed := (gw_failed s)(p \<mapsto> t)\<rparr>"

definition clear_file :: "string \<Rightarrow> gworld \<Rightarrow> gworld" where
  "clear_file p s = s\<lparr>gw_failed := (gw_failed s)(p := None)\<rparr>"

definition hook_file :: "string \<Rightarrow> gfile_state \<Rightarrow> gworld \<Rightarrow> gworld" where
  "hook_file p x s = s\<lparr>gw_hooked := (gw_hooked s)(p \<mapsto> x), gw_failed := (gw_failed s)(p := None)\<rparr>"

text \<open>The files in turn; \<open>None\<close> is the return when there is no connection.\<close>

fun copy_files :: "genv \<Rightarrow> string \<Rightarrow> bool \<Rightarrow> string list \<Rightarrow> bool option guide_op" where
  "copy_files e dvr conn [] = ret (Some conn)"
| "copy_files e dvr conn (p # ps) = (case GuideForLoadFile (file_part p) of
       Some g \<Rightarrow> (if dvr \<noteq> [] then copy_files e dvr conn ps
         else and_then (connect_once e conn) (\<lambda>ok. and_then (if ok then stageGuide e g else ret ()) (\<lambda>_. copy_files e dvr (conn \<or> ok) ps)))
     | None \<Rightarrow> (case GuideForFile (file_part p) of None \<Rightarrow> copy_files e dvr conn ps
         | Some g \<Rightarrow> if dvr \<noteq> [] \<and> \<not> EqualFold (DVR g) dvr then copy_files e dvr conn ps else
           and_then (or_else (and_then (statGuideFile e p) (\<lambda>x. ret (Some x))) (\<lambda>_. ret None)) (\<lambda>st. case st of None \<Rightarrow> copy_files e dvr conn ps
           | Some x \<Rightarrow> reads (\<lambda>s. if looked_at (clock e (gw_calls s)) p x s then copy_files e dvr conn ps else
             and_then (connect_once e conn) (\<lambda>ok. if \<not> ok then ret None else
             and_then (modify (see_file p x)) (\<lambda>_. and_then (or_else (and_then (ImportGuide e g p) (\<lambda>_. modify (clear_file p)))
               (\<lambda>_. reads (\<lambda>s. modify (fail_file p (clock e (gw_calls s)))))) (\<lambda>_. copy_files e dvr True ps)))))))"

definition guide_files :: "genv \<Rightarrow> gworld \<Rightarrow> string list" where
  "guide_files e s = sort (filter (\<lambda>p. let a = in_dir e epg_prefix; b = ''.db'' in prefix a p \<and> suffix b p
     \<and> length a + length b \<le> length p \<and> CHR ''/'' \<notin> set (drop (length a) p)) (map fst (gw_files s)))"

definition copyGuides :: "genv \<Rightarrow> string \<Rightarrow> unit guide_op" where
  "copyGuides e dvr = reads (\<lambda>s. and_then (copy_files e dvr False (guide_files e s)) (\<lambda>r. case r of None \<Rightarrow> ret ()
     | Some conn \<Rightarrow> if dvr \<noteq> [] then ret () else and_then (connect_once e conn) (\<lambda>ok. if ok then ignore (RecoverLoads e) else ret ())))"

definition answered :: "string guide_op \<Rightarrow> string guide_op" where
  "answered m = or_else m (\<lambda>x. ret (''fail '' @ x))"

definition stageLoad :: "genv \<Rightarrow> Guide \<Rightarrow> string \<Rightarrow> string guide_op" where
  "stageLoad e g p = answered (and_then (call e (\<lambda>s. if file_at (ShadowTemplate e) s = None then Inl ''no guide-shadow template'' else Inr ((), s)))
     (\<lambda>_. and_then (connectGuides e) (\<lambda>_. and_then (StageLoad e g p (ShadowTemplate e)) (\<lambda>_. ret ''ok''))))"

definition swapLoad :: "genv \<Rightarrow> Guide \<Rightarrow> string \<Rightarrow> string guide_op" where
  "swapLoad e g p = answered (and_then (statGuideFile e p) (\<lambda>st. and_then (IsShadow e p) (\<lambda>shadow. and_then (connectGuides e) (\<lambda>_.
     let guide = in_dir e (File g) in
     if shadow then and_then (SwapLoaded e g) (\<lambda>swapped. and_then (modify (hook_file guide st)) (\<lambda>_.
       ret (if swapped then ''ok'' else ''skip no load in the staging schema'')))
     else and_then (ImportGuide e g p) (\<lambda>copied. and_then (modify (hook_file guide st)) (\<lambda>_.
       ret (if copied then ''ok'' else ''skip no newer load with airings'')))))))"

text \<open>What \<open>swapLoad\<close> starts for later, once a load was swapped in.\<close>

definition stageAhead :: "genv \<Rightarrow> Guide \<Rightarrow> unit guide_op" where
  "stageAhead e g = ignore (and_then (connectGuides e) (\<lambda>_. stageGuide e g))"

definition handleGuideRequest :: "genv \<Rightarrow> string \<Rightarrow> string guide_op" where
  "handleGuideRequest e line = (case cut_at (CHR '' '') line of (verb, arg, _) \<Rightarrow>
     if verb \<noteq> ''swap'' \<and> verb \<noteq> ''stage'' \<or> arg = [] then ret ''fail unknown request''
     else (let p = Clean arg in
       if Dir p \<noteq> Clean (directory e) then ret ''fail not under the Databases directory''
       else (case GuideForLoadFile (file_part p) of None \<Rightarrow> ret ''fail not a guide load''
         | Some g \<Rightarrow> if verb = ''stage'' then stageLoad e g p else swapLoad e g p)))"

definition media_items :: "genv \<Rightarrow> string \<Rightarrow> row list option guide_op" where
  "media_items e n = call e (\<lambda>s. Inr (case schema_at n s of None \<Rightarrow> None | Some x \<Rightarrow> map_option t_rows (map_of (tables x) ''media_items''), s))"

definition of_dvr :: "string \<Rightarrow> Guide" where
  "of_dvr dvr = \<lparr>Provider = [], DVR = dvr\<rparr>"

definition guideEmpty :: "genv \<Rightarrow> string \<Rightarrow> bool guide_op" where
  "guideEmpty e dvr = (if \<not> guideUUID dvr then ret False else and_then (copyGuides e dvr) (\<lambda>_.
     and_then (media_items e (Schema (of_dvr dvr))) (\<lambda>r. ret (r = Some []))))"

text \<open>The latest airing's end, in seconds; \<open>None\<close> is the zero time.\<close>

definition guideHorizon :: "genv \<Rightarrow> string \<Rightarrow> int option guide_op" where
  "guideHorizon e dvr = (if \<not> guideUUID dvr then ret None else
     and_then (media_items e (Schema (of_dvr dvr))) (\<lambda>r. ret (case r of None \<Rightarrow> None | Some rows \<Rightarrow> column_max ''ends_at'' rows)))"

end
