(* ===== verification/Guide_World.thy ===== *)
theory Guide_World
  imports Guide_Loads
begin

text \<open>
  What the calls of the guide loads leave alone, as rules for the weakest precondition: a query of the state is rewritten
  through an update of it, and a call is a rule over a state that is known only as far as it is used.
\<close>

section \<open>Calls and tables\<close>

lemma wp_call [simp]: "wp (call e f) Q E s = (case broken e (gw_calls s) of Some m \<Rightarrow> E m (counted s)
  | None \<Rightarrow> (case f (counted s) of Inl m \<Rightarrow> E m (counted s) | Inr (x, t) \<Rightarrow> Q x t))"
  by (auto simp: wp_def call_def split: option.split sum.split)

lemma wp_ret_fun: "wp (ret x) Q E = Q x"
  by (rule ext) simp

lemma wp_ignore [simp]: "wp (ignore m) Q E s = wp m (\<lambda>_. Q ()) (\<lambda>_. Q ()) s"
  by (simp add: ignore_def wp_ret_fun)

lemma map_of_others: "map_of (filter (\<lambda>p. fst p \<noteq> k) xs) n = (if n = k then None else map_of xs n)"
  by (induction xs) auto

lemma schema_at_simps [simp]:
  "schema_at n (counted s) = schema_at n s" "schema_at n (put_schema k x s) = (if n = k then Some x else schema_at n s)"
  "schema_at n (drop_schema k s) = (if n = k then None else schema_at n s)" "schema_at n (put_file p f s) = schema_at n s"
  "schema_at n (remove_file p s) = schema_at n s"
  by (simp_all add: schema_at_def counted_def put_schema_def drop_schema_def put_file_def remove_file_def map_of_others)

lemma file_at_simps [simp]:
  "file_at p (counted s) = file_at p s" "file_at p (put_file k x s) = (if p = k then Some x else file_at p s)"
  "file_at p (remove_file k s) = (if p = k then None else file_at p s)" "file_at p (put_schema n y s) = file_at p s"
  "file_at p (drop_schema n s) = file_at p s"
  by (simp_all add: file_at_def counted_def put_schema_def drop_schema_def put_file_def remove_file_def map_of_others)

lemma modified_simps [simp]:
  "modified_at p (counted s) = modified_at p s" "modified_at p (put_schema n y s) = modified_at p s" "modified_at p (drop_schema n s) = modified_at p s"
  by (simp_all add: modified_at_def split: option.split)

lemma remark_simps [simp]:
  "remark_at n (counted s) = remark_at n s" "remark_at n (put_schema k x s) = (if n = k then remark x else remark_at n s)"
  "remark_at n (drop_schema k s) = (if n = k then None else remark_at n s)"
  by (simp_all add: remark_at_def)

lemma guide_schemas [simp]: "Staging g \<noteq> Schema g" "Replaced g \<noteq> Schema g" "Schema g \<noteq> Staging g" "Schema g \<noteq> Replaced g"
  "Staging g \<noteq> Replaced g" "Replaced g \<noteq> Staging g"
  by (simp_all add: Staging_def Replaced_def)

lemma epg_schema: "prefix ''epg_'' (Schema g)" "prefix ''epg_'' (Staging g)" "prefix ''epg_'' (Replaced g)"
  by (simp_all add: Schema_def Staging_def Replaced_def)

lemmas guide_calls = lock_def guideModified_def has_airings_def dropSchema_def guideLoadedAt_def schemaExists_def CloneSchema_def copy_into_def
  analyzeSchema_def swapGuide_def stagingState_def commentSchema_def cloneStaging_def IsShadow_def fileInode_def now_ns_def

text \<open>What a call leaves alone: every schema but one, and the files.\<close>

definition apart :: "string \<Rightarrow> gworld \<Rightarrow> gworld \<Rightarrow> bool" where
  "apart k s u \<longleftrightarrow> (\<forall>n. n \<noteq> k \<longrightarrow> schema_at n u = schema_at n s) \<and> (\<forall>p. file_at p u = file_at p s)"

definition alike :: "gworld \<Rightarrow> gworld \<Rightarrow> bool" where
  "alike s u \<longleftrightarrow> (\<forall>n. schema_at n u = schema_at n s) \<and> (\<forall>p. file_at p u = file_at p s)"

lemma alike_counted [simp]: "alike s (counted s)"
  by (simp add: alike_def)

lemma alikeD: "alike s u \<Longrightarrow> schema_at n u = schema_at n s" "alike s u \<Longrightarrow> file_at p u = file_at p s"
  "alike s u \<Longrightarrow> modified_at p u = modified_at p s" "alike s u \<Longrightarrow> remark_at n u = remark_at n s"
  by (simp_all add: alike_def modified_at_def remark_at_def split: option.split)

lemma apartD: "apart k s u \<Longrightarrow> n \<noteq> k \<Longrightarrow> schema_at n u = schema_at n s" "apart k s u \<Longrightarrow> file_at p u = file_at p s"
  "apart k s u \<Longrightarrow> modified_at p u = modified_at p s" "apart k s u \<Longrightarrow> n \<noteq> k \<Longrightarrow> remark_at n u = remark_at n s"
  by (simp_all add: apart_def modified_at_def remark_at_def split: option.split)

named_theorems wp_calls \<open>a call's weakest precondition, over a state that is known only as far as it is used\<close>

lemma wp_observe: "(\<And>u. alike s u \<Longrightarrow> Q (f u) u) \<Longrightarrow> (\<And>m u. alike s u \<Longrightarrow> E m u) \<Longrightarrow> wp (call e (\<lambda>s. Inr (f s, s))) Q E s"
  by (simp split: option.split)

lemma wp_lock [wp_calls]: "(\<And>u. alike s u \<Longrightarrow> Q () u) \<Longrightarrow> (\<And>m u. alike s u \<Longrightarrow> E m u) \<Longrightarrow> wp (lock e) Q E s"
  unfolding lock_def by (rule wp_observe)

lemma wp_analyze [wp_calls]: "(\<And>u. alike s u \<Longrightarrow> Q () u) \<Longrightarrow> (\<And>m u. alike s u \<Longrightarrow> E m u) \<Longrightarrow> wp (analyzeSchema e n) Q E s"
  unfolding analyzeSchema_def by (rule wp_observe)

lemma wp_exists [wp_calls]: "(\<And>u. alike s u \<Longrightarrow> Q (schema_at n s \<noteq> None) u) \<Longrightarrow> (\<And>m u. alike s u \<Longrightarrow> E m u) \<Longrightarrow> wp (schemaExists e n) Q E s"
  unfolding schemaExists_def by (rule wp_observe) (simp_all add: alikeD)

lemma wp_state [wp_calls]: "(\<And>u. alike s u \<Longrightarrow> Q (state_of (schema_at (Staging g) s)) u) \<Longrightarrow> (\<And>m u. alike s u \<Longrightarrow> E m u) \<Longrightarrow> wp (stagingState e g) Q E s"
  unfolding stagingState_def by (rule wp_observe) (simp_all add: alikeD)

lemma wp_loadedAt [wp_calls]: "(\<And>u. alike s u \<Longrightarrow> Q (loaded_at (remark_at n s)) u) \<Longrightarrow> (\<And>m u. alike s u \<Longrightarrow> E m u) \<Longrightarrow> wp (guideLoadedAt e n) Q E s"
  unfolding guideLoadedAt_def by (rule wp_observe) (simp_all add: alikeD)

lemma wp_modified [wp_calls]: "(\<And>u. alike s u \<Longrightarrow> Q (modified_at p s) u) \<Longrightarrow> (\<And>m u. alike s u \<Longrightarrow> E m u) \<Longrightarrow> wp (guideModified e p) Q E s"
  unfolding guideModified_def by (rule wp_observe) (simp_all add: alikeD)

lemma wp_airings [wp_calls]: "(\<And>u x b. alike s u \<Longrightarrow> file_at p s = Some x \<Longrightarrow> airings x = Some b \<Longrightarrow> Q b u) \<Longrightarrow> (\<And>m u. alike s u \<Longrightarrow> E m u) \<Longrightarrow> wp (has_airings e p) Q E s"
  by (simp add: has_airings_def split: option.split)

lemma wp_shadow [wp_calls]: "(\<And>u x. alike s u \<Longrightarrow> file_at p s = Some x \<Longrightarrow> Q (is_shadow (f_head x)) u) \<Longrightarrow> (\<And>m u. alike s u \<Longrightarrow> E m u) \<Longrightarrow> wp (IsShadow e p) Q E s"
  by (simp add: IsShadow_def split: option.split)

lemma wp_inode [wp_calls]: "(\<And>u x. alike s u \<Longrightarrow> file_at p s = Some x \<Longrightarrow> Q (f_inode x) u) \<Longrightarrow> (\<And>m u. alike s u \<Longrightarrow> E m u) \<Longrightarrow> wp (fileInode e p) Q E s"
  by (simp add: fileInode_def split: option.split)

lemma wp_now [wp_calls]: "(\<And>n. Q (clock e n) s) \<Longrightarrow> wp (now_ns e) Q E s"
  by (simp add: now_ns_def)

lemma wp_drop [wp_calls]: "(\<And>u. apart k s u \<Longrightarrow> schema_at k u = None \<Longrightarrow> Q () u) \<Longrightarrow> (\<And>m u. alike s u \<Longrightarrow> E m u) \<Longrightarrow> wp (dropSchema e k) Q E s"
  by (simp add: dropSchema_def apart_def split: option.split)

lemma wp_clone [wp_calls]:
  "(\<And>u l x. apart k s u \<Longrightarrow> schema_at k s = None \<Longrightarrow> schema_at (library e) s = Some l \<Longrightarrow> clone_of (library e) k l = Inr x \<Longrightarrow> schema_at k u = Some x \<Longrightarrow> Q () u)
   \<Longrightarrow> (\<And>m u. alike s u \<Longrightarrow> E m u) \<Longrightarrow> wp (CloneSchema e k) Q E s"
  by (simp add: CloneSchema_def apart_def split: option.split sum.split)

lemma wp_comment [wp_calls]:
  "(\<And>u x. apart k s u \<Longrightarrow> schema_at k s = Some x \<Longrightarrow> schema_at k u = Some (x\<lparr>remark := Some c\<rparr>) \<Longrightarrow> Q () u) \<Longrightarrow> (\<And>m u. alike s u \<Longrightarrow> E m u)
   \<Longrightarrow> wp (commentSchema e k c) Q E s"
  by (simp add: commentSchema_def apart_def split: option.split)

lemma wp_copy_into [wp_calls]:
  "(\<And>u f y z. apart k s u \<Longrightarrow> file_at p s = Some f \<Longrightarrow> schema_at k s = Some y \<Longrightarrow> copyGuide (cast e) (f_tables f) y = Inr z \<Longrightarrow> schema_at k u = Some z \<Longrightarrow> Q () u)
   \<Longrightarrow> (\<And>m u. alike s u \<Longrightarrow> E m u) \<Longrightarrow> wp (copy_into e p k) Q E s"
  by (simp add: copy_into_def apart_def split: option.split sum.split)

text \<open>The swap: the live schema is the staging one, whose name is free.\<close>

lemma wp_swap [wp_calls]:
  "l \<noteq> k \<Longrightarrow> l \<noteq> o' \<Longrightarrow> k \<noteq> o' \<Longrightarrow> (\<And>u y. schema_at k s = Some y \<Longrightarrow> schema_at l u = Some (y\<lparr>remark := Some c\<rparr>) \<Longrightarrow> schema_at k u = None
     \<Longrightarrow> (\<forall>n. n \<notin> {l, k, o'} \<longrightarrow> schema_at n u = schema_at n s) \<Longrightarrow> (\<forall>p. file_at p u = file_at p s) \<Longrightarrow> Q () u)
   \<Longrightarrow> (\<And>m u. alike s u \<Longrightarrow> E m u) \<Longrightarrow> wp (swapGuide e l k o' c) Q E s"
  by (auto simp: swapGuide_def split: option.split sum.split)

section \<open>Marks\<close>

text \<open>The clock's readings and the inodes fit their types.\<close>

definition clocks_ok :: "genv \<Rightarrow> bool" where
  "clocks_ok e \<longleftrightarrow> (\<forall>n. in_int64 (clock e n) \<and> 0 \<le> inodes e n \<and> inodes e n < 2 ^ 64)"

lemma loading_mark: "clocks_ok e \<Longrightarrow> state_of (Some (x\<lparr>remark := Some (Sprintf stagingLoadingComment [clock e n, inodes e k])\<rparr>)) = StagingLoading"
  using comments_read [of "clock e n" "inodes e k"] by (simp add: state_of_def clocks_ok_def)

end
