(* ===== verification/Guide_Scene.thy ===== *)
theory Guide_Scene
  imports Guide_World
begin

text \<open>A small cluster on which the statements about guide loads are evaluated: one library, one guide, one load.\<close>

definition g0 :: Guide where
  "g0 = \<lparr>Provider = ''tv.plex.providers.epg.xmltv'', DVR = ''d2f1c6b0-8a4e-4c0f-9b1e-3a5d7c9e1f20''\<rparr>"

definition col0 :: "string \<Rightarrow> column" where
  "col0 typ = \<lparr>c_type = typ, c_default = None, c_generated = False\<rparr>"

definition lib0 :: schema where
  "lib0 = \<lparr>tables = [(''accounts'', \<lparr>t_columns = [(''id'', col0 ''bigint'')], t_rows = []\<rparr>), (''media_items'', \<lparr>t_columns = [(''id'', col0 ''bigint'')], t_rows = []\<rparr>),
     (''preferences'', \<lparr>t_columns = [(''id'', col0 ''bigint'')], t_rows = []\<rparr>)], sequences = [], views = [], triggers = [], remark = None\<rparr>"

definition e0 :: genv where
  "e0 = \<lparr>broken = (\<lambda>_. None), clock = (\<lambda>n. 100 + int (n mod 10)), inodes = (\<lambda>n. 40 + int (n mod 10)), library = ''plex'', directory = ''/db'', listed = [g0],
     provider_of = (\<lambda>_. Some (Provider g0)), cast = (\<lambda>_ v. v),
     shadow_of = (\<lambda>_. \<lparr>f_inode = 3, f_mtime = 0, f_size = 0, f_head = sqliteHeader @ replicate 52 0 @ [0x43, 0x4C, 0x50, 0x58] @ replicate 28 0, f_tables = []\<rparr>)\<rparr>"

definition e1 :: "nat list \<Rightarrow> genv" where
  "e1 ns = e0\<lparr>broken := (\<lambda>n. if n \<in> set ns then Some ''broken'' else None)\<rparr>"

definition loaded0 :: "int \<Rightarrow> gfile" where
  "loaded0 i = \<lparr>f_inode = i, f_mtime = 50, f_size = 1, f_head = [],
     f_tables = [\<lparr>sq_name = ''media_items'', sq_sql = ''CREATE TABLE media_items'', sq_columns = [''id''], sq_rows = [[VInt 7]]\<rparr>]\<rparr>"

definition p0 :: string where "p0 = in_dir e0 (LoadFile g0)"

text \<open>PMS has written a load in a file, the guide's own file is an older one and a shadow is at hand.\<close>

definition w0 :: gworld where
  "w0 = \<lparr>gw_db = [(''plex'', lib0), (Schema g0, lib0)],
     gw_files = [(p0, loaded0 9), (in_dir e0 (File g0), loaded0 8), (ShadowTemplate e0, shadow_of e0 ''plex'')],
     gw_calls = 0, gw_seen = Map.empty, gw_failed = Map.empty, gw_hooked = Map.empty\<rparr>"

definition clone0 :: schema where
  "clone0 = lib0\<lparr>tables := [(''accounts'', \<lparr>t_columns = [(''id'', col0 ''bigint'')], t_rows = [snd (guideSeed ! 0)]\<rparr>),
     (''media_items'', \<lparr>t_columns = [(''id'', col0 ''bigint'')], t_rows = []\<rparr>), (''preferences'', \<lparr>t_columns = [(''id'', col0 ''bigint'')], t_rows = [snd (guideSeed ! 1)]\<rparr>)]\<rparr>"

text \<open>The load staged in PostgreSQL, PMS still writing; and after PMS renamed the load file to the guide's.\<close>

definition staged0 :: schema where
  "staged0 = clone0\<lparr>remark := Some (Sprintf stagingLoadingComment [100, 44])\<rparr>"

definition w1 :: gworld where
  "w1 = put_file p0 ((shadow_of e0 ''plex'')\<lparr>f_inode := 44\<rparr>) (put_schema (Staging g0) staged0 w0)"

definition w2 :: gworld where
  "w2 = put_file (in_dir e0 (File g0)) ((shadow_of e0 ''plex'')\<lparr>f_inode := 44\<rparr>) (remove_file p0 (put_schema (Staging g0) staged0 w0))"

lemma names0: "Schema g0 = ''epg_d2f1c6b08a4e4c0f9b1e3a5d7c9e1f20''" "File g0 = ''tv.plex.providers.epg.xmltv-d2f1c6b0-8a4e-4c0f-9b1e-3a5d7c9e1f20.db''"
  "LoadFile g0 = ''tv.plex.providers.epg.xmltv-d2f1c6b0-8a4e-4c0f-9b1e-3a5d7c9e1f20-loading.db''"
  by (simp_all add: Schema_def File_def LoadFile_def LoadSuffix_def trim_suffix_def suffix_def prefix_def g0_def lower_def Let_def)

lemma valid0 [simp]: "Valid g0"
  by (simp add: Valid_def guideProvider_def guideUUID_def epg_prefix_def g0_def is_hex_def hex_nibble_def word_char_def Let_def)

lemmas paths0 = p0_def in_dir_def names0 e0_def ShadowTemplate_def

lemma files0 [simp]: "file_at p0 w0 = Some (loaded0 9)" "file_at (in_dir e0 (File g0)) w0 = Some (loaded0 8)"
  "file_at (ShadowTemplate e0) w0 = Some (shadow_of e0 ''plex'')" "file_at (p0 @ ''-wal'') w0 = None"
  "file_at (in_dir e0 (File g0) @ ''-wal'') w0 = None"
  by (simp_all add: file_at_def w0_def paths0)

lemma schemas0 [simp]: "schema_at ''plex'' w0 = Some lib0" "schema_at (Schema g0) w0 = Some lib0" "schema_at (Staging g0) w0 = None" "schema_at (Replaced g0) w0 = None"
  by (simp_all add: schema_at_def w0_def names0 Staging_def Replaced_def)

lemma fields0 [simp]: "broken e0 n = None" "library e0 = ''plex''" "cast e0 = (\<lambda>_ v. v)" "clock e0 n = 100 + int (n mod 10)" "inodes e0 n = 40 + int (n mod 10)"
  by (simp_all add: e0_def)

lemma apart0 [simp]: "''plex'' \<noteq> Schema g0" "''plex'' \<noteq> Staging g0" "''plex'' \<noteq> Replaced g0" "ShadowTemplate e0 \<noteq> p0"
  "ShadowTemplate e0 \<noteq> p0 @ ''-wal''" "ShadowTemplate e0 \<noteq> p0 @ ''-shm''" "ShadowTemplate e0 \<noteq> p0 @ ''-journal''"
  "in_dir e0 (File g0) \<noteq> p0" "in_dir e0 (File g0) \<noteq> ShadowTemplate e0" "in_dir e0 (File g0) @ ''-wal'' \<noteq> ShadowTemplate e0" "in_dir e0 (File g0) @ ''-wal'' \<noteq> p0"
  by (simp_all add: paths0 Staging_def Replaced_def)

lemmas run = and_then_def or_else_def ret_def throw_def ignore_def reads_def modify_def call_def guide_calls

lemma marks0 [simp]: "loaded_at None = 0" "remark lib0 = None" "airings (loaded0 i) = Some True" "f_mtime (loaded0 i) = 50" "f_inode (loaded0 i) = i"
  "is_shadow (f_head (loaded0 i)) = False"
  by (simp_all add: loaded_at_def lib0_def airings_def loaded0_def is_shadow_def)

lemma clocks0: "clocks_ok e0"
proof -
  have "int (n mod 10) < 10" for n by simp
  then show ?thesis by (auto simp: clocks_ok_def in_int64_def intro: order.strict_trans)
qed

lemma cloned0 [simp]: "clone_of ''plex'' n lib0 = Inr clone0"
  by (simp add: clone_of_def lib0_def Let_def guideSeed_def foreign_default_def col0_def clone0_def clone_table_def clone_column_def copiedTables_def seeded_rows_def resetSequences_def)

lemma copied0: "\<exists>y. copyGuide (\<lambda>_ v. v) (f_tables (loaded0 i)) clone0 = Inr y"
  by (simp add: copyGuide_def loaded0_def clone0_def sqliteTables_def like_prefix_def shared_columns_def stagingColumns_def col0_def kindOf_def lower_def Let_def enumerate_eq_zip)

lemma shadow0: "is_shadow (f_head (shadow_of e0 n))"
  by (simp add: e0_def is_shadow_def be32_def ShadowMark_def sqliteHeader_def)

lemma state0 [simp]: "state_of (Some staged0) = StagingLoading"
  using loading_mark [OF clocks0, where x = clone0 and n = 0 and k = 4] by (simp add: staged0_def)

lemma imported0: "fst (ImportGuide e0 g0 p0 w0) = Inr True"
proof -
  obtain y where "copyGuide (\<lambda>_ v. v) (f_tables (loaded0 9)) clone0 = Inr y" using copied0 by blast
  then show ?thesis by (simp add: ImportGuide_def copy_and_swap_def run modified_at_def remark_at_def)
qed

lemma staged_w0: "fst (StageLoad e0 g0 p0 (ShadowTemplate e0) w0) = Inr \<lparr>Fresh = True, Recloned = False, Cloned = True\<rparr>"
  by (simp add: StageLoad_def run state_of_def WriteShadowFrom_def remove_if_there_def copy_over_def)

lemma swapped0: "fst (SwapLoaded e0 g0 w1) = Inr True"
  by (simp add: SwapLoaded_def run w1_def)

lemma tables0: "gw_db (counted s) = gw_db s" "gw_db (put_file p f s) = gw_db s" "gw_db (remove_file p s) = gw_db s"
  "gw_db (put_schema n x s) = (n, x) # filter (\<lambda>p. fst p \<noteq> n) (gw_db s)" "gw_db (drop_schema n s) = filter (\<lambda>p. fst p \<noteq> n) (gw_db s)"
  "gw_db w0 = [(''plex'', lib0), (Schema g0, lib0)]"
  by (simp_all add: counted_def put_file_def remove_file_def put_schema_def drop_schema_def w0_def)

lemma prefixes0: "prefix ''epg_'' (Schema g0)" "prefix ''epg_'' (Staging g0)" "\<not> suffix ''_next'' (Schema g0)" "\<not> suffix ''_old'' (Schema g0)" "suffix ''_next'' (Staging g0)"
  "trim_suffix (Staging g0) ''_next'' = Schema g0" "dvrOfSchema (Schema g0) = DVR g0" "length (Staging g0) = 41" "DVR g0 \<noteq> []"
  by (simp_all add: names0 Staging_def suffix_def trim_suffix_def dvrOfSchema_def lower_hex_def Let_def) (simp_all add: g0_def)

lemma dvr0: "DVR g0 = ''d2f1c6b0-8a4e-4c0f-9b1e-3a5d7c9e1f20''"
  by (simp add: g0_def)

lemma parse0 [simp]: "parseLoading (Sprintf stagingLoadingComment [100, 44]) = Some (100, 44)"
  using comments_read [of 100 44] by (simp add: in_int64_def)

lemma remark0: "remark staged0 = Some (Sprintf stagingLoadingComment [100, 44])"
  by (simp add: staged0_def)

lemma provider0 [simp]: "provider_of e0 d = Some (Provider g0)" "Provider g0 \<noteq> []" "\<lparr>Provider = Provider g0, DVR = DVR g0\<rparr> = g0" "listed e0 = [g0]"
  by (simp_all add: e0_def g0_def)

lemma idle0: "\<not> load_running e0 (DVR g0) w2"
  by (simp add: load_running_def w2_def put_file_def remove_file_def put_schema_def w0_def load_name_def paths0 dvr0 epg_prefix_def LoadSuffix_def suffix_def prefix_def Let_def)

lemma load_running_counted: "load_running e d (counted s) = load_running e d s"
  by (simp add: load_running_def counted_def)

lemma recovered0: "fst (RecoverLoads e0 w2) = Inr [Inr g0]"
  using idle0 by (simp add: SwapLoaded_def RecoverLoads_def run staging_names_def w2_def tables0 prefixes0 remark_at_def recover_one_def remark0 Let_def load_running_counted)

lemma prepared0: "fst (PrepareGuides e0 w0) = Inr []"
proof -
  obtain y where "copyGuide (\<lambda>_ v. v) (f_tables (loaded0 8)) clone0 = Inr y" using copied0 by blast
  then show ?thesis by (simp add: Let_def PrepareGuides_def prepare_one_def run ListGuides_def errs_def BuildShadow_def ImportGuide_def copy_and_swap_def modified_at_def remark_at_def
      removeLoadFile_def remove_if_there_def EnsureGuideSchema_def SweepGuides_def sweep_one_def keeps_schema_def tables0 prefixes0)
qed

section \<open>Where the promises stop\<close>

text \<open>
  A copy takes the staging schema whatever its mark says. With the guide's file newer than the guide and a load running in the
  staging schema, the copy truncates what PMS loaded so far and swaps the schema away from under it.
\<close>

lemma copy_takes_a_running_load:
  "state_of (schema_at (Staging g0) w1) = StagingLoading \<and> fst (ImportGuide e0 g0 (in_dir e0 (File g0)) w1) = Inr True
     \<and> schema_at (Staging g0) (snd (ImportGuide e0 g0 (in_dir e0 (File g0)) w1)) = None"
proof -
  obtain y where "copyGuide (\<lambda>_ v. v) (f_tables (loaded0 8)) staged0 = Inr y" using copied0 [of 8]
    by (auto simp: copyGuide_def staged0_def split: sum.splits)
  then show ?thesis by (simp add: ImportGuide_def copy_and_swap_def run modified_at_def remark_at_def w1_def)
qed

text \<open>
  A stage whose last step fails answers an error with the shadow already written over the load file and the mark without its
  inode. The next handle's request is answered that the load is staged, and the mark keeps inode 0.
\<close>

lemma calls0: "gw_calls (counted s) = Suc (gw_calls s)" "gw_calls (put_file p f s) = gw_calls s" "gw_calls (remove_file p s) = gw_calls s"
  "gw_calls (put_schema n x s) = gw_calls s" "gw_calls (drop_schema n s) = gw_calls s" "gw_calls w0 = 0"
  by (simp_all add: counted_def put_file_def remove_file_def put_schema_def drop_schema_def w0_def)

lemma parse1: "parseLoading (Sprintf stagingLoadingComment [105, 0]) = Some (105, 0)"
  using comments_read [of 105 0] by (simp add: in_int64_def)

definition after_failed_stage :: gworld where
  "after_failed_stage = snd (StageLoad (e1 [10]) g0 p0 (ShadowTemplate e0) w0)"

lemma failed_stage_keeps_the_shadow:
  "fst (StageLoad (e1 [10]) g0 p0 (ShadowTemplate e0) w0) = Inl ''broken''
     \<and> map_option (\<lambda>x. is_shadow (f_head x)) (file_at p0 after_failed_stage) = Some True
     \<and> remark_at (Staging g0) after_failed_stage = Some (Sprintf stagingLoadingComment [105, 0])
     \<and> StageLoad e0 g0 p0 (ShadowTemplate e0) after_failed_stage
        = (Inr \<lparr>Fresh = False, Recloned = False, Cloned = False\<rparr>, snd (StageLoad e0 g0 p0 (ShadowTemplate e0) after_failed_stage))"
proof -
  have e: "library (e1 ns) = ''plex''" "clock (e1 ns) n = 100 + int (n mod 10)" "inodes (e1 ns) n = 40 + int (n mod 10)"
    "broken (e1 ns) n = (if n \<in> set ns then Some ''broken'' else None)" for ns n by (simp_all add: e1_def)
  show ?thesis
    by (simp add: after_failed_stage_def StageLoad_def run state_of_def WriteShadowFrom_def remove_if_there_def copy_over_def e shadow0 calls0 parse1 remark_at_def)
qed

end
