(* ===== verification/Guide_Facts.thy ===== *)
theory Guide_Facts
  imports Guide_Scene
begin

text \<open>
  What the guide loads promise: the schema a guide is served from changes by a whole guide only, one loaded from a newer file
  or one PMS loaded and renamed; an \<open>ok\<close> for a stage means what it says; and where the promises stop.
\<close>

section \<open>A guide copied from its file\<close>

text \<open>The guide of a file, and the staging schema it was copied into.\<close>

definition copied_guide :: "genv \<Rightarrow> Guide \<Rightarrow> string \<Rightarrow> gworld \<Rightarrow> schema \<Rightarrow> bool" where
  "copied_guide e g p s x \<longleftrightarrow> (\<exists>f y z m. file_at p s = Some f \<and> airings f = Some True \<and> modified_at p s = Some m
     \<and> loaded_at (remark_at (Schema g) s) < m \<and> copyGuide (cast e) (f_tables f) y = Inr z
     \<and> (case schema_at (Staging g) s of Some k \<Rightarrow> y = k | None \<Rightarrow> \<exists>l. schema_at (library e) s = Some l \<and> clone_of (library e) (Staging g) l = Inr y)
     \<and> x = z\<lparr>remark := Some (Sprintf importedComment [m])\<rparr>)"

text \<open>
  C3. A copied guide appears whole or not at all, whichever statement fails: after \<open>ImportGuide\<close> the schema the guide is
  served from is what it was, unless it reports a copy; then it is every table of the file, copied into a staging schema,
  marked with the file's time, which is later than the time of the guide it replaces.
\<close>

theorem import_is_whole_and_newer:
  assumes "\<not> prefix ''epg_'' (library e)" and "ImportGuide e g p s = (r, t)"
  shows "if r = Inr True then \<exists>x. schema_at (Schema g) t = Some x \<and> copied_guide e g p s x else schema_at (Schema g) t = schema_at (Schema g) s"
proof -
  have lib: "library e \<noteq> Replaced g" using assms(1) epg_schema by metis
  have "wp (ImportGuide e g p) (\<lambda>b t. if b then \<exists>x. schema_at (Schema g) t = Some x \<and> copied_guide e g p s x else schema_at (Schema g) t = schema_at (Schema g) s)
    (\<lambda>_ t. schema_at (Schema g) t = schema_at (Schema g) s) s"
    using lib by (auto simp: ImportGuide_def copy_and_swap_def copied_guide_def alikeD apartD intro!: wp_calls split: option.split)
  then show ?thesis using assms(2) by (auto simp: wp_def split: sum.splits)
qed

lemma import_is_whole_and_newer_witness:
  "\<exists>x. schema_at (Schema g0) (snd (ImportGuide e0 g0 p0 w0)) = Some x \<and> copied_guide e0 g0 p0 w0 x"
  using import_is_whole_and_newer [of e0 g0 p0 w0 "Inr True" "snd (ImportGuide e0 g0 p0 w0)"] imported0 by (simp add: prod_eq_iff prefix_def)

section \<open>A load made in PostgreSQL\<close>

lemma wp_write [wp_calls]:
  assumes "template \<notin> {p @ ''-wal'', p @ ''-shm'', p @ ''-journal''}"
    and "\<And>u x n. file_at template s = Some x \<Longrightarrow> file_at p u = Some (x\<lparr>f_inode := inodes e n, f_mtime := clock e n\<rparr>) \<Longrightarrow> (\<forall>n. schema_at n u = schema_at n s) \<Longrightarrow> Q () u"
    and "\<And>m u. (\<forall>n. schema_at n u = schema_at n s) \<Longrightarrow> E m u"
  shows "wp (WriteShadowFrom e template p) Q E s"
  using assms by (auto simp: WriteShadowFrom_def remove_if_there_def copy_over_def split: option.split)

lemma loading_Some: "state_of x = StagingLoading \<Longrightarrow> \<exists>y. x = Some y \<and> state_of (Some y) = StagingLoading"
  by (cases x) (auto simp: state_of_def)

text \<open>
  C17. The answer that a load is staged means it: the load's file is a shadow and its staging schema is marked loading, and
  the schema the guide is served from is untouched. When the call staged it, the mark holds the shadow's own inode, by which its rename is known.
\<close>

theorem staged_load_is_staged:
  assumes "clocks_ok e" and "file_at template s = Some f" and "is_shadow (f_head f)"
    and "template \<notin> {p @ ''-wal'', p @ ''-shm'', p @ ''-journal''}" and "StageLoad e g p template s = (Inr st, t)"
  shows "\<exists>x y. file_at p t = Some x \<and> is_shadow (f_head x) \<and> schema_at (Staging g) t = Some y \<and> state_of (Some y) = StagingLoading
    \<and> schema_at (Schema g) t = schema_at (Schema g) s
    \<and> (if Fresh st then \<exists>n. remark y = Some (Sprintf stagingLoadingComment [clock e n, f_inode x]) else True)"
proof -
  have "wp (StageLoad e g p template) (\<lambda>st t. \<exists>x y. file_at p t = Some x \<and> is_shadow (f_head x) \<and> schema_at (Staging g) t = Some y
    \<and> state_of (Some y) = StagingLoading \<and> schema_at (Schema g) t = schema_at (Schema g) s
    \<and> (if Fresh st then \<exists>n. remark y = Some (Sprintf stagingLoadingComment [clock e n, f_inode x]) else True)) (\<lambda>_ _. True) s"
    by (insert assms(1-4), auto simp: StageLoad_def cloneStaging_def Let_def alikeD apartD loading_mark intro!: wp_calls;
      (rule exI, rule refl | erule loading_Some))
  then show ?thesis using assms(5) by (auto simp: wp_def)
qed

lemma staged_load_is_staged_witness:
  "\<exists>x y n. file_at p0 (snd (StageLoad e0 g0 p0 (ShadowTemplate e0) w0)) = Some x \<and> schema_at (Staging g0) (snd (StageLoad e0 g0 p0 (ShadowTemplate e0) w0)) = Some y
    \<and> remark y = Some (Sprintf stagingLoadingComment [clock e0 n, f_inode x])"
  using staged_load_is_staged [OF clocks0 files0(3) shadow0, of p0 g0 "\<lparr>Fresh = True, Recloned = False, Cloned = True\<rparr>" "snd (StageLoad e0 g0 p0 (ShadowTemplate e0) w0)"]
    staged_w0 by (auto simp: prod_eq_iff)

text \<open>
  A swap serves what PMS loaded: after \<open>SwapLoaded\<close> reports one, the guide's schema is the staging schema as it was, marked
  with the time of the swap, and the staging name is free; otherwise, an error included, both are as they were.
\<close>

theorem swap_serves_the_load:
  assumes "SwapLoaded e g s = (r, t)"
  shows "if r = Inr True
    then \<exists>y n. schema_at (Staging g) s = Some y \<and> state_of (Some y) = StagingLoading \<and> schema_at (Staging g) t = None
      \<and> schema_at (Schema g) t = Some (y\<lparr>remark := Some (Sprintf loadedComment [clock e n])\<rparr>)
    else schema_at (Schema g) t = schema_at (Schema g) s \<and> schema_at (Staging g) t = schema_at (Staging g) s"
proof -
  have "wp (SwapLoaded e g) (\<lambda>b t. if b
    then \<exists>y n. schema_at (Staging g) s = Some y \<and> state_of (Some y) = StagingLoading \<and> schema_at (Staging g) t = None
      \<and> schema_at (Schema g) t = Some (y\<lparr>remark := Some (Sprintf loadedComment [clock e n])\<rparr>)
    else schema_at (Schema g) t = schema_at (Schema g) s \<and> schema_at (Staging g) t = schema_at (Staging g) s)
    (\<lambda>_ t. schema_at (Schema g) t = schema_at (Schema g) s \<and> schema_at (Staging g) t = schema_at (Staging g) s) s"
    by (auto simp: SwapLoaded_def alikeD apartD intro!: wp_calls; rule exI, rule refl)
  then show ?thesis using assms by (auto simp: wp_def split: sum.splits)
qed

lemma swap_serves_the_load_witness:
  "\<exists>n. schema_at (Staging g0) (snd (SwapLoaded e0 g0 w1)) = None
    \<and> schema_at (Schema g0) (snd (SwapLoaded e0 g0 w1)) = Some (staged0\<lparr>remark := Some (Sprintf loadedComment [clock e0 n])\<rparr>)"
  using swap_serves_the_load [of e0 g0 w1 "Inr True" "snd (SwapLoaded e0 g0 w1)"] swapped0 by (auto simp: prod_eq_iff w1_def)

end
