(* ===== verification/Guide_Recovery.thy ===== *)
theory Guide_Recovery
  imports Guide_Facts
begin

text \<open>
  The poll's recovery of a load whose rename nobody answered, the sweep before a start, the guard of the shim's requests,
  and the two ways a staged load is lost.
\<close>

section \<open>A live schema's name\<close>

lemma dash_free: "list_all lower_hex h \<Longrightarrow> filter (\<lambda>c. c \<noteq> CHR ''-'') h = h \<and> ToLower h = h"
proof -
  assume h: "list_all lower_hex h"
  have "c \<noteq> CHR ''-'' \<and> lower c = c" if "c \<in> set h" for c
    using that h by (auto simp: list_all_iff lower_hex_def lower_def Let_def)
  then show ?thesis by (simp add: filter_id_conv map_idI)
qed

lemma dash_parts: "list_all lower_hex h \<Longrightarrow> filter (\<lambda>c. c \<noteq> CHR ''-'') (take k (drop m h)) = take k (drop m h)
    \<and> filter (\<lambda>c. c \<noteq> CHR ''-'') (drop m h) = drop m h \<and> filter (\<lambda>c. c \<noteq> CHR ''-'') (take k h) = take k h"
proof -
  assume h: "list_all lower_hex h"
  have "list_all lower_hex (take k (drop m h))" "list_all lower_hex (drop m h)" "list_all lower_hex (take k h)"
    using h by (auto simp: list_all_iff dest: in_set_takeD in_set_dropD)
  then show ?thesis using dash_free by blast
qed

lemma five_parts: "take 8 h @ take 4 (drop 8 h) @ take 4 (drop 12 h) @ take 4 (drop 16 h) @ drop 20 h = (h :: string)"
proof -
  have "take 4 (drop m h) @ drop (m + 4) h = drop m h" for m by (metis append_take_drop_id drop_drop add.commute)
  from this [of 16] this [of 12] this [of 8] show ?thesis by simp
qed

lemma dvrOfSchema_Schema:
  assumes "dvrOfSchema n \<noteq> []"
  shows "Schema \<lparr>Provider = x, DVR = dvrOfSchema n\<rparr> = n" "length n = 36"
proof -
  obtain h where n: "n = ''epg_'' @ h" "length h = 32" "list_all lower_hex h"
    using assms by (auto simp: dvrOfSchema_def Let_def prefix_def split: if_splits)
  have d: "dvrOfSchema n = take 8 h @ ''-'' @ take 4 (drop 8 h) @ ''-'' @ take 4 (drop 12 h) @ ''-'' @ take 4 (drop 16 h) @ ''-'' @ drop 20 h"
    using n by (simp add: dvrOfSchema_def Let_def)
  have "filter (\<lambda>c. c \<noteq> CHR ''-'') (dvrOfSchema n) = h"
    unfolding d filter_append using dash_parts [OF n(3)] five_parts [of h] by simp
  then show "Schema \<lparr>Provider = x, DVR = dvrOfSchema n\<rparr> = n" "length n = 36" using dash_free [OF n(3)] n(1,2) by (simp_all add: Schema_def)
qed

section \<open>Recovery\<close>

text \<open>The listed mark of a staging schema, and the file that proves its load was renamed.\<close>

definition renamed_load :: "genv \<Rightarrow> string \<Rightarrow> string option \<Rightarrow> gworld \<Rightarrow> bool" where
  "renamed_load e live comment s \<longleftrightarrow> (\<exists>c since inode prov f. comment = Some c \<and> parseLoading c = Some (since, inode) \<and> inode \<noteq> 0
     \<and> \<not> load_running e (dvrOfSchema live) s \<and> file_at (in_dir e (File \<lparr>Provider = prov, DVR = dvrOfSchema live\<rparr>)) s = Some f \<and> f_inode f = inode)"

lemma load_running_files: "load_running e dvr s \<longleftrightarrow> (\<exists>p. file_at p s \<noteq> None \<and> load_name e dvr p)"
proof -
  have "(\<exists>p x. (p, x) \<in> set xs \<and> P p) \<longleftrightarrow> (\<exists>p. map_of xs p \<noteq> None \<and> P p)" for xs :: "(string \<times> gfile) list" and P
    unfolding map_of_eq_None_iff by force
  from this [of "gw_files s" "load_name e dvr"] show ?thesis by (auto simp: load_running_def file_at_def list_ex_iff)
qed

lemma same_evidence: "(\<And>p. file_at p t = file_at p s) \<Longrightarrow> renamed_load e live c t \<longleftrightarrow> renamed_load e live c s"
  unfolding renamed_load_def load_running_files by simp

definition far :: "Guide \<Rightarrow> gworld \<Rightarrow> gworld \<Rightarrow> bool" where
  "far g s u \<longleftrightarrow> (\<forall>n. n \<notin> {Schema g, Staging g, Replaced g} \<longrightarrow> schema_at n u = schema_at n s) \<and> (\<forall>p. file_at p u = file_at p s)"

lemma farD: "far g s u \<Longrightarrow> n \<notin> {Schema g, Staging g, Replaced g} \<Longrightarrow> schema_at n u = schema_at n s" "far g s u \<Longrightarrow> file_at p u = file_at p s"
  by (simp_all add: far_def)

lemma wp_SwapLoaded:
  assumes "\<And>b u. far g s u \<Longrightarrow> Q b u" and "\<And>m u. far g s u \<Longrightarrow> E m u"
  shows "wp (SwapLoaded e g) Q E s"
proof -
  have "wp (SwapLoaded e g) (\<lambda>_. far g s) (\<lambda>_. far g s) s"
    by (auto simp: SwapLoaded_def far_def alikeD apartD intro!: wp_calls)
  then show ?thesis by (rule wp_mono) (use assms in auto)
qed

definition settled_as :: "genv \<Rightarrow> string \<Rightarrow> bool \<Rightarrow> gworld \<Rightarrow> gworld \<Rightarrow> bool" where
  "settled_as e live proven s t \<longleftrightarrow> (\<forall>p. file_at p t = file_at p s) \<and> (schema_at live t = schema_at live s \<or> proven)"

lemma recover_one_evidence:
  assumes L: "length live = 36" and n: "suffix ''_next'' n"
  shows "wp (recover_one e (n, c)) (\<lambda>_. settled_as e live (n = live @ ''_next'' \<and> renamed_load e live c s) s)
    (\<lambda>_. settled_as e live (n = live @ ''_next'' \<and> renamed_load e live c s) s) s"
proof -
  obtain m where m: "n = m @ ''_next''" "trim_suffix n ''_next'' = m" using n by (auto simp: suffix_def trim_suffix_def)
  have same: "settled_as e live x s s" for x by (simp add: settled_as_def)
  show ?thesis
  proof (cases "\<exists>k since inode. dvrOfSchema m \<noteq> [] \<and> c = Some k \<and> parseLoading k = Some (since, inode) \<and> inode \<noteq> 0 \<and> \<not> load_running e (dvrOfSchema m) s")
    case False
    then show ?thesis unfolding recover_one_def m(2) Let_def prod.case by (auto simp: same split: option.split)
  next
    case True
    then obtain k since inode where k: "dvrOfSchema m \<noteq> []" "c = Some k" "parseLoading k = Some (since, inode)" "inode \<noteq> 0" "\<not> load_running e (dvrOfSchema m) s" by blast
    obtain g x where g: "g = \<lparr>Provider = x, DVR = dvrOfSchema m\<rparr>" and x: "x = (case provider_of e (dvrOfSchema m) of Some x \<Rightarrow> if x = [] then ''tv.plex.providers.epg.xmltv'' else x
      | None \<Rightarrow> ''tv.plex.providers.epg.xmltv'')" by blast
    have sc: "Schema g = m" "length m = 36" using dvrOfSchema_Schema [OF k(1)] g by simp_all
    have ne: "live \<noteq> Staging g" "live \<noteq> Replaced g" using L sc by (auto simp: Staging_def Replaced_def)
    have proof_of: "renamed_load e live c s" if "live = m" "file_at (in_dir e (File g)) s = Some f" "f_inode f = inode" for f
      using that k g unfolding renamed_load_def by blast
    show ?thesis
    proof (cases "live = m")
      case True
      show ?thesis unfolding recover_one_def m(2) Let_def prod.case x [symmetric] g [symmetric] k(2) option.case k(3) wp_reads
        using k(1,4,5) ne True m(1) proof_of by (auto simp: settled_as_def cloneStaging_def alikeD apartD farD k(2) intro!: wp_calls wp_SwapLoaded)
    next
      case False
      then have "live \<notin> {Schema g, Staging g, Replaced g}" using ne sc by simp
      then show ?thesis unfolding recover_one_def m(2) Let_def prod.case x [symmetric] g [symmetric] k(2) option.case k(3) wp_reads
        using k(1,4,5) by (auto simp: settled_as_def cloneStaging_def alikeD apartD farD intro!: wp_calls wp_SwapLoaded)
    qed
  qed
qed

lemma same_names: "staging_names (counted s) = staging_names s"
  by (simp add: staging_names_def counted_def)

lemma wp_gather:
  assumes "\<And>x t. x \<in> set xs \<Longrightarrow> I t \<Longrightarrow> wp (f x) (\<lambda>_. I) (\<lambda>_. I) t" and "I s"
  shows "wp (gather f xs) (\<lambda>_. I) (\<lambda>_. I) s"
  using assms
proof (induction xs arbitrary: s)
  case (Cons x xs)
  have ih: "wp (gather f xs) (\<lambda>_. I) (\<lambda>_. I) t" if "I t" for t using Cons.IH [OF Cons.prems(1) that] by simp
  have "wp (f x) (\<lambda>_. I) (\<lambda>_. I) s" using Cons.prems by simp
  then show ?case unfolding gather.simps wp_and_then wp_ret_fun by (rule wp_mono) (simp_all add: ih)
qed simp

lemma undashed: "length (filter (\<lambda>x. x \<noteq> c) s) = sum_list (map length (split_on c s))"
  by (induction s) (auto split: list.splits)

lemma Schema_hex:
  assumes "Valid g"
  shows "\<exists>h. Schema g = ''epg_'' @ h \<and> length h = 32 \<and> CHR ''_'' \<notin> set h"
proof -
  let ?h = "filter (\<lambda>c. c \<noteq> CHR ''-'') (DVR g)"
  have u: "guideUUID (DVR g)" using assms by (simp add: Valid_def)
  then have "length ?h = 32" unfolding undashed guideUUID_def by simp
  moreover have "lower c \<noteq> CHR ''_''" if "c \<in> set ?h" for c
  proof -
    have "is_hex c" using that u by (auto simp: guideUUID_def list_all_iff)
    then have "(of_char c :: nat) \<in> {48..57} \<union> {97..102} \<union> {65..70}" by (auto simp: is_hex_def hex_nibble_def Let_def split: if_splits)
    then have "(of_char (lower c) :: nat) \<noteq> 95" by (auto simp: lower_def Let_def)
    then show ?thesis by auto
  qed
  ultimately have "length (ToLower ?h) = 32" "CHR ''_'' \<notin> set (ToLower ?h)" by (simp, metis (no_types, lifting) imageE list.set_map)
  then show ?thesis unfolding Schema_def by blast
qed

lemma Schema_length: "Valid g \<Longrightarrow> length (Schema g) = 36"
  using Schema_hex by force

text \<open>
  C9. The poll never swaps in a load that PMS did not finish: a guide's schema changes under \<open>RecoverLoads\<close> only if its staging
  schema was marked with an inode, no load file of its DVR is there, and a guide file of the DVR has that inode.
\<close>

theorem recovered_loads_were_renamed:
  assumes "Valid g" and "RecoverLoads e s = (r, t)"
  shows "schema_at (Schema g) t = schema_at (Schema g) s \<or> renamed_load e (Schema g) (remark_at (Staging g) s) s"
proof -
  let ?L = "Schema g"
  let ?P = "renamed_load e ?L (remark_at (Staging g) s) s"
  have st: "Staging g = ?L @ ''_next''" by (simp add: Staging_def)
  have one: "wp (recover_one e x) (\<lambda>_. settled_as e ?L ?P s) (\<lambda>_. settled_as e ?L ?P s) u"
    if x: "x \<in> set (map (\<lambda>n. (n, remark_at n s)) (staging_names s))" and u: "settled_as e ?L ?P s u" for x u
  proof -
    obtain n where n: "x = (n, remark_at n s)" "suffix ''_next'' n" using x by (auto simp: staging_names_def)
    have files: "\<And>p. file_at p u = file_at p s" using u by (simp add: settled_as_def)
    have "settled_as e ?L ?P s v" if "settled_as e ?L (n = ?L @ ''_next'' \<and> renamed_load e ?L (remark_at n s) u) u v" for v
      using that u same_evidence [OF files] by (auto simp: settled_as_def st)
    then show ?thesis unfolding n(1) by (intro wp_mono [OF recover_one_evidence [OF Schema_length [OF assms(1)] n(2)]]) auto
  qed
  have "wp (RecoverLoads e) (\<lambda>_. settled_as e ?L ?P s) (\<lambda>_. settled_as e ?L ?P s) s"
    unfolding RecoverLoads_def wp_and_then
    using wp_gather [of "map (\<lambda>n. (n, remark_at n s)) (staging_names s)" "settled_as e ?L ?P s" "recover_one e" "counted s"] one
    by (simp add: settled_as_def same_names split: option.split)
  then have "settled_as e ?L ?P s t" using assms(2) by (auto simp: wp_def split: sum.splits)
  then show ?thesis by (auto simp: settled_as_def)
qed

lemma recovered_loads_were_renamed_witness:
  "schema_at (Schema g0) (snd (RecoverLoads e0 w2)) = schema_at (Schema g0) w2 \<or> renamed_load e0 (Schema g0) (remark_at (Staging g0) w2) w2"
  by (rule recovered_loads_were_renamed [OF valid0, of e0 w2 "fst (RecoverLoads e0 w2)"]) simp

text \<open>
  And it does not miss one: with no statement failing, a load that was renamed, its mark holding the inode the guide's file
  now has, is swapped in, with every table PMS filled.
\<close>

theorem renamed_load_is_recovered:
  assumes "\<forall>n. broken e n = None" and "Valid g" and "DVR g = dvrOfSchema (Schema g)" and "provider_of e (DVR g) = Some (Provider g)"
    and "schema_at (Staging g) s = Some y" and "remark y = Some c" and "parseLoading c = Some (since, f_inode f)" and "f_inode f \<noteq> 0"
    and "\<not> load_running e (DVR g) s" and "file_at (in_dir e (File g)) s = Some f"
  shows "\<exists>t n. recover_one e (Staging g, Some c) s = (Inr [Inr g], t) \<and> schema_at (Schema g) t = Some (y\<lparr>remark := Some (Sprintf loadedComment [clock e n])\<rparr>)"
proof -
  have ts: "trim_suffix (Staging g) ''_next'' = Schema g" by (simp add: Staging_def trim_suffix_def suffix_def)
  have ne: "DVR g \<noteq> []" "Provider g \<noteq> []" using assms(2) by (auto simp: Valid_def guideUUID_def guideProvider_def epg_prefix_def)
  have gd: "\<lparr>Provider = Provider g, DVR = DVR g\<rparr> = g" by (cases g) simp
  have ld: "state_of (Some y) = StagingLoading" using assms(6,7) by (simp add: state_of_def)
  have "wp (recover_one e (Staging g, Some c)) (\<lambda>x t. x = [Inr g] \<and> (\<exists>n. schema_at (Schema g) t = Some (y\<lparr>remark := Some (Sprintf loadedComment [clock e n])\<rparr>))) (\<lambda>_ _. False) s"
    unfolding recover_one_def prod.case ts Let_def assms(3) [symmetric]
    using assms(1,2,4-10) ne ld by (simp add: gd SwapLoaded_def guide_calls wp_ret_fun split: option.split) (intro conjI impI allI; rule exI, rule refl)
  then show ?thesis by (cases "recover_one e (Staging g, Some c) s"; cases "fst (recover_one e (Staging g, Some c) s)") (auto simp: wp_def)
qed

lemma renamed_load_is_recovered_witness:
  "\<exists>t n. recover_one e0 (Staging g0, Some (Sprintf stagingLoadingComment [100, 44])) w2 = (Inr [Inr g0], t)
    \<and> schema_at (Schema g0) t = Some (staged0\<lparr>remark := Some (Sprintf loadedComment [clock e0 n])\<rparr>)"
  by (rule renamed_load_is_recovered [where f = "(shadow_of e0 ''plex'')\<lparr>f_inode := 44\<rparr>" and since = 100])
    (use idle0 in \<open>simp_all add: w2_def remark0 prefixes0\<close>)

end
