(* ===== verification/Guide_Start.thy ===== *)
theory Guide_Start
  imports Guide_Recovery
begin

text \<open>
  The start of a pod (\<open>PrepareGuides\<close>) and the shim's requests (\<open>handleGuideRequest\<close>): a start loses no listed guide and leaves
  every guide served, and a request reaches the schemas and the load file of the guide it names only.
\<close>

section \<open>One guide\<close>

lemma other_names: "Valid g \<Longrightarrow> Valid h \<Longrightarrow> Schema g \<noteq> Staging h \<and> Schema g \<noteq> Replaced h"
  using Schema_length [of g] Schema_length [of h] by (auto simp: Staging_def Replaced_def)

text \<open>What an operation on a guide keeps: every schema that is not one of its three, the files, and that it is served.\<close>

definition mild :: "Guide \<Rightarrow> gworld \<Rightarrow> gworld \<Rightarrow> bool" where
  "mild g s u \<longleftrightarrow> far g s u \<and> (schema_at (Schema g) s \<noteq> None \<longrightarrow> schema_at (Schema g) u \<noteq> None)"

lemma wp_ImportGuide: "wp (ImportGuide e g p) (\<lambda>_. mild g s) (\<lambda>_. mild g s) s"
  by (auto simp: ImportGuide_def copy_and_swap_def mild_def far_def alikeD apartD intro!: wp_calls split: option.split)

lemma wp_Ensure: "wp (EnsureGuideSchema e g) (\<lambda>_ u. mild g s u \<and> schema_at (Schema g) u \<noteq> None) (\<lambda>_. mild g s) s"
  by (auto simp: EnsureGuideSchema_def mild_def far_def alikeD apartD intro!: wp_calls)

lemma wp_errs: "wp (errs m) Q E s \<longleftrightarrow> wp m (\<lambda>_. Q []) (\<lambda>x. Q [x]) s"
  by (simp add: errs_def wp_ret_fun)

definition load_files :: "string \<Rightarrow> string set" where
  "load_files p = {p, p @ ''-wal'', p @ ''-shm'', p @ ''-journal''}"

lemma wp_removeLoadFile: "wp (removeLoadFile e p) (\<lambda>_ u. (\<forall>n. schema_at n u = schema_at n s) \<and> (\<forall>q. q \<notin> load_files p \<longrightarrow> file_at q u = file_at q s))
    (\<lambda>_ u. (\<forall>n. schema_at n u = schema_at n s) \<and> (\<forall>q. q \<notin> load_files p \<longrightarrow> file_at q u = file_at q s)) s"
  by (simp add: removeLoadFile_def remove_if_there_def load_files_def split: option.split)

section \<open>The start\<close>

text \<open>One guide's turn: only its schemas change, its load files go, its file becomes the shadow.\<close>

definition turn :: "genv \<Rightarrow> Guide \<Rightarrow> gworld \<Rightarrow> gworld \<Rightarrow> bool" where
  "turn e g s u \<longleftrightarrow> (\<forall>n. n \<notin> {Schema g, Staging g, Replaced g} \<longrightarrow> schema_at n u = schema_at n s)
     \<and> (schema_at (Schema g) s \<noteq> None \<longrightarrow> schema_at (Schema g) u \<noteq> None)
     \<and> (\<forall>q. q \<notin> load_files (in_dir e (LoadFile g)) \<longrightarrow> file_at q u = file_at q s \<or> q = in_dir e (File g) \<and> file_at q u = Some (shadow_of e (Schema g)))"

definition served :: "genv \<Rightarrow> Guide \<Rightarrow> gworld \<Rightarrow> bool" where
  "served e g u \<longleftrightarrow> schema_at (Schema g) u \<noteq> None \<and> file_at (in_dir e (File g)) u = Some (shadow_of e (Schema g))"

definition so_far :: "genv \<Rightarrow> Guide \<Rightarrow> gworld \<Rightarrow> gworld \<Rightarrow> bool" where
  "so_far e g s u \<longleftrightarrow> (\<forall>n. n \<notin> {Schema g, Staging g, Replaced g} \<longrightarrow> schema_at n u = schema_at n s)
     \<and> (schema_at (Schema g) s \<noteq> None \<longrightarrow> schema_at (Schema g) u \<noteq> None) \<and> (\<forall>q. q \<notin> load_files (in_dir e (LoadFile g)) \<longrightarrow> file_at q u = file_at q s)"

lemma so_far_turn: "so_far e g s u \<Longrightarrow> turn e g s u"
  by (simp add: so_far_def turn_def)

lemma so_far_mild: "so_far e g s u \<Longrightarrow> mild g u v \<Longrightarrow> so_far e g s v"
  by (simp add: so_far_def mild_def far_def)

lemma prepare_imports: "wp (errs (ImportGuide e g p)) (\<lambda>_. so_far e g s) (\<lambda>_. so_far e g s) s"
  unfolding wp_errs by (rule wp_mono [OF wp_ImportGuide]) (simp_all add: so_far_def mild_def far_def)

lemma prepare_clears: "so_far e g s u \<Longrightarrow> wp (errs (removeLoadFile e (in_dir e (LoadFile g)))) (\<lambda>_. so_far e g s) (\<lambda>_. so_far e g s) u"
  unfolding wp_errs by (rule wp_mono [OF wp_removeLoadFile]) (simp_all add: so_far_def)

lemma prepare_ensures: "so_far e g s u \<Longrightarrow> wp (or_else (and_then (EnsureGuideSchema e g) (\<lambda>_. ret None)) (\<lambda>m. ret (Some m)))
    (\<lambda>c v. so_far e g s v \<and> (c = None \<longrightarrow> schema_at (Schema g) v \<noteq> None)) (\<lambda>_. so_far e g s) u"
  unfolding wp_or_else wp_and_then wp_ret_fun by (rule wp_mono [OF wp_Ensure]) (simp_all add: so_far_mild)

lemma prepare_shadows: "so_far e g s u \<Longrightarrow> schema_at (Schema g) u \<noteq> None \<Longrightarrow>
    wp (errs (BuildShadow e (in_dir e (File g)) (Schema g))) (\<lambda>d v. turn e g s v \<and> (d = [] \<longrightarrow> served e g v)) (\<lambda>_. turn e g s) u"
  by (simp add: wp_errs BuildShadow_def so_far_def turn_def served_def split: option.split)

lemma wp_prepare_one: "wp (prepare_one e g) (\<lambda>a u. turn e g s u \<and> (a = [] \<longrightarrow> served e g u)) (\<lambda>_. turn e g s) s"
proof -
  have rest: "wp (case c of Some m \<Rightarrow> ret (a @ b @ [m]) | None \<Rightarrow> and_then (errs (BuildShadow e (in_dir e (File g)) (Schema g))) (\<lambda>d. ret (a @ b @ d)))
      (\<lambda>x u. turn e g s u \<and> (x = [] \<longrightarrow> served e g u)) (\<lambda>_. turn e g s) u"
    if u: "so_far e g s u \<and> (c = None \<longrightarrow> schema_at (Schema g) u \<noteq> None)" for a b c u
  proof (cases c)
    case None
    then have "schema_at (Schema g) u \<noteq> None" using u by simp
    from wp_mono [OF prepare_shadows [OF conjunct1 [OF u] this], of "\<lambda>d v. turn e g s v \<and> (a @ b @ d = [] \<longrightarrow> served e g v)"]
    show ?thesis unfolding None option.case wp_and_then wp_ret_fun by simp
  qed (use u so_far_turn in simp)
  have ensured: "wp (or_else (and_then (EnsureGuideSchema e g) (\<lambda>_. ret None)) (\<lambda>m. ret (Some m)))
        (\<lambda>c. wp (case c of Some m \<Rightarrow> ret (a @ b @ [m]) | None \<Rightarrow> and_then (errs (BuildShadow e (in_dir e (File g)) (Schema g))) (\<lambda>d. ret (a @ b @ d)))
           (\<lambda>x u. turn e g s u \<and> (x = [] \<longrightarrow> served e g u)) (\<lambda>_. turn e g s)) (\<lambda>_. turn e g s) u" if "so_far e g s u" for a b u
    by (rule wp_mono [OF prepare_ensures [OF that]], erule rest, erule so_far_turn)
  have cleared: "wp (errs (removeLoadFile e (in_dir e (LoadFile g)))) (\<lambda>b. wp (or_else (and_then (EnsureGuideSchema e g) (\<lambda>_. ret None)) (\<lambda>m. ret (Some m)))
        (\<lambda>c. wp (case c of Some m \<Rightarrow> ret (a @ b @ [m]) | None \<Rightarrow> and_then (errs (BuildShadow e (in_dir e (File g)) (Schema g))) (\<lambda>d. ret (a @ b @ d)))
           (\<lambda>x u. turn e g s u \<and> (x = [] \<longrightarrow> served e g u)) (\<lambda>_. turn e g s)) (\<lambda>_. turn e g s)) (\<lambda>_. turn e g s) u" if "so_far e g s u" for a u
    by (rule wp_mono [OF prepare_clears [OF that]], erule ensured, erule so_far_turn)
  show ?thesis unfolding prepare_one_def Let_def wp_and_then [of "errs (ImportGuide e g (in_dir e (File g)))"] wp_and_then [of "errs (removeLoadFile e (in_dir e (LoadFile g)))"]
      wp_and_then [of "or_else (and_then (EnsureGuideSchema e g) (\<lambda>_. ret None)) (\<lambda>m. ret (Some m))"]
    by (rule wp_mono [OF prepare_imports], erule cleared, erule so_far_turn)
qed

lemma File_read: "Valid g \<Longrightarrow> GuideForFile (File g) = Some g"
  using File_stem [of g] by (simp add: Valid_def)

lemma File_inject: "Valid g \<Longrightarrow> Valid h \<Longrightarrow> File g = File h \<Longrightarrow> g = h"
  by (metis File_read option.inject)

lemma not_a_load: "Valid g \<Longrightarrow> in_dir e (File g) \<notin> load_files (in_dir e (LoadFile h))"
proof
  assume v: "Valid g" and "in_dir e (File g) \<in> load_files (in_dir e (LoadFile h))"
  then have "File g \<in> load_files (LoadFile h)" by (auto simp: load_files_def in_dir_def)
  moreover have "last (File g) = CHR ''b''" by (simp add: File_def)
  ultimately have "File g = LoadFile h" by (auto simp: load_files_def)
  then show False using File_read [OF v] load_is_no_guide [of h] by simp
qed

lemma served_after:
  assumes "Valid g" "Valid h" "served e g s" "turn e h s u"
  shows "served e g u"
proof -
  have n: "Schema g \<noteq> Staging h" "Schema g \<noteq> Replaced h" using other_names assms by blast+
  have "schema_at (Schema g) u \<noteq> None" using assms(3,4) n by (cases "Schema g = Schema h") (auto simp: turn_def served_def)
  moreover have "in_dir e (File g) = in_dir e (File h) \<Longrightarrow> g = h" using File_inject [OF assms(1,2)] by (simp add: in_dir_def)
  then have "file_at (in_dir e (File g)) u = Some (shadow_of e (Schema g))"
    using assms(3,4) not_a_load [OF assms(1), of e h] by (auto simp: turn_def served_def)
  ultimately show ?thesis by (simp add: served_def)
qed

text \<open>A fact each element that reports nothing establishes and none destroys holds of all of them at the end.\<close>

lemma wp_gather_all:
  assumes "\<And>x y t. x \<in> set xs \<union> S \<Longrightarrow> y \<in> set xs \<Longrightarrow> D x t \<Longrightarrow> wp (f y) (\<lambda>_. D x) (\<lambda>_ _. True) t"
    and "\<And>x t. x \<in> set xs \<Longrightarrow> wp (f x) (\<lambda>a u. a = [] \<longrightarrow> D x u) (\<lambda>_ _. True) t" and "\<forall>x \<in> S. D x s"
  shows "wp (gather f xs) (\<lambda>a u. a = [] \<longrightarrow> (\<forall>x \<in> set xs \<union> S. D x u)) (\<lambda>_ _. True) s"
  using assms
proof (induction xs arbitrary: s S)
  case (Cons x xs)
  have keep: "wp (f x) (\<lambda>a u. \<forall>y \<in> S. D y u) (\<lambda>_ _. True) s"
    using Cons.prems(1) [of _ x s] Cons.prems(3) by (auto simp: wp_def split: sum.splits prod.splits)
  have ih: "wp (gather f xs) (\<lambda>b u. a @ b = [] \<longrightarrow> (\<forall>y \<in> set (x # xs) \<union> S. D y u)) (\<lambda>_ _. True) t"
    if t: "(\<forall>y \<in> S. D y t) \<and> (a = [] \<longrightarrow> D x t)" for t a
  proof (cases "a = []")
    case True
    have "wp (gather f xs) (\<lambda>b u. b = [] \<longrightarrow> (\<forall>y \<in> set xs \<union> insert x S. D y u)) (\<lambda>_ _. True) t"
      using Cons.prems(1,2) t True by (intro Cons.IH) auto
    then show ?thesis using True by simp
  qed (simp add: wp_def split: sum.split prod.split)
  show ?case unfolding gather.simps wp_and_then wp_ret_fun
    by (rule wp_mono [OF wp_and [OF keep Cons.prems(2) [of x s]]]) (simp, erule ih, simp_all)
qed simp

lemma wp_sweep_one: "wp (sweep_one e live n) (\<lambda>a u. (\<forall>m. keeps_schema live m \<longrightarrow> schema_at m u = schema_at m s) \<and> (\<forall>m. schema_at m s = None \<longrightarrow> schema_at m u = None)
     \<and> (\<forall>p. file_at p u = file_at p s) \<and> (a = [] \<longrightarrow> keeps_schema live n \<or> schema_at n u = None)) (\<lambda>_ _. False) s"
  by (simp add: sweep_one_def dropSchema_def wp_ret_fun split: option.split)

definition keeps :: "genv \<Rightarrow> Guide list \<Rightarrow> gworld \<Rightarrow> gworld \<Rightarrow> bool" where
  "keeps e gs s u \<longleftrightarrow> (\<forall>n. \<not> prefix ''epg_'' n \<longrightarrow> schema_at n u = schema_at n s) \<and> (\<forall>g \<in> set gs. schema_at (Schema g) s \<noteq> None \<longrightarrow> schema_at (Schema g) u \<noteq> None)"

lemma keeping_refl: "keeps e gs s s"
  by (simp add: keeps_def)

lemma keeping_trans: "keeps e gs s t \<Longrightarrow> keeps e gs t u \<Longrightarrow> keeps e gs s u"
  by (simp add: keeps_def)

lemma keeps_alike: "alike s u \<Longrightarrow> keeps e gs s u"
  by (simp add: keeps_def alike_def)

lemma keeps_turn:
  assumes "list_all Valid gs" "h \<in> set gs" "turn e h s u"
  shows "keeps e gs s u"
proof -
  have "schema_at (Schema g) u \<noteq> None" if "g \<in> set gs" "schema_at (Schema g) s \<noteq> None" for g
    using that assms other_names [of g h] by (cases "Schema g = Schema h") (auto simp: turn_def list_all_iff)
  moreover have "schema_at n u = schema_at n s" if "\<not> prefix ''epg_'' n" for n
  proof -
    have "n \<notin> {Schema h, Staging h, Replaced h}" using that epg_schema [of h] by auto
    then show ?thesis using assms(3) by (simp add: turn_def)
  qed
  ultimately show ?thesis by (simp add: keeps_def)
qed

lemma kept_schema: "list_all Valid gs \<Longrightarrow> g \<in> set gs \<Longrightarrow> keeps_schema (map Schema gs) (Schema g)"
proof -
  assume "list_all Valid gs" and g: "g \<in> set gs"
  then have "length (Schema g) = 36" "\<exists>h. Schema g = ''epg_'' @ h \<and> CHR ''_'' \<notin> set h" using Schema_length Schema_hex by (fastforce simp: list_all_iff)+
  then obtain h where h: "Schema g = ''epg_'' @ h" "CHR ''_'' \<notin> set h" "length h = 32" by auto
  have "\<not> suffix ''_old'' (Schema g)" "\<not> suffix ''_next'' (Schema g)"
    using h by (auto simp: suffix_def append_eq_append_conv2 Cons_eq_append_conv append_eq_Cons_conv)
  then show ?thesis using g by (simp add: keeps_schema_def)
qed

lemma keeps_sweep_one:
  assumes "list_all Valid gs" "prefix ''epg_'' n"
  shows "wp (sweep_one e (map Schema gs) n) (\<lambda>_. keeps e gs s) (\<lambda>_. keeps e gs s) s"
proof -
  have "n \<noteq> Schema g" if "g \<in> set gs" "\<not> keeps_schema (map Schema gs) n" for g
    using that kept_schema [OF assms(1)] by blast
  then show ?thesis using assms(2) by (auto simp: sweep_one_def wp_ret_fun dropSchema_def keeps_def split: option.split)
qed

lemma wp_top: "wp m (\<lambda>_ _. True) (\<lambda>_ _. True) s"
  by (simp add: wp_def split: sum.split prod.split)

lemma wp_keeping_gather:
  assumes "\<And>x t. x \<in> set xs \<Longrightarrow> wp (f x) (\<lambda>_. keeps e gs t) (\<lambda>_. keeps e gs t) t" and "keeps e gs s u"
  shows "wp (gather f xs) (\<lambda>_. keeps e gs s) (\<lambda>_. keeps e gs s) u"
proof (rule wp_gather [where I = "keeps e gs s"], goal_cases)
  case 2
  show ?case by (rule assms(2))
next
  case (1 x t)
  then show ?case by (intro wp_mono [OF assms(1)]) (auto intro: keeping_trans)
qed



text \<open>
  C10. And a start that reports no error leaves every listed guide served: its schema is in PostgreSQL, the file PMS opens is the
  shadow of that schema, and no staging schema or replaced guide of it is left.
\<close>

theorem start_serves_guides:
  assumes "PrepareGuides e s = (Inr [], t)" and "g \<in> set (listed e)" and "Valid g"
  shows "served e g t \<and> schema_at (Staging g) t = None \<and> schema_at (Replaced g) t = None"
proof -
  let ?gs = "filter Valid (listed e)"
  let ?S = "\<lambda>u. \<forall>h \<in> set ?gs. served e h u"
  let ?D = "\<lambda>n u. keeps_schema (map Schema ?gs) n \<or> schema_at n u = None"
  have v: "list_all Valid ?gs" by (simp add: list_all_iff)
  have turns: "wp (gather (prepare_one e) ?gs) (\<lambda>a u. a = [] \<longrightarrow> ?S u) (\<lambda>_ _. True) u" for u
  proof -
    have 1: "wp (prepare_one e h) (\<lambda>_. served e x) (\<lambda>_ _. True) w" if "x \<in> set ?gs \<union> {}" "h \<in> set ?gs" "served e x w" for x h w
      by (rule wp_mono [OF wp_prepare_one]) (use that served_after [of x h e w] in auto)
    have 2: "wp (prepare_one e h) (\<lambda>a u. a = [] \<longrightarrow> served e h u) (\<lambda>_ _. True) w" if "h \<in> set ?gs" for h w
      by (rule wp_mono [OF wp_prepare_one]) simp_all
    show ?thesis using wp_gather_all [of ?gs "{}" "served e" "prepare_one e" u, OF 1 2] by simp
  qed
  have swept: "wp (gather (sweep_one e (map Schema ?gs)) xs) (\<lambda>a w. a = [] \<longrightarrow> (\<forall>n \<in> set xs \<union> {n. schema_at n u = None}. ?D n w)) (\<lambda>_ _. True) u" for xs u
    by (rule wp_gather_all; (rule wp_mono [OF wp_sweep_one])?) auto
  have kept: "wp (gather (sweep_one e (map Schema ?gs)) xs) (\<lambda>_. ?S) (\<lambda>_. ?S) u" if "?S u" for xs u
  proof (rule wp_gather [where I = ?S, OF _ that], rule wp_mono [OF wp_sweep_one])
    fix n a x y assume s: "?S x" and k: "(\<forall>m. keeps_schema (map Schema ?gs) m \<longrightarrow> schema_at m y = schema_at m x)
      \<and> (\<forall>m. schema_at m x = None \<longrightarrow> schema_at m y = None) \<and> (\<forall>p. file_at p y = file_at p x) \<and> (a = [] \<longrightarrow> keeps_schema (map Schema ?gs) n \<or> schema_at n y = None)"
    then show "?S y" using kept_schema [OF v] by (simp add: served_def)
  qed simp
  have sweep: "wp (SweepGuides e ?gs) (\<lambda>b w. b = [] \<longrightarrow> ?S w \<and> (\<forall>n. prefix ''epg_'' n \<longrightarrow> ?D n w)) (\<lambda>_ _. True) u" if "?S u" for u
  proof -
    have S: "?S w" if "alike u w" for w using \<open>?S u\<close> that by (simp add: served_def alikeD)
    have known: "n \<in> set (sort (filter (prefix ''epg_'') (map fst (gw_db w)))) \<union> {n. schema_at n w = None}" if "prefix ''epg_'' n" for n w
      using that by (simp add: schema_at_def map_of_eq_None_iff)
    have conv: "a = [] \<longrightarrow> ?S t \<and> (\<forall>n. prefix ''epg_'' n \<longrightarrow> ?D n t)"
      if c: "(a = [] \<longrightarrow> (\<forall>n \<in> set (sort (filter (prefix ''epg_'') (map fst (gw_db w)))) \<union> {n. schema_at n w = None}. ?D n t)) \<and> ?S t" for a :: "string list" and w t
    proof (intro impI conjI allI)
      show "?S t" by (rule conjunct2 [OF c])
      fix n assume "a = []" and n: "prefix ''epg_'' n"
      from bspec [OF mp [OF conjunct1 [OF c] this(1)] known [OF n]] show "?D n t" .
    qed
    show ?thesis unfolding SweepGuides_def wp_and_then
      by (rule wp_observe, rule wp_mono [OF wp_and [OF swept kept [OF S]]], assumption, erule conv, rule TrueI, rule TrueI)
  qed
  have all: "wp (and_then (gather (prepare_one e) ?gs) (\<lambda>a. and_then (SweepGuides e ?gs) (\<lambda>b. ret (x @ a @ b))))
      (\<lambda>a u. a = [] \<longrightarrow> ?S u \<and> (\<forall>n. prefix ''epg_'' n \<longrightarrow> ?D n u)) (\<lambda>_ _. True) u" for x u
    unfolding wp_and_then wp_ret_fun
  proof (rule wp_mono [OF turns])
    fix a :: "string list" and w
    assume "a = [] \<longrightarrow> ?S w"
    then show "wp (SweepGuides e ?gs) (\<lambda>b t. x @ a @ b = [] \<longrightarrow> ?S t \<and> (\<forall>n. prefix ''epg_'' n \<longrightarrow> ?D n t)) (\<lambda>_ _. True) w"
      using sweep [of w] by (cases "a = []") (auto simp: wp_def split: sum.splits prod.splits)
  qed simp
  have "wp (PrepareGuides e) (\<lambda>a u. a = [] \<longrightarrow> ?S u \<and> (\<forall>n. prefix ''epg_'' n \<longrightarrow> ?D n u)) (\<lambda>_ _. True) s"
    unfolding PrepareGuides_def ListGuides_def wp_and_then [of "lock e"] wp_and_then [of "call e f" for f] wp_and_then [of "errs m" for m]
    by (rule wp_lock, rule wp_observe, rule wp_lock, rule wp_mono [OF wp_top], rule all) (rule TrueI)+
  from wp_result [OF this assms(1)] have t: "?S t" "\<forall>n. prefix ''epg_'' n \<longrightarrow> ?D n t" by simp_all
  have "\<not> keeps_schema (map Schema ?gs) (Staging g)" "\<not> keeps_schema (map Schema ?gs) (Replaced g)"
    using suffixI [of "Staging g" "Schema g" "''_next''"] suffixI [of "Replaced g" "Schema g" "''_old''"]
    by (simp_all add: keeps_schema_def Staging_def Replaced_def)
  then have "schema_at (Staging g) t = None" "schema_at (Replaced g) t = None" using t(2) epg_schema(2,3) [of g] by blast+
  then show ?thesis using t(1) assms(2,3) by simp
qed

lemma start_serves_guides_witness:
  "served e0 g0 (snd (PrepareGuides e0 w0)) \<and> schema_at (Staging g0) (snd (PrepareGuides e0 w0)) = None"
  using start_serves_guides [of e0 w0 "snd (PrepareGuides e0 w0)" g0] prepared0 by (simp add: prod_eq_iff)

section \<open>A request\<close>

definition confined :: "Guide \<Rightarrow> string \<Rightarrow> gworld \<Rightarrow> gworld \<Rightarrow> bool" where
  "confined g p s u \<longleftrightarrow> (\<forall>n. n \<notin> {Schema g, Staging g, Replaced g} \<longrightarrow> schema_at n u = schema_at n s) \<and> (\<forall>q. q \<notin> load_files p \<longrightarrow> file_at q u = file_at q s)"

lemma confined_alike: "alike s u \<Longrightarrow> confined g p s u"
  by (simp add: confined_def alike_def)

lemma confined_apart: "confined g p s t \<Longrightarrow> apart (Staging g) t u \<Longrightarrow> confined g p s u"
  by (simp add: confined_def apart_def)

lemma confined_further: "confined g p s t \<Longrightarrow> alike t u \<Longrightarrow> confined g p s u" "confined g p s t \<Longrightarrow> far g t u \<Longrightarrow> confined g p s u"
  by (simp_all add: confined_def alike_def far_def)

lemma hook_simps [simp]: "schema_at n (hook_file p x s) = schema_at n s" "file_at q (hook_file p x s) = file_at q s"
  by (simp_all add: hook_file_def schema_at_def file_at_def)

lemma confined_hook: "confined g p s t \<Longrightarrow> confined g p s (hook_file q x t)"
  by (simp add: confined_def)

lemma alike_refl: "alike s s"
  by (simp add: alike_def)

lemma confined_reads: "(\<And>u. wp m (\<lambda>_. alike u) (\<lambda>_. alike u) u) \<Longrightarrow> preserves (confined g p s) m"
  by (rule preservesI, rule wp_mono, assumption) (erule (1) confined_further(1))+

lemma confined_calls:
  "preserves (confined g p s) (lock e)" "preserves (confined g p s) (stagingState e g)" "preserves (confined g p s) (IsShadow e q)"
  "preserves (confined g p s) (fileInode e q)" "preserves (confined g p s) (statGuideFile e q)"
  by (rule confined_reads, simp add: guide_calls statGuideFile_def split: option.split)+

lemma confined_steps:
  "preserves (confined g p s) (dropSchema e (Staging g))" "preserves (confined g p s) (CloneSchema e (Staging g))"
  "preserves (confined g p s) (commentSchema e (Staging g) c)" "preserves (confined g p s) (now_ns e)" "preserves (confined g p s) (modify (hook_file q x))"
  by (auto intro!: preservesI wp_drop wp_clone wp_comment wp_now intro: confined_further confined_apart simp: confined_hook)

lemma confined_write: "preserves (confined g p s) (WriteShadowFrom e template p)"
  by (rule preservesI) (simp add: WriteShadowFrom_def remove_if_there_def copy_over_def confined_def load_files_def split: option.split)

lemma confined_loads: "preserves (confined g p s) (SwapLoaded e g)" "preserves (confined g p s) (ImportGuide e g q)"
  by (rule preservesI, rule wp_SwapLoaded; erule (1) confined_further(2))
    (rule preservesI, rule wp_mono [OF wp_ImportGuide]; simp add: mild_def confined_further(2))

lemmas confined_intros = preserves_intros confined_calls confined_steps confined_write confined_loads

lemma confined_ignore: "preserves I m \<Longrightarrow> preserves I (ignore m)"
  unfolding ignore_def by (intro preserves_intros)

lemma confined_StageLoad: "preserves (confined g p s) (StageLoad e g p template)"
  unfolding StageLoad_def cloneStaging_def Let_def by (intro confined_intros confined_ignore)

lemma wp_answered: "preserves I m \<Longrightarrow> I s \<Longrightarrow> wp (answered m) (\<lambda>_. I) (\<lambda>_ _. False) s"
  by (simp add: answered_def wp_ret_fun preservesD)

lemma wp_stageLoad: "wp (stageLoad e g p) (\<lambda>_. confined g p s) (\<lambda>_ _. False) s"
proof -
  have template: "preserves (confined g p s) (call e (\<lambda>s. if file_at (ShadowTemplate e) s = None then Inl m else Inr ((), s)))" for m
    by (rule confined_reads) (simp split: option.split)
  show ?thesis unfolding stageLoad_def connectGuides_def
    by (intro wp_answered confined_intros template confined_StageLoad confined_alike alike_refl)
qed

lemma wp_swapLoad: "wp (swapLoad e g p) (\<lambda>_. confined g p s) (\<lambda>_ _. False) s"
  unfolding swapLoad_def connectGuides_def Let_def by (intro wp_answered confined_intros confined_alike alike_refl)

text \<open>
  C18. A request of the shim is answered, whatever fails, and reaches no further than the guide its file names: unless the path is a
  load file of a valid guide in the Databases directory nothing changes, and otherwise only the guide's own three schemas and
  that load file, its write-ahead log and journal included, may.
\<close>

theorem request_is_confined:
  assumes "handleGuideRequest e line s = (r, t)"
  shows "\<exists>a. r = Inr a \<and> (t = s \<or> (\<exists>g p. GuideForLoadFile (file_part p) = Some g \<and> Dir p = Clean (directory e) \<and> confined g p s t))"
proof -
  have c: "\<exists>a. r = Inr a \<and> confined g p s t" if "wp m (\<lambda>_. confined g p s) (\<lambda>_ _. False) s" "m s = (r, t)" for m :: "string guide_op" and g p
    using that by (cases r) (auto simp: wp_def)
  obtain verb arg found where l: "cut_at (CHR '' '') line = (verb, arg, found)" by (metis prod_cases3)
  let ?p = "Clean arg"
  show ?thesis
  proof (cases "verb \<noteq> ''swap'' \<and> verb \<noteq> ''stage'' \<or> arg = [] \<or> Dir ?p \<noteq> Clean (directory e) \<or> GuideForLoadFile (file_part ?p) = None")
    case True
    then show ?thesis using assms by (auto simp: handleGuideRequest_def l Let_def ret_def split: if_splits)
  next
    case False
    then obtain g where g: "GuideForLoadFile (file_part ?p) = Some g" by blast
    then have "handleGuideRequest e line = (if verb = ''stage'' then stageLoad e g ?p else swapLoad e g ?p)"
      using False by (auto simp: handleGuideRequest_def l Let_def)
    then have "\<exists>a. r = Inr a \<and> confined g ?p s t" using c [OF wp_stageLoad [of e g ?p s]] c [OF wp_swapLoad [of e g ?p s]] assms by (cases "verb = ''stage''") auto
    then show ?thesis using g False by blast
  qed
qed

lemma request_is_confined_witness:
  "\<exists>a t. handleGuideRequest e0 (''stage '' @ p0) w0 = (Inr a, t)
    \<and> (t = w0 \<or> (\<exists>g p. GuideForLoadFile (file_part p) = Some g \<and> Dir p = Clean (directory e0) \<and> confined g p w0 t))"
  using request_is_confined [of e0 "''stage '' @ p0" w0, OF prod.collapse [symmetric]] by (metis prod.collapse)

end
