(* ===== verification/Spec2Isabelle.thy ===== *)
theory Spec2Isabelle
  imports Hash_Ring Kube_Lease Plex_Election Video_Lease Plex_Route Fanout_Serving
    Video_Worker Video_Segments Exec_Dispatch Fmp4_Splitter Remux_Worker Watch_Scheduler
    Video_Parse_Sound Remux_Parse Plex_Session Remux_Relay Video_Relay Video_Live LiveTV_Owner LiveTV_Grabs
    Seed_Facts Library_Trash Library_Seed_Facts Library_Sidecars Library_Converge Guide_Start
begin

text \<open>
  \<^bold>\<open>Verification of clusterplex\<close>

  Clusterplex runs several Plex Media Servers over one library in a Kubernetes cluster. A manager beside each Plex
  (\<open>src/cmd/manager\<close>) competes for a Lease that names the one pod connected to plex.tv, publishes its Plex to the
  routing tier, spreads maintenance over the pods, takes Plex's helper jobs over through a shim, and keeps a count of
  running conversions. Video conversions run on a pool of GPU workers (\<open>src/pkg/video\<close>), browser remuxes on a second pool
  with a segment cache (\<open>src/pkg/remux\<close>); a watcher follows a media manager and asks Plex for scans
  (\<open>src/pkg/clustarrwatch\<close>).

  \<^bold>\<open>The theories.\<close> Each models one component as the code has it: structs as records, operations as executable functions,
  every early return a branch, errors as values, interleavings as sequences of steps. Code outside the repository (the
  Kubernetes API, DNS, the firewall, Plex, FFmpeg, gRPC, the disk's faults) is a parameter; what is relied on of it is a
  named predicate (\<open>lease_server\<close>, \<open>lease_env\<close>, \<open>json_law\<close>, \<open>each_runs\<close>, \<open>sorts_by_use\<close>), which the witnesses instantiate.

  \<^item> \<open>Go_Prelude\<close>: time and durations in nanoseconds, Go's division, conversions to 32 and 64 bits, decimal numbers, the
    string functions used, binary search; lemmas on them and on association lists.
  \<^item> \<open>Hash_Ring\<close> (\<open>pkg/hashring\<close>): the ring of CRC-32 points. The locale \<open>consistent_hash\<close> states what its clients rely
    on and is interpreted on the ring; losing a member moves only its keys.
  \<^item> \<open>Kube_Lease\<close> (\<open>pkg/lease\<close>): the elector over an API server with optimistic concurrency. \<open>elect_step\<close> interleaves any
    number of pods' reads and writes; the stored holder changes only by release or expiry.
  \<^item> \<open>Plex_Election\<close> (\<open>cmd/manager/elect.go\<close>, \<open>pkg/plex/net/egress.go\<close>): the lease loop, the egress guard, the health watch.
  \<^item> \<open>Video_Lease\<close> (\<open>pkg/video/lease\<close>): the count of running conversions that all managers share in one Lease.
  \<^item> \<open>Plex_Route\<close> (\<open>pkg/plex/route\<close>): the advertisement, the tracker and its waiters, the serving pods, the health checks.
  \<^item> \<open>Maintenance_Fanout\<close> (\<open>pkg/maintenance\<close>, \<open>pkg/plex/prefs/butler.go\<close>, \<open>cmd/manager/maintenance.go\<close>): the tasks, the plan
    over the ring, the concurrent dispatch, the endpoint; proved from \<open>consistent_hash\<close>.
  \<^item> \<open>Video_Job\<close>, \<open>Remux_Job\<close> (\<open>pkg/video/job.go\<close>, \<open>wire.go\<close>, \<open>pkg/remux/job.go\<close>, \<open>wire.go\<close>, \<open>segment.go\<close>): jobs and their
    messages: round trips, and that no secret is sent.
  \<^item> \<open>Video_Worker\<close> (\<open>pkg/video/worker\<close>): the slots and the server, as a machine over events: conversions asked for, streams
    ending, calls returning late or abandoned; and the streamed inputs.
  \<^item> \<open>Video_Segments\<close> (\<open>pkg/video/segment.go\<close>, \<open>pkg/video/pipeline/cut.go\<close>, \<open>pkg/video/relay\<close>): keyframe grid, cutter, list.
  \<^item> \<open>Exec_Dispatch\<close> (\<open>pkg/remoteexec\<close>, \<open>pkg/video/classify.go\<close>): where a helper job runs.
  \<^item> \<open>Fmp4_Splitter\<close>, \<open>Remux_Manifest\<close> (\<open>pkg/remux/fmp4.go\<close>, \<open>mpd.go\<close>): the box splitter and the segment timeline.
  \<^item> \<open>Remux_Cache\<close>, \<open>Remux_Worker\<close> (\<open>pkg/remux/cache\<close>, \<open>pkg/remux/worker\<close>): the cache under disk faults and restarts, its
    eviction, and the worker that serves from it. The locale \<open>segment_store\<close> is the cache's contract, interpreted on an
    entry; the replay property rests on it.
  \<^item> \<open>Watch_Scheduler\<close> (\<open>pkg/clustarrwatch/scheduler.go\<close>): the queues of scans and refreshes.

  \<^bold>\<open>Bounds and loops.\<close> Loops are structural or have a measure (\<open>drain\<close>, \<open>pump\<close>, \<open>timeline_rows\<close>, the binary search); the
  one that need not end for an arbitrary reader, \<open>chain\<close>, is a partial function, and its theorem proves that it returns. No
  fuel is used. Counters that wrap are 64-bit words (slots, round robin); theorems that need them not to wrap say so.
  Times and media timestamps are integers, wrapped to 64 bits where the code converts or multiplies them.

  \<^bold>\<open>Not modelled.\<close> The media pipelines (FFmpeg through ffgo), HTTP and gRPC transport, the database bootstrap and
  projection into Plex's library, Live TV, provisioning, the TCP proxy, telemetry and configuration. Planned next: the argument
  parser and filters (\<open>pkg/video/parse.go\<close>, \<open>filter.go\<close>), the projection (\<open>pkg/plexproject\<close>), the media proxy and scan routes
  (\<open>pkg/mediaproxy\<close>, \<open>pkg/plexscan\<close>), the activity monitor and Live TV's convergence.
\<close>

end
